(* ===== verification/Prelude.thy ===== *)
theory Prelude
  imports Main "HOL-Library.Word"
begin

section \<open>Shared vocabulary\<close>

text \<open>
  Types, Go library routines and list lemmas that every component theory uses.

  Go's \<^verbatim>\<open>byte\<close> is an 8-bit word. A Go string is a sequence of bytes and is
  modelled as a \<open>string\<close> (a \<open>char list\<close>); \<^verbatim>\<open>strings.ToLower\<close>,
  \<^verbatim>\<open>strings.ToUpper\<close> and \<^verbatim>\<open>strings.TrimSpace\<close> are modelled on the ASCII
  range, which is where every name, host and prompt this program compares lives.
  A fallible operation returns \<open>'e + 'a\<close> with \<open>Inl\<close> for the error.
\<close>

type_synonym byte = "8 word"
type_synonym ('e, 'a) result = "'e + 'a"

named_theorems wire_simps \<open>unfolding of protocol constants and one-line helpers\<close>
named_theorems frame_simps \<open>what an operation leaves alone\<close>

subsection \<open>Results\<close>

fun is_ok :: "('e, 'a) result \<Rightarrow> bool" where
  "is_ok (Inl _) = False"
| "is_ok (Inr _) = True"

lemma is_ok_iff: "is_ok r \<longleftrightarrow> (\<exists>x. r = Inr x)"
  by (cases r) auto

text \<open>Go's \<^verbatim>\<open>if err != nil { return err }\<close>, and a guard that returns an error.\<close>

definition bindr :: "('e, 'a) result \<Rightarrow> ('a \<Rightarrow> ('e, 'b) result) \<Rightarrow> ('e, 'b) result" where
  "bindr r f = (case r of Inl e \<Rightarrow> Inl e | Inr x \<Rightarrow> f x)"

definition check :: "bool \<Rightarrow> 'e \<Rightarrow> ('e, unit) result" where
  "check b e = (if b then Inr () else Inl e)"

definition wrap_err :: "('e \<Rightarrow> 'e) \<Rightarrow> ('e, 'a) result \<Rightarrow> ('e, 'a) result" where
  "wrap_err g r = (case r of Inl e \<Rightarrow> Inl (g e) | Inr x \<Rightarrow> Inr x)"

lemma bindr_simps [simp]: "bindr (Inl e) f = Inl e" "bindr (Inr x) f = f x"
  by (simp_all add: bindr_def)

lemma bindr_unit [simp]: "bindr r Inr = r"
  by (cases r) simp_all

lemma bindr_Inr_iff: "bindr r f = Inr y \<longleftrightarrow> (\<exists>x. r = Inr x \<and> f x = Inr y)"
  by (cases r) simp_all

lemma check_Inr_iff [simp]: "check b e = Inr u \<longleftrightarrow> b"
  by (simp add: check_def)

lemma wrap_err_Inr_iff [simp]: "wrap_err g r = Inr x \<longleftrightarrow> r = Inr x"
  by (cases r) (simp_all add: wrap_err_def)

lemmas result_elims = bindr_Inr_iff check_Inr_iff wrap_err_Inr_iff

subsection \<open>Lists\<close>

lemma filter_hd_split:
  "xs = y # ys \<Longrightarrow> filter P xs = (if P y then [y] else []) @ filter P ys"
  by simp

lemma sum_list_map_cong:
  "(\<And>x. x \<in> set xs \<Longrightarrow> f x = g x) \<Longrightarrow> sum_list (map f xs) = sum_list (map g xs)"
  by (metis map_cong)

lemma length_drop_le_of_excess:
  "length (drop (length xs - n) xs) \<le> n"
  by simp

lemma foldl_preserves:
  assumes "I s" and "\<And>s x. I s \<Longrightarrow> I (f s x)"
  shows "I (foldl f s xs)"
  using assms by (induction xs arbitrary: s) auto

subsection \<open>Strings, as the Go library treats them\<close>

fun has_prefix :: "string \<Rightarrow> string \<Rightarrow> bool" where
  "has_prefix s [] = True"
| "has_prefix [] (p # ps) = False"
| "has_prefix (c # s) (p # ps) = (c = p \<and> has_prefix s ps)"

lemma has_prefix_iff: "has_prefix s p \<longleftrightarrow> (\<exists>t. s = p @ t)"
  by (induction s p rule: has_prefix.induct) auto

definition has_suffix :: "string \<Rightarrow> string \<Rightarrow> bool" where
  "has_suffix s p = has_prefix (rev s) (rev p)"

fun contains_sub :: "string \<Rightarrow> string \<Rightarrow> bool" where
  "contains_sub [] p = (p = [])"
| "contains_sub (c # s) p = (has_prefix (c # s) p \<or> contains_sub s p)"

lemma contains_sub_iff: "contains_sub s p \<longleftrightarrow> (\<exists>a b. s = a @ p @ b)"
proof (induction s)
  case Nil
  then show ?case by auto
next
  case (Cons c s)
  show ?case
  proof
    assume "contains_sub (c # s) p"
    then show "\<exists>a b. c # s = a @ p @ b"
    proof (cases "has_prefix (c # s) p")
      case True
      then obtain t where "c # s = p @ t" by (auto simp: has_prefix_iff)
      then have "c # s = [] @ p @ t" by simp
      then show ?thesis by blast
    next
      case False
      with \<open>contains_sub (c # s) p\<close> Cons.IH obtain a b where "s = a @ p @ b" by auto
      then have "c # s = (c # a) @ p @ b" by simp
      then show ?thesis by blast
    qed
  next
    assume "\<exists>a b. c # s = a @ p @ b"
    then obtain a b where ab: "c # s = a @ p @ b" by blast
    show "contains_sub (c # s) p"
    proof (cases a)
      case Nil
      with ab have "has_prefix (c # s) p" by (auto simp: has_prefix_iff)
      then show ?thesis by simp
    next
      case (Cons d a')
      with ab have "s = a' @ p @ b" by simp
      with Cons.IH show ?thesis by auto
    qed
  qed
qed

text \<open>\<^verbatim>\<open>strings.ToLower\<close> and \<^verbatim>\<open>strings.ToUpper\<close>, on ASCII letters.\<close>

definition lower_char :: "char \<Rightarrow> char" where
  "lower_char c = (let n = of_char c :: nat in if 65 \<le> n \<and> n \<le> 90 then char_of (n + 32) else c)"

definition upper_char :: "char \<Rightarrow> char" where
  "upper_char c = (let n = of_char c :: nat in if 97 \<le> n \<and> n \<le> 122 then char_of (n - 32) else c)"

definition to_lower :: "string \<Rightarrow> string" where
  "to_lower s = map lower_char s"

definition to_upper :: "string \<Rightarrow> string" where
  "to_upper s = map upper_char s"

text \<open>\<^verbatim>\<open>strings.TrimSpace\<close>: tab, newline, vertical tab, form feed, return, space.\<close>

definition is_space :: "char \<Rightarrow> bool" where
  "is_space c = (let n = of_char c :: nat in (9 \<le> n \<and> n \<le> 13) \<or> n = 32)"

definition trim_space :: "string \<Rightarrow> string" where
  "trim_space s = rev (dropWhile is_space (rev (dropWhile is_space s)))"

definition trim_suffix :: "string \<Rightarrow> string \<Rightarrow> string" where
  "trim_suffix s p = (if has_suffix s p then take (length s - length p) s else s)"

definition trim_prefix :: "string \<Rightarrow> string \<Rightarrow> string" where
  "trim_prefix s p = (if has_prefix s p then drop (length p) s else s)"

text \<open>\<^verbatim>\<open>strings.Split\<close> and \<^verbatim>\<open>strings.Join\<close> with a one-character separator.\<close>

fun split_on :: "char \<Rightarrow> string \<Rightarrow> string list" where
  "split_on d [] = [[]]"
| "split_on d (c # s) =
     (if c = d then [] # split_on d s
      else (case split_on d s of [] \<Rightarrow> [[c]] | w # ws \<Rightarrow> (c # w) # ws))"

fun join_with :: "string \<Rightarrow> string list \<Rightarrow> string" where
  "join_with d [] = []"
| "join_with d [w] = w"
| "join_with d (w # v # ws) = w @ d @ join_with d (v # ws)"

text \<open>\<^verbatim>\<open>[]byte(s)\<close>.\<close>

definition bytes_of :: "string \<Rightarrow> byte list" where
  "bytes_of s = map (\<lambda>ch. word_of_nat (of_char ch)) s"

definition text_of :: "byte list \<Rightarrow> string" where
  "text_of bs = map (\<lambda>b. char_of (unat b)) bs"

lemma bytes_of_simps [simp]: "length (bytes_of s) = length s" "bytes_of [] = []"
  by (simp_all add: bytes_of_def)

lemma byte_of_char_inj: "(word_of_nat (of_char c) :: byte) = word_of_nat (of_char d) \<longleftrightarrow> c = d"
proof
  assume "(word_of_nat (of_char c) :: byte) = word_of_nat (of_char d)"
  then have "unat (word_of_nat (of_char c) :: byte) = unat (word_of_nat (of_char d) :: byte)" by simp
  then have "(of_char c :: nat) mod 256 = of_char d mod 256" by (simp add: unat_of_nat)
  then show "c = d" by simp
qed simp

lemma unat_byte: "unat (b :: byte) < 256"
proof -
  have "unat b < 2 ^ LENGTH(8)" by (rule unsigned_less)
  then show ?thesis by simp
qed

lemma text_of_bytes_of [simp]: "text_of (bytes_of s) = s"
  by (simp add: text_of_def bytes_of_def comp_def unat_of_nat unsigned_of_nat take_bit_eq_mod)

lemma bytes_of_inj: "bytes_of s = bytes_of t \<longleftrightarrow> s = t"
  unfolding bytes_of_def by (metis (mono_tags, lifting) byte_of_char_inj injI inj_map_eq_map)

lemma trim_space_Nil [simp]: "trim_space [] = []"
  by (simp add: trim_space_def)

lemma dropWhile_rev_head:
  assumes "dropWhile P xs = xs"
  shows "dropWhile P (rev (dropWhile P (rev xs))) = rev (dropWhile P (rev xs))"
proof (cases xs)
  case Nil
  then show ?thesis by simp
next
  case (Cons y ys)
  with assms have ny: "\<not> P y" by (metis dropWhile_eq_Cons_conv)
  have "dropWhile P (rev xs) = dropWhile P (rev ys) @ [y]"
    using ny Cons by (simp add: dropWhile_append)
  then show ?thesis using ny by simp
qed

lemma trim_space_idem [simp]: "trim_space (trim_space s) = trim_space s"
  unfolding trim_space_def
  by (simp add: dropWhile_rev_head)

subsection \<open>Invariants\<close>

text \<open>What every component with a step relation owes: an invariant that each step keeps.\<close>

locale invariant_of =
  fixes step :: "'s \<Rightarrow> 's \<Rightarrow> bool" and inv :: "'s \<Rightarrow> bool"
  assumes step_inv: "step s t \<Longrightarrow> inv s \<Longrightarrow> inv t"
begin

lemma run_inv: "step\<^sup>*\<^sup>* s t \<Longrightarrow> inv s \<Longrightarrow> inv t"
  by (induction rule: rtranclp_induct) (auto intro: step_inv)

end

subsection \<open>Acyclic relations\<close>

text \<open>New edges from a point into a closed set that avoids it close no cycle.\<close>

lemma acyclic_extend:
  assumes "acyclic r" and "C \<subseteq> N" and "x \<notin> N" and closed: "\<And>a b. a \<in> N \<Longrightarrow> (a, b) \<in> r \<Longrightarrow> b \<in> N"
  shows "acyclic (r \<union> {x} \<times> C)"
proof -
  have path: "(a \<in> N \<longrightarrow> b \<in> N \<and> (a, b) \<in> r\<^sup>+) \<and> (a \<notin> N \<longrightarrow> b \<in> N \<or> (a, b) \<in> r\<^sup>+)"
    if "(a, b) \<in> (r \<union> {x} \<times> C)\<^sup>+" for a b
    using that
  proof (induction rule: trancl_induct)
    case (base y)
    then show ?case using assms(2,3) closed by auto
  next
    case (step y z)
    have "y \<in> N \<Longrightarrow> z \<in> N \<and> (y, z) \<in> r" using step.hyps(2) assms(3) closed by auto
    moreover have "y \<notin> N \<Longrightarrow> z \<in> N \<or> (y, z) \<in> r" using step.hyps(2) assms(2) by auto
    ultimately show ?case using step.IH by (meson trancl_into_trancl)
  qed
  show ?thesis
    unfolding acyclic_def using path assms(1) by (meson acyclic_def)
qed

lemma find_Some_iff_distinct:
  assumes "distinct (map k xs)"
  shows "find (\<lambda>x. k x = i) xs = Some y \<longleftrightarrow> y \<in> set xs \<and> k y = i"
  using assms by (induction xs) force+

lemma find_None_iff_key: "find (\<lambda>x. k x = i) xs = None \<longleftrightarrow> i \<notin> k ` set xs"
  by (induction xs) auto

end
