(* ===== verification/Telnet_Link.thy ===== *)
theory Telnet_Link
  imports Telnet_Options
begin

section \<open>Two ends back to back\<close>

text \<open>
  negotiate.go exists to stop one thing: two telnet stacks that answer each other forever. Here
  two ends that both run its state machine are joined by two FIFO channels of negotiation
  messages. A step delivers the head of one channel to the handler that
  \<^verbatim>\<open>Conn.negotiate\<close> selects and queues its reply, if any, on the other. Which channel
  moves next is not determined, so the step is a relation.

  The invariant says, option by option and direction by direction, which of nine situations the
  two tables and the messages in flight can be in. It gives a measure that every delivery
  decreases by exactly one, whatever the two ends opened with, and it says that when nothing is
  in flight the two ends agree.
\<close>

record link =
  endA :: options
  endB :: options
  ab :: "msg list"
  ba :: "msg list"

inductive link_step :: "link \<Rightarrow> link \<Rightarrow> bool" where
  deliver_ab: "ab l = (c, opt) # rest \<Longrightarrow> negotiate_reply (endB l) c opt = (t, r) \<Longrightarrow>
     link_step l (l\<lparr>endB := t, ab := rest, ba := ba l @ reply_msgs r\<rparr>)"
| deliver_ba: "ba l = (c, opt) # rest \<Longrightarrow> negotiate_reply (endA l) c opt = (t, r) \<Longrightarrow>
     link_step l (l\<lparr>endA := t, ba := rest, ab := ab l @ reply_msgs r\<rparr>)"

text \<open>Both ends have just opened, each with its own lists of offers and requests.\<close>

definition link_start :: "byte list \<Rightarrow> byte list \<Rightarrow> byte list \<Rightarrow> byte list \<Rightarrow> link" where
  "link_start la ra lb rb =
     (case open_with la ra newOptions of (ta, ma) \<Rightarrow>
      case open_with lb rb newOptions of (tb, mb) \<Rightarrow>
        \<lparr>endA = ta, endB = tb, ab = ma, ba = mb\<rparr>)"

inductive link_run :: "link \<Rightarrow> nat \<Rightarrow> link \<Rightarrow> bool" where
  link_run_zero: "link_run l 0 l"
| link_run_step: "link_run l n m \<Longrightarrow> link_step m k \<Longrightarrow> link_run l (Suc n) k"

subsection \<open>The invariant\<close>

definition proj :: "byte \<Rightarrow> byte \<Rightarrow> byte \<Rightarrow> msg list \<Rightarrow> byte list" where
  "proj c d opt ms = map fst (filter (\<lambda>m. snd m = opt \<and> (fst m = c \<or> fst m = d)) ms)"

lemma proj_simps [simp]:
  "proj c d opt [] = []"
  "proj c d opt (m # ms) =
     (if snd m = opt \<and> (fst m = c \<or> fst m = d) then fst m # proj c d opt ms else proj c d opt ms)"
  "proj c d opt (xs @ ys) = proj c d opt xs @ proj c d opt ys"
  by (simp_all add: proj_def)

text \<open>
  \<open>exch a b p q\<close>: the doer's state, the asker's state, what the doer has in flight
  (WILL/WONT) and what the asker has in flight (DO/DONT) about one option.
\<close>

definition exch :: "optionState \<Rightarrow> optionState \<Rightarrow> byte list \<Rightarrow> byte list \<Rightarrow> bool" where
  "exch a b p q \<longleftrightarrow>
     (p = [] \<and> q = [] \<and> a = stateNo \<and> b = stateNo)
   \<or> (p = [] \<and> q = [] \<and> a = stateYes \<and> b = stateYes)
   \<or> (p = [WILL] \<and> q = [] \<and> a = stateWantYes \<and> b = stateNo)
   \<or> (p = [] \<and> q = [DO] \<and> a = stateNo \<and> b = stateWantYes)
   \<or> (p = [WILL] \<and> q = [DO] \<and> a = stateWantYes \<and> b = stateWantYes)
   \<or> (p = [] \<and> q = [DO] \<and> a = stateWantYes \<and> b = stateYes)
   \<or> (p = [] \<and> q = [DONT] \<and> a = stateWantYes \<and> b = stateNo)
   \<or> (p = [WILL] \<and> q = [] \<and> a = stateYes \<and> b = stateWantYes)
   \<or> (p = [WONT] \<and> q = [] \<and> a = stateNo \<and> b = stateWantYes)"

definition one_way :: "options \<Rightarrow> options \<Rightarrow> msg list \<Rightarrow> msg list \<Rightarrow> byte \<Rightarrow> bool" where
  "one_way doer asker out back opt \<longleftrightarrow>
     exch (us doer opt) (him asker opt) (proj WILL WONT opt out) (proj DO DONT opt back)"

definition commands_ok :: "msg list \<Rightarrow> bool" where
  "commands_ok ms \<longleftrightarrow> (\<forall>m \<in> set ms. fst m = WILL \<or> fst m = WONT \<or> fst m = DO \<or> fst m = DONT)"

definition link_inv :: "link \<Rightarrow> bool" where
  "link_inv l \<longleftrightarrow>
     (\<forall>opt. one_way (endA l) (endB l) (ab l) (ba l) opt)
   \<and> (\<forall>opt. one_way (endB l) (endA l) (ba l) (ab l) opt)
   \<and> commands_ok (ab l) \<and> commands_ok (ba l)"

definition flip_link :: "link \<Rightarrow> link" where
  "flip_link l = \<lparr>endA = endB l, endB = endA l, ab = ba l, ba = ab l\<rparr>"

lemma flip_link_simps [simp]:
  "endA (flip_link l) = endB l" "endB (flip_link l) = endA l"
  "ab (flip_link l) = ba l" "ba (flip_link l) = ab l" "flip_link (flip_link l) = l"
  by (simp_all add: flip_link_def)

lemma link_inv_flip: "link_inv (flip_link l) \<longleftrightarrow> link_inv l"
  by (auto simp: link_inv_def)

lemma negotiate_reply_cases:
  "negotiate_reply t WILL opt = receiveWill t opt"
  "negotiate_reply t WONT opt = receiveWont t opt"
  "negotiate_reply t DO opt = receiveDo t opt"
  "negotiate_reply t DONT opt = receiveDont t opt"
  by (simp_all add: negotiate_reply_def)

text \<open>What taking one message off the head does to a situation, handler by handler.\<close>

abbreviation on_next :: "bool \<Rightarrow> optionState \<Rightarrow> optionState" where
  "on_next wanted s \<equiv> (case s of stateNo \<Rightarrow> (if wanted then stateYes else stateNo)
     | stateYes \<Rightarrow> stateYes | stateWantNo \<Rightarrow> stateNo | stateWantYes \<Rightarrow> stateYes)"

lemma exch_will: "exch a b (WILL # p) q \<Longrightarrow>
    p = [] \<and> exch a (on_next wanted b) [] (q @ (if b = stateNo then [if wanted then DO else DONT] else []))"
  by (cases a; cases b; simp add: exch_def)

lemma exch_wont: "exch a b (WONT # p) q \<Longrightarrow>
    p = [] \<and> b = stateWantYes \<and> exch a stateNo [] q"
  by (cases a; cases b; simp add: exch_def)

lemma exch_do: "exch a b p (DO # q) \<Longrightarrow>
    q = [] \<and> exch (on_next wanted a) b (p @ (if a = stateNo then [if wanted then WILL else WONT] else [])) []"
  by (cases a; cases b; simp add: exch_def)

lemma exch_dont: "exch a b p (DONT # q) \<Longrightarrow>
    q = [] \<and> a = stateWantYes \<and> exch stateNo b p []"
  by (cases a; cases b; simp add: exch_def)

text \<open>What each delivery does to the two tables, as the two interpretations give it.\<close>

lemma deliver_tables:
  "us (fst (negotiate_reply b WILL opt)) = us b"
  "us (fst (negotiate_reply b WONT opt)) = us b"
  "him (fst (negotiate_reply b DO opt)) = him b"
  "him (fst (negotiate_reply b DONT opt)) = him b"
  "him (fst (negotiate_reply b WILL opt)) = (him b)(opt := on_next (supportedRemote opt) (him b opt))"
  "him (fst (negotiate_reply b WONT opt)) = (him b)(opt := stateNo)"
  "us (fst (negotiate_reply b DO opt)) = (us b)(opt := on_next (supportedLocal opt) (us b opt))"
  "us (fst (negotiate_reply b DONT opt)) = (us b)(opt := stateNo)"
  "reply_msgs (snd (negotiate_reply b WILL opt)) =
     (if him b opt = stateNo then [(if supportedRemote opt then DO else DONT, opt)] else [])"
  "reply_msgs (snd (negotiate_reply b WONT opt)) = (if him b opt = stateYes then [(DONT, opt)] else [])"
  "reply_msgs (snd (negotiate_reply b DO opt)) =
     (if us b opt = stateNo then [(if supportedLocal opt then WILL else WONT, opt)] else [])"
  "reply_msgs (snd (negotiate_reply b DONT opt)) = (if us b opt = stateYes then [(WONT, opt)] else [])"
  by (simp_all only: negotiate_reply_cases side_simps frame_simps)

lemma deliver_keeps_ab_way:
  assumes "\<forall>opt. one_way a b ((c, opt0) # rest) back opt"
    and "c = WILL \<or> c = WONT \<or> c = DO \<or> c = DONT"
    and "negotiate_reply b c opt0 = (t, r)"
  shows "one_way a t rest (back @ reply_msgs r) opt"
proof -
  have t: "t = fst (negotiate_reply b c opt0)" and r: "r = snd (negotiate_reply b c opt0)"
    using assms(3) by simp_all
  from assms(1) have w: "one_way a b ((c, opt0) # rest) back opt" by blast
  from assms(2) show ?thesis
  proof (elim disjE)
    assume c: "c = WILL"
    show ?thesis
    proof (cases "opt0 = opt")
      case True
      with w c have "exch (us a opt) (him b opt) (WILL # proj WILL WONT opt rest) (proj DO DONT opt back)"
        by (simp add: one_way_def)
      from exch_will [OF this, of "supportedRemote opt"] True c show ?thesis
        unfolding t r one_way_def by (simp add: deliver_tables split: if_splits)
    next
      case False
      with w c show ?thesis unfolding t r one_way_def by (simp add: deliver_tables)
    qed
  next
    assume c: "c = WONT"
    with w exch_wont [of "us a opt" "him b opt" "proj WILL WONT opt rest" "proj DO DONT opt back"]
    show ?thesis unfolding t r one_way_def
      by (cases "opt0 = opt") (simp_all add: deliver_tables)
  next
    assume c: "c = DO"
    with w show ?thesis unfolding t r one_way_def by (simp add: deliver_tables)
  next
    assume c: "c = DONT"
    with w show ?thesis unfolding t r one_way_def by (simp add: deliver_tables)
  qed
qed

lemma deliver_keeps_ba_way:
  assumes "\<forall>opt. one_way b a back ((c, opt0) # rest) opt"
    and "c = WILL \<or> c = WONT \<or> c = DO \<or> c = DONT"
    and "negotiate_reply b c opt0 = (t, r)"
  shows "one_way t a (back @ reply_msgs r) rest opt"
proof -
  have t: "t = fst (negotiate_reply b c opt0)" and r: "r = snd (negotiate_reply b c opt0)"
    using assms(3) by simp_all
  from assms(1) have w: "one_way b a back ((c, opt0) # rest) opt" by blast
  from assms(2) show ?thesis
  proof (elim disjE)
    assume c: "c = WILL"
    with w show ?thesis unfolding t r one_way_def by (simp add: deliver_tables)
  next
    assume c: "c = WONT"
    with w show ?thesis unfolding t r one_way_def by (simp add: deliver_tables)
  next
    assume c: "c = DO"
    show ?thesis
    proof (cases "opt0 = opt")
      case True
      with w c have "exch (us b opt) (him a opt) (proj WILL WONT opt back) (DO # proj DO DONT opt rest)"
        by (simp add: one_way_def)
      from exch_do [OF this, of "supportedLocal opt"] True c show ?thesis
        unfolding t r one_way_def by (simp add: deliver_tables split: if_splits)
    next
      case False
      with w c show ?thesis unfolding t r one_way_def by (simp add: deliver_tables)
    qed
  next
    assume c: "c = DONT"
    with w exch_dont [of "us b opt" "him a opt" "proj WILL WONT opt back" "proj DO DONT opt rest"]
    show ?thesis unfolding t r one_way_def
      by (cases "opt0 = opt") (simp_all add: deliver_tables)
  qed
qed

lemma commands_ok_simps [simp]:
  "commands_ok []"
  "commands_ok (m # ms) \<longleftrightarrow>
     (fst m = WILL \<or> fst m = WONT \<or> fst m = DO \<or> fst m = DONT) \<and> commands_ok ms"
  "commands_ok (xs @ ys) \<longleftrightarrow> commands_ok xs \<and> commands_ok ys"
  by (auto simp: commands_ok_def)

lemma reply_commands_ok:
  assumes "negotiate_reply b c opt = (t, r)"
  shows "commands_ok (reply_msgs r)"
proof -
  have "commands_ok (reply_msgs (snd (negotiate_reply b c opt)))"
    by (auto simp: negotiate_reply_def side_simps)
  with assms show ?thesis by simp
qed

lemma link_step_inv:
  assumes "link_step l k" and "link_inv l"
  shows "link_inv k"
  using assms
proof (induction rule: link_step.induct)
  case (deliver_ab l c opt rest t r)
  then show ?case
    unfolding link_inv_def
    by (auto intro: deliver_keeps_ab_way deliver_keeps_ba_way dest: reply_commands_ok)
next
  case (deliver_ba l c opt rest t r)
  then show ?case
    unfolding link_inv_def
    by (auto intro: deliver_keeps_ab_way deliver_keeps_ba_way dest: reply_commands_ok)
qed

subsection \<open>The measure\<close>

text \<open>
  A message still to be delivered costs one delivery, and one more when it will be answered: a
  WILL or a DO that finds the other end in \<open>stateNo\<close>.
\<close>

definition weight :: "options \<Rightarrow> msg \<Rightarrow> nat" where
  "weight t m =
     (if (fst m = WILL \<and> him t (snd m) = stateNo) \<or> (fst m = DO \<and> us t (snd m) = stateNo)
      then 2 else 1)"

definition in_flight :: "link \<Rightarrow> nat" where
  "in_flight l = sum_list (map (weight (endB l)) (ab l)) + sum_list (map (weight (endA l)) (ba l))"

lemma in_flight_flip: "in_flight (flip_link l) = in_flight l"
  by (simp add: in_flight_def)

lemma in_flight_zero: "in_flight l = 0 \<longleftrightarrow> ab l = [] \<and> ba l = []"
  by (cases "ab l"; cases "ba l") (auto simp: in_flight_def weight_def)

lemma in_flight_bound: "in_flight l \<le> 2 * (length (ab l) + length (ba l))"
proof -
  have *: "sum_list (map (weight t) ms) \<le> 2 * length ms" for t ms
    by (induction ms) (auto simp: weight_def)
  show ?thesis
    using *[of "endB l" "ab l"] *[of "endA l" "ba l"] by (simp add: in_flight_def)
qed

text \<open>Nothing else in flight on that channel is about the option just delivered.\<close>

lemma rest_is_elsewhere:
  assumes "one_way a b ((c, opt) # rest) back opt" and "one_way b a back ((c, opt) # rest) opt"
  shows "c = WILL \<or> c = WONT \<Longrightarrow> proj WILL WONT opt rest = []"
    and "c = DO \<or> c = DONT \<Longrightarrow> proj DO DONT opt rest = []"
  using assms
  by (auto simp: one_way_def dest: exch_will exch_wont exch_do exch_dont)

lemma proj_Nil_iff: "proj c d opt ms = [] \<longleftrightarrow> (\<forall>m \<in> set ms. snd m = opt \<longrightarrow> fst m \<noteq> c \<and> fst m \<noteq> d)"
  by (auto simp: proj_def filter_empty_conv)

lemma weights_of_rest:
  assumes "one_way a b ((c, opt) # rest) back opt" and "one_way b a back ((c, opt) # rest) opt"
    and "c = WILL \<or> c = WONT \<or> c = DO \<or> c = DONT"
    and "negotiate_reply b c opt = (t, r)"
  shows "map (weight t) rest = map (weight b) rest"
proof -
  have t: "t = fst (negotiate_reply b c opt)" using assms(4) by simp
  have "weight t m = weight b m" if "m \<in> set rest" for m
    using assms(3)
  proof (elim disjE)
    assume "c = WILL"
    with that rest_is_elsewhere(1) [OF assms(1,2)] show ?thesis unfolding t
      by (auto simp: weight_def deliver_tables proj_Nil_iff)
  next
    assume "c = WONT"
    with that rest_is_elsewhere(1) [OF assms(1,2)] show ?thesis unfolding t
      by (auto simp: weight_def deliver_tables proj_Nil_iff)
  next
    assume "c = DO"
    with that rest_is_elsewhere(2) [OF assms(1,2)] show ?thesis unfolding t
      by (auto simp: weight_def deliver_tables proj_Nil_iff)
  next
    assume "c = DONT"
    with that rest_is_elsewhere(2) [OF assms(1,2)] show ?thesis unfolding t
      by (auto simp: weight_def deliver_tables proj_Nil_iff)
  qed
  then show ?thesis by simp
qed

text \<open>A reply goes to an end that is waiting for it, so it is not answered in turn.\<close>

lemma exch_will_waits: "exch a b (WILL # p) q \<Longrightarrow> b = stateNo \<Longrightarrow> a = stateWantYes"
  by (cases a; cases b; simp add: exch_def)

lemma exch_do_waits: "exch a b p (DO # q) \<Longrightarrow> a = stateNo \<Longrightarrow> b = stateWantYes"
  by (cases a; cases b; simp add: exch_def)

lemma delivery_weight:
  assumes "one_way a b ((c, opt) # rest) back opt" and "one_way b a back ((c, opt) # rest) opt"
    and "c = WILL \<or> c = WONT \<or> c = DO \<or> c = DONT"
    and "negotiate_reply b c opt = (t, r)"
  shows "weight b (c, opt) = Suc (sum_list (map (weight a) (reply_msgs r)))"
proof -
  have r: "r = snd (negotiate_reply b c opt)" using assms(4) by simp
  show ?thesis
    using assms(3)
  proof (elim disjE)
    assume "c = WILL"
    with assms(1) show ?thesis unfolding r one_way_def
      by (auto simp: weight_def deliver_tables dest: exch_will_waits)
  next
    assume "c = WONT"
    with assms(1) show ?thesis unfolding r one_way_def
      by (auto simp: weight_def deliver_tables dest: exch_wont)
  next
    assume "c = DO"
    with assms(2) show ?thesis unfolding r one_way_def
      by (auto simp: weight_def deliver_tables dest: exch_do_waits)
  next
    assume "c = DONT"
    with assms(2) show ?thesis unfolding r one_way_def
      by (auto simp: weight_def deliver_tables dest: exch_dont)
  qed
qed

lemma link_step_flip:
  assumes "link_step l k"
  shows "link_step (flip_link l) (flip_link k)"
  using assms
proof (induction rule: link_step.induct)
  case (deliver_ab l c opt rest t r)
  have "link_step (flip_link l) ((flip_link l)\<lparr>endA := t, ba := rest, ab := ab (flip_link l) @ reply_msgs r\<rparr>)"
    by (rule link_step.deliver_ba) (use deliver_ab in simp_all)
  then show ?case by (simp add: flip_link_def)
next
  case (deliver_ba l c opt rest t r)
  have "link_step (flip_link l) ((flip_link l)\<lparr>endB := t, ab := rest, ba := ba (flip_link l) @ reply_msgs r\<rparr>)"
    by (rule link_step.deliver_ab) (use deliver_ba in simp_all)
  then show ?case by (simp add: flip_link_def)
qed

lemma deliver_ab_measure:
  assumes "link_inv l" and "ab l = (c, opt) # rest" and "negotiate_reply (endB l) c opt = (t, r)"
  shows "in_flight l = Suc (in_flight (l\<lparr>endB := t, ab := rest, ba := ba l @ reply_msgs r\<rparr>))"
proof -
  have w: "one_way (endA l) (endB l) ((c, opt) # rest) (ba l) opt"
    "one_way (endB l) (endA l) (ba l) ((c, opt) # rest) opt"
    "c = WILL \<or> c = WONT \<or> c = DO \<or> c = DONT"
    using assms(1,2) by (auto simp: link_inv_def)
  show ?thesis
    using delivery_weight [OF w assms(3)] assms(2)
    by (simp add: in_flight_def weights_of_rest [OF w assms(3)] del: map_eq_conv)
qed

lemma link_step_measure:
  assumes "link_step l k" and "link_inv l"
  shows "in_flight l = Suc (in_flight k)"
  using assms
proof (induction rule: link_step.induct)
  case (deliver_ab l c opt rest t r)
  then show ?case by (blast intro: deliver_ab_measure)
next
  case (deliver_ba l c opt rest t r)
  have "in_flight (flip_link l) =
      Suc (in_flight ((flip_link l)\<lparr>endB := t, ab := rest, ba := ba (flip_link l) @ reply_msgs r\<rparr>))"
    by (rule deliver_ab_measure) (use deliver_ba in \<open>simp_all add: link_inv_flip\<close>)
  moreover have "(flip_link l)\<lparr>endB := t, ab := rest, ba := ba (flip_link l) @ reply_msgs r\<rparr>
      = flip_link (l\<lparr>endA := t, ba := rest, ab := ab l @ reply_msgs r\<rparr>)"
    by (simp add: flip_link_def)
  ultimately show ?case by (simp only: in_flight_flip)
qed

subsection \<open>The start satisfies the invariant\<close>

definition asked :: "byte \<Rightarrow> optionState \<Rightarrow> byte list \<Rightarrow> bool" where
  "asked c s p \<longleftrightarrow> (s = stateNo \<and> p = []) \<or> (s = stateWantYes \<and> p = [c])"

definition offers_ok :: "options \<times> msg list \<Rightarrow> bool" where
  "offers_ok p \<longleftrightarrow> (\<forall>opt. asked WILL (us (fst p) opt) (proj WILL WONT opt (snd p))
     \<and> proj DO DONT opt (snd p) = []) \<and> him (fst p) = (\<lambda>_. stateNo) \<and> commands_ok (snd p)"

definition asks_ok :: "options \<times> msg list \<Rightarrow> bool" where
  "asks_ok p \<longleftrightarrow> (\<forall>opt. asked DO (him (fst p) opt) (proj DO DONT opt (snd p))
     \<and> proj WILL WONT opt (snd p) = []) \<and> commands_ok (snd p)"

lemma opening_offers_ok: "offers_ok (opening_offers opts newOptions)"
  unfolding opening_offers_def
proof (rule foldl_preserves)
  show "offers_ok (newOptions, [])"
    by (simp add: offers_ok_def asked_def newOptions_def)
next
  fix p :: "options \<times> msg list" and opt :: byte
  assume "offers_ok p"
  then show "offers_ok ((\<lambda>(t, ms) opt.
      case offerLocal t opt of (t', r) \<Rightarrow> (t', ms @ reply_msgs r)) p opt)"
    by (cases p) (auto simp: offers_ok_def asked_def offerLocal_def)
qed

lemma opening_asks_ok:
  assumes "him t = (\<lambda>_. stateNo)"
  shows "asks_ok (opening_asks opts t) \<and> us (fst (opening_asks opts t)) = us t"
  unfolding opening_asks_def
proof (rule foldl_preserves)
  show "asks_ok (t, []) \<and> us (fst (t, [] :: msg list)) = us t"
    using assms by (simp add: asks_ok_def asked_def)
next
  fix p :: "options \<times> msg list" and opt :: byte
  assume "asks_ok p \<and> us (fst p) = us t"
  then show "asks_ok ((\<lambda>(t, ms) opt.
        case askRemote t opt of (t', r) \<Rightarrow> (t', ms @ reply_msgs r)) p opt) \<and>
      us (fst ((\<lambda>(t, ms) opt.
        case askRemote t opt of (t', r) \<Rightarrow> (t', ms @ reply_msgs r)) p opt)) = us t"
    by (cases p) (auto simp: asks_ok_def asked_def askRemote_def)
qed

lemma open_with_asked:
  assumes "open_with locals remotes newOptions = (t, ms)"
  shows "asked WILL (us t opt) (proj WILL WONT opt ms)"
    and "asked DO (him t opt) (proj DO DONT opt ms)"
    and "commands_ok ms"
proof -
  obtain t1 m1 where o: "opening_offers locals newOptions = (t1, m1)" by fastforce
  obtain t2 m2 where a: "opening_asks remotes t1 = (t2, m2)" by fastforce
  have t: "t = t2" "ms = m1 @ m2" using assms by (simp_all add: open_with_def o a)
  have ok1: "offers_ok (t1, m1)" using opening_offers_ok [of locals] by (simp add: o)
  then have "him t1 = (\<lambda>_. stateNo)" by (simp add: offers_ok_def)
  from opening_asks_ok [OF this, of remotes] have ok2: "asks_ok (t2, m2)" "us t2 = us t1"
    by (simp_all add: a)
  show "asked WILL (us t opt) (proj WILL WONT opt ms)"
    and "asked DO (him t opt) (proj DO DONT opt ms)" and "commands_ok ms"
    using ok1 ok2 by (auto simp: t offers_ok_def asks_ok_def)
qed

lemma asked_exch: "asked WILL a p \<Longrightarrow> asked DO b q \<Longrightarrow> exch a b p q"
  by (auto simp: asked_def exch_def)

lemma link_start_inv: "link_inv (link_start la ra lb rb)"
proof -
  obtain ta ma where a: "open_with la ra newOptions = (ta, ma)" by fastforce
  obtain tb mb where b: "open_with lb rb newOptions = (tb, mb)" by fastforce
  show ?thesis
    unfolding link_start_def
    by (simp add: a b link_inv_def one_way_def open_with_asked [OF a] open_with_asked [OF b] asked_exch)
qed

lemma link_run_inv:
  assumes "link_run l n k" and "link_inv l"
  shows "link_inv k \<and> in_flight l = n + in_flight k"
  using assms
proof (induction rule: link_run.induct)
  case (link_run_zero l)
  then show ?case by simp
next
  case (link_run_step l n m k)
  then have "link_inv m" and "in_flight l = n + in_flight m" by auto
  with link_run_step.hyps(2) show ?case
    using link_step_inv link_step_measure by fastforce
qed

lemma link_progress:
  assumes "in_flight l \<noteq> 0"
  shows "\<exists>k. link_step l k"
proof (cases "ab l")
  case (Cons m rest)
  obtain c opt where m: "m = (c, opt)" by fastforce
  obtain t r where "negotiate_reply (endB l) c opt = (t, r)" by fastforce
  with Cons m show ?thesis by (blast intro: link_step.deliver_ab)
next
  case Nil
  with assms obtain m rest where ba: "ba l = m # rest"
    by (metis in_flight_zero neq_Nil_conv)
  obtain c opt where m: "m = (c, opt)" by fastforce
  obtain t r where "negotiate_reply (endA l) c opt = (t, r)" by fastforce
  with ba m show ?thesis by (blast intro: link_step.deliver_ba)
qed

subsection \<open>The properties\<close>

text \<open>
  C1 (termination). Two ends that both run this state machine, whatever each of them opened the
  conversation with, exchange at most twice as many messages as the two openings held: a run
  of deliveries cannot be longer than that, and a run that stops short of the end can go on.
\<close>

theorem negotiation_terminates:
  assumes "link_run (link_start la ra lb rb) n l"
  shows "n \<le> 2 * (length (ab (link_start la ra lb rb)) + length (ba (link_start la ra lb rb)))
    \<and> ((\<nexists>k. link_step l k) \<longleftrightarrow> ab l = [] \<and> ba l = [])"
proof -
  let ?s = "link_start la ra lb rb"
  from link_run_inv [OF assms link_start_inv]
  have inv: "link_inv l" and m: "in_flight ?s = n + in_flight l" by simp_all
  have "(\<nexists>k. link_step l k) \<longleftrightarrow> in_flight l = 0"
    using link_progress link_step_measure [OF _ inv] by (metis nat.distinct(1))
  moreover have "n \<le> 2 * (length (ab ?s) + length (ba ?s))"
    using m in_flight_bound [of ?s] by linarith
  ultimately show ?thesis unfolding in_flight_zero by (rule conjI [rotated])
qed

text \<open>
  C2 (safety). When nothing is left in flight the two ends agree on every option in both
  directions: it is enabled at both or at neither, and no request is left pending.
\<close>

theorem negotiation_agrees:
  assumes "link_run (link_start la ra lb rb) n l" and "ab l = []" and "ba l = []"
  shows "us (endA l) opt = him (endB l) opt \<and> us (endA l) opt \<in> {stateNo, stateYes}
    \<and> us (endB l) opt = him (endA l) opt \<and> us (endB l) opt \<in> {stateNo, stateYes}"
proof -
  from link_run_inv [OF assms(1) link_start_inv] have "link_inv l" by simp
  then have "exch (us (endA l) opt) (him (endB l) opt) [] []"
    and "exch (us (endB l) opt) (him (endA l) opt) [] []"
    using assms(2,3) by (simp_all add: link_inv_def one_way_def)
  then show ?thesis by (auto simp: exch_def)
qed

text \<open>
  The witness: one end offers NAWS, the other opens with nothing and does not want it; the DONT
  comes back and both ends are at \<^verbatim>\<open>stateNo\<close> after two deliveries.
\<close>

definition refused_naws :: link where
  "refused_naws = \<lparr>endA = newOptions, endB = newOptions, ab = [], ba = []\<rparr>"

lemma refused_naws_run: "link_run (link_start [OptNAWS] [] [] []) 2 refused_naws"
proof -
  let ?l0 = "\<lparr>endA = newOptions\<lparr>us := (us newOptions)(OptNAWS := stateWantYes)\<rparr>,
    endB = newOptions, ab = [(WILL, OptNAWS)], ba = []\<rparr>"
  let ?l1 = "?l0\<lparr>endB := newOptions, ab := [], ba := ba ?l0 @ reply_msgs (say DONT OptNAWS)\<rparr>"
  have s: "link_start [OptNAWS] [] [] [] = ?l0"
    by (simp add: link_start_def open_with_def opening_offers_def opening_asks_def offerLocal_def
        newOptions_def)
  have 1: "link_step ?l0 ?l1"
    by (rule link_step.deliver_ab [where c = WILL and opt = OptNAWS])
      (simp_all add: negotiate_reply_def receiveWill_def newOptions_def supportedRemote_def)
  have 2: "link_step ?l1 (?l1\<lparr>endA := newOptions, ba := [], ab := ab ?l1 @ reply_msgs no_reply\<rparr>)"
    by (rule link_step.deliver_ba [where c = DONT and opt = OptNAWS])
      (simp_all add: negotiate_reply_def receiveDont_def newOptions_def fun_eq_iff)
  have "link_run ?l0 (Suc (Suc 0)) (?l1\<lparr>endA := newOptions, ba := [], ab := ab ?l1 @ reply_msgs no_reply\<rparr>)"
    by (rule link_run_step [OF link_run_step [OF link_run_zero 1] 2])
  then show ?thesis by (simp add: s refused_naws_def numeral_2_eq_2)
qed

theorem negotiation_terminates_witness:
  "link_run (link_start [OptNAWS] [] [] []) 2 refused_naws
    \<and> 2 \<le> 2 * (length (ab (link_start [OptNAWS] [] [] [])) + length (ba (link_start [OptNAWS] [] [] [])))
    \<and> (\<nexists>k. link_step refused_naws k)"
proof -
  have "ab refused_naws = [] \<and> ba refused_naws = []" by (simp add: refused_naws_def)
  with negotiation_terminates [OF refused_naws_run] refused_naws_run show ?thesis by blast
qed

theorem negotiation_agrees_witness:
  "link_run (link_start [OptNAWS] [] [] []) 2 refused_naws
    \<and> us (endA refused_naws) OptNAWS = him (endB refused_naws) OptNAWS"
  using negotiation_agrees [OF refused_naws_run, of OptNAWS] refused_naws_run
  by (simp add: refused_naws_def)

end
