(* ===== verification/Telnet_Conn.thy ===== *)
theory Telnet_Conn
  imports Telnet_Options
begin

section \<open>A telnet connection (\<^verbatim>\<open>internal/proto/telnetx/conn.go\<close>)\<close>

text \<open>
  The \<^verbatim>\<open>Conn\<close> struct as a record and its methods as state-passing functions. The
  \<^verbatim>\<open>net.Conn\<close> underneath is the record \<open>socket\<close>: the bytes written so far, the
  error its writes meet (\<open>None\<close> while it is healthy), and whether it was closed. The
  \<^verbatim>\<open>data\<close> channel is a FIFO of chunks; its capacity of 64 only delays the reader
  goroutine and decides nothing about what is delivered, so it is not modelled. Where Go's
  \<^verbatim>\<open>select\<close> in \<^verbatim>\<open>emit\<close> finds both arms ready it picks either; the argument
  \<open>pick\<close> is that choice. \<^verbatim>\<open>readLoop\<close> is run over the list of results its socket
  reads give.
\<close>

datatype neterr = EOF | ErrNetClosed | OtherErr string

datatype telnet_error = AddressRequired | Reaching string neterr | OpeningNegotiation neterr
  | ErrClosed | WriteFailed neterr | InvalidSize int int

record socket =
  sent :: "byte list"
  write_err :: "neterr option"
  close_err :: "neterr option"
  sock_closed :: bool

definition sock_write :: "socket \<Rightarrow> byte list \<Rightarrow> (neterr, socket) result" where
  "sock_write s b =
     (if sock_closed s then Inl ErrNetClosed
      else case write_err s of Some e \<Rightarrow> Inl e | None \<Rightarrow> Inr (s\<lparr>sent := sent s @ b\<rparr>))"

definition DefaultConnectTimeout :: int where "DefaultConnectTimeout = 60 * 10 ^ 9"

definition DefaultTerminalType :: string where "DefaultTerminalType = ''xterm-256color''"

datatype EchoMode = EchoAuto | EchoLocal | EchoRemote

record telnet_config =
  Address :: string
  TerminalType :: string
  Echo :: EchoMode
  ConnectTimeout :: int
  Cols :: int
  Rows :: int

datatype parserState = stateData | stateIAC | stateOption | stateSubneg | stateSubnegIAC

record conn =
  sock :: socket
  cfg :: telnet_config
  opts :: options
  dataq :: "byte list list"
  data_closed :: bool
  partial :: "byte list"
  pstate :: parserState
  command :: byte
  sbOption :: byte
  sbSeen :: bool
  sbBuf :: "byte list"
  cols :: int
  rows :: int
  remoteRefusedEcho :: bool
  is_done :: bool
  closed :: bool
  failure :: "neterr option"

subsection \<open>Ending\<close>

text \<open>\<^verbatim>\<open>closeOnce\<close> has run exactly when the \<^verbatim>\<open>done\<close> channel is closed.\<close>

definition close_once :: "conn \<Rightarrow> conn" where
  "close_once c =
     (if is_done c then c
      else c\<lparr>closed := True, sock := (sock c)\<lparr>sock_closed := True\<rparr>, is_done := True\<rparr>)"

definition Close :: "conn \<Rightarrow> conn \<times> neterr option" where
  "Close c = (close_once c, if is_done c then None else close_err (sock c))"

definition fail :: "conn \<Rightarrow> neterr \<Rightarrow> conn" where
  "fail c err =
     close_once
       (if failure c = None \<and> \<not> closed c \<and> err \<noteq> EOF \<and> err \<noteq> ErrNetClosed
        then c\<lparr>failure := Some err\<rparr> else c)"

definition isClosed :: "conn \<Rightarrow> bool" where
  "isClosed c = closed c"

text \<open>\<^verbatim>\<open>Wait\<close> returns once \<^verbatim>\<open>done\<close> is closed; \<open>None\<close> is still waiting.\<close>

definition Wait :: "conn \<Rightarrow> neterr option option" where
  "Wait c = (if is_done c then Some (failure c) else None)"

subsection \<open>Writing\<close>

definition writeRaw :: "conn \<Rightarrow> byte list \<Rightarrow> conn" where
  "writeRaw c b = (case sock_write (sock c) b of Inl e \<Rightarrow> fail c e | Inr s \<Rightarrow> c\<lparr>sock := s\<rparr>)"

definition containsIAC :: "byte list \<Rightarrow> bool" where
  "containsIAC b \<longleftrightarrow> (\<exists>x \<in> set b. x = IAC)"

definition escape :: "byte list \<Rightarrow> byte list" where
  "escape b =
     (if \<not> containsIAC b then b
      else concat (map (\<lambda>x. if x = IAC then [x, IAC] else [x]) b))"

definition sendCommand :: "conn \<Rightarrow> byte \<Rightarrow> byte \<Rightarrow> conn" where
  "sendCommand c cmd opt = writeRaw c [IAC, cmd, opt]"

definition naws_payload :: "int \<Rightarrow> int \<Rightarrow> byte list" where
  "naws_payload w h =
     [word_of_int (w div 256), word_of_int (w mod 256), word_of_int (h div 256), word_of_int (h mod 256)]"

definition sendNAWS :: "conn \<Rightarrow> int \<Rightarrow> int \<Rightarrow> conn" where
  "sendNAWS c w h =
     (if w < 0 \<or> w > 65535 \<or> h < 0 \<or> h > 65535 then c
      else writeRaw c ([IAC, SB, OptNAWS] @ escape (naws_payload w h) @ [IAC, SE]))"

subsection \<open>Receiving\<close>

definition send_reply :: "conn \<Rightarrow> reply \<Rightarrow> conn" where
  "send_reply c r = (if r_send r then sendCommand c (r_command r) (r_option r) else c)"

definition note_echo :: "conn \<Rightarrow> byte \<Rightarrow> byte \<Rightarrow> conn" where
  "note_echo c cmd opt =
     (if opt = OptEcho \<and> cmd = WONT then c\<lparr>remoteRefusedEcho := True\<rparr>
      else if opt = OptEcho \<and> cmd = WILL then c\<lparr>remoteRefusedEcho := False\<rparr>
      else c)"

definition answer_naws :: "conn \<Rightarrow> byte \<Rightarrow> byte \<Rightarrow> conn" where
  "answer_naws c cmd opt =
     (if cmd = DO \<and> opt = OptNAWS \<and> enabledLocally (opts c) OptNAWS
      then sendNAWS c (cols c) (rows c) else c)"

definition negotiate :: "conn \<Rightarrow> byte \<Rightarrow> byte \<Rightarrow> conn" where
  "negotiate c cmd opt =
     (case negotiate_reply (opts c) cmd opt of (t, r) \<Rightarrow>
        answer_naws (note_echo (send_reply (c\<lparr>opts := t\<rparr>) r) cmd opt) cmd opt)"

definition subnegotiation :: "conn \<Rightarrow> byte \<Rightarrow> byte list \<Rightarrow> conn" where
  "subnegotiation c opt payload =
     (if opt = OptTerminalType \<and> payload \<noteq> [] \<and> hd payload = terminalTypeSEND
      then writeRaw c ([IAC, SB, OptTerminalType, terminalTypeIS]
             @ escape (bytes_of (TerminalType (cfg c))) @ [IAC, SE])
      else c)"

definition append_bounded :: "byte list \<Rightarrow> byte \<Rightarrow> byte list" where
  "append_bounded buf b = (if length buf < 256 then buf @ [b] else buf)"

definition step :: "conn \<Rightarrow> byte \<Rightarrow> conn \<times> byte option" where
  "step c b =
     (case pstate c of
        stateData \<Rightarrow> if b = IAC then (c\<lparr>pstate := stateIAC\<rparr>, None) else (c, Some b)
      | stateIAC \<Rightarrow>
          (if b = IAC then (c\<lparr>pstate := stateData\<rparr>, Some IAC)
           else if b = WILL \<or> b = WONT \<or> b = DO \<or> b = DONT
             then (c\<lparr>command := b, pstate := stateOption\<rparr>, None)
           else if b = SB
             then (c\<lparr>pstate := stateSubneg, sbOption := 0, sbSeen := False, sbBuf := []\<rparr>, None)
           else (c\<lparr>pstate := stateData\<rparr>, None))
      | stateOption \<Rightarrow> ((negotiate c (command c) b)\<lparr>pstate := stateData\<rparr>, None)
      | stateSubneg \<Rightarrow>
          (if b = IAC then (c\<lparr>pstate := stateSubnegIAC\<rparr>, None)
           else if \<not> sbSeen c then (c\<lparr>sbOption := b, sbSeen := True\<rparr>, None)
           else (c\<lparr>sbBuf := append_bounded (sbBuf c) b\<rparr>, None))
      | stateSubnegIAC \<Rightarrow>
          (if b = IAC then (c\<lparr>sbBuf := append_bounded (sbBuf c) IAC, pstate := stateSubneg\<rparr>, None)
           else if b = SE
             then ((subnegotiation c (sbOption c) (sbBuf c))\<lparr>pstate := stateData\<rparr>, None)
           else (c\<lparr>pstate := stateData\<rparr>, None)))"

text \<open>The loop of \<^verbatim>\<open>consume\<close>: the parser over a chunk, collecting the data bytes.\<close>

fun feed :: "conn \<Rightarrow> byte list \<Rightarrow> conn \<times> byte list" where
  "feed c [] = (c, [])"
| "feed c (b # bs) =
     (case step c b of (c1, d) \<Rightarrow>
      case feed c1 bs of (c2, out) \<Rightarrow> (c2, (case d of None \<Rightarrow> out | Some x \<Rightarrow> x # out)))"

definition emit :: "bool \<Rightarrow> conn \<Rightarrow> byte list \<Rightarrow> conn" where
  "emit pick c b = (if is_done c \<and> pick then c else c\<lparr>dataq := dataq c @ [b]\<rparr>)"

definition consume :: "bool \<Rightarrow> conn \<Rightarrow> byte list \<Rightarrow> conn" where
  "consume pick c chunk =
     (case feed c chunk of (c1, out) \<Rightarrow> if out \<noteq> [] then emit pick c1 out else c1)"

fun readLoop :: "bool \<Rightarrow> conn \<Rightarrow> (byte list \<times> neterr option) list \<Rightarrow> conn" where
  "readLoop pick c [] = c"
| "readLoop pick c ((chunk, err) # rest) =
     (let c1 = (if chunk \<noteq> [] then consume pick c chunk else c)
      in case err of
           Some e \<Rightarrow> (fail c1 e)\<lparr>data_closed := True\<rparr>
         | None \<Rightarrow> readLoop pick c1 rest)"

subsection \<open>The application's side\<close>

datatype read_result = ReadData "byte list" | ReadError neterr | ReadBlocks

definition Read :: "conn \<Rightarrow> nat \<Rightarrow> conn \<times> read_result" where
  "Read c n =
     (if n = 0 then (c, ReadData [])
      else if partial c \<noteq> []
        then (c\<lparr>partial := drop n (partial c)\<rparr>, ReadData (take n (partial c)))
      else case dataq c of
          [] \<Rightarrow> (c, if \<not> data_closed c then ReadBlocks
                   else case failure c of Some e \<Rightarrow> ReadError e | None \<Rightarrow> ReadError EOF)
        | chunk # rest \<Rightarrow>
            (c\<lparr>dataq := rest, partial := drop n chunk\<rparr>, ReadData (take n chunk)))"

definition localEcho :: "conn \<Rightarrow> bool" where
  "localEcho c =
     (case Echo (cfg c) of EchoLocal \<Rightarrow> True | EchoRemote \<Rightarrow> False | EchoAuto \<Rightarrow> remoteRefusedEcho c)"

definition Write :: "bool \<Rightarrow> conn \<Rightarrow> byte list \<Rightarrow> conn \<times> (telnet_error, nat) result" where
  "Write pick c p =
     (if p = [] then (c, Inr 0)
      else if isClosed c then (c, Inl ErrClosed)
      else let c1 = (if localEcho c then emit pick c p else c)
           in case sock_write (sock c1) (escape p) of
                Inl e \<Rightarrow> (fail c1 e, Inl (WriteFailed e))
              | Inr s \<Rightarrow> (c1\<lparr>sock := s\<rparr>, Inr (length p)))"

definition Resize :: "conn \<Rightarrow> int \<Rightarrow> int \<Rightarrow> conn \<times> (telnet_error, unit) result" where
  "Resize c w h =
     (if w \<le> 0 \<or> h \<le> 0 then (c, Inl (InvalidSize w h))
      else let c1 = c\<lparr>cols := w, rows := h\<rparr>
           in if \<not> enabledLocally (opts c1) OptNAWS then (c1, Inr ())
              else (sendNAWS c1 w h, Inr ()))"

definition Summary :: "conn \<Rightarrow> string" where
  "Summary c =
     (let names = agreed (opts c)
      in if names = [] then ''no options negotiated'' else join_with '', '' names)"

subsection \<open>Opening\<close>

definition startNegotiation :: "conn \<Rightarrow> conn \<times> (telnet_error, unit) result" where
  "startNegotiation c =
     (case open_with wantLocal wantRemote (opts c) of (t, ms) \<Rightarrow>
        let c1 = c\<lparr>opts := t\<rparr>; out = concat (map (\<lambda>(cmd, opt). [IAC, cmd, opt]) ms)
        in if out = [] then (c1, Inr ())
           else case sock_write (sock c1) out of
                  Inl e \<Rightarrow> (c1, Inl (OpeningNegotiation e))
                | Inr s \<Rightarrow> (c1\<lparr>sock := s\<rparr>, Inr ()))"

definition with_defaults :: "telnet_config \<Rightarrow> telnet_config" where
  "with_defaults k =
     k\<lparr>TerminalType := (if TerminalType k = '''' then DefaultTerminalType else TerminalType k),
       ConnectTimeout := (if ConnectTimeout k \<le> 0 then DefaultConnectTimeout else ConnectTimeout k),
       Cols := (if Cols k \<le> 0 then 80 else Cols k),
       Rows := (if Rows k \<le> 0 then 24 else Rows k)\<rparr>"

definition new_conn :: "socket \<Rightarrow> telnet_config \<Rightarrow> conn" where
  "new_conn s k =
     \<lparr>sock = s, cfg = k, opts = newOptions, dataq = [], data_closed = False, partial = [],
      pstate = stateData, command = 0, sbOption = 0, sbSeen = False, sbBuf = [],
      cols = Cols k, rows = Rows k, remoteRefusedEcho = False, is_done = False, closed = False,
      failure = None\<rparr>"

text \<open>
  \<open>dial\<close> stands for \<^verbatim>\<open>cfg.Dial\<close> (or the plain TCP dialler): what opening the byte
  stream to an address within a time limit gives.
\<close>

definition Dial ::
  "(int \<Rightarrow> string \<Rightarrow> (neterr, socket) result) \<Rightarrow> telnet_config \<Rightarrow> (telnet_error, conn) result" where
  "Dial dial k =
     (if Address k = '''' then Inl AddressRequired
      else let k1 = with_defaults k
           in case dial (ConnectTimeout k1) (Address k1) of
                Inl e \<Rightarrow> Inl (Reaching (Address k1) e)
              | Inr s \<Rightarrow> (case startNegotiation (new_conn s k1) of
                    (c, Inl e) \<Rightarrow> Inl e
                  | (c, Inr _) \<Rightarrow> Inr c))"

subsection \<open>What the operations leave alone\<close>

lemma close_once_frame [frame_simps]:
  "pstate (close_once c) = pstate c" "command (close_once c) = command c"
  "sbOption (close_once c) = sbOption c" "sbSeen (close_once c) = sbSeen c"
  "sbBuf (close_once c) = sbBuf c" "dataq (close_once c) = dataq c"
  "partial (close_once c) = partial c" "cfg (close_once c) = cfg c"
  "opts (close_once c) = opts c" "cols (close_once c) = cols c" "rows (close_once c) = rows c"
  "remoteRefusedEcho (close_once c) = remoteRefusedEcho c" "failure (close_once c) = failure c"
  "data_closed (close_once c) = data_closed c"
  by (simp_all add: close_once_def)

lemma fail_frame [frame_simps]:
  "pstate (fail c e) = pstate c" "command (fail c e) = command c"
  "sbOption (fail c e) = sbOption c" "sbSeen (fail c e) = sbSeen c"
  "sbBuf (fail c e) = sbBuf c" "dataq (fail c e) = dataq c"
  "partial (fail c e) = partial c" "cfg (fail c e) = cfg c"
  "opts (fail c e) = opts c" "cols (fail c e) = cols c" "rows (fail c e) = rows c"
  "remoteRefusedEcho (fail c e) = remoteRefusedEcho c" "data_closed (fail c e) = data_closed c"
  by (simp_all add: fail_def frame_simps)

lemma writeRaw_frame [frame_simps]:
  "pstate (writeRaw c b) = pstate c" "command (writeRaw c b) = command c"
  "sbOption (writeRaw c b) = sbOption c" "sbSeen (writeRaw c b) = sbSeen c"
  "sbBuf (writeRaw c b) = sbBuf c" "dataq (writeRaw c b) = dataq c"
  "partial (writeRaw c b) = partial c" "cfg (writeRaw c b) = cfg c"
  "opts (writeRaw c b) = opts c" "cols (writeRaw c b) = cols c" "rows (writeRaw c b) = rows c"
  "remoteRefusedEcho (writeRaw c b) = remoteRefusedEcho c" "data_closed (writeRaw c b) = data_closed c"
  by (simp_all add: writeRaw_def frame_simps split: sum.splits)

lemma sendNAWS_frame [frame_simps]:
  "pstate (sendNAWS c w h) = pstate c" "sbOption (sendNAWS c w h) = sbOption c"
  "sbSeen (sendNAWS c w h) = sbSeen c" "sbBuf (sendNAWS c w h) = sbBuf c"
  "dataq (sendNAWS c w h) = dataq c" "partial (sendNAWS c w h) = partial c"
  "cfg (sendNAWS c w h) = cfg c" "data_closed (sendNAWS c w h) = data_closed c"
  "opts (sendNAWS c w h) = opts c" "remoteRefusedEcho (sendNAWS c w h) = remoteRefusedEcho c"
  by (simp_all add: sendNAWS_def frame_simps)

lemma sendCommand_frame [frame_simps]:
  "pstate (sendCommand c cmd opt) = pstate c" "sbOption (sendCommand c cmd opt) = sbOption c"
  "sbSeen (sendCommand c cmd opt) = sbSeen c" "sbBuf (sendCommand c cmd opt) = sbBuf c"
  "dataq (sendCommand c cmd opt) = dataq c" "partial (sendCommand c cmd opt) = partial c"
  "cfg (sendCommand c cmd opt) = cfg c" "data_closed (sendCommand c cmd opt) = data_closed c"
  "opts (sendCommand c cmd opt) = opts c" "cols (sendCommand c cmd opt) = cols c"
  "rows (sendCommand c cmd opt) = rows c"
  "remoteRefusedEcho (sendCommand c cmd opt) = remoteRefusedEcho c"
  by (simp_all add: sendCommand_def frame_simps)

lemmas negotiate_parts = negotiate_def send_reply_def note_echo_def answer_naws_def

lemma negotiate_frame [frame_simps]:
  "pstate (negotiate c cmd opt) = pstate c" "sbOption (negotiate c cmd opt) = sbOption c"
  "sbSeen (negotiate c cmd opt) = sbSeen c" "sbBuf (negotiate c cmd opt) = sbBuf c"
  "dataq (negotiate c cmd opt) = dataq c" "partial (negotiate c cmd opt) = partial c"
  "cfg (negotiate c cmd opt) = cfg c" "data_closed (negotiate c cmd opt) = data_closed c"
  "opts (negotiate c cmd opt) = fst (negotiate_reply (opts c) cmd opt)"
  by (cases "negotiate_reply (opts c) cmd opt"; simp add: negotiate_parts frame_simps)+

lemma negotiate_echo [frame_simps]:
  "remoteRefusedEcho (negotiate c cmd opt) =
     (if opt = OptEcho \<and> cmd = WONT then True
      else if opt = OptEcho \<and> cmd = WILL then False else remoteRefusedEcho c)"
  by (cases "negotiate_reply (opts c) cmd opt") (simp add: negotiate_parts frame_simps)

text \<open>The parser's own position does not matter to what is written.\<close>

lemma pstate_commutes:
  "(close_once c)\<lparr>pstate := s\<rparr> = close_once (c\<lparr>pstate := s\<rparr>)"
  "(fail c e)\<lparr>pstate := s\<rparr> = fail (c\<lparr>pstate := s\<rparr>) e"
  "(writeRaw c b)\<lparr>pstate := s\<rparr> = writeRaw (c\<lparr>pstate := s\<rparr>) b"
  by (simp_all add: writeRaw_def fail_def close_once_def split: sum.split)

lemma sends_pstate:
  "(sendCommand c cmd opt)\<lparr>pstate := s\<rparr> = sendCommand (c\<lparr>pstate := s\<rparr>) cmd opt"
  "(sendNAWS c w h)\<lparr>pstate := s\<rparr> = sendNAWS (c\<lparr>pstate := s\<rparr>) w h"
  "(subnegotiation c opt p)\<lparr>pstate := s\<rparr> = subnegotiation (c\<lparr>pstate := s\<rparr>) opt p"
  by (simp_all add: sendCommand_def sendNAWS_def subnegotiation_def pstate_commutes)

lemma parts_pstate:
  "(send_reply c r)\<lparr>pstate := s\<rparr> = send_reply (c\<lparr>pstate := s\<rparr>) r"
  "(note_echo c cmd opt)\<lparr>pstate := s\<rparr> = note_echo (c\<lparr>pstate := s\<rparr>) cmd opt"
  "(answer_naws c cmd opt)\<lparr>pstate := s\<rparr> = answer_naws (c\<lparr>pstate := s\<rparr>) cmd opt"
  by (simp_all add: send_reply_def note_echo_def answer_naws_def sends_pstate)

lemma negotiate_pstate:
  "(negotiate c cmd opt)\<lparr>pstate := s\<rparr> = negotiate (c\<lparr>pstate := s\<rparr>) cmd opt"
proof (cases "negotiate_reply (opts c) cmd opt")
  case (Pair t r)
  have d: "c\<lparr>opts := t, pstate := s\<rparr> = c\<lparr>pstate := s, opts := t\<rparr>" by simp
  show ?thesis
    by (simp add: negotiate_def Pair parts_pstate d)
qed

lemma same_pstate: "pstate c = s \<Longrightarrow> c\<lparr>pstate := s\<rparr> = c"
  by simp

lemma subnegotiation_frame [frame_simps]:
  "pstate (subnegotiation c opt p) = pstate c" "sbOption (subnegotiation c opt p) = sbOption c"
  "sbSeen (subnegotiation c opt p) = sbSeen c" "sbBuf (subnegotiation c opt p) = sbBuf c"
  "dataq (subnegotiation c opt p) = dataq c" "partial (subnegotiation c opt p) = partial c"
  "cfg (subnegotiation c opt p) = cfg c" "opts (subnegotiation c opt p) = opts c"
  "remoteRefusedEcho (subnegotiation c opt p) = remoteRefusedEcho c"
  by (simp_all add: subnegotiation_def frame_simps)

lemma feed_append:
  "feed c (xs @ ys) = (case feed c xs of (c1, o1) \<Rightarrow> case feed c1 ys of (c2, o2) \<Rightarrow> (c2, o1 @ o2))"
  by (induction xs arbitrary: c) (auto split: prod.split option.split)

subsection \<open>The stream as the peer means it\<close>

text \<open>
  A peer writes items: data bytes, one-byte commands, option negotiations and subnegotiations.
  \<open>encode\<close> is how RFC 854 puts them on the wire and \<open>handle\<close> is what the connection is meant
  to do with one. The refinement theorem says that the byte parser implements \<open>handle\<close>.
\<close>

datatype item = Data byte | Command byte | Negotiation byte byte | Subnegotiation byte "byte list"

definition double_iac :: "byte \<Rightarrow> byte list" where
  "double_iac x = (if x = IAC then [x, IAC] else [x])"

fun encode :: "item \<Rightarrow> byte list" where
  "encode (Data b) = double_iac b"
| "encode (Command cmd) = [IAC, cmd]"
| "encode (Negotiation cmd opt) = [IAC, cmd, opt]"
| "encode (Subnegotiation opt p) = [IAC, SB, opt] @ concat (map double_iac p) @ [IAC, SE]"

fun well_formed :: "item \<Rightarrow> bool" where
  "well_formed (Data b) = True"
| "well_formed (Command cmd) =
     (cmd \<noteq> IAC \<and> cmd \<noteq> WILL \<and> cmd \<noteq> WONT \<and> cmd \<noteq> DO \<and> cmd \<noteq> DONT \<and> cmd \<noteq> SB)"
| "well_formed (Negotiation cmd opt) = (cmd = WILL \<or> cmd = WONT \<or> cmd = DO \<or> cmd = DONT)"
| "well_formed (Subnegotiation opt p) = (opt \<noteq> IAC)"

text \<open>The payload beyond 256 bytes is dropped; that much of a subnegotiation reaches the handler.\<close>

fun handle :: "conn \<Rightarrow> item \<Rightarrow> conn" where
  "handle c (Data b) = c"
| "handle c (Command cmd) = c"
| "handle c (Negotiation cmd opt) = negotiate (c\<lparr>command := cmd\<rparr>) cmd opt"
| "handle c (Subnegotiation opt p) =
     (let c1 = c\<lparr>sbOption := opt, sbSeen := True, sbBuf := take 256 p\<rparr>
      in subnegotiation c1 opt (take 256 p))"

fun item_data :: "item \<Rightarrow> byte list" where
  "item_data (Data b) = [b]"
| "item_data _ = []"

lemma escape_eq: "escape b = concat (map double_iac b)"
proof (cases "containsIAC b")
  case True
  then show ?thesis by (simp add: escape_def double_iac_def [abs_def])
next
  case False
  then have "\<forall>x \<in> set b. x \<noteq> IAC" by (auto simp: containsIAC_def)
  then have "concat (map double_iac b) = b" by (induction b) (auto simp: double_iac_def)
  with False show ?thesis by (simp add: escape_def)
qed

lemma append_bounded_take:
  "append_bounded (take 256 p) b = take 256 (p @ [b])"
  by (simp add: append_bounded_def min_def)

lemma feed_payload:
  assumes "pstate c = stateSubneg" and "sbSeen c" and "sbBuf c = take 256 acc"
  shows "feed c (concat (map double_iac p)) = (c\<lparr>sbBuf := take 256 (acc @ p)\<rparr>, [])"
  using assms
proof (induction p arbitrary: c acc)
  case Nil
  then show ?case by simp
next
  case (Cons x p)
  have one: "feed c (double_iac x) = (c\<lparr>sbBuf := take 256 (acc @ [x])\<rparr>, [])"
    using Cons.prems by (simp add: double_iac_def step_def append_bounded_take)
  show ?case
    using Cons.prems Cons.IH [of "c\<lparr>sbBuf := take 256 (acc @ [x])\<rparr>" "acc @ [x]"]
    by (simp add: feed_append one)
qed

lemma feed_item:
  assumes "pstate c = stateData" and "well_formed it"
  shows "feed c (encode it) = (handle c it, item_data it)"
proof (cases it)
  case (Data b)
  with assms show ?thesis by (simp add: step_def double_iac_def)
next
  case (Command cmd)
  with assms show ?thesis by (simp add: step_def)
next
  case (Negotiation cmd opt)
  let ?c = "c\<lparr>command := cmd, pstate := stateOption\<rparr>"
  have "?c\<lparr>pstate := stateData\<rparr> = c\<lparr>command := cmd\<rparr>" using assms by simp
  then have "(negotiate ?c cmd opt)\<lparr>pstate := stateData\<rparr> = negotiate (c\<lparr>command := cmd\<rparr>) cmd opt"
    by (simp only: negotiate_pstate)
  moreover have "feed c [IAC, cmd, opt] = ((negotiate ?c cmd opt)\<lparr>pstate := stateData\<rparr>, [])"
    using assms Negotiation by (auto simp: step_def)
  ultimately show ?thesis using Negotiation by simp
next
  case (Subnegotiation opt p)
  let ?c = "c\<lparr>pstate := stateSubneg, sbOption := opt, sbSeen := True, sbBuf := []\<rparr>"
  have head: "feed c [IAC, SB, opt] = (?c, [])"
    using assms Subnegotiation by (simp add: step_def)
  have body: "feed ?c (concat (map double_iac p)) = (?c\<lparr>sbBuf := take 256 p\<rparr>, [])"
    using feed_payload [of ?c "[]" p] by simp
  have tail: "feed (?c\<lparr>sbBuf := take 256 p\<rparr>) [IAC, SE] = (handle c it, [])"
    using assms Subnegotiation by (simp add: step_def Let_def sends_pstate same_pstate)
  show ?thesis
    using head body tail Subnegotiation
    by (simp only: encode.simps item_data.simps feed_append prod.case append_Nil)
qed

lemma handle_pstate: "pstate (handle c it) = pstate c"
  by (cases it) (simp_all add: Let_def frame_simps)

lemma feed_items:
  assumes "pstate c = stateData" and "list_all well_formed its"
  shows "feed c (concat (map encode its)) = (foldl handle c its, concat (map item_data its))"
  using assms
  by (induction its arbitrary: c) (simp_all add: feed_append feed_item handle_pstate)

lemma escape_items: "escape p = concat (map encode (map Data p))"
  by (simp add: escape_eq comp_def)

lemma foldl_handle_data: "foldl handle c (map Data p) = c"
  by (induction p) simp_all

lemma feed_escape:
  assumes "pstate c = stateData"
  shows "feed c (escape p) = (c, p)"
proof -
  have "list_all well_formed (map Data p)" by (simp add: list_all_iff)
  from feed_items [OF assms this] show ?thesis
    by (simp add: escape_items foldl_handle_data comp_def del: encode.simps)
qed

subsection \<open>Chunk boundaries\<close>

text \<open>The parser does not look at the queue it feeds, so it can be run on an emptied one.\<close>

lemma dataq_commutes:
  "(close_once c)\<lparr>dataq := q\<rparr> = close_once (c\<lparr>dataq := q\<rparr>)"
  "(fail c e)\<lparr>dataq := q\<rparr> = fail (c\<lparr>dataq := q\<rparr>) e"
  "(writeRaw c b)\<lparr>dataq := q\<rparr> = writeRaw (c\<lparr>dataq := q\<rparr>) b"
  by (simp_all add: writeRaw_def fail_def close_once_def split: sum.split)

lemma sends_dataq:
  "(sendCommand c cmd opt)\<lparr>dataq := q\<rparr> = sendCommand (c\<lparr>dataq := q\<rparr>) cmd opt"
  "(sendNAWS c w h)\<lparr>dataq := q\<rparr> = sendNAWS (c\<lparr>dataq := q\<rparr>) w h"
  "(subnegotiation c opt p)\<lparr>dataq := q\<rparr> = subnegotiation (c\<lparr>dataq := q\<rparr>) opt p"
  by (simp_all add: sendCommand_def sendNAWS_def subnegotiation_def dataq_commutes)

lemma negotiate_dataq:
  "(negotiate c cmd opt)\<lparr>dataq := q\<rparr> = negotiate (c\<lparr>dataq := q\<rparr>) cmd opt"
proof (cases "negotiate_reply (opts c) cmd opt")
  case (Pair t r)
  have parts: "(send_reply c r)\<lparr>dataq := q\<rparr> = send_reply (c\<lparr>dataq := q\<rparr>) r"
    "(note_echo c cmd opt)\<lparr>dataq := q\<rparr> = note_echo (c\<lparr>dataq := q\<rparr>) cmd opt"
    "(answer_naws c cmd opt)\<lparr>dataq := q\<rparr> = answer_naws (c\<lparr>dataq := q\<rparr>) cmd opt" for c
    by (simp_all add: send_reply_def note_echo_def answer_naws_def sends_dataq)
  have d: "c\<lparr>opts := t, dataq := q\<rparr> = c\<lparr>dataq := q, opts := t\<rparr>" by simp
  show ?thesis by (simp add: negotiate_def Pair parts d)
qed

lemma step_dataq:
  "step (c\<lparr>dataq := q\<rparr>) b = ((fst (step c b))\<lparr>dataq := q\<rparr>, snd (step c b))"
  by (cases "pstate c")
    (simp_all add: step_def sends_dataq [symmetric] negotiate_dataq [symmetric])

lemma feed_dataq:
  "feed (c\<lparr>dataq := q\<rparr>) bs = ((fst (feed c bs))\<lparr>dataq := q\<rparr>, snd (feed c bs))"
  by (induction bs arbitrary: c) (simp_all add: step_dataq case_prod_beta split: option.split)

lemma step_keeps_dataq: "dataq (fst (step c b)) = dataq c"
  by (cases "pstate c") (simp_all add: step_def frame_simps)

lemma feed_keeps_dataq: "dataq (fst (feed c bs)) = dataq c"
  by (induction bs arbitrary: c) (simp_all add: step_keeps_dataq case_prod_beta)

lemma consume_False:
  "consume False c chunk = (fst (feed c chunk))\<lparr>dataq := dataq c @ (if snd (feed c chunk) = [] then [] else [snd (feed c chunk)])\<rparr>"
  using feed_keeps_dataq [of c chunk]
  by (auto simp: consume_def emit_def split: prod.split)

text \<open>However the stream is cut into reads, the same bytes and the same state come out.\<close>

lemma consume_chunks:
  "concat (dataq (foldl (consume False) c chunks)) = concat (dataq c) @ snd (feed c (concat chunks))
   \<and> (foldl (consume False) c chunks)\<lparr>dataq := []\<rparr> = (fst (feed c (concat chunks)))\<lparr>dataq := []\<rparr>"
proof (induction chunks arbitrary: c)
  case Nil
  then show ?case by simp
next
  case (Cons ch chunks)
  let ?c1 = "consume False c ch"
  obtain d o1 where f: "feed c ch = (d, o1)" by fastforce
  have c1: "?c1 = d\<lparr>dataq := dataq c @ (if o1 = [] then [] else [o1])\<rparr>"
    by (simp add: consume_False f)
  obtain e o2 where g: "feed d (concat chunks) = (e, o2)" by fastforce
  have g1: "feed ?c1 (concat chunks) = (e\<lparr>dataq := dataq c @ (if o1 = [] then [] else [o1])\<rparr>, o2)"
    by (simp add: c1 feed_dataq g)
  show ?case
    using Cons.IH [of ?c1] by (simp add: feed_append f g g1) (simp add: c1)
qed

subsection \<open>Properties\<close>

text \<open>
  C3 (refinement). A stream of well-formed items, cut into socket reads anywhere at all, comes
  out of the byte parser as exactly the data bytes of the items in order, and leaves the
  connection as handling the items one after the other would: every negotiation and
  subnegotiation is acted on once and in order, and no command byte reaches the data.
\<close>

theorem parser_refines_items:
  assumes "pstate c = stateData" and "list_all well_formed its"
    and "concat chunks = concat (map encode its)"
  shows "concat (dataq (foldl (consume False) c chunks)) = concat (dataq c) @ concat (map item_data its)
    \<and> (foldl (consume False) c chunks)\<lparr>dataq := []\<rparr> = (foldl handle c its)\<lparr>dataq := []\<rparr>"
  using consume_chunks [of c chunks] feed_items [OF assms(1,2)] by (simp add: assms(3))

definition demo_socket :: socket where
  "demo_socket = \<lparr>sent = [], write_err = None, close_err = None, sock_closed = False\<rparr>"

definition demo_config :: telnet_config where
  "demo_config = \<lparr>Address = ''sw1:23'', TerminalType = ''xterm'', Echo = EchoAuto,
     ConnectTimeout = 1, Cols = 80, Rows = 24\<rparr>"

text \<open>An \<^verbatim>\<open>IAC DO NAWS\<close> split after its first byte, between two data bytes and a literal 255.\<close>

theorem parser_refines_items_witness:
  "concat (dataq (foldl (consume False) (new_conn demo_socket demo_config)
       [[65, 255], [253, 31, 66], [255, 255]])) = [65, 66, 255]
    \<and> (foldl (consume False) (new_conn demo_socket demo_config) [[65, 255], [253, 31, 66], [255, 255]])\<lparr>dataq := []\<rparr>
      = (foldl handle (new_conn demo_socket demo_config) [Data 65, Negotiation DO OptNAWS, Data 66, Data 255])\<lparr>dataq := []\<rparr>"
  using parser_refines_items
    [of "new_conn demo_socket demo_config" "[Data 65, Negotiation DO OptNAWS, Data 66, Data 255]"
      "[[65, 255], [253, 31, 66], [255, 255]]"]
  by (simp add: new_conn_def double_iac_def del: handle.simps)

text \<open>
  C4 (round trip). What is typed at one end arrives at the other: the bytes
  \<^verbatim>\<open>Write\<close> puts on a healthy wire, in whatever pieces the other end reads them, come out
  of its parser as exactly the bytes written, 255s included, and disturb nothing else there.
\<close>

theorem write_read_roundtrip:
  assumes "\<not> closed a" and "\<not> sock_closed (sock a)" and "write_err (sock a) = None"
    and "Write pick a p = (a', r)" and "pstate b = stateData"
    and "sent (sock a) @ concat chunks = sent (sock a')"
  shows "r = Inr (length p)
    \<and> concat (dataq (foldl (consume False) b chunks)) = concat (dataq b) @ p
    \<and> (foldl (consume False) b chunks)\<lparr>dataq := []\<rparr> = b\<lparr>dataq := []\<rparr>"
proof -
  have "r = Inr (length p) \<and> concat chunks = escape p"
  proof (cases "p = []")
    case True
    with assms(4,6) show ?thesis by (auto simp: Write_def escape_def containsIAC_def)
  next
    case False
    have s: "sock (if localEcho a then emit pick a p else a) = sock a" by (simp add: emit_def)
    have "sock_write (sock a) (escape p) = Inr ((sock a)\<lparr>sent := sent (sock a) @ escape p\<rparr>)"
      using assms(2,3) by (simp add: sock_write_def)
    with False assms(1,4,6) show ?thesis by (auto simp: Write_def isClosed_def Let_def s)
  qed
  then show ?thesis
    using consume_chunks [of b chunks] feed_escape [OF assms(5), of p] by simp
qed

theorem write_read_roundtrip_witness:
  "concat (dataq (foldl (consume False) (new_conn demo_socket demo_config) [[7, 255], [255]])) = [7, 255]"
proof -
  let ?a = "new_conn demo_socket demo_config"
  have "Write False ?a [7, 255] = (?a\<lparr>sock := (sock ?a)\<lparr>sent := [7, 255, 255]\<rparr>\<rparr>, Inr 2)"
    by (simp add: Write_def isClosed_def localEcho_def new_conn_def demo_socket_def demo_config_def
        sock_write_def escape_def containsIAC_def)
  from write_read_roundtrip [OF _ _ _ this, of ?a "[[7, 255], [255]]"] show ?thesis
    by (simp add: new_conn_def demo_socket_def)
qed

subsection \<open>Everything that can happen to a connection\<close>

text \<open>
  The two goroutines and the environment interleave: a write, a read, a resize or a close by
  the application; one socket read by the reader goroutine while it is still running; the wire
  breaking.
\<close>

inductive conn_step :: "conn \<Rightarrow> conn \<Rightarrow> bool" where
  app_write: "conn_step c (fst (Write pick c p))"
| app_read: "conn_step c (fst (Read c n))"
| app_resize: "conn_step c (fst (Resize c w h))"
| app_close: "conn_step c (fst (Close c))"
| reader: "\<not> data_closed c \<Longrightarrow> conn_step c (readLoop pick c [(chunk, err)])"
| wire_breaks: "conn_step c (c\<lparr>sock := (sock c)\<lparr>write_err := Some e\<rparr>\<rparr>)"

definition conn_inv :: "conn \<Rightarrow> bool" where
  "conn_inv c \<longleftrightarrow> length (sbBuf c) \<le> 256 \<and> closed c = is_done c \<and> sock_closed (sock c) = is_done c
     \<and> [] \<notin> set (dataq c) \<and> failure c \<noteq> Some EOF \<and> failure c \<noteq> Some ErrNetClosed
     \<and> (failure c \<noteq> None \<longrightarrow> is_done c)"

lemma close_once_inv: "conn_inv c \<Longrightarrow> conn_inv (close_once c)"
  by (auto simp: conn_inv_def close_once_def)

lemma fail_inv: "conn_inv c \<Longrightarrow> conn_inv (fail c e)"
  by (auto simp: conn_inv_def fail_def close_once_def)

lemma fail_done: "is_done (fail c e)"
  by (simp add: fail_def close_once_def)

lemma writeRaw_inv: "conn_inv c \<Longrightarrow> conn_inv (writeRaw c b)"
  by (auto simp: writeRaw_def sock_write_def fail_inv split: option.splits)
    (auto simp: conn_inv_def)

lemma sendNAWS_inv: "conn_inv c \<Longrightarrow> conn_inv (sendNAWS c w h)"
  by (simp add: sendNAWS_def writeRaw_inv)

lemma conn_inv_irrelevant [simp]:
  "conn_inv (c\<lparr>opts := t\<rparr>) = conn_inv c" "conn_inv (c\<lparr>pstate := s\<rparr>) = conn_inv c"
  "conn_inv (c\<lparr>remoteRefusedEcho := e\<rparr>) = conn_inv c" "conn_inv (c\<lparr>command := x\<rparr>) = conn_inv c"
  "conn_inv (c\<lparr>cols := w\<rparr>) = conn_inv c" "conn_inv (c\<lparr>rows := w\<rparr>) = conn_inv c"
  "conn_inv (c\<lparr>sbOption := x\<rparr>) = conn_inv c" "conn_inv (c\<lparr>sbSeen := e\<rparr>) = conn_inv c"
  "conn_inv (c\<lparr>partial := b\<rparr>) = conn_inv c" "conn_inv (c\<lparr>data_closed := e\<rparr>) = conn_inv c"
  by (simp_all add: conn_inv_def)

lemma negotiate_inv: "conn_inv c \<Longrightarrow> conn_inv (negotiate c cmd opt)"
  by (simp add: negotiate_parts sendCommand_def sendNAWS_inv writeRaw_inv split: prod.split)

lemma subnegotiation_inv: "conn_inv c \<Longrightarrow> conn_inv (subnegotiation c opt p)"
  by (simp add: subnegotiation_def writeRaw_inv)

lemma step_inv: "conn_inv c \<Longrightarrow> conn_inv (fst (step c b))"
  by (cases "pstate c")
    (auto simp: step_def negotiate_inv subnegotiation_inv, auto simp: conn_inv_def append_bounded_def)

lemma feed_inv: "conn_inv c \<Longrightarrow> conn_inv (fst (feed c bs))"
  by (induction bs arbitrary: c) (simp_all add: step_inv case_prod_beta)

lemma emit_inv: "conn_inv c \<Longrightarrow> b \<noteq> [] \<Longrightarrow> conn_inv (emit pick c b)"
  by (simp add: emit_def conn_inv_def)

lemma consume_inv: "conn_inv c \<Longrightarrow> conn_inv (consume pick c chunk)"
  using feed_inv [of c chunk] by (auto simp: consume_def emit_inv split: prod.split)

lemma conn_step_inv:
  assumes "conn_step c d" and "conn_inv c"
  shows "conn_inv d"
  using assms
proof (induction rule: conn_step.induct)
  case (app_write c pick p)
  have "conn_inv (if localEcho c then emit pick c p else c)" if "p \<noteq> []"
    using app_write that by (simp add: emit_inv)
  then show ?case
    using app_write
    by (auto simp: Write_def Let_def sock_write_def fail_inv split: option.splits if_splits)
      (auto simp: conn_inv_def)
next
  case (app_read c n)
  then show ?case
    by (cases "dataq c") (auto simp: Read_def conn_inv_def)
next
  case (app_resize c w h)
  then show ?case by (simp add: Resize_def Let_def sendNAWS_inv)
next
  case (app_close c)
  then show ?case by (simp add: Close_def close_once_inv)
next
  case (reader c pick chunk err)
  then show ?case by (simp add: Let_def consume_inv fail_inv split: option.split)
next
  case (wire_breaks c e)
  then show ?case by (simp add: conn_inv_def)
qed

text \<open>Once the connection is done a write finds a closed socket and changes nothing.\<close>

lemma writeRaw_done: "conn_inv c \<Longrightarrow> is_done c \<Longrightarrow> writeRaw c b = c"
  by (simp add: writeRaw_def sock_write_def fail_def close_once_def conn_inv_def)

definition same_end :: "conn \<Rightarrow> conn \<Rightarrow> bool" where
  "same_end c d \<longleftrightarrow> is_done d \<and> sent (sock d) = sent (sock c) \<and> failure d = failure c"

lemma negotiate_done: "conn_inv c \<Longrightarrow> is_done c \<Longrightarrow> same_end c (negotiate c cmd opt)"
  by (simp add: negotiate_parts sendCommand_def sendNAWS_def same_end_def writeRaw_done split: prod.split)

lemma step_done: "conn_inv c \<Longrightarrow> is_done c \<Longrightarrow> same_end c (fst (step c b))"
  using negotiate_done [of c "command c" b]
  by (cases "pstate c") (auto simp: step_def same_end_def subnegotiation_def writeRaw_done)

lemma feed_done: "conn_inv c \<Longrightarrow> is_done c \<Longrightarrow> same_end c (fst (feed c bs))"
proof (induction bs arbitrary: c)
  case Nil
  then show ?case by (simp add: same_end_def)
next
  case (Cons b bs)
  from step_done [OF Cons.prems, of b] Cons.IH [OF step_inv [OF Cons.prems(1)], of b] show ?case
    by (simp add: same_end_def case_prod_beta)
qed

lemma consume_done: "conn_inv c \<Longrightarrow> is_done c \<Longrightarrow> same_end c (consume pick c chunk)"
  using feed_done [of c chunk]
  by (auto simp: consume_def emit_def same_end_def split: prod.split)

lemma fail_after_done: "conn_inv c \<Longrightarrow> is_done c \<Longrightarrow> fail c e = c"
  by (simp add: fail_def close_once_def conn_inv_def)

lemma conn_step_done:
  assumes "conn_step c d" and "conn_inv c" and "is_done c"
  shows "same_end c d"
  using assms
proof (induction rule: conn_step.induct)
  case (app_write c pick p)
  then show ?case by (simp add: Write_def isClosed_def conn_inv_def same_end_def)
next
  case (app_read c n)
  then show ?case by (cases "dataq c") (simp_all add: Read_def same_end_def)
next
  case (app_resize c w h)
  have "writeRaw (c\<lparr>cols := w, rows := h\<rparr>) b = c\<lparr>cols := w, rows := h\<rparr>" for b
    using app_resize by (simp add: writeRaw_done)
  with app_resize show ?case by (simp add: Resize_def Let_def sendNAWS_def same_end_def)
next
  case (app_close c)
  then show ?case by (simp add: Close_def close_once_def same_end_def)
next
  case (reader c pick chunk err)
  from reader.prems consume_done [of c pick chunk] consume_inv [of c pick chunk] show ?case
    by (auto simp: Let_def same_end_def fail_after_done split: option.split)
next
  case (wire_breaks c e)
  then show ?case by (simp add: same_end_def)
qed

lemma conn_run_inv: "conn_step\<^sup>*\<^sup>* c d \<Longrightarrow> conn_inv c \<Longrightarrow> conn_inv d"
  by (induction rule: rtranclp_induct) (auto intro: conn_step_inv)

lemma conn_run_done: "conn_step\<^sup>*\<^sup>* c d \<Longrightarrow> conn_inv c \<Longrightarrow> is_done c \<Longrightarrow> same_end c d"
proof (induction rule: rtranclp_induct)
  case base
  then show ?case by (simp add: same_end_def)
next
  case (step d e)
  then have "same_end c d" and "conn_inv d" using conn_run_inv by auto
  moreover from this have "is_done d" by (simp add: same_end_def)
  ultimately show ?case using conn_step_done [OF step.hyps(2)] by (simp add: same_end_def)
qed

lemma new_conn_inv: "\<not> sock_closed s \<Longrightarrow> conn_inv (new_conn s k)"
  by (simp add: conn_inv_def new_conn_def)

text \<open>
  C5 (safety). However writes, reads, resizes, closes, socket reads and wire faults interleave:
  the subnegotiation buffer never passes 256 bytes, a hangup is never reported as a fault, and
  once the connection has ended (by a close or by a failure) nothing more is written to the
  device and the recorded cause never changes.
\<close>

theorem connection_end_is_final:
  assumes "\<not> sock_closed s" and "conn_step\<^sup>*\<^sup>* (new_conn s k) c" and "conn_step\<^sup>*\<^sup>* c d"
  shows "length (sbBuf c) \<le> 256 \<and> failure c \<noteq> Some EOF \<and> failure c \<noteq> Some ErrNetClosed
    \<and> (is_done c \<longrightarrow> is_done d \<and> sent (sock d) = sent (sock c) \<and> failure d = failure c)"
proof -
  have "conn_inv c" using conn_run_inv [OF assms(2) new_conn_inv [OF assms(1)]] .
  then show ?thesis
    using conn_run_done [OF assms(3)] by (auto simp: conn_inv_def same_end_def)
qed

theorem connection_end_is_final_witness:
  "is_done (fst (Close (new_conn demo_socket demo_config)))
    \<and> sent (sock (fst (Write False (fst (Close (new_conn demo_socket demo_config))) [1]))) = []"
proof -
  let ?n = "new_conn demo_socket demo_config"
  have 1: "conn_step\<^sup>*\<^sup>* ?n (fst (Close ?n))"
    by (rule r_into_rtranclp) (rule conn_step.app_close)
  have 2: "conn_step\<^sup>*\<^sup>* (fst (Close ?n)) (fst (Write False (fst (Close ?n)) [1]))"
    by (rule r_into_rtranclp) (rule conn_step.app_write)
  have d: "is_done (fst (Close ?n))" and s: "sent (sock (fst (Close ?n))) = []"
    by (simp_all add: Close_def close_once_def new_conn_def demo_socket_def)
  have "\<not> sock_closed demo_socket" by (simp add: demo_socket_def)
  from connection_end_is_final [OF this 1 2] d s show ?thesis by simp
qed

subsection \<open>Nothing read is lost\<close>

definition pending :: "conn \<Rightarrow> byte list" where
  "pending c = partial c @ concat (dataq c)"

text \<open>
  A \<^verbatim>\<open>Read\<close> with room in its buffer hands over the next bytes of
  what the parser produced, in order and never none while some are pending; it blocks or reports
  the end only when everything has been handed over.
\<close>

theorem read_delivers_pending:
  assumes "0 < n" and "[] \<notin> set (dataq c)" and "Read c n = (d, r)"
  shows "(case r of
       ReadData xs \<Rightarrow> pending c = xs @ pending d \<and> xs \<noteq> [] \<and> length xs \<le> n
     | _ \<Rightarrow> pending c = [] \<and> d = c)"
proof (cases "partial c = []")
  case False
  then have "d = c\<lparr>partial := drop n (partial c)\<rparr>" and "r = ReadData (take n (partial c))"
    using assms(1,3) by (auto simp: Read_def)
  with False assms(1) show ?thesis by (simp add: pending_def)
next
  case True
  show ?thesis
  proof (cases "dataq c")
    case Nil
    with True assms(1,3) show ?thesis
      by (auto simp: Read_def pending_def split: if_splits option.splits)
  next
    case (Cons chunk rest)
    then have "d = c\<lparr>dataq := rest, partial := drop n chunk\<rparr>" and "r = ReadData (take n chunk)"
      using True assms(1,3) by (auto simp: Read_def)
    with True Cons assms(1,2) show ?thesis by (auto simp: pending_def)
  qed
qed

theorem read_delivers_pending_witness:
  "pending (new_conn demo_socket demo_config\<lparr>dataq := [[1, 2, 3]]\<rparr>)
     = [1, 2] @ pending (new_conn demo_socket demo_config\<lparr>partial := [3]\<rparr>)"
proof -
  let ?c = "new_conn demo_socket demo_config\<lparr>dataq := [[1, 2, 3]]\<rparr>"
  have "Read ?c 2 = (?c\<lparr>dataq := [], partial := [3]\<rparr>, ReadData [1, 2])"
    by (simp add: Read_def new_conn_def)
  from read_delivers_pending [OF _ _ this] show ?thesis by (simp add: new_conn_def)
qed

end
