(* ===== verification/Shell.thy ===== *)
theory Shell
  imports Prelude
begin

section \<open>The shell interface (\<^verbatim>\<open>internal/terminal/shell.go\<close>)\<close>

text \<open>
  A terminal is written against the \<^verbatim>\<open>Shell\<close> interface, and the login sequence and the
  triggers are wrappers that implement it over another one. The locale \<open>shell_writes\<close> is the
  part of that contract the wrappers depend on: a write either reaches the far end whole or
  fails and changes nothing. \<open>wire\<close> is the innermost shell, the protocol connection: what was
  written to it, how many more writes it will take before it fails (\<open>None\<close>: any number), and
  whether it was closed. A wrapper's model is polymorphic in the shell beneath it and takes that
  shell's \<^verbatim>\<open>Write\<close> as an argument, as the embedded interface value does in the code.
\<close>

type_synonym 's writer = "'s \<Rightarrow> string \<Rightarrow> 's \<times> bool"

record wire =
  written :: "string list"
  budget :: "nat option"
  hung_up :: bool

definition wire_ready :: "wire \<Rightarrow> bool" where
  "wire_ready w \<longleftrightarrow> \<not> hung_up w \<and> budget w \<noteq> Some 0"

definition wire_write :: "wire writer" where
  "wire_write w p =
     (if wire_ready w
      then (w\<lparr>written := written w @ [p], budget := map_option (\<lambda>n. n - 1) (budget w)\<rparr>, True)
      else (w, False))"

definition wire_close :: "wire \<Rightarrow> wire" where
  "wire_close w = w\<lparr>hung_up := True\<rparr>"

text \<open>A loop that writes one thing after another and gives up at the first error.\<close>

fun write_all :: "'s writer \<Rightarrow> 's \<Rightarrow> string list \<Rightarrow> 's \<times> bool" where
  "write_all wr s [] = (s, True)"
| "write_all wr s (p # ps) =
     (case wr s p of (s', ok) \<Rightarrow> if ok then write_all wr s' ps else (s', False))"

locale shell_writes =
  fixes log :: "'s \<Rightarrow> string list"
    and ready :: "'s \<Rightarrow> bool"
    and lasting :: "'s \<Rightarrow> bool"
    and wr :: "'s writer"
  assumes write_ready: "ready s \<Longrightarrow> log (fst (wr s p)) = log s @ [p] \<and> snd (wr s p)"
    and write_refused: "\<not> ready s \<Longrightarrow> log (fst (wr s p)) = log s \<and> \<not> snd (wr s p)"
    and lasting_ready: "lasting s \<Longrightarrow> ready s"
    and write_lasting: "lasting s \<Longrightarrow> lasting (fst (wr s p))"
begin

text \<open>What a write loop gets through is a prefix of what it was given.\<close>

lemma write_all_prefix:
  "\<exists>k \<le> length ps. log (fst (write_all wr s ps)) = log s @ take k ps
     \<and> (snd (write_all wr s ps) \<longleftrightarrow> k = length ps)"
proof (induction ps arbitrary: s)
  case Nil
  then show ?case by simp
next
  case (Cons p ps)
  show ?case
  proof (cases "ready s")
    case True
    with Cons.IH [of "fst (wr s p)"] write_ready [of s p] obtain k where
      "k \<le> length ps" "log (fst (write_all wr (fst (wr s p)) ps)) = log s @ [p] @ take k ps"
      "snd (write_all wr (fst (wr s p)) ps) \<longleftrightarrow> k = length ps" by auto
    then show ?thesis
      using write_ready [OF True, of p] by (intro exI [of _ "Suc k"]) (simp add: case_prod_beta)
  next
    case False
    then show ?thesis
      using write_refused [of s p] by (intro exI [of _ 0]) (simp add: case_prod_beta)
  qed
qed

lemma write_all_lasting:
  assumes "lasting s"
  shows "log (fst (write_all wr s ps)) = log s @ ps" and "snd (write_all wr s ps)"
    and "lasting (fst (write_all wr s ps))"
  using assms write_ready [OF lasting_ready] write_lasting
  by (induction ps arbitrary: s) (auto simp: case_prod_beta)

end

definition wire_lasting :: "wire \<Rightarrow> bool" where
  "wire_lasting w \<longleftrightarrow> \<not> hung_up w \<and> budget w = None"

interpretation wire: shell_writes written wire_ready wire_lasting wire_write
  by unfold_locales (auto simp: wire_write_def wire_lasting_def wire_ready_def)

end
