(* ===== verification/Logon.thy ===== *)
theory Logon
  imports Shell
begin

section \<open>Login sequences (\<^verbatim>\<open>internal/sessions/logon.go\<close>, \<^verbatim>\<open>internal/terminal/logon.go\<close>)\<close>

text \<open>
  The steps a connection types at a device's own login prompt, the one-pass expansion of send
  templates (shared with the triggers), and the shell wrapper that runs a sequence while it
  passes everything through. A Go string and a \<^verbatim>\<open>[]byte\<close> of terminal data are both a
  \<open>string\<close> here. Times are nanoseconds since an epoch.
\<close>

subsection \<open>The steps\<close>

definition PlaceholderUsername :: string where "PlaceholderUsername = ''%USERNAME%''"
definition PlaceholderPassword :: string where "PlaceholderPassword = ''%PASSWORD%''"
definition MaxLogonSteps :: nat where "MaxLogonSteps = 8"

record LogonStep =
  Expect :: string
  Send :: string

datatype logon_error = ExpectTooLong | SendTooLong | EmptyStep
  | TooManySteps nat | InStep nat logon_error

definition Validate_step :: "LogonStep \<Rightarrow> (logon_error, unit) result" where
  "Validate_step s =
     (if length (Expect s) > 128 then Inl ExpectTooLong
      else if length (Send s) > 512 then Inl SendTooLong
      else if Expect s = '''' \<and> Send s = '''' then Inl EmptyStep
      else Inr ())"

fun validate_steps_from :: "nat \<Rightarrow> LogonStep list \<Rightarrow> (logon_error, unit) result" where
  "validate_steps_from i [] = Inr ()"
| "validate_steps_from i (s # ss) =
     (case Validate_step s of Inl e \<Rightarrow> Inl (InStep (i + 1) e) | Inr _ \<Rightarrow> validate_steps_from (i + 1) ss)"

definition ValidateLogonSteps :: "LogonStep list \<Rightarrow> (logon_error, unit) result" where
  "ValidateLogonSteps steps =
     (if length steps > MaxLogonSteps then Inl (TooManySteps (length steps))
      else validate_steps_from 0 steps)"

definition DefaultLogonSteps :: "LogonStep list" where
  "DefaultLogonSteps =
     [\<lparr>Expect = ''ogin:|sername:'', Send = PlaceholderUsername @ [CHR 0x5C, CHR ''r'']\<rparr>,
      \<lparr>Expect = ''assword:'', Send = PlaceholderPassword @ [CHR 0x5C, CHR ''r'']\<rparr>]"

definition Matches :: "LogonStep \<Rightarrow> string \<Rightarrow> bool" where
  "Matches s recent =
     (if Expect s = '''' then True
      else list_ex (\<lambda>alt. let a = trim_space alt in a \<noteq> '''' \<and> contains_sub (to_lower recent) (to_lower a))
             (split_on (CHR ''|'') (Expect s)))"

subsection \<open>Expanding a template\<close>

text \<open>What the inner switch writes for the character after a backslash.\<close>

definition unescape :: "char \<Rightarrow> string" where
  "unescape c =
     (if c = CHR ''r'' then [CHR 0x0D]
      else if c = CHR ''n'' then [CHR 0x0A]
      else if c = CHR ''t'' then [CHR 0x09]
      else if c = CHR 0x5C then [CHR 0x5C]
      else [CHR 0x5C, c])"

definition capture_digit :: "char \<Rightarrow> bool" where
  "capture_digit c \<longleftrightarrow> 49 \<le> (of_char c :: nat) \<and> (of_char c :: nat) \<le> 57"

definition capture :: "string list \<Rightarrow> char \<Rightarrow> string" where
  "capture captures c =
     (let index = of_char c - 48 in if index < length captures then captures ! index else '''')"

text \<open>
  The loop of \<^verbatim>\<open>Expand\<close>, on what is left of the template (\<^verbatim>\<open>send[i:]\<close>). The arms
  are tried in the order of the source.
\<close>

function Expand :: "string \<Rightarrow> string \<Rightarrow> string \<Rightarrow> string list \<Rightarrow> string" where
  "Expand s username password captures =
     (case s of
        [] \<Rightarrow> []
      | c # rest \<Rightarrow>
          if c = CHR 0x5C \<and> rest \<noteq> []
            then unescape (hd rest) @ Expand (tl rest) username password captures
          else if has_prefix s PlaceholderUsername
            then username @ Expand (drop (length PlaceholderUsername) s) username password captures
          else if has_prefix s PlaceholderPassword
            then password @ Expand (drop (length PlaceholderPassword) s) username password captures
          else if c = CHR ''$'' \<and> rest \<noteq> [] \<and> capture_digit (hd rest)
            then capture captures (hd rest) @ Expand (tl rest) username password captures
          else c # Expand rest username password captures)"
  by pat_completeness auto
termination
  by (relation "measure (\<lambda>(s, _). length s)")
    (auto simp: PlaceholderUsername_def PlaceholderPassword_def)

declare Expand.simps [simp del]

definition ExpandSend :: "string \<Rightarrow> string \<Rightarrow> string \<Rightarrow> string" where
  "ExpandSend send username password = Expand send username password []"

definition SendsPassword :: "LogonStep \<Rightarrow> bool" where
  "SendsPassword s = contains_sub (Send s) PlaceholderPassword"

subsection \<open>A template is read once\<close>

text \<open>
  The specification: a template is a sequence of tokens, found without looking at any value,
  and its expansion replaces each token by its value. \<open>source_of\<close> is the text a token was
  written as.
\<close>

datatype token = Literal char | Escaped char | UserName | PassWord | CaptureRef char

fun source_of :: "token \<Rightarrow> string" where
  "source_of (Literal c) = [c]"
| "source_of (Escaped c) = [CHR 0x5C, c]"
| "source_of UserName = PlaceholderUsername"
| "source_of PassWord = PlaceholderPassword"
| "source_of (CaptureRef c) = [CHR ''$'', c]"

fun value_of :: "string \<Rightarrow> string \<Rightarrow> string list \<Rightarrow> token \<Rightarrow> string" where
  "value_of u p cs (Literal c) = [c]"
| "value_of u p cs (Escaped c) = unescape c"
| "value_of u p cs UserName = u"
| "value_of u p cs PassWord = p"
| "value_of u p cs (CaptureRef c) = capture cs c"

lemma has_prefix_drop: "has_prefix s p \<Longrightarrow> p @ drop (length p) s = s"
  by (auto simp: has_prefix_iff)

lemma placeholder_nonempty [simp]:
  "PlaceholderUsername \<noteq> []" "PlaceholderPassword \<noteq> []"
  by (simp_all add: PlaceholderUsername_def PlaceholderPassword_def)

lemma Expand_Cons:
  "Expand (c # rest) u p cs =
     (if c = CHR 0x5C \<and> rest \<noteq> [] then unescape (hd rest) @ Expand (tl rest) u p cs
      else if has_prefix (c # rest) PlaceholderUsername
        then u @ Expand (drop (length PlaceholderUsername) (c # rest)) u p cs
      else if has_prefix (c # rest) PlaceholderPassword
        then p @ Expand (drop (length PlaceholderPassword) (c # rest)) u p cs
      else if c = CHR ''$'' \<and> rest \<noteq> [] \<and> capture_digit (hd rest)
        then capture cs (hd rest) @ Expand (tl rest) u p cs
      else c # Expand rest u p cs)"
  by (subst Expand.simps) simp

lemma template_tokens:
  "\<exists>ts. concat (map source_of ts) = s
     \<and> (\<forall>u p cs. Expand s u p cs = concat (map (value_of u p cs) ts))"
proof (induction "length s" arbitrary: s rule: less_induct)
  case less
  show ?case
  proof (cases s)
    case Nil
    then show ?thesis by (intro exI [of _ "[]"]) (simp add: Expand.simps)
  next
    case s: (Cons c rest)
    have extend: ?thesis
      if shorter: "length s' < length s" and src: "source_of t @ s' = s"
        and eq: "\<And>u p cs. Expand s u p cs = value_of u p cs t @ Expand s' u p cs" for t s'
    proof -
      from less [OF shorter] obtain ts where
        "concat (map source_of ts) = s'"
        "\<forall>u p cs. Expand s' u p cs = concat (map (value_of u p cs) ts)" by blast
      then show ?thesis using src eq by (intro exI [of _ "t # ts"]) simp
    qed
    consider (esc) "c = CHR 0x5C \<and> rest \<noteq> []"
      | (user) "\<not> (c = CHR 0x5C \<and> rest \<noteq> [])" "has_prefix s PlaceholderUsername"
      | (pass) "\<not> (c = CHR 0x5C \<and> rest \<noteq> [])" "\<not> has_prefix s PlaceholderUsername"
          "has_prefix s PlaceholderPassword"
      | (cap) "\<not> (c = CHR 0x5C \<and> rest \<noteq> [])" "\<not> has_prefix s PlaceholderUsername"
          "\<not> has_prefix s PlaceholderPassword" "c = CHR ''$'' \<and> rest \<noteq> [] \<and> capture_digit (hd rest)"
      | (lit) "\<not> (c = CHR 0x5C \<and> rest \<noteq> [])" "\<not> has_prefix s PlaceholderUsername"
          "\<not> has_prefix s PlaceholderPassword" "\<not> (c = CHR ''$'' \<and> rest \<noteq> [] \<and> capture_digit (hd rest))"
      by blast
    then show ?thesis
    proof cases
      case esc
      show ?thesis
        by (rule extend [of "tl rest" "Escaped (hd rest)"]) (use esc s Expand_Cons in auto)
    next
      case user
      show ?thesis
        by (rule extend [of "drop (length PlaceholderUsername) s" UserName])
          (use user s Expand_Cons has_prefix_drop [OF user(2)] in auto)
    next
      case pass
      show ?thesis
        by (rule extend [of "drop (length PlaceholderPassword) s" PassWord])
          (use pass s Expand_Cons has_prefix_drop [OF pass(3)] in auto)
    next
      case cap
      show ?thesis
        by (rule extend [of "tl rest" "CaptureRef (hd rest)"]) (use cap s Expand_Cons in auto)
    next
      case lit
      show ?thesis
        by (rule extend [of rest "Literal c"]) (use lit s Expand_Cons in auto)
    qed
  qed
qed

subsection \<open>Running a sequence\<close>

text \<open>
  \<^verbatim>\<open>logonShell\<close> over a shell of type \<open>'s\<close>, which embeds it. \<^verbatim>\<open>observe\<close> matches under
  the lock (\<open>observe_match\<close>) and then writes outside it.
\<close>

definition LogonTimeout :: int where "LogonTimeout = 90 * 10 ^ 9"
definition logonWindow :: nat where "logonWindow = 128"

record 's logonShell =
  inner :: 's
  steps :: "LogonStep list"
  username :: string
  password :: string
  window :: string
  deadline :: int
  finished :: bool
  steps_sent :: nat

text \<open>\<open>None\<close> is the shell returned unwrapped.\<close>

definition WithLogon :: "int \<Rightarrow> 's \<Rightarrow> LogonStep list \<Rightarrow> string \<Rightarrow> string \<Rightarrow> 's logonShell option" where
  "WithLogon now shell ss u p =
     (if ss = [] then None
      else Some \<lparr>inner = shell, steps = ss, username = u, password = p, window = '''',
                 deadline = now + LogonTimeout, finished = False, steps_sent = 0\<rparr>)"

text \<open>
  The loop over the steps: what is left of them, the window, how many fired, what to send.
\<close>

fun fire_steps :: "string \<Rightarrow> string \<Rightarrow> LogonStep list \<Rightarrow> string \<Rightarrow> LogonStep list \<times> string \<times> nat \<times> string list" where
  "fire_steps u p [] win = ([], win, 0, [])"
| "fire_steps u p (s # ss) win =
     (if \<not> Matches s win then (s # ss, win, 0, [])
      else case fire_steps u p ss '''' of (ss', win', n, out) \<Rightarrow>
        (ss', win', n + 1, (if Send s \<noteq> '''' then [ExpandSend (Send s) u p] else []) @ out))"

definition last_bytes :: "nat \<Rightarrow> string \<Rightarrow> string" where
  "last_bytes n s = (if length s > n then drop (length s - n) s else s)"

definition observe_match :: "int \<Rightarrow> 's logonShell \<Rightarrow> string \<Rightarrow> 's logonShell \<times> string list" where
  "observe_match now l chunk =
     (if finished l then (l, [])
      else if now > deadline l then (l\<lparr>finished := True\<rparr>, [])
      else case fire_steps (username l) (password l) (steps l) (last_bytes logonWindow (window l @ chunk)) of
        (ss, win, n, out) \<Rightarrow>
          (l\<lparr>steps := ss, window := win, steps_sent := steps_sent l + n, finished := (ss = [])\<rparr>, out))"

text \<open>
  The write loop after the lock is released, one text at a time, since a person's typing can come
  between any two of them: an error ends the sequence and forgets the rest.
\<close>

definition logon_send :: "'s writer \<Rightarrow> 's logonShell \<Rightarrow> string list \<Rightarrow> 's logonShell \<times> string list" where
  "logon_send wr l toSend =
     (case toSend of [] \<Rightarrow> (l, [])
      | out # rest \<Rightarrow> (case wr (inner l) out of (s, ok) \<Rightarrow>
          if ok then (l\<lparr>inner := s\<rparr>, rest) else (l\<lparr>inner := s, finished := True\<rparr>, [])))"

text \<open>\<^verbatim>\<open>Write\<close>, in the two steps it has: abandoning the sequence under the lock, and the write.\<close>

definition logon_press :: "'s logonShell \<Rightarrow> string \<Rightarrow> 's logonShell" where
  "logon_press l p = (if p \<noteq> '''' then l\<lparr>finished := True\<rparr> else l)"

definition logon_deliver :: "'s writer \<Rightarrow> 's logonShell writer" where
  "logon_deliver wr l p = (case wr (inner l) p of (s, ok) \<Rightarrow> (l\<lparr>inner := s\<rparr>, ok))"

definition logon_Write :: "'s writer \<Rightarrow> 's logonShell writer" where
  "logon_Write wr l p = logon_deliver wr (logon_press l p) p"

definition StepsSent :: "'s logonShell \<Rightarrow> nat" where
  "StepsSent l = steps_sent l"

text \<open>
  \<^verbatim>\<open>observe\<close> and \<^verbatim>\<open>Read\<close> when nothing comes between their steps. \<^verbatim>\<open>Read\<close> hands on the bytes
  the inner shell delivered at time \<open>now\<close> unchanged, and watches them when there are any.
\<close>

definition logon_observe :: "'s writer \<Rightarrow> int \<Rightarrow> 's logonShell \<Rightarrow> string \<Rightarrow> 's logonShell" where
  "logon_observe wr now l chunk =
     (case observe_match now l chunk of (l1, out) \<Rightarrow>
      case write_all wr (inner l1) out of (s, ok) \<Rightarrow>
        (if ok then l1\<lparr>inner := s\<rparr> else l1\<lparr>inner := s, finished := True\<rparr>))"

definition logon_Read :: "'s writer \<Rightarrow> int \<Rightarrow> 's logonShell \<Rightarrow> string \<Rightarrow> 's logonShell \<times> string" where
  "logon_Read wr now l p = ((if p \<noteq> '''' then logon_observe wr now l p else l), p)"

text \<open>The wrapper is itself a shell that keeps the write contract of the one beneath.\<close>

lemma logon_shell_writes:
  assumes "shell_writes log ready lasting wr"
  shows "shell_writes (log \<circ> inner) (ready \<circ> inner) (lasting \<circ> inner) (logon_Write wr)"
  using assms unfolding shell_writes_def
  by (simp add: logon_Write_def logon_deliver_def logon_press_def case_prod_beta)

interpretation logon: shell_writes "written \<circ> inner" "wire_ready \<circ> inner" "wire_lasting \<circ> inner"
    "logon_Write wire_write"
  by (rule logon_shell_writes) (rule wire.shell_writes_axioms)

subsection \<open>The two goroutines\<close>

text \<open>
  One goroutine reads the device and another passes on what the person types, over one shell. What
  the reader has collected and not written yet, and the keystrokes between the two steps of
  \<^verbatim>\<open>Write\<close>, are part of the run; a read begins only when the one before has written
  everything. Every list of actions is a schedule.
\<close>

record 's logon_run =
  shell_of :: "'s logonShell"
  pend :: "string list"
  keys :: "string list"

datatype logon_action = Arrive int string | Send_next | Press string | Deliver

fun logon_act :: "'s writer \<Rightarrow> 's logon_run \<Rightarrow> logon_action \<Rightarrow> 's logon_run" where
  "logon_act wr r (Arrive now chunk) =
     (if pend r \<noteq> [] \<or> chunk = '''' then r
      else case observe_match now (shell_of r) chunk of (l, out) \<Rightarrow> r\<lparr>shell_of := l, pend := out\<rparr>)"
| "logon_act wr r Send_next =
     (case logon_send wr (shell_of r) (pend r) of (l, rest) \<Rightarrow> r\<lparr>shell_of := l, pend := rest\<rparr>)"
| "logon_act wr r (Press p) = r\<lparr>shell_of := logon_press (shell_of r) p, keys := keys r @ [p]\<rparr>"
| "logon_act wr r Deliver =
     (case keys r of [] \<Rightarrow> r
      | p # ps \<Rightarrow> r\<lparr>shell_of := fst (logon_deliver wr (shell_of r) p), keys := ps\<rparr>)"

definition start_run :: "'s logonShell \<Rightarrow> 's logon_run" where
  "start_run l = \<lparr>shell_of = l, pend = [], keys = []\<rparr>"

definition run_logon :: "'s writer \<Rightarrow> 's logonShell \<Rightarrow> logon_action list \<Rightarrow> 's logon_run" where
  "run_logon wr l as = foldl (logon_act wr) (start_run l) as"

fun presses :: "logon_action list \<Rightarrow> string list" where
  "presses [] = []"
| "presses (a # as) = (case a of Press p \<Rightarrow> p # presses as | _ \<Rightarrow> presses as)"

lemma presses_append [simp]: "presses (as @ bs) = presses as @ presses bs"
  by (induction as) (auto split: logon_action.split)

text \<open>The whole operations are schedules in which nothing comes between.\<close>

lemma sends_uninterrupted:
  "foldl (logon_act wr) \<lparr>shell_of = l, pend = out, keys = ks\<rparr> (replicate (length out) Send_next)
     = (case write_all wr (inner l) out of (s, ok) \<Rightarrow>
         \<lparr>shell_of = (if ok then l\<lparr>inner := s\<rparr> else l\<lparr>inner := s, finished := True\<rparr>), pend = [], keys = ks\<rparr>)"
proof (induction out arbitrary: l)
  case (Cons q qs)
  have idle: "foldl (logon_act wr) \<lparr>shell_of = l', pend = [], keys = ks\<rparr> (replicate n Send_next)
      = \<lparr>shell_of = l', pend = [], keys = ks\<rparr>" for l' n
    by (induction n) (simp_all add: logon_send_def)
  obtain s ok where "wr (inner l) q = (s, ok)" by fastforce
  then show ?case using Cons.IH [of "l\<lparr>inner := s\<rparr>"]
    by (cases ok) (simp_all add: logon_send_def idle split: prod.splits)
qed simp

lemma observe_uninterrupted:
  assumes "observe_match now l chunk = (l1, out)" and "chunk \<noteq> ''''"
  shows "foldl (logon_act wr) \<lparr>shell_of = l, pend = [], keys = ks\<rparr> (Arrive now chunk # replicate (length out) Send_next)
    = \<lparr>shell_of = logon_observe wr now l chunk, pend = [], keys = ks\<rparr>"
  using assms sends_uninterrupted [of wr l1 out ks]
  by (auto simp: logon_observe_def split: prod.split)

lemma write_uninterrupted:
  "foldl (logon_act wr) \<lparr>shell_of = l, pend = out, keys = []\<rparr> [Press p, Deliver]
     = \<lparr>shell_of = fst (logon_Write wr l p), pend = out, keys = []\<rparr>"
  by (simp add: logon_Write_def)

text \<open>What the first \<open>k\<close> steps of a sequence type.\<close>

definition script :: "string \<Rightarrow> string \<Rightarrow> LogonStep list \<Rightarrow> string list" where
  "script u p ss = map (\<lambda>s. ExpandSend (Send s) u p) (filter (\<lambda>s. Send s \<noteq> '''') ss)"

lemma script_take_add:
  "script u p (take n ss) @ script u p (take k (drop n ss)) = script u p (take (n + k) ss)"
  by (simp add: script_def take_add)

lemma fire_steps_script:
  assumes "fire_steps u p ss win = (ss', win', n, out)"
  shows "n \<le> length ss \<and> ss' = drop n ss \<and> out = script u p (take n ss)"
  using assms
proof (induction ss arbitrary: win ss' win' n out)
  case Nil
  then show ?case by (simp add: script_def)
next
  case (Cons s ss)
  show ?case
  proof (cases "Matches s win")
    case False
    with Cons.prems show ?thesis by (auto simp: script_def)
  next
    case True
    obtain ss1 win1 n1 out1 where f: "fire_steps u p ss '''' = (ss1, win1, n1, out1)"
      by (metis prod_cases4)
    from Cons.IH [OF f] Cons.prems True f show ?thesis by (auto simp: script_def)
  qed
qed

text \<open>
  One read: some number of further steps fire, in order; nothing fires once the sequence is
  finished, and a finished sequence stays finished.
\<close>

lemma observe_match_script:
  assumes "observe_match now l chunk = (l1, out)"
  shows "\<exists>n \<le> length (steps l). steps l1 = drop n (steps l) \<and> steps_sent l1 = steps_sent l + n
     \<and> out = script (username l) (password l) (take n (steps l)) \<and> inner l1 = inner l
     \<and> username l1 = username l \<and> password l1 = password l \<and> (finished l \<longrightarrow> n = 0 \<and> finished l1)"
proof (cases "finished l \<or> now > deadline l")
  case True
  with assms show ?thesis by (auto simp: observe_match_def script_def split: if_splits)
next
  case False
  obtain ss win n o1 where f:
    "fire_steps (username l) (password l) (steps l) (last_bytes logonWindow (window l @ chunk))
       = (ss, win, n, o1)"
    by (metis prod_cases4)
  from fire_steps_script [OF f] False f assms show ?thesis
    by (intro exI [of _ n]) (auto simp: observe_match_def)
qed

lemma shuffles_snoc:
  assumes "zs \<in> shuffles xs ys"
  shows "zs @ [z] \<in> shuffles (xs @ [z]) ys" and "zs @ [z] \<in> shuffles xs (ys @ [z])"
proof -
  have left: "zs \<in> shuffles xs ys \<Longrightarrow> zs @ [z] \<in> shuffles (xs @ [z]) ys" for xs ys zs :: "'x list" and z
  proof (induction xs ys arbitrary: zs rule: shuffles.induct)
    case (1 ys)
    then have "zs = ys" by simp
    moreover have "ys @ [z] \<in> shuffles [z] ys" by (induction ys) (auto simp: Cons_in_shuffles_iff)
    ultimately show ?case by simp
  next
    case (3 x xs y ys)
    then show ?case by (auto simp: Cons_in_shuffles_iff)
  qed simp
  from left [OF assms] show "zs @ [z] \<in> shuffles (xs @ [z]) ys" .
  from left [of zs ys xs z] assms show "zs @ [z] \<in> shuffles xs (ys @ [z])" by (simp add: shuffles_commutes)
qed

text \<open>
  What a run has written since a moment: an interleaving of a part of what the reader had collected
  or collected since, and of the keystrokes, each in their order; \<open>kept\<close> is what the moment
  left to be written, \<open>since\<close> what was collected after it.
\<close>

definition interleaved :: "('s \<Rightarrow> string list) \<Rightarrow> string list \<Rightarrow> string list \<Rightarrow> string list \<Rightarrow> 's logon_run \<Rightarrow> bool" where
  "interleaved log before texts pressed r \<longleftrightarrow>
     (\<exists>sent typed w. texts = sent @ pend r \<and> pressed = typed @ keys r \<and> w \<in> shuffles sent typed
        \<and> log (inner (shell_of r)) = before @ w)"

context shell_writes
begin

text \<open>One action: the texts it collected, none once the sequence has ended, and the keys it took.\<close>

lemma action_interleaves:
  fixes r :: "'s logon_run" and a :: logon_action
  assumes "lasting (inner (shell_of r))" and "interleaved log before texts pressed r"
  defines "r' \<equiv> logon_act wr r a"
  shows "\<exists>n \<le> length (steps (shell_of r)). steps (shell_of r') = drop n (steps (shell_of r))
     \<and> steps_sent (shell_of r') = steps_sent (shell_of r) + n
     \<and> username (shell_of r') = username (shell_of r) \<and> password (shell_of r') = password (shell_of r)
     \<and> lasting (inner (shell_of r')) \<and> (finished (shell_of r) \<longrightarrow> n = 0 \<and> finished (shell_of r'))
     \<and> interleaved log before
         (texts @ script (username (shell_of r)) (password (shell_of r)) (take n (steps (shell_of r))))
         (pressed @ presses [a]) r'"
proof -
  from assms(2) obtain sent typed w where w: "texts = sent @ pend r" "pressed = typed @ keys r"
    "w \<in> shuffles sent typed" "log (inner (shell_of r)) = before @ w"
    unfolding interleaved_def by blast
  note ready = write_ready [OF lasting_ready [OF assms(1)]] and last = write_lasting [OF assms(1)]
  show ?thesis
  proof (cases a)
    case (Arrive now chunk)
    show ?thesis
    proof (cases "pend r \<noteq> [] \<or> chunk = ''''")
      case True
      with assms(1,2) show ?thesis by (intro exI [of _ 0]) (auto simp: r'_def Arrive script_def)
    next
      case False
      obtain l out where m: "observe_match now (shell_of r) chunk = (l, out)" by fastforce
      from observe_match_script [OF m] obtain n where "n \<le> length (steps (shell_of r))"
        "steps l = drop n (steps (shell_of r))" "steps_sent l = steps_sent (shell_of r) + n"
        "out = script (username (shell_of r)) (password (shell_of r)) (take n (steps (shell_of r)))"
        "inner l = inner (shell_of r)" "username l = username (shell_of r)" "password l = password (shell_of r)"
        "finished (shell_of r) \<longrightarrow> n = 0 \<and> finished l" by blast
      with False m w assms(1) show ?thesis
        by (intro exI [of _ n]) (auto simp: r'_def Arrive interleaved_def)
    qed
  next
    case Send_next
    show ?thesis
    proof (cases "pend r")
      case Nil
      with assms(1,2) show ?thesis
        by (intro exI [of _ 0]) (auto simp: r'_def Send_next logon_send_def script_def interleaved_def)
    next
      case (Cons q qs)
      have "w @ [q] \<in> shuffles (sent @ [q]) typed" by (rule shuffles_snoc(1) [OF w(3)])
      with w Cons ready [of q] have "interleaved log before texts pressed r'"
        unfolding interleaved_def r'_def Send_next
        by (intro exI [of _ "sent @ [q]"] exI [of _ typed] exI [of _ "w @ [q]"])
          (simp add: logon_send_def case_prod_beta)
      with Cons ready [of q] last [of q] show ?thesis
        by (intro exI [of _ 0]) (simp add: r'_def Send_next logon_send_def case_prod_beta script_def)
    qed
  next
    case (Press p)
    with w assms(1) show ?thesis
      by (intro exI [of _ 0]) (auto simp: r'_def logon_press_def script_def interleaved_def)
  next
    case Deliver
    show ?thesis
    proof (cases "keys r")
      case Nil
      with assms(1,2) show ?thesis by (intro exI [of _ 0]) (auto simp: r'_def Deliver script_def)
    next
      case (Cons q qs)
      have "w @ [q] \<in> shuffles sent (typed @ [q])" by (rule shuffles_snoc(2) [OF w(3)])
      with w Cons ready [of q] have "interleaved log before texts pressed r'"
        unfolding interleaved_def r'_def Deliver
        by (intro exI [of _ sent] exI [of _ "typed @ [q]"] exI [of _ "w @ [q]"])
          (simp add: logon_deliver_def case_prod_beta)
      with Cons ready [of q] last [of q] show ?thesis
        by (intro exI [of _ 0]) (simp add: r'_def Deliver logon_deliver_def case_prod_beta script_def)
    qed
  qed
qed

text \<open>A whole schedule: the steps fire in order, and none once the sequence has ended.\<close>

lemma run_interleaves:
  fixes r :: "'s logon_run" and as :: "logon_action list"
  assumes "lasting (inner (shell_of r))" and "interleaved log before texts pressed r"
  defines "r' \<equiv> foldl (logon_act wr) r as"
  shows "\<exists>n \<le> length (steps (shell_of r)). steps_sent (shell_of r') = steps_sent (shell_of r) + n
     \<and> lasting (inner (shell_of r')) \<and> (finished (shell_of r) \<longrightarrow> n = 0)
     \<and> interleaved log before
         (texts @ script (username (shell_of r)) (password (shell_of r)) (take n (steps (shell_of r))))
         (pressed @ presses as) r'"
  using assms(1,2) unfolding r'_def
proof (induction as arbitrary: r texts pressed)
  case Nil
  then show ?case by (intro exI [of _ 0]) (simp add: script_def)
next
  case (Cons a as)
  let ?r = "logon_act wr r a"
  from action_interleaves [OF Cons.prems, of a] obtain n where n: "n \<le> length (steps (shell_of r))"
    "steps (shell_of ?r) = drop n (steps (shell_of r))" "steps_sent (shell_of ?r) = steps_sent (shell_of r) + n"
    "username (shell_of ?r) = username (shell_of r)" "password (shell_of ?r) = password (shell_of r)"
    "lasting (inner (shell_of ?r))" "finished (shell_of r) \<longrightarrow> n = 0 \<and> finished (shell_of ?r)"
    "interleaved log before
       (texts @ script (username (shell_of r)) (password (shell_of r)) (take n (steps (shell_of r))))
       (pressed @ presses [a]) ?r" by blast
  from Cons.IH [OF n(6,8)] obtain k where k: "k \<le> length (steps (shell_of ?r))"
    "steps_sent (shell_of (foldl (logon_act wr) ?r as)) = steps_sent (shell_of ?r) + k"
    "lasting (inner (shell_of (foldl (logon_act wr) ?r as)))" "finished (shell_of ?r) \<longrightarrow> k = 0"
    "interleaved log before
       ((texts @ script (username (shell_of r)) (password (shell_of r)) (take n (steps (shell_of r))))
         @ script (username (shell_of ?r)) (password (shell_of ?r)) (take k (steps (shell_of ?r))))
       ((pressed @ presses [a]) @ presses as) (foldl (logon_act wr) ?r as)" by blast
  have pressed: "(pressed @ presses [a]) @ presses as = pressed @ presses (a # as)"
    by (simp split: logon_action.split)
  have texts: "(texts @ script (username (shell_of r)) (password (shell_of r)) (take n (steps (shell_of r))))
      @ script (username (shell_of ?r)) (password (shell_of ?r)) (take k (steps (shell_of ?r)))
    = texts @ script (username (shell_of r)) (password (shell_of r)) (take (n + k) (steps (shell_of r)))"
    by (simp only: n(2,4,5) append_assoc script_take_add)
  show ?case
  proof (intro exI [of _ "n + k"] conjI impI)
    show "interleaved log before
        (texts @ script (username (shell_of r)) (password (shell_of r)) (take (n + k) (steps (shell_of r))))
        (pressed @ presses (a # as)) (foldl (logon_act wr) r (a # as))"
      using k(5) unfolding texts pressed by simp
  qed (use n k in auto)
qed

lemma takeover:
  fixes s :: 's and as bs :: "logon_action list"
  assumes "WithLogon now s ss u p = Some l" and "lasting s" and "key \<noteq> ''''"
  defines "r \<equiv> run_logon wr l as" and "r' \<equiv> run_logon wr l (as @ Press key # bs)"
  shows "\<exists>k \<le> length ss. steps_sent (shell_of r) = k \<and> steps_sent (shell_of r') = k
     \<and> interleaved log (log s) (script u p (take k ss)) (presses as) r
     \<and> interleaved log (log (inner (shell_of r))) (pend r) (keys r @ key # presses bs) r'"
proof -
  from assms(1) have l: "inner l = s" "steps l = ss" "username l = u" "password l = p" "steps_sent l = 0"
    by (auto simp: WithLogon_def split: if_splits)
  have "interleaved log (log s) [] [] (start_run l)" by (simp add: interleaved_def start_run_def l)
  from run_interleaves [OF _ this, of as] l assms(2) obtain k where k: "k \<le> length ss"
    "steps_sent (shell_of r) = k" "lasting (inner (shell_of r))"
    "interleaved log (log s) (script u p (take k ss)) (presses as) r"
    by (auto simp: r_def run_logon_def start_run_def)
  let ?r = "logon_act wr r (Press key)"
  have r': "r' = foldl (logon_act wr) ?r bs" by (simp add: r'_def r_def run_logon_def)
  have "lasting (inner (shell_of ?r))" "finished (shell_of ?r)" "steps_sent (shell_of ?r) = steps_sent (shell_of r)"
    "interleaved log (log (inner (shell_of r))) (pend r) (keys r @ [key]) ?r"
    using k(3) assms(3) by (simp_all add: logon_press_def interleaved_def)
  with run_interleaves [of ?r "log (inner (shell_of r))" "pend r" "keys r @ [key]" bs] k show ?thesis
    unfolding r' by (auto simp: script_def)
qed

end

subsection \<open>Properties\<close>

text \<open>
  A send template is read in a single pass: it is a sequence of tokens found
  without looking at the username, the password or what the device printed, and the expansion is
  those tokens with their values put in verbatim, so that nothing inserted is interpreted again.
  A step that \<^verbatim>\<open>SendsPassword\<close> denies has no password token.
\<close>

theorem expand_single_pass:
  "\<exists>ts. concat (map source_of ts) = Send s
     \<and> (\<forall>u p cs. Expand (Send s) u p cs = concat (map (value_of u p cs) ts))
     \<and> (\<not> SendsPassword s \<longrightarrow> PassWord \<notin> set ts)"
proof -
  from template_tokens [of "Send s"] obtain ts where ts: "concat (map source_of ts) = Send s"
    "\<forall>u p cs. Expand (Send s) u p cs = concat (map (value_of u p cs) ts)" by blast
  have "SendsPassword s" if "PassWord \<in> set ts"
  proof -
    from that obtain as bs where "ts = as @ PassWord # bs" by (meson split_list)
    with ts(1) have "Send s = concat (map source_of as) @ PlaceholderPassword @ concat (map source_of bs)"
      by simp
    then show ?thesis unfolding SendsPassword_def contains_sub_iff by blast
  qed
  with ts show ?thesis by blast
qed

theorem expand_single_pass_witness:
  "\<exists>ts. concat (map source_of ts) = ''show %USERNAME%''
     \<and> (\<forall>u p cs. Expand ''show %USERNAME%'' u p cs = concat (map (value_of u p cs) ts))
     \<and> PassWord \<notin> set ts"
proof -
  have "\<not> SendsPassword \<lparr>Expect = '''', Send = ''show %USERNAME%''\<rparr>"
    by (simp add: SendsPassword_def PlaceholderPassword_def)
  with expand_single_pass [of "\<lparr>Expect = '''', Send = ''show %USERNAME%''\<rparr>"]
  show ?thesis by auto
qed

text \<open>
  C8 (safety). However the goroutine that reads a device and the one that passes on typing
  interleave: the steps of a login sequence fire in order and each at most once, their number is
  the count for the audit record, and what has been written is an interleaving of their texts, up
  to those the reader still holds, with what the person typed. From the first keystroke on no step
  fires, whatever the device prints, and what is written besides the typing is texts collected
  before that keystroke and not yet written when it came; with none of these in hand it is the
  typing alone.
\<close>

theorem typing_takes_over:
  fixes s :: wire and as bs :: "logon_action list"
  assumes "WithLogon now s ss u p = Some l" and "wire_lasting s" and "key \<noteq> ''''"
  defines "r \<equiv> run_logon wire_write l as" and "r' \<equiv> run_logon wire_write l (as @ Press key # bs)"
  defines "sofar \<equiv> written (inner (shell_of r))"
  shows "\<exists>k \<le> length ss. StepsSent (shell_of r) = k \<and> StepsSent (shell_of r') = k
     \<and> (\<exists>sent typed w. script u p (take k ss) = sent @ pend r \<and> presses as = typed @ keys r
          \<and> w \<in> shuffles sent typed \<and> sofar = written s @ w)
     \<and> (\<exists>late typed w. pend r = late @ pend r' \<and> keys r @ key # presses bs = typed @ keys r'
          \<and> w \<in> shuffles late typed \<and> written (inner (shell_of r')) = sofar @ w)"
  using wire.takeover [OF assms(1-3), of as bs] unfolding StepsSent_def interleaved_def r_def r'_def sofar_def .

definition demo_logon :: "wire logonShell" where
  "demo_logon = \<lparr>inner = \<lparr>written = [], budget = None, hung_up = False\<rparr>,
     steps = [\<lparr>Expect = '''', Send = ''go''\<rparr>], username = ''admin'', password = ''s3cret'', window = '''',
     deadline = LogonTimeout, finished = False, steps_sent = 0\<rparr>"

lemma demo_logon_run:
  "WithLogon 0 \<lparr>written = [], budget = None, hung_up = False\<rparr> [\<lparr>Expect = '''', Send = ''go''\<rparr>] ''admin'' ''s3cret''
     = Some demo_logon"
  by (simp add: WithLogon_def demo_logon_def)

theorem typing_takes_over_witness:
  "written (inner (shell_of (run_logon wire_write demo_logon [Press ''x'', Deliver, Arrive 5 ''Login: '', Send_next]))) = [''x'']"
proof -
  note bound = typing_takes_over [OF demo_logon_run, of "''x''" "[]" "[Deliver, Arrive 5 ''Login: '', Send_next]"]
  define r' where "r' = run_logon wire_write demo_logon ([] @ Press ''x'' # [Deliver, Arrive 5 ''Login: '', Send_next])"
  have keys: "keys r' = []" by (simp add: r'_def run_logon_def start_run_def split: prod.split)
  from bound obtain late typed w where "[] = late @ pend r'" "''x'' # [] = typed @ keys r'"
    "w \<in> shuffles late typed" "written (inner (shell_of r')) = [] @ w"
    unfolding r'_def [symmetric] by (auto simp: wire_lasting_def run_logon_def start_run_def demo_logon_def)
  with keys show ?thesis by (simp add: r'_def)
qed

text \<open>
  The race the statement leaves room for: the reader has collected the answer to a prompt, and the
  person's keystroke reaches the device before it. \<^verbatim>\<open>Write\<close> promises that somebody typing has
  taken over.
\<close>

lemma script_may_follow_typing:
  "written (inner (shell_of (run_logon wire_write demo_logon [Arrive 5 ''Login: '', Press ''x'', Deliver, Send_next])))
     = [''x'', ''go'']"
proof -
  have "ExpandSend ''go'' u p = ''go''" for u p
    by (simp add: ExpandSend_def Expand_Cons has_prefix_iff PlaceholderUsername_def PlaceholderPassword_def Expand.simps [of "[]"])
  then show ?thesis
    by (simp add: run_logon_def start_run_def demo_logon_def observe_match_def LogonTimeout_def Matches_def
        logon_send_def logon_press_def logon_deliver_def wire_write_def wire_ready_def)
qed

end
