(* ===== verification/Triggers.thy ===== *)
theory Triggers
  imports Logon
begin

section \<open>Triggers (\<^verbatim>\<open>internal/sessions/triggers.go\<close>, \<^verbatim>\<open>internal/terminal/triggers.go\<close>)\<close>

text \<open>
  Rules that watch a session's output and act on it. Go's regular expressions are a library:
  \<open>compile\<close> stands for \<^verbatim>\<open>regexp.Compile\<close>, giving \<open>None\<close> for a pattern that does not
  parse and otherwise the submatch function (\<^verbatim>\<open>FindStringSubmatch\<close>, \<open>None\<close> for no match;
  \<^verbatim>\<open>MatchString\<close> is that it is not \<open>None\<close>). Nothing is assumed of it.
\<close>

type_synonym regexp = "string \<Rightarrow> string list option"

definition MaxTriggers :: nat where "MaxTriggers = 16"
definition DefaultTriggerFires :: int where "DefaultTriggerFires = 25"

definition TriggerSend :: string where "TriggerSend = ''send''"
definition TriggerNotify :: string where "TriggerNotify = ''notify''"
definition TriggerHighlight :: string where "TriggerHighlight = ''highlight''"
definition TriggerStop :: string where "TriggerStop = ''stop''"

lemmas trigger_actions = TriggerSend_def TriggerNotify_def TriggerHighlight_def TriggerStop_def

datatype trigger_error = NotAnAction string | NeedsName | NameTooLong | NoPattern string
  | PatternTooLong string | NothingToSend string | SendsTooMuch string | FiresOutOfRange string
  | InvalidPattern string | TooManyTriggers nat | DuplicateName string

definition Validate_action :: "string \<Rightarrow> (trigger_error, unit) result" where
  "Validate_action a =
     (if a = TriggerSend \<or> a = TriggerNotify \<or> a = TriggerHighlight \<or> a = TriggerStop
      then Inr () else Inl (NotAnAction a))"

definition RunsOnTheServer :: "string \<Rightarrow> bool" where
  "RunsOnTheServer a \<longleftrightarrow> a \<noteq> TriggerHighlight"

record Trigger =
  t_Name :: string
  Pattern :: string
  Action :: string
  t_Send :: string
  Colour :: string
  MaxFires :: int
  Disabled :: bool

definition Validate_trigger :: "(string \<Rightarrow> regexp option) \<Rightarrow> Trigger \<Rightarrow> (trigger_error, unit) result" where
  "Validate_trigger compile t =
     (if trim_space (t_Name t) = '''' then Inl NeedsName
      else if length (t_Name t) > 64 then Inl NameTooLong
      else if trim_space (Pattern t) = '''' then Inl (NoPattern (t_Name t))
      else if length (Pattern t) > 512 then Inl (PatternTooLong (t_Name t))
      else case Validate_action (Action t) of
          Inl e \<Rightarrow> Inl e
        | Inr _ \<Rightarrow>
            (if Action t = TriggerSend \<and> t_Send t = '''' then Inl (NothingToSend (t_Name t))
             else if length (t_Send t) > 512 then Inl (SendsTooMuch (t_Name t))
             else if MaxFires t < 0 \<or> MaxFires t > 1000 then Inl (FiresOutOfRange (t_Name t))
             else if compile (Pattern t) = None then Inl (InvalidPattern (t_Name t))
             else Inr ()))"

definition Fires :: "Trigger \<Rightarrow> int" where
  "Fires t = (if MaxFires t > 0 then MaxFires t else DefaultTriggerFires)"

fun validate_each :: "(string \<Rightarrow> regexp option) \<Rightarrow> string list \<Rightarrow> Trigger list \<Rightarrow> (trigger_error, unit) result" where
  "validate_each compile seen [] = Inr ()"
| "validate_each compile seen (t # ts) =
     (case Validate_trigger compile t of
        Inl e \<Rightarrow> Inl e
      | Inr _ \<Rightarrow> if t_Name t \<in> set seen then Inl (DuplicateName (t_Name t))
                 else validate_each compile (t_Name t # seen) ts)"

definition ValidateTriggers :: "(string \<Rightarrow> regexp option) \<Rightarrow> Trigger list \<Rightarrow> (trigger_error, unit) result" where
  "ValidateTriggers compile ts =
     (if length ts > MaxTriggers then Inl (TooManyTriggers (length ts)) else validate_each compile [] ts)"

subsection \<open>The shell that runs them\<close>

definition triggerLineLimit :: nat where "triggerLineLimit = 8192"

record TriggerEvent =
  ev_name :: string
  ev_action :: string
  ev_line :: string
  ev_colour :: string

record compiledTrigger =
  rule :: Trigger
  pattern :: regexp
  fired :: int
  firedThisLine :: bool

text \<open>\<open>sink\<close> is \<open>None\<close> for a nil sink, otherwise the events it was given.\<close>

record 's triggerShell =
  under :: 's
  t_username :: string
  t_password :: string
  sink :: "TriggerEvent list option"
  triggers :: "compiledTrigger list"
  line :: string
  stopped :: bool
  lineEnded :: bool

fun compile_rules :: "(string \<Rightarrow> regexp option) \<Rightarrow> Trigger list \<Rightarrow> compiledTrigger list" where
  "compile_rules compile [] = []"
| "compile_rules compile (r # rs) =
     (if \<not> RunsOnTheServer (Action r) then compile_rules compile rs
      else case compile (Pattern r) of
          None \<Rightarrow> compile_rules compile rs
        | Some p \<Rightarrow> \<lparr>rule = r, pattern = p, fired = 0, firedThisLine = False\<rparr> # compile_rules compile rs)"

definition WithTriggers ::
  "(string \<Rightarrow> regexp option) \<Rightarrow> 's \<Rightarrow> Trigger list \<Rightarrow> string \<Rightarrow> string \<Rightarrow> TriggerEvent list option
     \<Rightarrow> 's triggerShell option" where
  "WithTriggers compile shell rules u p snk =
     (let compiled = compile_rules compile rules
      in if compiled = [] then None
         else Some \<lparr>under = shell, t_username = u, t_password = p, sink = snk, triggers = compiled,
                    line = '''', stopped = False, lineEnded = False\<rparr>)"

text \<open>The ellipsis is the three bytes of its UTF-8 encoding.\<close>

definition trimLine :: "string \<Rightarrow> string" where
  "trimLine s =
     (let t = trim_space s
      in if length t > 200 then take 200 t @ [CHR 0xE2, CHR 0x80, CHR 0xA6] else t)"

text \<open>One byte of the accumulating loop: the shell and the lines to match so far.\<close>

definition scan_byte :: "'s triggerShell \<times> string list \<Rightarrow> char \<Rightarrow> 's triggerShell \<times> string list" where
  "scan_byte = (\<lambda>(t, ls) b.
     if b = CHR 0x0A \<or> b = CHR 0x0D
     then (if line t \<noteq> '''' then (t\<lparr>line := '''', lineEnded := True\<rparr>, ls @ [line t])
           else (t\<lparr>lineEnded := True\<rparr>, ls))
     else let t1 = (if lineEnded t
                    then t\<lparr>triggers := map (\<lambda>c. c\<lparr>firedThisLine := False\<rparr>) (triggers t), lineEnded := False\<rparr>
                    else t);
              t2 = t1\<lparr>line := line t1 @ [b]\<rparr>
          in if length (line t2) \<ge> triggerLineLimit
             then (t2\<lparr>line := '''', lineEnded := True\<rparr>, ls @ [line t2])
             else (t2, ls))"

record pending =
  p_event :: TriggerEvent
  p_send :: string
  p_stop :: bool

text \<open>One rule against one line: the rule afterwards, and the action when it fires.\<close>

definition match_rule :: "string \<Rightarrow> string \<Rightarrow> string \<Rightarrow> compiledTrigger \<Rightarrow> compiledTrigger \<times> pending option" where
  "match_rule u p ln c =
     (if firedThisLine c \<or> fired c \<ge> Fires (rule c) then (c, None)
      else case pattern c ln of
          None \<Rightarrow> (c, None)
        | Some captures \<Rightarrow>
            (c\<lparr>fired := fired c + 1, firedThisLine := True\<rparr>,
             Some \<lparr>p_event = \<lparr>ev_name = t_Name (rule c), ev_action = Action (rule c),
                                 ev_line = trimLine ln, ev_colour = Colour (rule c)\<rparr>,
                   p_send = (if Action (rule c) = TriggerSend
                             then Expand (t_Send (rule c)) u p captures else ''''),
                   p_stop = (Action (rule c) = TriggerStop)\<rparr>))"

fun match_rules :: "string \<Rightarrow> string \<Rightarrow> string \<Rightarrow> compiledTrigger list \<Rightarrow> compiledTrigger list \<times> pending list" where
  "match_rules u p ln [] = ([], [])"
| "match_rules u p ln (c # cs) =
     (case match_rule u p ln c of (c', a) \<Rightarrow>
      case match_rules u p ln cs of (cs', as) \<Rightarrow>
        (c' # cs', (case a of None \<Rightarrow> as | Some x \<Rightarrow> x # as)))"

text \<open>The loop that acts on the matches, outside the lock.\<close>

definition send_pending :: "'s writer \<Rightarrow> 's \<Rightarrow> pending \<Rightarrow> 's \<times> bool" where
  "send_pending wr s a = (if p_send a \<noteq> '''' then wr s (p_send a) else (s, True))"

fun act :: "'s writer \<Rightarrow> ('s \<Rightarrow> 's) \<Rightarrow> 's triggerShell \<Rightarrow> pending list \<Rightarrow> 's triggerShell" where
  "act wr close t [] = t"
| "act wr close t (a # as) =
     (case send_pending wr (under t) a of (s, ok) \<Rightarrow>
        let t1 = t\<lparr>sink := map_option (\<lambda>es. es @ [p_event a]) (sink t), under := s\<rparr>
        in if \<not> ok then t1
           else if p_stop a then t1\<lparr>under := close s\<rparr>
           else act wr close t1 as)"

definition match_line :: "'s writer \<Rightarrow> ('s \<Rightarrow> 's) \<Rightarrow> 's triggerShell \<Rightarrow> string \<Rightarrow> 's triggerShell" where
  "match_line wr close t ln =
     (case match_rules (t_username t) (t_password t) ln (triggers t) of (cs, as) \<Rightarrow>
        act wr close (t\<lparr>triggers := cs, stopped := (stopped t \<or> list_ex p_stop as)\<rparr>) as)"

definition scan :: "'s triggerShell \<Rightarrow> string \<Rightarrow> 's triggerShell \<times> string list" where
  "scan t chunk =
     (case foldl scan_byte (t, []) chunk of (t1, ls) \<Rightarrow>
        (t1, if line t1 \<noteq> '''' then ls @ [line t1] else ls))"

definition trigger_observe :: "'s writer \<Rightarrow> ('s \<Rightarrow> 's) \<Rightarrow> 's triggerShell \<Rightarrow> string \<Rightarrow> 's triggerShell" where
  "trigger_observe wr close t chunk =
     (if stopped t then t
      else case scan t chunk of (t1, ls) \<Rightarrow> foldl (match_line wr close) t1 ls)"

definition trigger_Read :: "'s writer \<Rightarrow> ('s \<Rightarrow> 's) \<Rightarrow> 's triggerShell \<Rightarrow> string \<Rightarrow> 's triggerShell \<times> string" where
  "trigger_Read wr close t p = ((if p \<noteq> '''' then trigger_observe wr close t p else t), p)"

text \<open>\<^verbatim>\<open>Write\<close> is the embedded shell's: the wrapper keeps its write contract as it is.\<close>

definition trigger_Write :: "'s writer \<Rightarrow> 's triggerShell writer" where
  "trigger_Write wr t p = (case wr (under t) p of (s, ok) \<Rightarrow> (t\<lparr>under := s\<rparr>, ok))"

interpretation trigger: shell_writes "written \<circ> under" "wire_ready \<circ> under" "wire_lasting \<circ> under"
    "trigger_Write wire_write"
  using wire.shell_writes_axioms unfolding shell_writes_def
  by (simp add: trigger_Write_def case_prod_beta)

record Highlight =
  h_Name :: string
  h_Pattern :: string
  h_Colour :: string

fun HighlightsFrom :: "Trigger list \<Rightarrow> Highlight list" where
  "HighlightsFrom [] = []"
| "HighlightsFrom (r # rs) =
     (if RunsOnTheServer (Action r) then HighlightsFrom rs
      else \<lparr>h_Name = t_Name r, h_Pattern = Pattern r, h_Colour = Colour r\<rparr> # HighlightsFrom rs)"

subsection \<open>How often a rule fires\<close>

text \<open>How a rule may change while lines are matched: it fires at most once, and only below its cap.\<close>

definition advanced :: "compiledTrigger \<Rightarrow> compiledTrigger \<Rightarrow> bool" where
  "advanced a b \<longleftrightarrow> rule b = rule a \<and> pattern b = pattern a
     \<and> (b = a \<or> \<not> firedThisLine a \<and> firedThisLine b \<and> fired a < Fires (rule a) \<and> fired b = fired a + 1)"

lemma advanced_refl [simp]: "advanced a a"
  by (simp add: advanced_def)

lemma advanced_trans: "advanced a b \<Longrightarrow> advanced b c \<Longrightarrow> advanced a c"
  by (auto simp: advanced_def)

lemma all_advanced_trans:
  "list_all2 advanced as bs \<Longrightarrow> list_all2 advanced bs cs \<Longrightarrow> list_all2 advanced as cs"
  by (rule list_all2_trans [OF advanced_trans])

definition fires_total :: "compiledTrigger list \<Rightarrow> int" where
  "fires_total cs = sum_list (map fired cs)"

lemma match_rule_advanced:
  assumes "match_rule u p ln c = (c', a)"
  shows "advanced c c'" and "int (length (case a of None \<Rightarrow> [] | Some x \<Rightarrow> [x])) = fired c' - fired c"
  using assms by (auto simp: match_rule_def advanced_def split: if_splits option.splits)

lemma match_rules_advanced:
  assumes "match_rules u p ln cs = (cs', as)"
  shows "list_all2 advanced cs cs' \<and> int (length as) = fires_total cs' - fires_total cs"
  using assms
proof (induction cs arbitrary: cs' as)
  case Nil
  then show ?case by (simp add: fires_total_def)
next
  case (Cons c cs)
  obtain c1 a where r: "match_rule u p ln c = (c1, a)" by fastforce
  obtain cs1 as1 where rs: "match_rules u p ln cs = (cs1, as1)" by fastforce
  from Cons.IH [OF rs] match_rule_advanced [OF r] Cons.prems r rs show ?case
    by (auto simp: fires_total_def split: option.splits)
qed

lemma act_frame [frame_simps]:
  "triggers (act wr close t as) = triggers t" "stopped (act wr close t as) = stopped t"
  by (induction as arbitrary: t) (auto simp: Let_def case_prod_beta)

lemma match_line_advanced: "list_all2 advanced (triggers t) (triggers (match_line wr close t ln))"
proof -
  obtain cs as where "match_rules (t_username t) (t_password t) ln (triggers t) = (cs, as)" by fastforce
  with match_rules_advanced [OF this] show ?thesis by (simp add: match_line_def frame_simps)
qed

lemma match_lines_advanced:
  "list_all2 advanced (triggers t) (triggers (foldl (match_line wr close) t ls))"
proof (induction ls arbitrary: t)
  case Nil
  then show ?case by (simp add: list.rel_refl)
next
  case (Cons l ls)
  then show ?case using all_advanced_trans [OF match_line_advanced] by (simp, blast)
qed

text \<open>Reading a chunk into lines fires nothing.\<close>

lemma scan_byte_frame:
  "under (fst (scan_byte x b)) = under (fst x)"
  "map rule (triggers (fst (scan_byte x b))) = map rule (triggers (fst x))"
  "map fired (triggers (fst (scan_byte x b))) = map fired (triggers (fst x))"
  by (cases x; auto simp: scan_byte_def Let_def)+

lemma scan_frame:
  "under (fst (scan t c)) = under t" "map rule (triggers (fst (scan t c))) = map rule (triggers t)"
  "map fired (triggers (fst (scan t c))) = map fired (triggers t)"
proof -
  have fold: "under (fst (foldl scan_byte x c)) = under (fst x)
      \<and> map rule (triggers (fst (foldl scan_byte x c))) = map rule (triggers (fst x))
      \<and> map fired (triggers (fst (foldl scan_byte x c))) = map fired (triggers (fst x))"
    for x :: "'a triggerShell \<times> string list"
    by (induction c arbitrary: x) (simp_all add: scan_byte_frame)
  show "under (fst (scan t c)) = under t" "map rule (triggers (fst (scan t c))) = map rule (triggers t)"
    "map fired (triggers (fst (scan t c))) = map fired (triggers t)"
    using fold [of "(t, [])"] by (simp_all add: scan_def case_prod_beta)
qed

lemma scan_sink: "sink (fst (scan t c)) = sink t"
proof -
  have "sink (fst (scan_byte x b)) = sink (fst x)" for x :: "'a triggerShell \<times> string list" and b
    by (cases x) (auto simp: scan_byte_def Let_def)
  then have "sink (fst (foldl scan_byte x c)) = sink (fst x)" for x :: "'a triggerShell \<times> string list"
    by (induction c arbitrary: x) simp_all
  from this [of "(t, [])"] show ?thesis by (simp add: scan_def case_prod_beta)
qed

definition within_cap :: "compiledTrigger \<Rightarrow> bool" where
  "within_cap c \<longleftrightarrow> 0 \<le> fired c \<and> fired c \<le> Fires (rule c)"

lemma Fires_pos: "0 < Fires t"
  by (simp add: Fires_def DefaultTriggerFires_def)

lemma within_cap_advanced: "within_cap a \<Longrightarrow> advanced a b \<Longrightarrow> within_cap b"
  by (auto simp: within_cap_def advanced_def)

lemma all_within_cap_advanced:
  "list_all2 advanced as bs \<Longrightarrow> list_all within_cap as \<Longrightarrow> list_all within_cap bs"
  by (induction rule: list_all2_induct) (auto intro: within_cap_advanced)

lemma advanced_rules: "list_all2 advanced as bs \<Longrightarrow> map rule bs = map rule as"
  by (induction rule: list_all2_induct) (auto simp: advanced_def)

lemma within_cap_maps:
  assumes "map rule bs = map rule as" and "map fired bs = map fired as"
  shows "list_all within_cap as = list_all within_cap bs"
proof -
  have "length bs = length as" using assms(1) map_eq_imp_length_eq by blast
  moreover have "rule (bs ! i) = rule (as ! i) \<and> fired (bs ! i) = fired (as ! i)" if "i < length as" for i
    using assms that \<open>length bs = length as\<close> by (metis nth_map)
  ultimately show ?thesis by (simp add: list_all_length within_cap_def)
qed

lemma within_cap_total: "list_all within_cap cs \<Longrightarrow> fires_total cs \<le> sum_list (map Fires (map rule cs))"
  by (induction cs) (auto simp: fires_total_def within_cap_def)

text \<open>
  The firings of a kind of rule, and of their actions: no more actions of a kind than firings of the
  rules that have such actions.
\<close>

definition fires_of :: "(Trigger \<Rightarrow> bool) \<Rightarrow> compiledTrigger list \<Rightarrow> int" where
  "fires_of Q cs = sum_list (map fired (filter (\<lambda>c. Q (rule c)) cs))"

lemma match_rules_of:
  assumes kind: "\<And>c c' a. match_rule u p ln c = (c', Some a) \<Longrightarrow> R a \<Longrightarrow> Q (rule c)"
    and "match_rules u p ln cs = (cs', as)"
  shows "int (length (filter R as)) \<le> fires_of Q cs' - fires_of Q cs"
  using assms(2)
proof (induction cs arbitrary: cs' as)
  case Nil
  then show ?case by (simp add: fires_of_def)
next
  case (Cons c cs)
  obtain c1 a where r: "match_rule u p ln c = (c1, a)" by fastforce
  obtain cs1 as1 where rs: "match_rules u p ln cs = (cs1, as1)" by fastforce
  have "rule c1 = rule c" "fired c1 = fired c + (case a of None \<Rightarrow> 0 | Some _ \<Rightarrow> 1)"
    using r by (auto simp: match_rule_def split: if_splits option.splits)
  with Cons.IH [OF rs] Cons.prems r rs kind [of c c1] show ?case
    by (auto simp: fires_of_def split: option.splits)
qed

lemma sends_are_of_send_rules:
  assumes "match_rule u p ln c = (c', Some a)" and "p_send a \<noteq> ''''"
  shows "Action (rule c) = TriggerSend"
  using assms by (auto simp: match_rule_def split: if_splits option.splits)

lemma events_are_of_their_rules:
  assumes "match_rule u p ln c = (c', Some a)" and "ev_name (p_event a) = n"
  shows "t_Name (rule c) = n"
  using assms by (auto simp: match_rule_def split: if_splits option.splits)

lemma fires_of_maps:
  assumes "map rule bs = map rule as" and "map fired bs = map fired as"
  shows "fires_of Q bs = fires_of Q as"
  using assms
proof (induction bs arbitrary: as)
  case (Cons b bs)
  then obtain a as' where "as = a # as'" by (cases as) auto
  with Cons show ?case by (auto simp: fires_of_def)
qed (simp add: fires_of_def)

lemma within_cap_of: "list_all within_cap cs \<Longrightarrow> fires_of Q cs \<le> sum_list (map Fires (filter Q (map rule cs)))"
  by (induction cs) (auto simp: fires_of_def within_cap_def)

definition named :: "string \<Rightarrow> TriggerEvent list option \<Rightarrow> nat" where
  "named n snk = (case snk of None \<Rightarrow> 0 | Some es \<Rightarrow> length (filter (\<lambda>e. ev_name e = n) es))"

locale shell_closes = shell_writes +
  fixes close :: "'a \<Rightarrow> 'a"
  assumes close_log: "log (close s) = log s"
begin

lemma act_effects:
  "length (log (under (act wr close t as))) \<le> length (log (under t)) + length (filter (\<lambda>a. p_send a \<noteq> '''') as)
   \<and> named n (sink (act wr close t as)) \<le> named n (sink t) + length (filter (\<lambda>a. ev_name (p_event a) = n) as)"
proof (induction as arbitrary: t)
  case Nil
  then show ?case by simp
next
  case (Cons a as)
  have one: "length (log (fst (wr s q))) \<le> Suc (length (log s))" for s q
    using write_ready [of s q] write_refused [of s q] by (cases "ready s") auto
  obtain s ok where w: "send_pending wr (under t) a = (s, ok)" by fastforce
  have s: "length (log s) \<le> length (log (under t)) + (if p_send a \<noteq> '''' then 1 else 0)"
    using one [of "under t" "p_send a"] w by (auto simp: send_pending_def split: if_splits)
  let ?t = "t\<lparr>sink := map_option (\<lambda>es. es @ [p_event a]) (sink t), under := s\<rparr>"
  have "named n (sink ?t) \<le> named n (sink t) + (if ev_name (p_event a) = n then 1 else 0)"
    by (simp add: named_def split: option.split)
  with Cons.IH [of ?t] s show ?case by (auto simp add: w Let_def close_log)
qed

text \<open>The budget of a run of reads: every write and every event was paid for by a firing.\<close>

definition paid :: "nat \<Rightarrow> (string \<Rightarrow> nat) \<Rightarrow> Trigger list \<Rightarrow> 'a triggerShell \<Rightarrow> bool" where
  "paid n es rs t \<longleftrightarrow> map rule (triggers t) = rs \<and> list_all within_cap (triggers t)
     \<and> int (length (log (under t))) \<le> int n + fires_of (\<lambda>r. Action r = TriggerSend) (triggers t)
     \<and> (\<forall>name. int (named name (sink t)) \<le> int (es name) + fires_of (\<lambda>r. t_Name r = name) (triggers t))"

lemma match_line_paid: "paid n es rs t \<Longrightarrow> paid n es rs (match_line wr close t ln)"
proof -
  assume t: "paid n es rs t"
  obtain cs as where m: "match_rules (t_username t) (t_password t) ln (triggers t) = (cs, as)" by fastforce
  note adv = match_rules_advanced [OF m]
  let ?t = "t\<lparr>triggers := cs, stopped := (stopped t \<or> list_ex p_stop as)\<rparr>"
  have sends: "int (length (filter (\<lambda>a. p_send a \<noteq> '''') as))
      \<le> fires_of (\<lambda>r. Action r = TriggerSend) cs - fires_of (\<lambda>r. Action r = TriggerSend) (triggers t)"
    by (rule match_rules_of [OF _ m]) (rule sends_are_of_send_rules)
  have events: "int (length (filter (\<lambda>a. ev_name (p_event a) = name) as))
      \<le> fires_of (\<lambda>r. t_Name r = name) cs - fires_of (\<lambda>r. t_Name r = name) (triggers t)" for name
    by (rule match_rules_of [OF _ m]) (rule events_are_of_their_rules)
  have "int (length (log (under (act wr close ?t as)))) \<le> int n + fires_of (\<lambda>r. Action r = TriggerSend) cs"
    using act_effects [of ?t as "''''"] sends t by (simp add: paid_def)
  moreover have "int (named name (sink (act wr close ?t as))) \<le> int (es name) + fires_of (\<lambda>r. t_Name r = name) cs" for name
  proof -
    have "int (named name (sink t)) \<le> int (es name) + fires_of (\<lambda>r. t_Name r = name) (triggers t)" using t by (simp add: paid_def)
    moreover have "named name (sink (act wr close ?t as)) \<le> named name (sink t) + length (filter (\<lambda>a. ev_name (p_event a) = name) as)"
      using act_effects [of ?t as name] by simp
    ultimately show ?thesis using events [of name] by linarith
  qed
  ultimately show ?thesis
    using t adv all_within_cap_advanced [of "triggers t" cs] advanced_rules [of "triggers t" cs]
    by (simp add: paid_def match_line_def m frame_simps)
qed

lemma read_paid:
  assumes "paid n es rs t"
  shows "paid n es rs (fst (trigger_Read wr close t c))"
proof -
  have "sink (fst (scan t c)) = sink t" by (rule scan_sink)
  then have "paid n es rs (fst (scan t c))"
    using assms scan_frame [of t c] within_cap_maps [of "triggers (fst (scan t c))" "triggers t"]
      fires_of_maps [of "triggers (fst (scan t c))" "triggers t"]
    unfolding paid_def by simp
  then have "paid n es rs (foldl (match_line wr close) (fst (scan t c)) ls)" for ls
    using foldl_preserves [of "paid n es rs"] match_line_paid by blast
  with assms show ?thesis by (simp add: trigger_Read_def trigger_observe_def case_prod_beta)
qed

end

interpretation wire: shell_closes written wire_ready wire_lasting wire_write wire_close
  by unfold_locales (simp add: wire_close_def)

lemma compile_rules_spec:
  "map rule (compile_rules compile rs)
     = filter (\<lambda>r. RunsOnTheServer (Action r) \<and> compile (Pattern r) \<noteq> None) rs
   \<and> list_all within_cap (compile_rules compile rs) \<and> fires_of Q (compile_rules compile rs) = 0"
  by (induction rs)
    (auto simp: within_cap_def fires_of_def less_imp_le [OF Fires_pos] split: option.split)

lemma read_keeps_sink: "sink t \<noteq> None \<Longrightarrow> sink (fst (trigger_Read wr close t c)) \<noteq> None"
proof -
  have acts: "sink (act wr close t as) \<noteq> None" if "sink t \<noteq> None" for t as
    using that by (induction as arbitrary: t) (auto simp: Let_def split: prod.split)
  have "sink (match_line wr close t ln) \<noteq> None" if "sink t \<noteq> None" for t ln
    using that acts by (simp add: match_line_def split: prod.split)
  then have lines: "sink (foldl (match_line wr close) t ls) \<noteq> None" if "sink t \<noteq> None" for t ls
    using that foldl_preserves [of "\<lambda>t. sink t \<noteq> None"] by blast
  assume "sink t \<noteq> None"
  then show ?thesis using lines scan_sink [of t c] by (simp add: trigger_Read_def trigger_observe_def case_prod_beta)
qed

subsection \<open>Properties\<close>

text \<open>
  C9 (bounds). However much a device prints and in whatever pieces, the rules of a name are announced
  at most as often as their caps allow, whatever they do, and nothing is written but by send rules
  and at most the sum of their caps, so a rule whose answer provokes its own pattern runs dry. A cap
  that is not positive is the default of twenty-five.
\<close>

theorem trigger_sends_bounded:
  fixes compile :: "string \<Rightarrow> regexp option" and rules :: "Trigger list"
  defines "caps Q \<equiv> sum_list (map (\<lambda>r. if MaxFires r > 0 then MaxFires r else 25)
          (filter (\<lambda>r. Q r \<and> RunsOnTheServer (Action r) \<and> compile (Pattern r) \<noteq> None) rules))"
  assumes "WithTriggers compile s rules u p (Some []) = Some t"
  shows "let t' = foldl (\<lambda>t c. fst (trigger_Read wire_write wire_close t c)) t chunks
    in (\<exists>es. sink t' = Some es \<and> (\<forall>name. int (length (filter (\<lambda>e. ev_name e = name) es)) \<le> caps (\<lambda>r. t_Name r = name)))
      \<and> int (length (written (under t'))) \<le> int (length (written s)) + caps (\<lambda>r. Action r = TriggerSend)"
proof -
  let ?rs = "filter (\<lambda>r. RunsOnTheServer (Action r) \<and> compile (Pattern r) \<noteq> None) rules"
  define t' where "t' = foldl (\<lambda>t c. fst (trigger_Read wire_write wire_close t c)) t chunks"
  have caps: "caps Q = sum_list (map Fires (filter Q ?rs))" for Q
  proof -
    have "(if MaxFires r > 0 then MaxFires r else 25) = Fires r" for r
      by (simp add: Fires_def DefaultTriggerFires_def)
    moreover have "filter Q ?rs = filter (\<lambda>r. Q r \<and> RunsOnTheServer (Action r) \<and> compile (Pattern r) \<noteq> None) rules"
      by (auto intro: filter_cong)
    ultimately show ?thesis unfolding caps_def by (simp only:)
  qed
  from assms(2) have "wire.paid (length (written s)) (\<lambda>_. 0) ?rs t"
    using compile_rules_spec [of compile rules]
    by (auto simp: WithTriggers_def wire.paid_def Let_def named_def split: if_splits)
  then have paid: "wire.paid (length (written s)) (\<lambda>_. 0) ?rs t'"
    unfolding t'_def by (rule foldl_preserves) (rule wire.read_paid)
  then have cap: "fires_of Q (triggers t') \<le> caps Q" for Q
    using within_cap_of [of "triggers t'" Q] unfolding caps wire.paid_def by simp
  have "sink t' \<noteq> None"
    unfolding t'_def
  proof (rule foldl_preserves [of "\<lambda>t. sink t \<noteq> None"])
    show "sink t \<noteq> None" using assms(2) by (auto simp: WithTriggers_def Let_def split: if_splits)
  qed (rule read_keeps_sink)
  then obtain es where es: "sink t' = Some es" by blast
  then have "int (length (filter (\<lambda>e. ev_name e = name) es)) \<le> caps (\<lambda>r. t_Name r = name)" for name
  proof -
    have "int (named name (sink t')) \<le> int 0 + fires_of (\<lambda>r. t_Name r = name) (triggers t')"
      using paid unfolding wire.paid_def by blast
    with cap [of "\<lambda>r. t_Name r = name"] show ?thesis by (simp add: named_def es)
  qed
  moreover have "int (length (written (under t'))) \<le> int (length (written s)) + caps (\<lambda>r. Action r = TriggerSend)"
    using paid cap [of "\<lambda>r. Action r = TriggerSend"] unfolding wire.paid_def by linarith
  ultimately show ?thesis using es unfolding Let_def t'_def [symmetric] by blast
qed

text \<open>A device that echoes: the rule answers every \<open>x\<close> with an \<open>x\<close>, three times at most.\<close>

definition demo_compile :: "string \<Rightarrow> regexp option" where
  "demo_compile pat = Some (\<lambda>ln. if contains_sub ln pat then Some [ln] else None)"

definition demo_rule :: Trigger where
  "demo_rule = \<lparr>t_Name = ''echo'', Pattern = ''x'', Action = TriggerSend, t_Send = ''x'', Colour = '''',
     MaxFires = 3, Disabled = False\<rparr>"

definition demo_wire :: wire where
  "demo_wire = \<lparr>written = [], budget = None, hung_up = False\<rparr>"

definition demo_trigger :: "wire triggerShell" where
  "demo_trigger = \<lparr>under = demo_wire, t_username = '''', t_password = '''', sink = Some [],
     triggers = [\<lparr>rule = demo_rule, pattern = (\<lambda>ln. if contains_sub ln ''x'' then Some [ln] else None),
                  fired = 0, firedThisLine = False\<rparr>],
     line = '''', stopped = False, lineEnded = False\<rparr>"

theorem trigger_sends_bounded_witness:
  "int (length (written (under (foldl (\<lambda>t c. fst (trigger_Read wire_write wire_close t c)) demo_trigger
      (replicate 10 [CHR ''x'', CHR 0x0A]))))) \<le> 3"
proof -
  have "WithTriggers demo_compile demo_wire [demo_rule] '''' '''' (Some []) = Some demo_trigger"
    by (simp add: WithTriggers_def demo_compile_def demo_rule_def demo_trigger_def RunsOnTheServer_def
        trigger_actions)
  note bound = trigger_sends_bounded [OF this]
  define chunks where "chunks = replicate 10 [CHR ''x'', CHR 0x0A]"
  have "int (length (written (under (foldl (\<lambda>t c. fst (trigger_Read wire_write wire_close t c)) demo_trigger
      chunks)))) \<le> 3"
    using bound [of chunks]
    by (simp add: demo_compile_def demo_rule_def demo_wire_def RunsOnTheServer_def trigger_actions Let_def)
  then show ?thesis by (simp only: chunks_def)
qed

text \<open>
  One read fires each rule at most once, however many lines it carries: the
  marks that say a rule has fired on this line are cleared while the read is cut into lines,
  before any of them is matched, so the second matching line of a read is passed over where it
  would have fired had it arrived in a read of its own.
\<close>

theorem read_fires_each_rule_once:
  "list_all2 (\<lambda>a b. rule b = rule a \<and> fired a \<le> fired b \<and> fired b \<le> fired a + 1)
     (triggers t) (triggers (fst (trigger_Read wr close t chunk)))"
proof -
  let ?u = "fst (scan t chunk)"
  have "list_all2 (\<lambda>a b. rule b = rule a \<and> fired a \<le> fired b \<and> fired b \<le> fired a + 1)
      (triggers t) (triggers v)" if "list_all2 advanced (triggers ?u) (triggers v)" for v :: "'a triggerShell"
  proof (rule list_all2_all_nthI)
    have len: "length (triggers ?u) = length (triggers t)"
      using scan_frame(2) [of t chunk] map_eq_imp_length_eq by blast
    then show "length (triggers t) = length (triggers v)"
      using list_all2_lengthD [OF that] by simp
    fix i assume i: "i < length (triggers t)"
    from i len have "rule (triggers ?u ! i) = rule (triggers t ! i)" "fired (triggers ?u ! i) = fired (triggers t ! i)"
      using scan_frame(2,3) [of t chunk] by (metis nth_map)+
    moreover have "advanced (triggers ?u ! i) (triggers v ! i)"
      using list_all2_nthD [OF that] i len by simp
    ultimately show "rule (triggers v ! i) = rule (triggers t ! i) \<and> fired (triggers t ! i) \<le> fired (triggers v ! i)
        \<and> fired (triggers v ! i) \<le> fired (triggers t ! i) + 1"
      by (auto simp: advanced_def)
  qed
  moreover have "list_all2 (\<lambda>a b. rule b = rule a \<and> fired a \<le> fired b \<and> fired b \<le> fired a + 1)
      (triggers t) (triggers t)"
    by (rule list.rel_refl) simp
  ultimately show ?thesis
    using match_lines_advanced [of ?u wr close]
    by (simp add: trigger_Read_def trigger_observe_def case_prod_beta)
qed

end
