(* ===== verification/Session_Tree.thy ===== *)
theory Session_Tree
  imports Triggers "HOL-Library.Product_Lexorder" "HOL-Library.List_Lexorder" "HOL-Library.Char_ord"
begin

section \<open>The saved-connection tree (\<^verbatim>\<open>internal/sessions\<close>: sessions.go, connections.go, shared.go, jump.go)\<close>

text \<open>
  Folders, the connections filed in them, the settings connections inherit, and the chains of
  jump hosts. The database is the record \<open>tree_db\<close>: one list of rows per table the package reads
  or writes, with the constraints of the schema (primary keys, foreign keys, \<^verbatim>\<open>ON DELETE\<close>
  actions) written out where a statement can meet them. The driver itself always answers. A row
  holds the fields its scan returns, so the owner columns are the pair of owner and kind, NULL is
  the empty string, and the JSON columns hold the decoded document. Identifiers and times are
  drawn outside and are arguments of the operations that use them.
\<close>

definition MaxDepth :: nat where "MaxDepth = 32"
definition MaxJumpChain :: nat where "MaxJumpChain = 8"

datatype tree_error =
    ErrNotFound | ErrCycle | ErrTooDeep | ErrFolderNotEmpty nat nat
  | OwnerRequired | FolderNameRequired | NameRequired | HostnameRequired
  | UnknownProtocol string | PortOutOfRange int | DestinationFolder tree_error
  | ErrJumpNotFound string | ErrJumpSelf | ErrJumpCycle string | ErrJumpTooLong nat
  | ErrJumpProtocol string string | ErrJumpInUse "string list"
  | OnlySharedFolders | DatabaseError

text \<open>\<^verbatim>\<open>errors.Is(err, ErrNotFound)\<close>, through the one wrapper that can hold it.\<close>

fun is_not_found :: "tree_error \<Rightarrow> bool" where
  "is_not_found ErrNotFound = True"
| "is_not_found (DestinationFolder e) = is_not_found e"
| "is_not_found _ = False"

subsection \<open>Protocols and settings\<close>

definition ProtocolSSH :: string where "ProtocolSSH = ''ssh''"
definition ProtocolTelnet :: string where "ProtocolTelnet = ''telnet''"
definition ProtocolSerial :: string where "ProtocolSerial = ''serial''"

definition Validate_protocol :: "string \<Rightarrow> (tree_error, unit) result" where
  "Validate_protocol p =
     check (p = ProtocolSSH \<or> p = ProtocolTelnet \<or> p = ProtocolSerial) (UnknownProtocol p)"

definition DefaultPort :: "string \<Rightarrow> int" where
  "DefaultPort p = (if p = ProtocolTelnet then 23 else 22)"

record Settings =
  s_Username :: "string option"
  s_Port :: "int option"
  s_CredentialID :: "string option"
  ColourScheme :: "string option"
  FontSize :: "int option"
  Scrollback :: "int option"
  KeepAliveSeconds :: "int option"
  LogSession :: "bool option"
  AgentForwardCredentials :: "string list option"
  LogonSteps :: "LogonStep list option"
  SerialBaud :: "int option"
  SerialDataBits :: "int option"
  SerialStopBits :: "int option"
  SerialParity :: "string option"
  SerialFlow :: "string option"
  s_Triggers :: "Trigger list option"

definition EffectiveTriggers :: "Settings \<Rightarrow> Trigger list" where
  "EffectiveTriggers s =
     (case s_Triggers s of None \<Rightarrow> [] | Some ts \<Rightarrow> filter (\<lambda>t. \<not> Disabled t) ts)"

definition EffectiveLogonSteps :: "Settings \<Rightarrow> bool \<Rightarrow> LogonStep list" where
  "EffectiveLogonSteps s hasPassword =
     (case LogonSteps s of
        Some ss \<Rightarrow> ss
      | None \<Rightarrow> if \<not> hasPassword then [] else DefaultLogonSteps)"

definition ForwardsAgent :: "Settings \<Rightarrow> bool" where
  "ForwardsAgent s =
     (case AgentForwardCredentials s of None \<Rightarrow> False | Some ks \<Rightarrow> length ks > 0)"

definition AgentCredentials :: "Settings \<Rightarrow> string list" where
  "AgentCredentials s =
     (if \<not> ForwardsAgent s then []
      else case AgentForwardCredentials s of None \<Rightarrow> [] | Some ks \<Rightarrow> ks)"

definition or_else :: "'a option \<Rightarrow> 'a option \<Rightarrow> 'a option" where
  "or_else a b = (case a of None \<Rightarrow> b | Some _ \<Rightarrow> a)"

definition merge :: "Settings \<Rightarrow> Settings \<Rightarrow> Settings" where
  "merge s parent =
     s\<lparr>s_Username := or_else (s_Username s) (s_Username parent),
       s_Port := or_else (s_Port s) (s_Port parent),
       s_CredentialID := or_else (s_CredentialID s) (s_CredentialID parent),
       ColourScheme := or_else (ColourScheme s) (ColourScheme parent),
       FontSize := or_else (FontSize s) (FontSize parent),
       Scrollback := or_else (Scrollback s) (Scrollback parent),
       KeepAliveSeconds := or_else (KeepAliveSeconds s) (KeepAliveSeconds parent),
       LogSession := or_else (LogSession s) (LogSession parent),
       LogonSteps := or_else (LogonSteps s) (LogonSteps parent),
       SerialBaud := or_else (SerialBaud s) (SerialBaud parent),
       SerialDataBits := or_else (SerialDataBits s) (SerialDataBits parent),
       SerialStopBits := or_else (SerialStopBits s) (SerialStopBits parent),
       SerialParity := or_else (SerialParity s) (SerialParity parent),
       SerialFlow := or_else (SerialFlow s) (SerialFlow parent),
       s_Triggers := or_else (s_Triggers s) (s_Triggers parent)\<rparr>"

subsection \<open>Rows and tables\<close>

record Folder =
  f_ID :: string
  f_OwnerID :: string
  f_IsTeam :: bool
  ParentID :: string
  f_Name :: string
  Defaults :: Settings
  f_SortOrder :: int
  f_CreatedAt :: int
  f_UpdatedAt :: int

record Session =
  ID :: string
  OwnerID :: string
  IsTeam :: bool
  FolderID :: string
  Name :: string
  Protocol :: string
  Hostname :: string
  Port :: int
  Username :: string
  CredentialID :: string
  JumpChain :: "string list"
  Settings_of :: Settings
  SortOrder :: int
  CreatedAt :: int
  UpdatedAt :: int
  LastUsedAt :: "int option"

text \<open>
  \<open>members\<close> holds (team, user) pairs; \<open>credentials\<close> an identifier and the user it belongs to
  (empty for a team's); \<open>folder_credentials\<close> is \<^verbatim>\<open>user_folder_credentials\<close>, keyed by
  (user, folder).
\<close>

record tree_db =
  users :: "string list"
  teams :: "string list"
  members :: "(string \<times> string) list"
  credentials :: "(string \<times> string) list"
  folders :: "Folder list"
  sessions :: "Session list"
  folder_credentials :: "((string \<times> string) \<times> string) list"

definition owner_exists :: "tree_db \<Rightarrow> string \<Rightarrow> bool \<Rightarrow> bool" where
  "owner_exists db owner isTeam = (if isTeam then owner \<in> set (teams db) else owner \<in> set (users db))"

definition find_folder :: "tree_db \<Rightarrow> string \<Rightarrow> Folder option" where
  "find_folder db fid = find (\<lambda>f. f_ID f = fid) (folders db)"

definition find_session :: "tree_db \<Rightarrow> string \<Rightarrow> Session option" where
  "find_session db fid = find (\<lambda>s. ID s = fid) (sessions db)"

definition credential_exists :: "tree_db \<Rightarrow> string \<Rightarrow> bool" where
  "credential_exists db c \<longleftrightarrow> c \<in> fst ` set (credentials db)"

text \<open>\<^verbatim>\<open>INSERT\<close>: the primary key and the foreign keys, NULL (empty) references nothing.\<close>

definition insert_folder :: "tree_db \<Rightarrow> Folder \<Rightarrow> (tree_error, tree_db) result" where
  "insert_folder db f =
     (if find_folder db (f_ID f) \<noteq> None \<or> \<not> owner_exists db (f_OwnerID f) (f_IsTeam f)
        \<or> (ParentID f \<noteq> '''' \<and> find_folder db (ParentID f) = None)
      then Inl DatabaseError
      else Inr (db\<lparr>folders := folders db @ [f]\<rparr>))"

definition insert_session :: "tree_db \<Rightarrow> Session \<Rightarrow> (tree_error, tree_db) result" where
  "insert_session db s =
     (if find_session db (ID s) \<noteq> None \<or> \<not> owner_exists db (OwnerID s) (IsTeam s)
        \<or> (FolderID s \<noteq> '''' \<and> find_folder db (FolderID s) = None)
        \<or> (CredentialID s \<noteq> '''' \<and> \<not> credential_exists db (CredentialID s))
      then Inl DatabaseError
      else Inr (db\<lparr>sessions := sessions db @ [s]\<rparr>))"

text \<open>
  \<^verbatim>\<open>DELETE FROM folders WHERE id = ?\<close>: sub-folders cascade, the connections in any of
  them move to the top level, remembered credentials go. Every round of \<open>cascade\<close> adds the
  children of what is already going; as many rounds as there are rows reach them all.
\<close>

fun cascade :: "nat \<Rightarrow> Folder list \<Rightarrow> string list \<Rightarrow> string list" where
  "cascade 0 fs going = going"
| "cascade (Suc n) fs going =
     cascade n fs (going @ map f_ID (filter (\<lambda>f. ParentID f \<in> set going \<and> f_ID f \<notin> set going) fs))"

definition delete_folder_row :: "tree_db \<Rightarrow> string \<Rightarrow> tree_db" where
  "delete_folder_row db fid =
     (let going = cascade (length (folders db)) (folders db) [fid]
      in db\<lparr>folders := filter (\<lambda>f. f_ID f \<notin> set going) (folders db),
            sessions := map (\<lambda>s. if FolderID s \<in> set going then s\<lparr>FolderID := ''''\<rparr> else s) (sessions db),
            folder_credentials := filter (\<lambda>((u, f), c). f \<notin> set going) (folder_credentials db)\<rparr>)"

subsection \<open>Folders\<close>

record CreateFolderParams =
  cf_OwnerID :: string
  cf_IsTeam :: bool
  cf_ParentID :: string
  cf_Name :: string
  cf_Defaults :: Settings

text \<open>The loop of \<^verbatim>\<open>depthOf\<close>; the guard on the depth is what ends it.\<close>

function depth_walk :: "tree_db \<Rightarrow> string \<Rightarrow> nat \<Rightarrow> string \<Rightarrow> (tree_error, nat) result" where
  "depth_walk db owner depth current =
     (if current = '''' then Inr depth
      else if depth > MaxDepth then Inl ErrTooDeep
      else case find_folder db current of
          None \<Rightarrow> Inl ErrNotFound
        | Some f \<Rightarrow> if f_OwnerID f \<noteq> owner then Inl ErrNotFound
                    else depth_walk db owner (depth + 1) (ParentID f))"
  by pat_completeness auto
termination by (relation "measure (\<lambda>(_, _, depth, _). Suc MaxDepth - depth)") auto

definition depthOf :: "tree_db \<Rightarrow> string \<Rightarrow> string \<Rightarrow> (tree_error, nat) result" where
  "depthOf db owner folder = depth_walk db owner 0 folder"

definition CreateFolder ::
  "tree_db \<Rightarrow> string \<Rightarrow> int \<Rightarrow> CreateFolderParams \<Rightarrow> (tree_error, tree_db \<times> Folder) result" where
  "CreateFolder db newID now p =
     bindr (check (cf_OwnerID p \<noteq> '''') OwnerRequired) (\<lambda>_.
     bindr (check (trim_space (cf_Name p) \<noteq> '''') FolderNameRequired) (\<lambda>_.
     bindr (if cf_ParentID p \<noteq> ''''
            then bindr (depthOf db (cf_OwnerID p) (cf_ParentID p)) (\<lambda>depth.
                   check (\<not> depth + 1 \<ge> MaxDepth) ErrTooDeep)
            else Inr ()) (\<lambda>_.
     let f = \<lparr>f_ID = newID, f_OwnerID = cf_OwnerID p, f_IsTeam = cf_IsTeam p, ParentID = cf_ParentID p,
              f_Name = trim_space (cf_Name p), Defaults = cf_Defaults p, f_SortOrder = 0,
              f_CreatedAt = now, f_UpdatedAt = now\<rparr>
     in bindr (insert_folder db f) (\<lambda>db'. Inr (db', f)))))"

definition ListFolders :: "tree_db \<Rightarrow> string \<Rightarrow> bool \<Rightarrow> Folder list" where
  "ListFolders db owner isTeam =
     sort_key (\<lambda>f. (f_SortOrder f, f_Name f))
       (filter (\<lambda>f. f_IsTeam f = isTeam \<and> f_OwnerID f = owner) (folders db))"

definition GetFolderAny :: "tree_db \<Rightarrow> string \<Rightarrow> (tree_error, Folder) result" where
  "GetFolderAny db fid = (case find_folder db fid of None \<Rightarrow> Inl ErrNotFound | Some f \<Rightarrow> Inr f)"

definition GetFolder :: "tree_db \<Rightarrow> string \<Rightarrow> string \<Rightarrow> (tree_error, Folder) result" where
  "GetFolder db owner fid =
     (case find_folder db fid of
        None \<Rightarrow> Inl ErrNotFound
      | Some f \<Rightarrow> if f_OwnerID f \<noteq> owner then Inl ErrNotFound else Inr f)"

record UpdateFolderParams =
  uf_Name :: "string option"
  uf_ParentID :: "string option"
  uf_SortOrder :: "int option"
  uf_Defaults :: "Settings option"

function move_walk :: "tree_db \<Rightarrow> string \<Rightarrow> string \<Rightarrow> nat \<Rightarrow> string \<Rightarrow> (tree_error, unit) result" where
  "move_walk db owner folder depth current =
     (if current = '''' then Inr ()
      else if depth > MaxDepth then Inl ErrTooDeep
      else if current = folder then Inl ErrCycle
      else case find_folder db current of
          None \<Rightarrow> Inl ErrNotFound
        | Some f \<Rightarrow> if f_OwnerID f \<noteq> owner then Inl ErrNotFound
                    else move_walk db owner folder (depth + 1) (ParentID f))"
  by pat_completeness auto
termination by (relation "measure (\<lambda>(_, _, _, depth, _). Suc MaxDepth - depth)") auto

definition checkMove :: "tree_db \<Rightarrow> string \<Rightarrow> string \<Rightarrow> string \<Rightarrow> (tree_error, unit) result" where
  "checkMove db owner folder newParent =
     (if newParent = '''' then Inr ()
      else if newParent = folder then Inl ErrCycle
      else move_walk db owner folder 0 newParent)"

text \<open>
  The update writes the five columns of the row; the parent was read by \<^verbatim>\<open>checkMove\<close> or
  was already there, so its foreign key holds.
\<close>

definition edit_folder ::
  "tree_db \<Rightarrow> string \<Rightarrow> string \<Rightarrow> UpdateFolderParams \<Rightarrow> Folder \<Rightarrow> (tree_error, Folder) result" where
  "edit_folder db owner fid p f0 =
     bindr (case uf_ParentID p of
              Some np \<Rightarrow> if np \<noteq> ParentID f0
                         then bindr (checkMove db owner fid np) (\<lambda>_. Inr (f0\<lparr>ParentID := np\<rparr>))
                         else Inr f0
            | None \<Rightarrow> Inr f0) (\<lambda>f1.
     bindr (case uf_Name p of
              Some n \<Rightarrow> if trim_space n = '''' then Inl FolderNameRequired
                        else Inr (f1\<lparr>f_Name := trim_space n\<rparr>)
            | None \<Rightarrow> Inr f1) (\<lambda>f2.
     let f3 = (case uf_SortOrder p of Some k \<Rightarrow> f2\<lparr>f_SortOrder := k\<rparr> | None \<Rightarrow> f2)
     in Inr (case uf_Defaults p of Some d \<Rightarrow> f3\<lparr>Defaults := d\<rparr> | None \<Rightarrow> f3)))"

definition update_folder_row :: "tree_db \<Rightarrow> string \<Rightarrow> Folder \<Rightarrow> tree_db" where
  "update_folder_row db fid n =
     db\<lparr>folders := map (\<lambda>f. if f_ID f = fid
          then f\<lparr>f_Name := f_Name n, ParentID := ParentID n, f_SortOrder := f_SortOrder n,
                 Defaults := Defaults n, f_UpdatedAt := f_UpdatedAt n\<rparr> else f) (folders db)\<rparr>"

definition UpdateFolder ::
  "tree_db \<Rightarrow> int \<Rightarrow> string \<Rightarrow> string \<Rightarrow> UpdateFolderParams \<Rightarrow> (tree_error, tree_db \<times> Folder) result" where
  "UpdateFolder db now owner fid p =
     bindr (GetFolder db owner fid) (\<lambda>f0.
     bindr (edit_folder db owner fid p f0) (\<lambda>f4.
     let f5 = f4\<lparr>f_UpdatedAt := now\<rparr> in Inr (update_folder_row db fid f5, f5)))"

definition countContents :: "tree_db \<Rightarrow> string \<Rightarrow> nat \<times> nat" where
  "countContents db folder =
     (length (filter (\<lambda>f. ParentID f = folder) (folders db)),
      length (filter (\<lambda>s. FolderID s = folder) (sessions db)))"

definition DeleteFolder :: "tree_db \<Rightarrow> string \<Rightarrow> string \<Rightarrow> (tree_error, tree_db) result" where
  "DeleteFolder db owner fid =
     bindr (GetFolder db owner fid) (\<lambda>_.
     case countContents db fid of (nf, ns) \<Rightarrow>
       if nf > 0 \<or> ns > 0 then Inl (ErrFolderNotEmpty nf ns) else Inr (delete_folder_row db fid))"

text \<open>
  The queue of \<^verbatim>\<open>descendantFolderIDs\<close>: the identifiers found so far, and those whose
  children are still to be read. \<open>kids\<close> is the \<^verbatim>\<open>children\<close> map of the listed folders.
\<close>

definition children_of :: "Folder list \<Rightarrow> string \<Rightarrow> string list" where
  "children_of fs parent = map f_ID (filter (\<lambda>f. ParentID f = parent) fs)"

function collect :: "(string \<Rightarrow> string list) \<Rightarrow> string list \<Rightarrow> string list \<Rightarrow> (tree_error, string list) result" where
  "collect kids found [] = Inr found"
| "collect kids found (current # queue) =
     (let found' = found @ kids current
      in if length found' > 10000 then Inl ErrTooDeep
         else collect kids found' (queue @ kids current))"
  by pat_completeness auto
termination
  by (relation "measure (\<lambda>(_, found, queue). 10000 + length queue - length found)") auto

definition descendantFolderIDs :: "tree_db \<Rightarrow> string \<Rightarrow> string \<Rightarrow> (tree_error, string list) result" where
  "descendantFolderIDs db owner root =
     collect (children_of (ListFolders db owner False)) [root] [root]"

definition DeleteFolderRecursive :: "tree_db \<Rightarrow> string \<Rightarrow> string \<Rightarrow> (tree_error, tree_db \<times> nat) result" where
  "DeleteFolderRecursive db owner fid =
     bindr (GetFolder db owner fid) (\<lambda>_.
     bindr (descendantFolderIDs db owner fid) (\<lambda>ids.
     let swept = foldl (\<lambda>(d, n) folder.
           (d\<lparr>sessions := filter (\<lambda>s. FolderID s \<noteq> folder) (sessions d)\<rparr>,
            n + length (filter (\<lambda>s. FolderID s = folder) (sessions d)))) (db, 0) ids
     in Inr (delete_folder_row (fst swept) fid, snd swept)))"

declare depth_walk.simps [simp del] move_walk.simps [simp del]

subsection \<open>Connections\<close>

definition GetSession :: "tree_db \<Rightarrow> string \<Rightarrow> string \<Rightarrow> (tree_error, Session) result" where
  "GetSession db owner sid =
     (case find_session db sid of
        None \<Rightarrow> Inl ErrNotFound
      | Some s \<Rightarrow> if OwnerID s \<noteq> owner then Inl ErrNotFound else Inr s)"

definition GetSessionAny :: "tree_db \<Rightarrow> string \<Rightarrow> (tree_error, Session) result" where
  "GetSessionAny db sid = (case find_session db sid of None \<Rightarrow> Inl ErrNotFound | Some s \<Rightarrow> Inr s)"

text \<open>\<^verbatim>\<open>memberClause\<close>: the row is the user's, or a team's the user belongs to.\<close>

definition memberClause :: "tree_db \<Rightarrow> string \<Rightarrow> string \<Rightarrow> bool \<Rightarrow> bool" where
  "memberClause db user owner isTeam =
     (if isTeam then (owner, user) \<in> set (members db) else owner = user)"

definition getSessionVisible :: "tree_db \<Rightarrow> string \<Rightarrow> string \<Rightarrow> (tree_error, Session) result" where
  "getSessionVisible db user sid =
     (case find (\<lambda>s. ID s = sid \<and> memberClause db user (OwnerID s) (IsTeam s)) (sessions db) of
        None \<Rightarrow> Inl ErrNotFound
      | Some s \<Rightarrow> Inr s)"

definition ListSessions :: "tree_db \<Rightarrow> string \<Rightarrow> bool \<Rightarrow> Session list" where
  "ListSessions db owner isTeam =
     sort_key (\<lambda>s. (SortOrder s, Name s))
       (filter (\<lambda>s. IsTeam s = isTeam \<and> OwnerID s = owner) (sessions db))"

record Tree =
  Folders :: "Folder list"
  Sessions :: "Session list"

definition LoadTree :: "tree_db \<Rightarrow> string \<Rightarrow> bool \<Rightarrow> Tree" where
  "LoadTree db owner isTeam = \<lparr>Folders = ListFolders db owner isTeam, Sessions = ListSessions db owner isTeam\<rparr>"

definition LoadTreeForUser :: "tree_db \<Rightarrow> string \<Rightarrow> Tree" where
  "LoadTreeForUser db user =
     \<lparr>Folders = sort_key (\<lambda>f. (f_SortOrder f, f_Name f))
          (filter (\<lambda>f. memberClause db user (f_OwnerID f) (f_IsTeam f)) (folders db)),
      Sessions = sort_key (\<lambda>s. (SortOrder s, Name s))
          (filter (\<lambda>s. memberClause db user (OwnerID s) (IsTeam s)) (sessions db))\<rparr>"

subsection \<open>Inheritance\<close>

record Resolved =
  r_Session :: Session
  EffectiveUsername :: string
  EffectivePort :: int
  EffectiveCredentialID :: string
  InheritedFrom :: "string list"

text \<open>The loop of \<^verbatim>\<open>resolveWith\<close>, with the settings merged and the names met so far.\<close>

function resolve_walk ::
  "(string \<Rightarrow> Folder option) \<Rightarrow> nat \<Rightarrow> string \<Rightarrow> Settings \<Rightarrow> string list \<Rightarrow> (tree_error, Settings \<times> string list) result" where
  "resolve_walk lookup depth current effective inheritedFrom =
     (if current = '''' then Inr (effective, inheritedFrom)
      else if depth > MaxDepth then Inl ErrTooDeep
      else case lookup current of
          None \<Rightarrow> Inr (effective, inheritedFrom)
        | Some f \<Rightarrow> resolve_walk lookup (depth + 1) (ParentID f) (merge effective (Defaults f))
                      (f_Name f # inheritedFrom))"
  by pat_completeness auto
termination by (relation "measure (\<lambda>(_, depth, _). Suc MaxDepth - depth)") auto

declare resolve_walk.simps [simp del]

definition resolveWith :: "Session \<Rightarrow> (string \<Rightarrow> Folder option) \<Rightarrow> (tree_error, Resolved) result" where
  "resolveWith s lookup =
     bindr (resolve_walk lookup 0 (FolderID s) (Settings_of s) []) (\<lambda>(effective, inheritedFrom).
       Inr \<lparr>r_Session = s\<lparr>Settings_of := effective\<rparr>,
            EffectiveUsername = (if Username s = '''' then (case s_Username effective of Some u \<Rightarrow> u | None \<Rightarrow> '''')
                                 else Username s),
            EffectivePort = (let p = (if Port s = 0 then (case s_Port effective of Some q \<Rightarrow> q | None \<Rightarrow> 0) else Port s)
                             in if p = 0 then DefaultPort (Protocol s) else p),
            EffectiveCredentialID = (if CredentialID s = '''' then (case s_CredentialID effective of Some c \<Rightarrow> c | None \<Rightarrow> '''')
                                     else CredentialID s),
            InheritedFrom = inheritedFrom\<rparr>)"

text \<open>A folder that does not exist has no parent to go on to: the walk gives up.\<close>

function folder_credential_walk :: "tree_db \<Rightarrow> string \<Rightarrow> nat \<Rightarrow> string \<Rightarrow> string" where
  "folder_credential_walk db user depth current =
     (if current = '''' \<or> depth > MaxDepth then ''''
      else case map_of (folder_credentials db) (user, current) of
          Some c \<Rightarrow> if c \<noteq> '''' then c
                    else (case find_folder db current of None \<Rightarrow> ''''
                          | Some f \<Rightarrow> folder_credential_walk db user (depth + 1) (ParentID f))
        | None \<Rightarrow> (case find_folder db current of None \<Rightarrow> ''''
                   | Some f \<Rightarrow> folder_credential_walk db user (depth + 1) (ParentID f)))"
  by pat_completeness auto
termination by (relation "measure (\<lambda>(_, _, depth, _). Suc MaxDepth - depth)") auto

declare folder_credential_walk.simps [simp del]

definition folderCredentialFor :: "tree_db \<Rightarrow> string \<Rightarrow> string \<Rightarrow> string" where
  "folderCredentialFor db user folder = folder_credential_walk db user 0 folder"

definition Resolve :: "tree_db \<Rightarrow> string \<Rightarrow> string \<Rightarrow> (tree_error, Resolved) result" where
  "Resolve db user sid =
     bindr (getSessionVisible db user sid) (\<lambda>s.
     bindr (resolveWith s (find_folder db)) (\<lambda>r.
     Inr (if IsTeam s \<and> EffectiveCredentialID r = ''''
          then (let chosen = folderCredentialFor db user (FolderID s)
                in if chosen \<noteq> '''' then r\<lparr>EffectiveCredentialID := chosen\<rparr> else r)
          else r)))"

text \<open>\<^verbatim>\<open>Tree.Resolve\<close>: later rows of the same identifier would win the map.\<close>

definition Tree_Resolve :: "Tree \<Rightarrow> Session \<Rightarrow> (tree_error, Resolved) result" where
  "Tree_Resolve t s = resolveWith s (\<lambda>fid. find (\<lambda>f. f_ID f = fid) (rev (Folders t)))"

definition SetFolderCredential ::
  "tree_db \<Rightarrow> string \<Rightarrow> string \<Rightarrow> string \<Rightarrow> (tree_error, tree_db) result" where
  "SetFolderCredential db user folder credential =
     bindr (GetFolderAny db folder) (\<lambda>f.
     bindr (check (f_IsTeam f) OnlySharedFolders) (\<lambda>_.
     bindr (check ((f_OwnerID f, user) \<in> set (members db)) ErrNotFound) (\<lambda>_.
     bindr (check (user \<noteq> '''' \<and> (credential, user) \<in> set (credentials db)) ErrNotFound) (\<lambda>_.
     Inr (db\<lparr>folder_credentials := ((user, folder), credential)
            # filter (\<lambda>(k, c). k \<noteq> (user, folder)) (folder_credentials db)\<rparr>)))))"

subsection \<open>Jump hosts\<close>

text \<open>
  \<^verbatim>\<open>walkChain\<close> with the \<^verbatim>\<open>visited\<close> map it shares with its recursive calls: the result
  carries the route and what has been visited. \<open>walk_hops\<close> is its loop, from a route built so far.
\<close>

function walk_hops ::
  "tree_db \<Rightarrow> string \<Rightarrow> string list \<Rightarrow> string list \<Rightarrow> nat \<Rightarrow> Resolved list
     \<Rightarrow> (tree_error, Resolved list \<times> string list) result" where
  "walk_hops db user [] visited depth route = Inr (route, visited)"
| "walk_hops db user (hop # chain) visited depth route =
     (if depth > MaxJumpChain then Inl (ErrJumpTooLong depth)
      else if hop \<in> set visited then Inl (ErrJumpCycle hop)
      else case Resolve db user hop of
          Inl e \<Rightarrow> Inl (if is_not_found e then ErrJumpNotFound hop else e)
        | Inr r \<Rightarrow>
            if Protocol (r_Session r) \<noteq> ProtocolSSH
            then Inl (ErrJumpProtocol (Name (r_Session r)) (Protocol (r_Session r)))
            else case (if JumpChain (r_Session r) \<noteq> []
                       then (if depth + 1 > MaxJumpChain then Inl (ErrJumpTooLong (depth + 1))
                             else walk_hops db user (JumpChain (r_Session r)) (hop # visited) (depth + 1) [])
                       else Inr ([], hop # visited)) of
                Inl e \<Rightarrow> Inl e
              | Inr (nested, visited') \<Rightarrow>
                  let route' = route @ nested @ [r]
                  in if length route' > MaxJumpChain then Inl (ErrJumpTooLong (length route'))
                     else walk_hops db user chain visited' depth route')"
  by pat_completeness auto
termination
  by (relation "measures [\<lambda>(_, _, _, _, depth, _). Suc MaxJumpChain - depth, \<lambda>(_, _, chain, _). length chain]")
    auto

declare walk_hops.simps(2) [simp del]

definition walkChain ::
  "tree_db \<Rightarrow> string \<Rightarrow> string list \<Rightarrow> string list \<Rightarrow> nat \<Rightarrow> (tree_error, Resolved list \<times> string list) result" where
  "walkChain db user chain visited depth =
     (if depth > MaxJumpChain then Inl (ErrJumpTooLong depth) else walk_hops db user chain visited depth [])"

text \<open>The first loop of \<^verbatim>\<open>ValidateJumpChain\<close>, over the hops themselves.\<close>

fun check_hops :: "tree_db \<Rightarrow> string \<Rightarrow> string \<Rightarrow> string list \<Rightarrow> string list \<Rightarrow> (tree_error, unit) result" where
  "check_hops db owner self seen [] = Inr ()"
| "check_hops db owner self seen (hop # chain) =
     (if hop = '''' then Inl (ErrJumpNotFound '''')
      else if hop = self then Inl ErrJumpSelf
      else if hop \<in> set seen then Inl (ErrJumpCycle hop)
      else case GetSession db owner hop of
          Inl e \<Rightarrow> Inl (if is_not_found e then ErrJumpNotFound hop else e)
        | Inr s \<Rightarrow> if Protocol s \<noteq> ProtocolSSH then Inl (ErrJumpProtocol (Name s) (Protocol s))
                   else check_hops db owner self (hop # seen) chain)"

definition ValidateJumpChain :: "tree_db \<Rightarrow> string \<Rightarrow> string \<Rightarrow> string list \<Rightarrow> (tree_error, unit) result" where
  "ValidateJumpChain db owner self chain =
     (if chain = [] then Inr ()
      else if length chain > MaxJumpChain then Inl (ErrJumpTooLong (length chain))
      else bindr (check_hops db owner self [] chain) (\<lambda>_.
           bindr (walkChain db owner chain (if self \<noteq> '''' then [self] else []) 0) (\<lambda>_. Inr ())))"

definition ExpandJumpChain :: "tree_db \<Rightarrow> string \<Rightarrow> string \<Rightarrow> (tree_error, Resolved list) result" where
  "ExpandJumpChain db owner sid =
     bindr (GetSession db owner sid) (\<lambda>s.
       if JumpChain s = [] then Inr []
       else bindr (walkChain db owner (JumpChain s) [sid] 0) (\<lambda>(route, _). Inr route))"

definition jumpDependents :: "tree_db \<Rightarrow> string \<Rightarrow> string \<Rightarrow> string list" where
  "jumpDependents db owner sid =
     map Name (filter (\<lambda>s. ID s \<noteq> sid \<and> sid \<in> set (JumpChain s)) (ListSessions db owner False))"

subsection \<open>Saving connections\<close>

record CreateSessionParams =
  cs_OwnerID :: string
  cs_IsTeam :: bool
  cs_FolderID :: string
  cs_Name :: string
  cs_Protocol :: string
  cs_Hostname :: string
  cs_Port :: int
  cs_Username :: string
  cs_CredentialID :: string
  cs_JumpChain :: "string list"
  cs_Settings :: Settings
  cs_ActorID :: string

definition port_ok :: "int \<Rightarrow> bool" where
  "port_ok p \<longleftrightarrow> \<not> (p \<noteq> 0 \<and> (p < 1 \<or> p > 65535))"

definition CreateSession ::
  "tree_db \<Rightarrow> string \<Rightarrow> int \<Rightarrow> CreateSessionParams \<Rightarrow> (tree_error, tree_db \<times> Session) result" where
  "CreateSession db newID now p =
     bindr (check (cs_OwnerID p \<noteq> '''') OwnerRequired) (\<lambda>_.
     bindr (check (trim_space (cs_Name p) \<noteq> '''') NameRequired) (\<lambda>_.
     let proto = (if cs_Protocol p = '''' then ProtocolSSH else cs_Protocol p) in
     bindr (Validate_protocol proto) (\<lambda>_.
     bindr (check (\<not> (trim_space (cs_Hostname p) = '''' \<and> proto \<noteq> ProtocolSerial)) HostnameRequired) (\<lambda>_.
     bindr (check (port_ok (cs_Port p)) (PortOutOfRange (cs_Port p))) (\<lambda>_.
     bindr (if cs_FolderID p \<noteq> ''''
            then wrap_err DestinationFolder (bindr (GetFolder db (cs_OwnerID p) (cs_FolderID p)) (\<lambda>_. Inr ()))
            else Inr ()) (\<lambda>_.
     let actor = (if cs_ActorID p = '''' then cs_OwnerID p else cs_ActorID p) in
     bindr (ValidateJumpChain db actor '''' (cs_JumpChain p)) (\<lambda>_.
     let s = \<lparr>ID = newID, OwnerID = cs_OwnerID p, IsTeam = cs_IsTeam p, FolderID = cs_FolderID p,
              Name = trim_space (cs_Name p), Protocol = proto, Hostname = trim_space (cs_Hostname p),
              Port = cs_Port p, Username = trim_space (cs_Username p), CredentialID = cs_CredentialID p,
              JumpChain = cs_JumpChain p, Settings_of = cs_Settings p, SortOrder = 0,
              CreatedAt = now, UpdatedAt = now, LastUsedAt = None\<rparr>
     in bindr (insert_session db s) (\<lambda>db'. Inr (db', s)))))))))"

record UpdateSessionParams =
  us_Name :: "string option"
  us_FolderID :: "string option"
  us_Protocol :: "string option"
  us_Hostname :: "string option"
  us_Port :: "int option"
  us_Username :: "string option"
  us_CredentialID :: "string option"
  us_JumpChain :: "string list option"
  us_Settings :: "Settings option"
  us_SortOrder :: "int option"

text \<open>The guarded assignments of \<^verbatim>\<open>UpdateSession\<close>, in the order of the source.\<close>

definition edit_session ::
  "tree_db \<Rightarrow> string \<Rightarrow> string \<Rightarrow> UpdateSessionParams \<Rightarrow> Session \<Rightarrow> (tree_error, Session) result" where
  "edit_session db owner sid p s0 =
     bindr (case us_Name p of
              Some n \<Rightarrow> if trim_space n = '''' then Inl NameRequired else Inr (s0\<lparr>Name := trim_space n\<rparr>)
            | None \<Rightarrow> Inr s0) (\<lambda>s1.
     bindr (case us_FolderID p of
              Some f \<Rightarrow> bindr (if f \<noteq> ''''
                               then wrap_err DestinationFolder (bindr (GetFolder db owner f) (\<lambda>_. Inr ()))
                               else Inr ()) (\<lambda>_. Inr (s1\<lparr>FolderID := f\<rparr>))
            | None \<Rightarrow> Inr s1) (\<lambda>s2.
     bindr (case us_Protocol p of
              Some q \<Rightarrow> bindr (Validate_protocol q) (\<lambda>_. Inr (s2\<lparr>Protocol := q\<rparr>))
            | None \<Rightarrow> Inr s2) (\<lambda>s3.
     let s4 = (case us_Hostname p of Some h \<Rightarrow> s3\<lparr>Hostname := trim_space h\<rparr> | None \<Rightarrow> s3) in
     bindr (case us_Port p of
              Some q \<Rightarrow> if \<not> port_ok q then Inl (PortOutOfRange q) else Inr (s4\<lparr>Port := q\<rparr>)
            | None \<Rightarrow> Inr s4) (\<lambda>s5.
     let s6 = (case us_Username p of Some u \<Rightarrow> s5\<lparr>Username := trim_space u\<rparr> | None \<Rightarrow> s5);
         s7 = (case us_CredentialID p of Some c \<Rightarrow> s6\<lparr>CredentialID := c\<rparr> | None \<Rightarrow> s6) in
     bindr (case us_JumpChain p of
              Some ch \<Rightarrow> bindr (ValidateJumpChain db owner sid ch) (\<lambda>_. Inr (s7\<lparr>JumpChain := ch\<rparr>))
            | None \<Rightarrow> Inr s7) (\<lambda>s8.
     let s9 = (case us_Settings p of Some st \<Rightarrow> s8\<lparr>Settings_of := st\<rparr> | None \<Rightarrow> s8)
     in Inr (case us_SortOrder p of Some k \<Rightarrow> s9\<lparr>SortOrder := k\<rparr> | None \<Rightarrow> s9))))))"

text \<open>The \<^verbatim>\<open>UPDATE\<close>: the folder was read or was there; the credential may not exist.\<close>

definition update_session_row :: "tree_db \<Rightarrow> string \<Rightarrow> Session \<Rightarrow> (tree_error, tree_db) result" where
  "update_session_row db sid n =
     (if CredentialID n \<noteq> '''' \<and> \<not> credential_exists db (CredentialID n) then Inl DatabaseError
      else Inr (db\<lparr>sessions := map (\<lambda>s. if ID s = sid
             then s\<lparr>FolderID := FolderID n, Name := Name n, Protocol := Protocol n, Hostname := Hostname n,
                    Port := Port n, Username := Username n, CredentialID := CredentialID n,
                    JumpChain := JumpChain n, Settings_of := Settings_of n, SortOrder := SortOrder n,
                    UpdatedAt := UpdatedAt n\<rparr> else s) (sessions db)\<rparr>))"

definition UpdateSession ::
  "tree_db \<Rightarrow> int \<Rightarrow> string \<Rightarrow> string \<Rightarrow> UpdateSessionParams \<Rightarrow> (tree_error, tree_db \<times> Session) result" where
  "UpdateSession db now owner sid p =
     bindr (GetSession db owner sid) (\<lambda>s0.
     bindr (edit_session db owner sid p s0) (\<lambda>s1.
     let s2 = s1\<lparr>UpdatedAt := now\<rparr>
     in bindr (update_session_row db sid s2) (\<lambda>db'. Inr (db', s2))))"

definition DeleteSession :: "tree_db \<Rightarrow> string \<Rightarrow> string \<Rightarrow> (tree_error, tree_db) result" where
  "DeleteSession db owner sid =
     bindr (GetSession db owner sid) (\<lambda>_.
     let dependents = jumpDependents db owner sid
     in if dependents \<noteq> [] then Inl (ErrJumpInUse dependents)
        else Inr (db\<lparr>sessions := filter (\<lambda>s. ID s \<noteq> sid) (sessions db)\<rparr>))"

definition MarkUsed :: "tree_db \<Rightarrow> int \<Rightarrow> string \<Rightarrow> tree_db" where
  "MarkUsed db now sid =
     db\<lparr>sessions := map (\<lambda>s. if ID s = sid then s\<lparr>LastUsedAt := Some now\<rparr> else s) (sessions db)\<rparr>"

end
