(* ===== verification/Session_Forest.thy ===== *)
theory Session_Forest
  imports Session_Tree
begin

section \<open>The tree stays a forest\<close>

text \<open>
  The invariant of the saved-connection tables: identifiers are unique, every parent folder
  exists and has the same owner, so does the folder a connection is filed in, no folder is its own
  ancestor, and no connection is reached through itself. Every operation keeps it.
\<close>

definition parents :: "tree_db \<Rightarrow> (string \<times> string) set" where
  "parents db = {(f_ID f, ParentID f) | f. f \<in> set (folders db) \<and> ParentID f \<noteq> ''''}"

definition jumps :: "tree_db \<Rightarrow> (string \<times> string) set" where
  "jumps db = {(ID s, h) | s h. s \<in> set (sessions db) \<and> h \<in> set (JumpChain s)}"

definition folder_of :: "tree_db \<Rightarrow> string \<Rightarrow> string \<Rightarrow> bool" where
  "folder_of db owner fid \<longleftrightarrow> (\<exists>p \<in> set (folders db). f_ID p = fid \<and> f_OwnerID p = owner)"

definition forest_ok :: "tree_db \<Rightarrow> bool" where
  "forest_ok db \<longleftrightarrow>
     distinct (map f_ID (folders db)) \<and> '''' \<notin> f_ID ` set (folders db)
     \<and> (\<forall>f \<in> set (folders db). owner_exists db (f_OwnerID f) (f_IsTeam f)
          \<and> (ParentID f \<noteq> '''' \<longrightarrow> folder_of db (f_OwnerID f) (ParentID f)))
     \<and> set (users db) \<inter> set (teams db) = {} \<and> acyclic (parents db)"

definition filed_ok :: "tree_db \<Rightarrow> bool" where
  "filed_ok db \<longleftrightarrow>
     distinct (map ID (sessions db)) \<and> '''' \<notin> ID ` set (sessions db)
     \<and> (\<forall>s \<in> set (sessions db). owner_exists db (OwnerID s) (IsTeam s)
          \<and> (FolderID s \<noteq> '''' \<longrightarrow> folder_of db (OwnerID s) (FolderID s)))"

definition tree_ok :: "tree_db \<Rightarrow> bool" where
  "tree_ok db \<longleftrightarrow> forest_ok db \<and> filed_ok db \<and> acyclic (jumps db)"

text \<open>The empty database of a new installation.\<close>

definition empty_db :: tree_db where
  "empty_db = \<lparr>users = [], teams = [], members = [], credentials = [], folders = [], sessions = [],
               folder_credentials = []\<rparr>"

lemma empty_db_ok: "tree_ok empty_db"
  by (simp add: tree_ok_def forest_ok_def filed_ok_def empty_db_def parents_def jumps_def acyclic_def)

lemma find_folder_iff:
  "forest_ok db \<Longrightarrow> find_folder db fid = Some f \<longleftrightarrow> f \<in> set (folders db) \<and> f_ID f = fid"
  by (simp add: forest_ok_def find_folder_def find_Some_iff_distinct)

lemma find_session_iff:
  "filed_ok db \<Longrightarrow> find_session db sid = Some s \<longleftrightarrow> s \<in> set (sessions db) \<and> ID s = sid"
  by (simp add: filed_ok_def find_session_def find_Some_iff_distinct)

lemma find_folder_SomeD: "find_folder db fid = Some f \<Longrightarrow> f \<in> set (folders db) \<and> f_ID f = fid"
  unfolding find_folder_def by (metis (mono_tags, lifting) find_Some_iff nth_mem)

lemma find_session_SomeD: "find_session db sid = Some s \<Longrightarrow> s \<in> set (sessions db) \<and> ID s = sid"
  unfolding find_session_def by (metis (mono_tags, lifting) find_Some_iff nth_mem)

lemma find_folder_None: "find_folder db fid = None \<longleftrightarrow> fid \<notin> f_ID ` set (folders db)"
  by (simp add: find_folder_def find_None_iff_key)

lemma find_session_None: "find_session db sid = None \<longleftrightarrow> sid \<notin> ID ` set (sessions db)"
  by (simp add: find_session_def find_None_iff_key)

lemma GetFolder_Inr: "GetFolder db owner fid = Inr f \<longleftrightarrow> find_folder db fid = Some f \<and> f_OwnerID f = owner"
  by (auto simp: GetFolder_def split: option.splits if_splits)

lemma GetSession_Inr: "GetSession db owner sid = Inr s \<longleftrightarrow> find_session db sid = Some s \<and> OwnerID s = owner"
  by (auto simp: GetSession_def split: option.splits if_splits)

subsection \<open>Creating and moving folders\<close>

lemma depthOf_folder_of:
  assumes "depthOf db owner fid = Inr n" and "fid \<noteq> ''''"
  shows "folder_of db owner fid"
  using assms find_folder_SomeD [of db fid]
  by (auto simp: depthOf_def depth_walk.simps [of db owner 0] folder_of_def split: option.splits if_splits)

lemma folder_of_id: "folder_of db owner fid \<Longrightarrow> fid \<in> f_ID ` set (folders db)"
  unfolding folder_of_def by (metis imageI)

lemma parents_target: "forest_ok db \<Longrightarrow> (a, b) \<in> parents db \<Longrightarrow> b \<in> f_ID ` set (folders db)"
  using folder_of_id by (fastforce simp: forest_ok_def parents_def)

lemma parents_unique:
  assumes "forest_ok db" and "(a, b) \<in> parents db" and "(a, c) \<in> parents db"
  shows "b = c"
  using assms eq_key_imp_eq_value [of "map (\<lambda>f. (f_ID f, ParentID f)) (folders db)" a b c]
  by (auto simp: forest_ok_def parents_def comp_def image_iff)

text \<open>A walk that reaches the top without meeting the folder: it is not an ancestor.\<close>

lemma move_walk_clear:
  assumes "forest_ok db" and "move_walk db owner fid depth current = Inr ()" and "current \<noteq> ''''"
  shows "(current, fid) \<notin> (parents db)\<^sup>* \<and> folder_of db owner current"
  using assms
proof (induction db owner fid depth current rule: move_walk.induct)
  case (1 db owner fid depth current)
  from "1.prems" obtain f where f: "current \<noteq> fid" "find_folder db current = Some f" "f_OwnerID f = owner"
    "move_walk db owner fid (depth + 1) (ParentID f) = Inr ()" "\<not> depth > MaxDepth"
    by (simp add: move_walk.simps [of db owner fid depth current] split: option.splits if_splits)
  note row = find_folder_SomeD [OF f(2)]
  have "(current, fid) \<notin> (parents db)\<^sup>*"
  proof
    assume "(current, fid) \<in> (parents db)\<^sup>*"
    with f(1) obtain m where m: "(current, m) \<in> parents db" "(m, fid) \<in> (parents db)\<^sup>*"
      by (meson converse_rtranclE)
    then have ne: "ParentID f \<noteq> ''''" and "m = ParentID f"
    proof -
      from m(1) obtain g where "g \<in> set (folders db)" "f_ID g = current" "m = ParentID g" "m \<noteq> ''''"
        by (auto simp: parents_def)
      moreover from this have "g = f"
        using find_folder_iff [OF "1.prems"(1), of current g] f(2) by auto
      ultimately show "ParentID f \<noteq> ''''" "m = ParentID f" by auto
    qed
    with "1.IH" [OF "1.prems"(3) f(5) f(1,2)] f "1.prems"(1) m(2) show False by simp
  qed
  with row f(3) show ?case by (auto simp: folder_of_def)
qed

lemma checkMove_clear:
  assumes "forest_ok db" and "checkMove db owner fid np = Inr ()" and "np \<noteq> ''''"
  shows "(np, fid) \<notin> (parents db)\<^sup>* \<and> folder_of db owner np"
  using assms move_walk_clear [of db owner fid 0 np] by (auto simp: checkMove_def split: if_splits)

lemma folder_of_append: "folder_of db owner fid \<Longrightarrow> folder_of (db\<lparr>folders := folders db @ fs\<rparr>) owner fid"
  by (auto simp: folder_of_def)

lemma insert_folder_ok:
  assumes "forest_ok db" and "insert_folder db f = Inr db'" and "f_ID f \<noteq> ''''"
    and "ParentID f \<noteq> '''' \<Longrightarrow> folder_of db (f_OwnerID f) (ParentID f)"
  shows "forest_ok db'"
proof -
  from assms(2) have db': "db' = db\<lparr>folders := folders db @ [f]\<rparr>" and new: "f_ID f \<notin> f_ID ` set (folders db)"
    and own: "owner_exists db (f_OwnerID f) (f_IsTeam f)"
    by (auto simp: insert_folder_def find_folder_None split: if_splits)
  have owners: "owner_exists db' = owner_exists db" by (simp add: db' owner_exists_def fun_eq_iff)
  have "parents db' \<subseteq> insert (f_ID f, ParentID f) (parents db)" by (auto simp: parents_def db')
  moreover have "acyclic (insert (f_ID f, ParentID f) (parents db))" if "ParentID f \<noteq> ''''"
  proof -
    have "ParentID f \<in> f_ID ` set (folders db)" using assms(4) [OF that] by (rule folder_of_id)
    moreover have "(ParentID f, f_ID f) \<in> (parents db)\<^sup>* \<Longrightarrow> ParentID f = f_ID f \<or> f_ID f \<in> f_ID ` set (folders db)"
      by (metis assms(1) parents_target rtrancl.cases)
    ultimately show ?thesis using assms(1) new by (metis acyclic_insert forest_ok_def)
  qed
  moreover have "parents db' = parents db" if "ParentID f = ''''"
    using that by (auto simp: parents_def db')
  ultimately have "acyclic (parents db')"
    using assms(1) by (cases "ParentID f = ''''") (auto simp: forest_ok_def intro: acyclic_subset)
  then show ?thesis
    using assms(1,3,4) new own folder_of_append [of db _ _ "[f]"] owners
    by (auto simp: forest_ok_def db')
qed

lemma CreateFolder_ok:
  assumes "tree_ok db" and "CreateFolder db newID now p = Inr (db', f)" and "newID \<noteq> ''''"
  shows "tree_ok db'"
proof -
  let ?f = "\<lparr>f_ID = newID, f_OwnerID = cf_OwnerID p, f_IsTeam = cf_IsTeam p, ParentID = cf_ParentID p,
              f_Name = trim_space (cf_Name p), Defaults = cf_Defaults p, f_SortOrder = 0,
              f_CreatedAt = now, f_UpdatedAt = now\<rparr>"
  from assms(2) have ins: "insert_folder db ?f = Inr db'"
    and par: "cf_ParentID p \<noteq> '''' \<Longrightarrow> \<exists>n. depthOf db (cf_OwnerID p) (cf_ParentID p) = Inr n"
    by (auto simp: CreateFolder_def Let_def bindr_Inr_iff split: if_splits)
  have "forest_ok db'"
    using insert_folder_ok [OF _ ins] assms(1,3) par depthOf_folder_of by (auto simp: tree_ok_def)
  moreover from ins have "db' = db\<lparr>folders := folders db @ [?f]\<rparr>"
    by (auto simp: insert_folder_def split: if_splits)
  ultimately show ?thesis
    using assms(1) folder_of_append [of db _ _ "[?f]"]
    by (auto simp: tree_ok_def filed_ok_def jumps_def owner_exists_def)
qed

text \<open>A folder row replaced by one with the same identity and a parent that is clear of it.\<close>

lemma folder_of_map:
  assumes "\<And>f. f_ID (g f) = f_ID f \<and> f_OwnerID (g f) = f_OwnerID f"
  shows "folder_of (db\<lparr>folders := map g (folders db)\<rparr>) owner fid = folder_of db owner fid"
  using assms by (auto simp: folder_of_def)

lemma reparent_ok:
  assumes ok: "forest_ok db" and upd: "\<And>f. f_ID (g f) = f_ID f \<and> f_OwnerID (g f) = f_OwnerID f \<and> f_IsTeam (g f) = f_IsTeam f"
    and others: "\<And>f. f_ID f \<noteq> fid \<Longrightarrow> ParentID (g f) = ParentID f"
    and moved: "\<And>f. f \<in> set (folders db) \<Longrightarrow> f_ID f = fid \<Longrightarrow> ParentID (g f) = np \<and> f_OwnerID f = owner"
    and clear: "np \<noteq> '''' \<Longrightarrow> (np, fid) \<notin> (parents db)\<^sup>* \<and> folder_of db owner np"
  shows "forest_ok (db\<lparr>folders := map g (folders db)\<rparr>)"
proof -
  let ?db = "db\<lparr>folders := map g (folders db)\<rparr>"
  have edge: "(a, b) \<in> parents db \<or> (a, b) = (fid, np) \<and> np \<noteq> ''''" if "(a, b) \<in> parents ?db" for a b
  proof -
    from that obtain f where f: "f \<in> set (folders db)" "a = f_ID (g f)" "b = ParentID (g f)" "b \<noteq> ''''"
      by (auto simp: parents_def)
    with upd others [of f] moved [of f] show ?thesis
      by (cases "f_ID f = fid") (auto simp: parents_def)
  qed
  have "acyclic (parents ?db)"
  proof (cases "np = ''''")
    case True
    with edge have "parents ?db \<subseteq> parents db" by auto
    with ok show ?thesis by (auto simp: forest_ok_def intro: acyclic_subset)
  next
    case False
    with edge have "parents ?db \<subseteq> insert (fid, np) (parents db)" by auto
    moreover have "acyclic (insert (fid, np) (parents db))"
      using clear [OF False] ok by (simp add: acyclic_insert forest_ok_def)
    ultimately show ?thesis by (rule acyclic_subset [rotated])
  qed
  moreover have "ParentID (g f) \<noteq> '''' \<longrightarrow> folder_of ?db (f_OwnerID f) (ParentID (g f))"
    if "f \<in> set (folders db)" for f
    using that ok others [of f] moved [of f] clear upd folder_of_map [of g db]
    by (cases "f_ID f = fid") (auto simp: forest_ok_def)
  moreover have "f_ID \<circ> g = f_ID" using upd by (simp add: fun_eq_iff)
  moreover have "f_ID ` g ` set (folders db) = f_ID ` set (folders db)"
    using upd by (simp add: image_image)
  ultimately show ?thesis
    using ok upd by (simp add: forest_ok_def owner_exists_def)
qed

lemma edit_folder_parent:
  assumes "edit_folder db owner fid p f0 = Inr f"
  shows "ParentID f = ParentID f0 \<or> checkMove db owner fid (ParentID f) = Inr ()"
proof -
  from assms obtain f1 f2 where f1: "(case uf_ParentID p of Some np \<Rightarrow> if np \<noteq> ParentID f0
        then bindr (checkMove db owner fid np) (\<lambda>_. Inr (f0\<lparr>ParentID := np\<rparr>)) else Inr f0
      | None \<Rightarrow> Inr f0) = Inr f1"
    and f2: "(case uf_Name p of Some n \<Rightarrow> if trim_space n = '''' then Inl FolderNameRequired
        else Inr (f1\<lparr>f_Name := trim_space n\<rparr>) | None \<Rightarrow> Inr f1) = Inr f2"
    and last: "(Inr (case uf_Defaults p of
          Some d \<Rightarrow> (case uf_SortOrder p of Some k \<Rightarrow> f2\<lparr>f_SortOrder := k\<rparr> | None \<Rightarrow> f2)\<lparr>Defaults := d\<rparr>
        | None \<Rightarrow> (case uf_SortOrder p of Some k \<Rightarrow> f2\<lparr>f_SortOrder := k\<rparr> | None \<Rightarrow> f2))
        :: (tree_error, Folder) result) = Inr f"
    unfolding edit_folder_def bindr_Inr_iff Let_def by blast
  from last have f: "ParentID f = ParentID f2" by (auto split: option.splits)
  from f2 have "ParentID f2 = ParentID f1" by (auto split: option.splits if_splits)
  with f1 f show ?thesis by (auto simp: bindr_Inr_iff split: option.splits if_splits)
qed

lemma UpdateFolder_ok:
  assumes ok: "tree_ok db" and upd: "UpdateFolder db now owner fid p = Inr (db', f)"
  shows "tree_ok db'"
proof -
  from upd obtain f0 f4 where f0: "find_folder db fid = Some f0" "f_OwnerID f0 = owner"
    and f4: "edit_folder db owner fid p f0 = Inr f4"
    and db': "db' = update_folder_row db fid (f4\<lparr>f_UpdatedAt := now\<rparr>)"
    unfolding UpdateFolder_def by (auto simp: bindr_Inr_iff Let_def GetFolder_Inr)
  have forest: "forest_ok db" using ok by (simp add: tree_ok_def)
  note row = find_folder_SomeD [OF f0(1)]
  let ?g = "\<lambda>f. if f_ID f = fid
       then f\<lparr>f_Name := f_Name f4, ParentID := ParentID f4, f_SortOrder := f_SortOrder f4,
              Defaults := Defaults f4, f_UpdatedAt := now\<rparr> else f"
  have clear: "(ParentID f4, fid) \<notin> (parents db)\<^sup>* \<and> folder_of db owner (ParentID f4)"
    if np: "ParentID f4 \<noteq> ''''"
  proof (cases "ParentID f4 = ParentID f0")
    case True
    have edge: "(fid, ParentID f0) \<in> parents db" using row np True by (auto simp: parents_def)
    then have "(ParentID f0, fid) \<notin> (parents db)\<^sup>*"
      using forest by (meson acyclic_def forest_ok_def rtrancl_into_trancl2)
    with forest row f0(2) np True show ?thesis by (auto simp: forest_ok_def)
  next
    case False
    with edit_folder_parent [OF f4] checkMove_clear [OF forest] np show ?thesis by blast
  qed
  have "forest_ok (db\<lparr>folders := map ?g (folders db)\<rparr>)"
  proof (rule reparent_ok [OF forest, where fid = fid and np = "ParentID f4" and owner = owner])
    fix f assume "f \<in> set (folders db)" "f_ID f = fid"
    with row have "f = f0" using find_folder_iff [OF forest, of fid f] f0(1) by simp
    with f0 show "ParentID (?g f) = ParentID f4 \<and> f_OwnerID f = owner" using row by simp
  qed (use clear in auto)
  moreover have "folder_of (db\<lparr>folders := map ?g (folders db)\<rparr>) = folder_of db"
    using folder_of_map [of ?g db] by (simp add: fun_eq_iff)
  moreover have "db' = db\<lparr>folders := map ?g (folders db)\<rparr>"
    by (simp add: db' update_folder_row_def cong: if_cong)
  ultimately show ?thesis
    using ok by (simp add: tree_ok_def filed_ok_def jumps_def owner_exists_def)
qed

subsection \<open>Deleting folders\<close>

text \<open>The folders at and beneath one.\<close>

definition subtree :: "tree_db \<Rightarrow> string \<Rightarrow> string set" where
  "subtree db root = {x. (x, root) \<in> (parents db)\<^sup>*}"

lemma subtree_root [simp]: "root \<in> subtree db root"
  by (simp add: subtree_def)

lemma subtree_child:
  assumes "f \<in> set (folders db)" and "ParentID f \<in> subtree db root" and "ParentID f \<noteq> ''''"
  shows "f_ID f \<in> subtree db root"
proof -
  have "(f_ID f, ParentID f) \<in> parents db" using assms by (auto simp: parents_def)
  with assms(2) show ?thesis by (auto simp: subtree_def intro: converse_rtrancl_into_rtrancl)
qed

lemma cascade_fixed:
  assumes "filter (\<lambda>f. ParentID f \<in> set S \<and> f_ID f \<notin> set S) fs = []"
  shows "cascade n fs S = S"
  using assms by (induction n) auto

text \<open>With a round for every row still outside, the set that goes is closed under children.\<close>

lemma cascade_closed:
  assumes "card (f_ID ` set fs - set S) \<le> n" and "f \<in> set fs" and "ParentID f \<in> set (cascade n fs S)"
  shows "f_ID f \<in> set (cascade n fs S)"
  using assms
proof (induction n arbitrary: S)
  case 0
  then show ?case by auto
next
  case (Suc n)
  let ?new = "map f_ID (filter (\<lambda>f. ParentID f \<in> set S \<and> f_ID f \<notin> set S) fs)"
  show ?case
  proof (cases "?new = []")
    case True
    then have none: "filter (\<lambda>f. ParentID f \<in> set S \<and> f_ID f \<notin> set S) fs = []" by simp
    with Suc.prems show ?thesis
      using cascade_fixed [OF none, of "Suc n"] by (auto simp: filter_empty_conv)
  next
    case False
    then obtain x where "x \<in> set ?new" by (metis last_in_set)
    then have "f_ID ` set fs - set (S @ ?new) \<subset> f_ID ` set fs - set S" by auto
    then have "card (f_ID ` set fs - set (S @ ?new)) < card (f_ID ` set fs - set S)"
      by (intro psubset_card_mono) auto
    with Suc.prems(1) have "card (f_ID ` set fs - set (S @ ?new)) \<le> n" by linarith
    from Suc.IH [OF this Suc.prems(2)] Suc.prems(3) show ?thesis by simp
  qed
qed

lemma cascade_mono: "set S \<subseteq> set (cascade n fs S)"
proof (induction n arbitrary: S)
  case (Suc n)
  from Suc [of "S @ map f_ID (filter (\<lambda>f. ParentID f \<in> set S \<and> f_ID f \<notin> set S) fs)"]
  show ?case by simp
qed simp

lemma cascade_within:
  assumes "set S \<subseteq> T" and "\<And>f. f \<in> set fs \<Longrightarrow> ParentID f \<in> T \<Longrightarrow> f_ID f \<in> T"
  shows "set (cascade n fs S) \<subseteq> T"
  using assms(1)
proof (induction n arbitrary: S)
  case (Suc n)
  have "set (S @ map f_ID (filter (\<lambda>f. ParentID f \<in> set S \<and> f_ID f \<notin> set S) fs)) \<subseteq> T"
    using Suc.prems assms(2) by auto
  from Suc.IH [OF this] show ?case by simp
qed simp

text \<open>Deleting a folder row takes exactly its subtree.\<close>

lemma cascade_subtree:
  assumes "forest_ok db" and "root \<in> f_ID ` set (folders db)"
  shows "set (cascade (length (folders db)) (folders db) [root]) = subtree db root"
proof
  have nonempty: "'''' \<notin> subtree db root"
  proof
    assume "'''' \<in> subtree db root"
    then have "('''', root) \<in> (parents db)\<^sup>*" by (simp add: subtree_def)
    then show False
    proof (cases rule: converse_rtranclE)
      case base
      then show False using assms by (simp add: forest_ok_def)
    next
      case (step m)
      then show False using assms(1) by (auto simp: forest_ok_def parents_def image_iff)
    qed
  qed
  then show "set (cascade (length (folders db)) (folders db) [root]) \<subseteq> subtree db root"
    by (intro cascade_within) (auto intro: subtree_child)
  have card: "card (f_ID ` set (folders db) - set [root]) \<le> length (folders db)"
    by (rule order.trans [OF card_mono [of "f_ID ` set (folders db)"]])
      (auto intro: order.trans [OF card_image_le card_length])
  have "x \<in> set (cascade (length (folders db)) (folders db) [root])" if "(x, root) \<in> (parents db)\<^sup>*" for x
    using that
  proof (induction rule: converse_rtrancl_induct)
    case base
    show ?case using cascade_mono [of "[root]"] by auto
  next
    case (step y z)
    from step.hyps(1) obtain f where "f \<in> set (folders db)" "y = f_ID f" "z = ParentID f"
      by (auto simp: parents_def)
    with cascade_closed [OF card] step.IH show ?case by blast
  qed
  then show "subtree db root \<subseteq> set (cascade (length (folders db)) (folders db) [root])"
    by (auto simp: subtree_def)
qed

lemma delete_folder_row_subtree:
  assumes "forest_ok db" and "root \<in> f_ID ` set (folders db)"
  shows "delete_folder_row db root =
     db\<lparr>folders := filter (\<lambda>f. f_ID f \<notin> subtree db root) (folders db),
        sessions := map (\<lambda>s. if FolderID s \<in> subtree db root then s\<lparr>FolderID := ''''\<rparr> else s) (sessions db),
        folder_credentials := filter (\<lambda>((u, f), c). f \<notin> subtree db root) (folder_credentials db)\<rparr>"
  by (simp add: delete_folder_row_def cascade_subtree [OF assms] Let_def)

lemma subset_jumps_acyclic:
  assumes "acyclic (jumps db)" and "\<And>s. s \<in> set (sessions db') \<Longrightarrow> \<exists>t \<in> set (sessions db). ID s = ID t \<and> JumpChain s = JumpChain t"
  shows "acyclic (jumps db')"
proof -
  have "jumps db' \<subseteq> jumps db" using assms(2) by (fastforce simp: jumps_def)
  with assms(1) show ?thesis by (rule acyclic_subset)
qed

lemma delete_folder_row_ok:
  assumes ok: "tree_ok db" and root: "root \<in> f_ID ` set (folders db)"
  shows "tree_ok (delete_folder_row db root)"
proof -
  let ?db = "delete_folder_row db root" and ?T = "subtree db root"
  have forest: "forest_ok db" and filed: "filed_ok db" using ok by (simp_all add: tree_ok_def)
  note eq = delete_folder_row_subtree [OF forest root]
  have keep: "folder_of ?db owner fid" if "folder_of db owner fid" "fid \<notin> ?T" for owner fid
    using that by (auto simp: eq folder_of_def)
  have "parents ?db \<subseteq> parents db" by (auto simp: eq parents_def)
  then have acyc: "acyclic (parents ?db)" using forest by (auto simp: forest_ok_def intro: acyclic_subset)
  have "folder_of ?db (f_OwnerID f) (ParentID f)"
    if "f \<in> set (folders db)" "f_ID f \<notin> ?T" "ParentID f \<noteq> ''''" for f
    using that forest keep subtree_child [of f db root] by (auto simp: forest_ok_def)
  with forest acyc have "forest_ok ?db"
    by (auto simp: forest_ok_def eq distinct_map_filter owner_exists_def)
  moreover have "filed_ok ?db"
    using filed keep by (auto simp: filed_ok_def eq comp_def if_distrib owner_exists_def cong: if_cong)
  moreover have "acyclic (jumps ?db)"
    by (rule subset_jumps_acyclic [of db]) (use ok in \<open>auto simp: tree_ok_def eq\<close>)
  ultimately show ?thesis by (simp add: tree_ok_def)
qed

lemma filter_sessions_ok:
  assumes "tree_ok db"
  shows "tree_ok (db\<lparr>sessions := filter P (sessions db)\<rparr>)"
proof -
  have "acyclic (jumps (db\<lparr>sessions := filter P (sessions db)\<rparr>))"
    by (rule subset_jumps_acyclic [of db]) (use assms in \<open>auto simp: tree_ok_def\<close>)
  with assms show ?thesis
    by (auto simp: tree_ok_def forest_ok_def filed_ok_def parents_def folder_of_def owner_exists_def
        distinct_map_filter)
qed

lemma DeleteFolder_ok:
  assumes "tree_ok db" and "DeleteFolder db owner fid = Inr db'"
  shows "tree_ok db'"
proof -
  from assms(2) obtain f where "find_folder db fid = Some f" "db' = delete_folder_row db fid"
    by (auto simp: DeleteFolder_def bindr_Inr_iff GetFolder_Inr split: if_splits prod.splits)
  with find_folder_SomeD [of db fid f] delete_folder_row_ok [OF assms(1)] show ?thesis by blast
qed

text \<open>The sweep of the transaction, as one filter.\<close>

lemma sweep:
  "foldl (\<lambda>(d, n) folder.
       (d\<lparr>sessions := filter (\<lambda>s. FolderID s \<noteq> folder) (sessions d)\<rparr>,
        n + length (filter (\<lambda>s. FolderID s = folder) (sessions d)))) (db, n) ids
   = (db\<lparr>sessions := filter (\<lambda>s. FolderID s \<notin> set ids) (sessions db)\<rparr>,
      n + length (filter (\<lambda>s. FolderID s \<in> set ids) (sessions db)))"
proof (induction ids arbitrary: db n)
  case Nil
  then show ?case by simp
next
  case (Cons i ids)
  have count: "length (filter (\<lambda>s. FolderID s = i) xs) + length (filter (\<lambda>s. FolderID s \<noteq> i \<and> FolderID s \<in> set ids) xs)
     = length (filter (\<lambda>s. FolderID s = i \<or> FolderID s \<in> set ids) xs)" for xs
    by (induction xs) auto
  show ?case by (simp add: Cons.IH count [symmetric] conj_commute)
qed

lemma DeleteFolderRecursive_Inr:
  "DeleteFolderRecursive db owner fid = Inr (db', n) \<longleftrightarrow>
     (\<exists>f ids. find_folder db fid = Some f \<and> f_OwnerID f = owner \<and> descendantFolderIDs db owner fid = Inr ids
        \<and> db' = delete_folder_row (db\<lparr>sessions := filter (\<lambda>s. FolderID s \<notin> set ids) (sessions db)\<rparr>) fid
        \<and> n = length (filter (\<lambda>s. FolderID s \<in> set ids) (sessions db)))"
  by (auto simp: DeleteFolderRecursive_def bindr_Inr_iff GetFolder_Inr sweep Let_def)

lemma DeleteFolderRecursive_ok:
  assumes "tree_ok db" and "DeleteFolderRecursive db owner fid = Inr (db', n)"
  shows "tree_ok db'"
proof -
  from assms(2) obtain f ids where f: "find_folder db fid = Some f"
    and db': "db' = delete_folder_row (db\<lparr>sessions := filter (\<lambda>s. FolderID s \<notin> set ids) (sessions db)\<rparr>) fid"
    by (auto simp: DeleteFolderRecursive_Inr)
  have "fid \<in> f_ID ` set (folders db)" using find_folder_SomeD [OF f] by auto
  then show ?thesis
    unfolding db' by (intro delete_folder_row_ok filter_sessions_ok assms(1)) simp
qed

subsection \<open>Jump chains\<close>

lemma getSessionVisible_Inr:
  assumes "filed_ok db"
  shows "getSessionVisible db user sid = Inr s \<longleftrightarrow>
     s \<in> set (sessions db) \<and> ID s = sid \<and> memberClause db user (OwnerID s) (IsTeam s)"
proof
  assume "getSessionVisible db user sid = Inr s"
  then have "find (\<lambda>s. ID s = sid \<and> memberClause db user (OwnerID s) (IsTeam s)) (sessions db) = Some s"
    by (auto simp: getSessionVisible_def split: option.splits)
  then show "s \<in> set (sessions db) \<and> ID s = sid \<and> memberClause db user (OwnerID s) (IsTeam s)"
    by (metis (mono_tags, lifting) find_Some_iff nth_mem)
next
  assume r: "s \<in> set (sessions db) \<and> ID s = sid \<and> memberClause db user (OwnerID s) (IsTeam s)"
  then have "find (\<lambda>s. ID s = sid \<and> memberClause db user (OwnerID s) (IsTeam s)) (sessions db) \<noteq> None"
    by (auto simp: find_None_iff)
  then obtain t where t: "find (\<lambda>s. ID s = sid \<and> memberClause db user (OwnerID s) (IsTeam s)) (sessions db) = Some t"
    by blast
  then have "t \<in> set (sessions db)" "ID t = sid" by (metis (mono_tags, lifting) find_Some_iff nth_mem)+
  with r have "t = s" using assms by (metis filed_ok_def find_session_iff option.inject)
  with t show "getSessionVisible db user sid = Inr s" by (simp add: getSessionVisible_def)
qed

lemma resolveWith_session:
  assumes "resolveWith s lookup = Inr r"
  shows "\<exists>st. r_Session r = s\<lparr>Settings_of := st\<rparr>"
  using assms by (auto simp: resolveWith_def bindr_Inr_iff)

lemma Resolve_session:
  assumes "filed_ok db" and "Resolve db user sid = Inr r"
  shows "\<exists>s \<in> set (sessions db). ID s = sid \<and> memberClause db user (OwnerID s) (IsTeam s)
     \<and> (\<exists>st. r_Session r = s\<lparr>Settings_of := st\<rparr>)"
proof -
  from assms(2) obtain s q where s: "getSessionVisible db user sid = Inr s"
    and q: "resolveWith s (find_folder db) = Inr q" and r: "r_Session r = r_Session q"
    by (auto simp: Resolve_def bindr_Inr_iff Let_def split: if_splits)
  with resolveWith_session [OF q] getSessionVisible_Inr [OF assms(1)] show ?thesis by auto
qed

text \<open>
  A walk that succeeds has visited a set of connections that is closed under their own chains,
  contains the chain it was given, and holds nothing that was visited before. Its route names
  exactly what it visited, each once, SSH connections all.
\<close>

definition walked :: "tree_db \<Rightarrow> string set \<Rightarrow> string set \<Rightarrow> bool" where
  "walked db before new \<longleftrightarrow> before \<inter> new = {} \<and> new \<subseteq> ID ` set (sessions db)
     \<and> (\<forall>a b. a \<in> new \<longrightarrow> (a, b) \<in> jumps db \<longrightarrow> b \<in> new)"

definition route_ids :: "Resolved list \<Rightarrow> string list" where
  "route_ids rs = map (\<lambda>r. ID (r_Session r)) rs"

definition all_ssh :: "Resolved list \<Rightarrow> bool" where
  "all_ssh rs = list_all (\<lambda>r. Protocol (r_Session r) = ProtocolSSH) rs"

lemma jumps_iff:
  assumes "filed_ok db" and "s \<in> set (sessions db)"
  shows "(ID s, h) \<in> jumps db \<longleftrightarrow> h \<in> set (JumpChain s)"
proof
  assume "(ID s, h) \<in> jumps db"
  then obtain t where "t \<in> set (sessions db)" "ID t = ID s" "h \<in> set (JumpChain t)" by (auto simp: jumps_def)
  with assms show "h \<in> set (JumpChain s)" by (metis find_session_iff option.inject)
qed (use assms in \<open>auto simp: jumps_def\<close>)

text \<open>One hop of the loop, taken apart.\<close>

lemma walk_hops_Cons:
  assumes "walk_hops db user (hop # chain) visited depth route = Inr (out, vis)"
  obtains r nested mid where "hop \<notin> set visited" "Resolve db user hop = Inr r"
    "Protocol (r_Session r) = ProtocolSSH" "depth \<le> MaxJumpChain"
    "JumpChain (r_Session r) \<noteq> [] \<longrightarrow> depth + 1 \<le> MaxJumpChain \<and>
       walk_hops db user (JumpChain (r_Session r)) (hop # visited) (depth + 1) [] = Inr (nested, mid)"
    "JumpChain (r_Session r) = [] \<longrightarrow> nested = [] \<and> mid = hop # visited"
    "length (route @ nested @ [r]) \<le> MaxJumpChain"
    "walk_hops db user chain mid depth (route @ nested @ [r]) = Inr (out, vis)"
proof -
  have depth: "depth \<le> MaxJumpChain" and hop: "hop \<notin> set visited"
    using assms by (auto simp: walk_hops.simps(2) split: if_splits)
  with assms obtain r where r: "Resolve db user hop = Inr r" "Protocol (r_Session r) = ProtocolSSH"
    by (auto simp: walk_hops.simps(2) split: if_splits sum.splits)
  define inside where "inside = (if JumpChain (r_Session r) \<noteq> []
     then (if depth + 1 > MaxJumpChain then Inl (ErrJumpTooLong (depth + 1))
           else walk_hops db user (JumpChain (r_Session r)) (hop # visited) (depth + 1) [])
     else Inr ([], hop # visited))"
  have "(case inside of Inl e \<Rightarrow> Inl e | Inr (nested, mid) \<Rightarrow>
      let route' = route @ nested @ [r]
      in if length route' > MaxJumpChain then Inl (ErrJumpTooLong (length route'))
         else walk_hops db user chain mid depth route') = Inr (out, vis)"
    using assms depth hop r by (simp add: walk_hops.simps(2) inside_def)
  then obtain nested mid where n: "inside = Inr (nested, mid)" "length (route @ nested @ [r]) \<le> MaxJumpChain"
    "walk_hops db user chain mid depth (route @ nested @ [r]) = Inr (out, vis)"
    by (auto simp: Let_def split: sum.splits if_splits)
  show thesis
    by (rule that [of r nested mid]) (use depth hop r n in \<open>auto simp: inside_def split: if_splits\<close>)
qed

lemma walked_hop:
  assumes ok: "filed_ok db" and s: "s \<in> set (sessions db)" and fresh: "ID s \<notin> B"
    and inside: "walked db (insert (ID s) B) N" "set (JumpChain s) \<subseteq> N"
    and rest: "walked db (insert (ID s) (B \<union> N)) M"
  shows "walked db B (insert (ID s) (N \<union> M))"
  using assms jumps_iff [OF ok s] by (auto simp: walked_def)

lemma walk_hops_route:
  assumes "filed_ok db" and "walk_hops db user chain visited depth route = Inr (out, vis)"
  shows "\<exists>new. out = route @ new \<and> distinct (route_ids new) \<and> set vis = set visited \<union> set (route_ids new)
     \<and> walked db (set visited) (set (route_ids new)) \<and> set chain \<subseteq> set (route_ids new)
     \<and> all_ssh new \<and> (chain \<noteq> [] \<longrightarrow> length out \<le> MaxJumpChain)"
  using assms(2)
proof (induction "Suc MaxJumpChain - depth" arbitrary: depth chain visited route out vis rule: less_induct)
  case less
  from less.prems show ?case
  proof (induction chain arbitrary: visited route)
    case Nil
    then show ?case by (intro exI [of _ "[]"]) (auto simp: route_ids_def all_ssh_def walked_def)
  next
    case (Cons hop chain)
    from Cons.prems obtain r nested mid where h: "hop \<notin> set visited" "Resolve db user hop = Inr r"
      "Protocol (r_Session r) = ProtocolSSH" "depth \<le> MaxJumpChain"
      "JumpChain (r_Session r) \<noteq> [] \<longrightarrow> depth + 1 \<le> MaxJumpChain \<and>
         walk_hops db user (JumpChain (r_Session r)) (hop # visited) (depth + 1) [] = Inr (nested, mid)"
      "JumpChain (r_Session r) = [] \<longrightarrow> nested = [] \<and> mid = hop # visited"
      "length (route @ nested @ [r]) \<le> MaxJumpChain"
      "walk_hops db user chain mid depth (route @ nested @ [r]) = Inr (out, vis)"
      using walk_hops_Cons by blast
    from Resolve_session [OF assms(1) h(2)] obtain s where s: "s \<in> set (sessions db)" "ID s = hop"
      "JumpChain (r_Session r) = JumpChain s" "ID (r_Session r) = hop" by auto
    have nested: "distinct (route_ids nested) \<and> set mid = insert hop (set visited) \<union> set (route_ids nested)
        \<and> walked db (insert hop (set visited)) (set (route_ids nested))
        \<and> set (JumpChain s) \<subseteq> set (route_ids nested) \<and> all_ssh nested"
    proof (cases "JumpChain (r_Session r) = []")
      case True
      with h(6) s show ?thesis by (auto simp: route_ids_def all_ssh_def walked_def)
    next
      case False
      note inner = h(5) [THEN mp, OF False]
      have "Suc MaxJumpChain - (depth + 1) < Suc MaxJumpChain - depth" using h(4) by linarith
      from less.hyps [OF this, of "JumpChain (r_Session r)" "hop # visited" "[]" nested mid] inner s(3)
      show ?thesis by auto
    qed
    from Cons.IH [OF h(8)] obtain new where new: "out = (route @ nested @ [r]) @ new" "distinct (route_ids new)"
      "set vis = set mid \<union> set (route_ids new)" "walked db (set mid) (set (route_ids new))"
      "set chain \<subseteq> set (route_ids new)" "all_ssh new" "chain \<noteq> [] \<longrightarrow> length out \<le> MaxJumpChain" by blast
    have "walked db (set visited) (insert hop (set (route_ids nested) \<union> set (route_ids new)))"
      using walked_hop [OF assms(1) s(1)] s(2) h(1) nested new(4) by auto
    moreover have "length out \<le> MaxJumpChain"
      using new(1,7) h(7,8) by (cases chain) auto
    moreover have "set (route_ids nested) \<inter> set (route_ids new) = {}" "hop \<notin> set (route_ids nested)" "hop \<notin> set (route_ids new)"
      using nested new(4) by (auto simp: walked_def)
    ultimately show ?case
      using new nested h(3) s(4)
      by (intro exI [of _ "nested @ [r] @ new"]) (auto simp: route_ids_def all_ssh_def)
  qed
qed

text \<open>What a chain that passes validation reaches: a closed set that avoids the connection itself.\<close>

lemma ValidateJumpChain_closed:
  assumes "filed_ok db" and "ValidateJumpChain db owner self chain = Inr ()"
  shows "\<exists>N. set chain \<subseteq> N \<and> N \<subseteq> ID ` set (sessions db) \<and> (self \<noteq> '''' \<longrightarrow> self \<notin> N)
     \<and> (\<forall>a b. a \<in> N \<longrightarrow> (a, b) \<in> jumps db \<longrightarrow> b \<in> N)"
proof (cases "chain = []")
  case True
  then show ?thesis by (intro exI [of _ "{}"]) simp
next
  case False
  let ?vis = "if self \<noteq> '''' then [self] else []"
  from assms(2) False obtain out vis where "walk_hops db owner chain ?vis 0 [] = Inr (out, vis)"
    by (auto simp: ValidateJumpChain_def bindr_Inr_iff walkChain_def split: if_splits)
  from walk_hops_route [OF assms(1) this] show ?thesis
    by (auto simp: walked_def intro!: exI [of _ "set (route_ids out)"])
qed

lemma set_chain_acyclic:
  assumes ok: "tree_ok db" and valid: "ValidateJumpChain db owner self chain = Inr ()"
    and x: "x = self \<and> self \<noteq> '''' \<or> x \<notin> ID ` set (sessions db)"
  shows "acyclic (jumps db \<union> {x} \<times> set chain)"
proof -
  from ValidateJumpChain_closed [OF _ valid] ok obtain N where N: "set chain \<subseteq> N" "N \<subseteq> ID ` set (sessions db)"
    "self \<noteq> '''' \<longrightarrow> self \<notin> N" "\<forall>a b. a \<in> N \<longrightarrow> (a, b) \<in> jumps db \<longrightarrow> b \<in> N"
    by (auto simp: tree_ok_def)
  with ok x show ?thesis by (intro acyclic_extend [of _ _ N]) (auto simp: tree_ok_def)
qed

subsection \<open>Saving and deleting connections\<close>

lemma insert_session_ok:
  assumes ok: "tree_ok db" and ins: "insert_session db s = Inr db'" and "ID s \<noteq> ''''"
    and folder: "FolderID s \<noteq> '''' \<longrightarrow> folder_of db (OwnerID s) (FolderID s)"
    and chain: "ValidateJumpChain db actor '''' (JumpChain s) = Inr ()"
  shows "tree_ok db'"
proof -
  from ins have db': "db' = db\<lparr>sessions := sessions db @ [s]\<rparr>" and new: "ID s \<notin> ID ` set (sessions db)"
    and own: "owner_exists db (OwnerID s) (IsTeam s)"
    by (auto simp: insert_session_def find_session_None split: if_splits)
  have "jumps db' = jumps db \<union> {ID s} \<times> set (JumpChain s)" by (auto simp: db' jumps_def)
  with set_chain_acyclic [OF ok chain, of "ID s"] new have "acyclic (jumps db')" by simp
  then show ?thesis
    using ok new own folder assms(3)
    by (auto simp: tree_ok_def forest_ok_def filed_ok_def db' folder_of_def owner_exists_def parents_def)
qed

lemma CreateSession_ok:
  assumes "tree_ok db" and "CreateSession db newID now p = Inr (db', s)" and "newID \<noteq> ''''"
  shows "tree_ok db'"
proof -
  let ?actor = "if cs_ActorID p = '''' then cs_OwnerID p else cs_ActorID p"
  from assms(2) have ins: "insert_session db s = Inr db'" and s: "ID s = newID" "OwnerID s = cs_OwnerID p"
      "FolderID s = cs_FolderID p" "JumpChain s = cs_JumpChain p"
    and chain: "ValidateJumpChain db ?actor '''' (cs_JumpChain p) = Inr ()"
    and folder: "cs_FolderID p \<noteq> '''' \<longrightarrow> (\<exists>f. GetFolder db (cs_OwnerID p) (cs_FolderID p) = Inr f)"
    by (auto simp: CreateSession_def Let_def bindr_Inr_iff split: if_splits)
  have "FolderID s \<noteq> '''' \<longrightarrow> folder_of db (OwnerID s) (FolderID s)"
    using folder find_folder_SomeD by (fastforce simp: s GetFolder_Inr folder_of_def)
  from insert_session_ok [OF assms(1) ins _ this] chain assms(3) s show ?thesis by metis
qed

lemma edit_session_fields:
  assumes "edit_session db owner sid p s0 = Inr s"
  shows "(FolderID s = FolderID s0 \<or> FolderID s = '''' \<or> folder_of db owner (FolderID s))
     \<and> (JumpChain s = JumpChain s0 \<or> ValidateJumpChain db owner sid (JumpChain s) = Inr ())
     \<and> (\<forall>ch. us_JumpChain p = Some ch \<longrightarrow> ValidateJumpChain db owner sid ch = Inr () \<and> JumpChain s = ch)"
proof -
  from assms obtain s1 s2 s3 s5 s8 where
    e1: "(case us_Name p of
              Some n \<Rightarrow> if trim_space n = '''' then Inl NameRequired else Inr (s0\<lparr>Name := trim_space n\<rparr>)
            | None \<Rightarrow> Inr s0) = Inr s1"
    and e2: "(case us_FolderID p of
              Some f \<Rightarrow> bindr (if f \<noteq> ''''
                               then wrap_err DestinationFolder (bindr (GetFolder db owner f) (\<lambda>_. Inr ()))
                               else Inr ()) (\<lambda>_. Inr (s1\<lparr>FolderID := f\<rparr>))
            | None \<Rightarrow> Inr s1) = Inr s2"
    and e3: "(case us_Protocol p of
              Some q \<Rightarrow> bindr (Validate_protocol q) (\<lambda>_. Inr (s2\<lparr>Protocol := q\<rparr>))
            | None \<Rightarrow> Inr s2) = Inr s3"
    and e5: "(case us_Port p of
              Some q \<Rightarrow> if \<not> port_ok q then Inl (PortOutOfRange q)
                else Inr ((case us_Hostname p of Some h \<Rightarrow> s3\<lparr>Hostname := trim_space h\<rparr> | None \<Rightarrow> s3)\<lparr>Port := q\<rparr>)
            | None \<Rightarrow> Inr (case us_Hostname p of Some h \<Rightarrow> s3\<lparr>Hostname := trim_space h\<rparr> | None \<Rightarrow> s3)) = Inr s5"
    and e8: "(case us_JumpChain p of
              Some ch \<Rightarrow> bindr (ValidateJumpChain db owner sid ch) (\<lambda>_.
                Inr ((case us_CredentialID p of
                  Some c \<Rightarrow> (case us_Username p of Some u \<Rightarrow> s5\<lparr>Username := trim_space u\<rparr> | None \<Rightarrow> s5)\<lparr>CredentialID := c\<rparr>
                | None \<Rightarrow> (case us_Username p of Some u \<Rightarrow> s5\<lparr>Username := trim_space u\<rparr> | None \<Rightarrow> s5))\<lparr>JumpChain := ch\<rparr>))
            | None \<Rightarrow> Inr (case us_CredentialID p of
                  Some c \<Rightarrow> (case us_Username p of Some u \<Rightarrow> s5\<lparr>Username := trim_space u\<rparr> | None \<Rightarrow> s5)\<lparr>CredentialID := c\<rparr>
                | None \<Rightarrow> (case us_Username p of Some u \<Rightarrow> s5\<lparr>Username := trim_space u\<rparr> | None \<Rightarrow> s5))) = Inr s8"
    and e9: "(Inr (case us_SortOrder p of
          Some k \<Rightarrow> (case us_Settings p of Some st \<Rightarrow> s8\<lparr>Settings_of := st\<rparr> | None \<Rightarrow> s8)\<lparr>SortOrder := k\<rparr>
        | None \<Rightarrow> (case us_Settings p of Some st \<Rightarrow> s8\<lparr>Settings_of := st\<rparr> | None \<Rightarrow> s8))
        :: (tree_error, Session) result) = Inr s"
    unfolding edit_session_def bindr_Inr_iff Let_def by blast
  from e1 have "FolderID s1 = FolderID s0" "JumpChain s1 = JumpChain s0" by (auto split: option.splits if_splits)
  moreover from e2 have "FolderID s2 = FolderID s1 \<or> FolderID s2 = '''' \<or> folder_of db owner (FolderID s2)"
    "JumpChain s2 = JumpChain s1"
    using find_folder_SomeD
    by (auto simp: bindr_Inr_iff GetFolder_Inr folder_of_def split: option.splits if_splits) blast
  moreover from e3 have "FolderID s3 = FolderID s2" "JumpChain s3 = JumpChain s2"
    by (auto simp: bindr_Inr_iff split: option.splits)
  moreover from e5 have "FolderID s5 = FolderID s3" "JumpChain s5 = JumpChain s3"
    by (auto split: option.splits if_splits)
  moreover from e8 have "FolderID s8 = FolderID s5"
    "JumpChain s8 = JumpChain s5 \<or> ValidateJumpChain db owner sid (JumpChain s8) = Inr ()"
    "\<forall>ch. us_JumpChain p = Some ch \<longrightarrow> ValidateJumpChain db owner sid ch = Inr () \<and> JumpChain s8 = ch"
    by (auto simp: bindr_Inr_iff split: option.splits)
  moreover from e9 have "FolderID s = FolderID s8" "JumpChain s = JumpChain s8"
    by (auto split: option.splits)
  ultimately show ?thesis by auto
qed

lemma UpdateSession_ok:
  assumes ok: "tree_ok db" and upd: "UpdateSession db now owner sid p = Inr (db', s)"
  shows "tree_ok db'"
proof -
  have filed: "filed_ok db" using ok by (simp add: tree_ok_def)
  from upd obtain s0 s1 where s0: "find_session db sid = Some s0" "OwnerID s0 = owner"
    and s1: "edit_session db owner sid p s0 = Inr s1"
    and row: "update_session_row db sid (s1\<lparr>UpdatedAt := now\<rparr>) = Inr db'"
    by (auto simp: UpdateSession_def bindr_Inr_iff GetSession_Inr Let_def)
  note s0' = find_session_SomeD [OF s0(1)]
  note fields = edit_session_fields [OF s1]
  define g :: "Session \<Rightarrow> Session" where "g = (\<lambda>s. if ID s = sid
       then s\<lparr>FolderID := FolderID s1, Name := Name s1, Protocol := Protocol s1, Hostname := Hostname s1,
              Port := Port s1, Username := Username s1, CredentialID := CredentialID s1,
              JumpChain := JumpChain s1, Settings_of := Settings_of s1, SortOrder := SortOrder s1,
              UpdatedAt := now\<rparr> else s)"
  from row have db': "db' = db\<lparr>sessions := map g (sessions db)\<rparr>"
    by (auto simp: update_session_row_def g_def split: if_splits)
  have g: "ID (g s) = ID s" "OwnerID (g s) = OwnerID s" "IsTeam (g s) = IsTeam s" for s by (auto simp: g_def)
  have only: "s = s0" if "s \<in> set (sessions db)" "ID s = sid" for s
    using that s0' filed by (metis find_session_iff option.inject)
  have folder: "FolderID (g s) \<noteq> '''' \<longrightarrow> folder_of db (OwnerID s) (FolderID (g s))" if "s \<in> set (sessions db)" for s
    using that only [OF that] fields filed s0 s0' by (cases "ID s = sid") (auto simp: g_def filed_ok_def)
  have "jumps db' \<subseteq> jumps db \<or> jumps db' \<subseteq> jumps db \<union> {sid} \<times> set (JumpChain s1)
      \<and> ValidateJumpChain db owner sid (JumpChain s1) = Inr ()"
    using fields only s0' by (fastforce simp: jumps_def db' g_def)
  then have "acyclic (jumps db')"
    using set_chain_acyclic [OF ok, of owner sid "JumpChain s1" sid] ok filed s0'
    by (auto simp: tree_ok_def filed_ok_def intro: acyclic_subset)
  moreover have "ID \<circ> g = ID" by (simp add: g fun_eq_iff)
  ultimately show ?thesis
    using ok folder g
    by (auto simp: tree_ok_def forest_ok_def filed_ok_def db' folder_of_def owner_exists_def parents_def)
qed

subsection \<open>Every operation\<close>

text \<open>
  The operations of the store, with identifiers drawn by \<^verbatim>\<open>uuid.NewV7\<close> (any non-empty
  string; the primary key refuses one already taken), and what other packages change around it:
  accounts, teams, memberships and credentials.
\<close>

inductive tree_step :: "tree_db \<Rightarrow> tree_db \<Rightarrow> bool" where
  add_user: "u \<notin> set (teams db) \<Longrightarrow> tree_step db (db\<lparr>users := u # users db\<rparr>)"
| add_team: "t \<notin> set (users db) \<Longrightarrow> tree_step db (db\<lparr>teams := t # teams db\<rparr>)"
| set_members: "tree_step db (db\<lparr>members := m\<rparr>)"
| add_credential: "tree_step db (db\<lparr>credentials := c # credentials db\<rparr>)"
| create_folder: "CreateFolder db newID now cfp = Inr (db', f) \<Longrightarrow> newID \<noteq> '''' \<Longrightarrow> tree_step db db'"
| update_folder: "UpdateFolder db now owner fid ufp = Inr (db', f) \<Longrightarrow> tree_step db db'"
| delete_folder: "DeleteFolder db owner fid = Inr db' \<Longrightarrow> tree_step db db'"
| delete_folder_recursive: "DeleteFolderRecursive db owner fid = Inr (db', n) \<Longrightarrow> tree_step db db'"
| create_session: "CreateSession db newID now csp = Inr (db', s) \<Longrightarrow> newID \<noteq> '''' \<Longrightarrow> tree_step db db'"
| update_session: "UpdateSession db now owner sid usp = Inr (db', s) \<Longrightarrow> tree_step db db'"
| delete_session: "DeleteSession db owner sid = Inr db' \<Longrightarrow> tree_step db db'"
| mark_used: "tree_step db (MarkUsed db now sid)"
| set_folder_credential: "SetFolderCredential db user fid c = Inr db' \<Longrightarrow> tree_step db db'"

lemmas tree_ok_unfold = tree_ok_def forest_ok_def filed_ok_def parents_def jumps_def folder_of_def owner_exists_def

lemma MarkUsed_ok:
  assumes "tree_ok db"
  shows "tree_ok (MarkUsed db now sid)"
proof -
  have "acyclic (jumps (MarkUsed db now sid))"
    by (rule subset_jumps_acyclic [of db]) (use assms in \<open>auto simp: tree_ok_def MarkUsed_def\<close>)
  moreover have "filed_ok (MarkUsed db now sid)"
    using assms by (auto simp: tree_ok_def filed_ok_def MarkUsed_def folder_of_def owner_exists_def
        comp_def if_distrib cong: if_cong)
  ultimately show ?thesis
    using assms by (auto simp: tree_ok_def forest_ok_def MarkUsed_def folder_of_def owner_exists_def parents_def)
qed

interpretation tree: invariant_of tree_step tree_ok
proof
  fix s t
  assume "tree_step s t" and "tree_ok s"
  then show "tree_ok t"
  proof (induction rule: tree_step.induct)
    case (add_user u db)
    then show ?case by (auto simp: tree_ok_unfold)
  next
    case (add_team t db)
    then show ?case by (auto simp: tree_ok_unfold)
  next
    case (set_members db m)
    then show ?case by (simp add: tree_ok_unfold)
  next
    case (add_credential db c)
    then show ?case by (simp add: tree_ok_unfold)
  next
    case (delete_session db owner sid db')
    then show ?case using filter_sessions_ok by (auto simp: DeleteSession_def bindr_Inr_iff Let_def split: if_splits)
  next
    case (set_folder_credential db user fid c db')
    then show ?case by (auto simp: SetFolderCredential_def bindr_Inr_iff tree_ok_unfold)
  qed (auto intro: CreateFolder_ok UpdateFolder_ok DeleteFolder_ok DeleteFolderRecursive_ok CreateSession_ok
      UpdateSession_ok MarkUsed_ok)
qed

text \<open>
  C11 (invariant). However the tree is edited, from an empty installation on: no folder is its
  own ancestor, every folder's parent and every connection's folder exists and has the same owner,
  and no connection is reached through itself by way of jump hosts, however many lie between.
\<close>

theorem tree_stays_forest:
  assumes "tree_step\<^sup>*\<^sup>* empty_db db"
  shows "acyclic (parents db) \<and> acyclic (jumps db)
    \<and> (\<forall>f \<in> set (folders db). ParentID f \<noteq> '''' \<longrightarrow> folder_of db (f_OwnerID f) (ParentID f))
    \<and> (\<forall>s \<in> set (sessions db). FolderID s \<noteq> '''' \<longrightarrow> folder_of db (OwnerID s) (FolderID s))"
  using tree.run_inv [OF assms empty_db_ok] by (simp add: tree_ok_def forest_ok_def filed_ok_def)

definition no_settings :: Settings where
  "no_settings = \<lparr>s_Username = None, s_Port = None, s_CredentialID = None, ColourScheme = None, FontSize = None,
     Scrollback = None, KeepAliveSeconds = None, LogSession = None, AgentForwardCredentials = None,
     LogonSteps = None, SerialBaud = None, SerialDataBits = None, SerialStopBits = None, SerialParity = None,
     SerialFlow = None, s_Triggers = None\<rparr>"

definition demo_folder :: "string \<Rightarrow> string \<Rightarrow> Folder" where
  "demo_folder fid parent = \<lparr>f_ID = fid, f_OwnerID = ''u'', f_IsTeam = False, ParentID = parent, f_Name = fid,
     Defaults = no_settings, f_SortOrder = 0, f_CreatedAt = 1, f_UpdatedAt = 1\<rparr>"

definition demo_tree :: tree_db where
  "demo_tree = empty_db\<lparr>users := [''u''], folders := [demo_folder ''a'' '''', demo_folder ''b'' ''a'']\<rparr>"

lemma trim_space_one [simp]: "\<not> is_space c \<Longrightarrow> trim_space [c] = [c]"
  by (simp add: trim_space_def)

lemma depth_walk_top: "depth_walk db owner depth '''' = Inr depth"
  by (simp add: depth_walk.simps)

lemma depth_walk_up:
  assumes "find_folder db current = Some f" and "f_OwnerID f = owner" and "current \<noteq> ''''" and "depth \<le> MaxDepth"
  shows "depth_walk db owner depth current = depth_walk db owner (depth + 1) (ParentID f)"
  using assms by (subst depth_walk.simps) simp

lemma demo_tree_reached: "tree_step\<^sup>*\<^sup>* empty_db demo_tree"
proof -
  let ?db0 = "empty_db\<lparr>users := [''u'']\<rparr>"
  let ?p = "\<lambda>n par. \<lparr>cf_OwnerID = ''u'', cf_IsTeam = False, cf_ParentID = par, cf_Name = n, cf_Defaults = no_settings\<rparr>"
  let ?db1 = "?db0\<lparr>folders := [demo_folder ''a'' '''']\<rparr>"
  have "tree_step empty_db ?db0" using add_user [of "''u''" empty_db] by (simp add: empty_db_def)
  moreover have "CreateFolder ?db0 ''a'' 1 (?p ''a'' '''') = Inr (?db1, demo_folder ''a'' '''')"
    by (simp add: CreateFolder_def insert_folder_def find_folder_def owner_exists_def empty_db_def demo_folder_def
        check_def is_space_def Let_def)
  then have "tree_step ?db0 ?db1" by (rule create_folder) simp
  moreover have "depthOf ?db1 ''u'' ''a'' = Inr 1"
    by (simp add: depthOf_def depth_walk_top depth_walk_up [where f = "demo_folder ''a'' ''''"] find_folder_def
        demo_folder_def empty_db_def)
  then have "CreateFolder ?db1 ''b'' 1 (?p ''b'' ''a'') = Inr (demo_tree, demo_folder ''b'' ''a'')"
    by (simp add: CreateFolder_def insert_folder_def find_folder_def owner_exists_def empty_db_def demo_folder_def
        demo_tree_def MaxDepth_def check_def is_space_def Let_def)
  then have "tree_step ?db1 demo_tree" by (rule create_folder) simp
  ultimately show ?thesis by (meson r_into_rtranclp rtranclp_trans)
qed

theorem tree_stays_forest_witness:
  "acyclic (parents demo_tree) \<and> folder_of demo_tree ''u'' ''a''"
  using tree_stays_forest [OF demo_tree_reached]
  by (auto simp: demo_tree_def demo_folder_def)

end
