(* ===== verification/Session_Delete.thy ===== *)
theory Session_Delete
  imports Session_Forest
begin

section \<open>What a recursive delete takes\<close>

text \<open>
  \<^verbatim>\<open>descendantFolderIDs\<close> against the subtree of the folder, for a folder of a person and
  for a folder of a team, and with it what \<^verbatim>\<open>DeleteFolderRecursive\<close> removes.
\<close>

lemma subtree_owner:
  assumes ok: "forest_ok db" and root: "folder_of db owner root" and x: "x \<in> subtree db root"
  shows "folder_of db owner x"
proof -
  have "(x, root) \<in> (parents db)\<^sup>*" using x by (simp add: subtree_def)
  then show ?thesis
  proof (induction rule: converse_rtrancl_induct)
    case base
    show ?case by (rule root)
  next
    case (step y z)
    from step.hyps(1) obtain f where f: "f \<in> set (folders db)" "y = f_ID f" "z = ParentID f" "z \<noteq> ''''"
      by (auto simp: parents_def)
    with ok have "folder_of db (f_OwnerID f) z" by (auto simp: forest_ok_def)
    with step.IH ok have "f_OwnerID f = owner"
      unfolding folder_of_def by (metis find_folder_iff option.inject)
    with f show ?case by (auto simp: folder_of_def)
  qed
qed

lemma team_owned: "forest_ok db \<Longrightarrow> f \<in> set (folders db) \<Longrightarrow> f_OwnerID f \<in> set (teams db) \<Longrightarrow> f_IsTeam f"
  unfolding forest_ok_def owner_exists_def by (meson disjoint_iff)

text \<open>Among the folders the walk lists, the children of a folder of that person are all there are.\<close>

lemma children_listed:
  assumes ok: "forest_ok db" and x: "folder_of db owner x" and person: "owner \<in> set (users db)"
  shows "set (children_of (ListFolders db owner False) x) = {c. (c, x) \<in> parents db}"
    and "distinct (children_of (ListFolders db owner False) x)"
proof -
  have ne: "x \<noteq> ''''" using folder_of_id [OF x] ok unfolding forest_ok_def by metis
  have mine: "f_IsTeam f = False \<and> f_OwnerID f = owner" if f: "f \<in> set (folders db)" "ParentID f = x" for f
  proof -
    have "folder_of db (f_OwnerID f) x" using ok f ne by (auto simp: forest_ok_def)
    with x ok have "f_OwnerID f = owner" unfolding folder_of_def by (metis find_folder_iff option.inject)
    with ok f(1) person show ?thesis by (auto simp: forest_ok_def owner_exists_def split: if_splits)
  qed
  then show "set (children_of (ListFolders db owner False) x) = {c. (c, x) \<in> parents db}"
    using ne by (auto simp: children_of_def ListFolders_def parents_def)
  have "distinct (map f_ID (ListFolders db owner False))"
  proof -
    have "inj_on f_ID (set (folders db))" "distinct (folders db)" using ok by (auto simp: forest_ok_def distinct_map)
    then show ?thesis
      by (auto simp: ListFolders_def distinct_map intro: inj_on_subset)
  qed
  then show "distinct (children_of (ListFolders db owner False) x)"
    unfolding children_of_def by (rule distinct_map_filter)
qed

text \<open>The state of the walk: \<open>seen\<close> has been expanded, \<open>queue\<close> is still to come.\<close>

definition bfs_inv :: "tree_db \<Rightarrow> string \<Rightarrow> string list \<Rightarrow> string list \<Rightarrow> bool" where
  "bfs_inv db root seen queue \<longleftrightarrow>
     distinct (seen @ queue) \<and> root \<in> set (seen @ queue) \<and> set (seen @ queue) \<subseteq> subtree db root
     \<and> (\<forall>x \<in> set seen. \<forall>c. (c, x) \<in> parents db \<longrightarrow> c \<in> set (seen @ queue))
     \<and> (\<forall>x \<in> set (seen @ queue). x \<noteq> root \<longrightarrow> (\<exists>y \<in> set seen. (x, y) \<in> parents db))"

lemma bfs_step:
  assumes ok: "forest_ok db" and inv: "bfs_inv db root seen (x # queue)"
    and kids: "set ks = {c. (c, x) \<in> parents db}" "distinct ks"
  shows "bfs_inv db root (seen @ [x]) (queue @ ks)"
proof -
  have x: "x \<in> subtree db root" using inv by (simp add: bfs_inv_def)
  have fresh: "c \<notin> set (seen @ x # queue)" if c: "(c, x) \<in> parents db" for c
  proof
    assume old: "c \<in> set (seen @ x # queue)"
    show False
    proof (cases "c = root")
      case True
      from c x True have "(root, root) \<in> (parents db)\<^sup>+" by (simp add: subtree_def rtrancl_into_trancl2)
      then show False using ok by (simp add: forest_ok_def acyclic_def)
    next
      case False
      with inv old obtain y where y: "y \<in> set seen" "(c, y) \<in> parents db" unfolding bfs_inv_def by blast
      then have "y = x" using parents_unique [OF ok c] by simp
      with y(1) inv show False by (simp add: bfs_inv_def)
    qed
  qed
  have "c \<in> subtree db root" if "(c, x) \<in> parents db" for c
    using x that by (auto simp: subtree_def intro: converse_rtrancl_into_rtrancl)
  with inv kids fresh show ?thesis by (auto simp: bfs_inv_def)
qed

lemma bfs_done:
  assumes "bfs_inv db root seen []"
  shows "set seen = subtree db root"
proof
  show "set seen \<subseteq> subtree db root" using assms by (simp add: bfs_inv_def)
  show "subtree db root \<subseteq> set seen"
  proof
    fix x assume "x \<in> subtree db root"
    then have "(x, root) \<in> (parents db)\<^sup>*" by (simp add: subtree_def)
    then show "x \<in> set seen"
      by (induction rule: converse_rtrancl_induct) (use assms in \<open>auto simp: bfs_inv_def\<close>)
  qed
qed

lemma collect_subtree:
  assumes ok: "forest_ok db" and root: "folder_of db owner root" and person: "owner \<in> set (users db)"
    and inv: "bfs_inv db root seen queue" and few: "length (folders db) \<le> 10000"
  shows "\<exists>ids. collect (children_of (ListFolders db owner False)) (seen @ queue) queue = Inr ids
    \<and> set ids = subtree db root"
  using inv
proof (induction "children_of (ListFolders db owner False)" "seen @ queue" queue arbitrary: seen rule: collect.induct)
  case 1
  then show ?case using bfs_done by auto
next
  case (2 x queue)
  let ?ks = "children_of (ListFolders db owner False) x"
  have x: "folder_of db owner x" using subtree_owner [OF ok root] "2.prems" by (simp add: bfs_inv_def)
  have next_inv: "bfs_inv db root (seen @ [x]) (queue @ ?ks)"
    by (rule bfs_step [OF ok "2.prems" children_listed [OF ok x person]])
  have "set ((seen @ [x]) @ queue @ ?ks) \<subseteq> f_ID ` set (folders db)"
  proof
    fix y assume "y \<in> set ((seen @ [x]) @ queue @ ?ks)"
    then have "y \<in> subtree db root" using next_inv unfolding bfs_inv_def by blast
    then show "y \<in> f_ID ` set (folders db)" using subtree_owner [OF ok root] folder_of_id by blast
  qed
  moreover have "distinct ((seen @ [x]) @ queue @ ?ks)" using next_inv unfolding bfs_inv_def by blast
  ultimately have "length ((seen @ [x]) @ queue @ ?ks) \<le> card (f_ID ` set (folders db))"
    by (metis card_mono distinct_card finite_imageI finite_set)
  also have "\<dots> \<le> length (folders db)" by (meson card_image_le card_length finite_set order.trans)
  finally have short: "\<not> length ((seen @ x # queue) @ ?ks) > 10000" using few by simp
  from "2.hyps" [of "seen @ [x]"] next_inv short show ?case by (simp add: Let_def)
qed

lemma descendants_of_person:
  assumes "forest_ok db" and "folder_of db owner root" and "owner \<in> set (users db)" and "length (folders db) \<le> 10000"
  shows "\<exists>ids. descendantFolderIDs db owner root = Inr ids \<and> set ids = subtree db root"
proof -
  have "bfs_inv db root [] [root]" by (simp add: bfs_inv_def)
  from collect_subtree [OF assms(1-3) this assms(4)] show ?thesis by (simp add: descendantFolderIDs_def)
qed

text \<open>The tree with a subtree of folders and the connections in it gone.\<close>

definition without_subtree :: "tree_db \<Rightarrow> string \<Rightarrow> tree_db" where
  "without_subtree db root =
     db\<lparr>folders := filter (\<lambda>f. f_ID f \<notin> subtree db root) (folders db),
        sessions := filter (\<lambda>s. FolderID s \<notin> subtree db root) (sessions db),
        folder_credentials := filter (\<lambda>((u, f), c). f \<notin> subtree db root) (folder_credentials db)\<rparr>"

lemma subtree_sessions [simp]: "subtree (db\<lparr>sessions := ss\<rparr>) root = subtree db root"
  by (simp add: subtree_def parents_def)

lemma forest_sessions: "forest_ok (db\<lparr>sessions := ss\<rparr>) = forest_ok db"
  by (simp add: forest_ok_def parents_def folder_of_def owner_exists_def)

lemma recursive_delete_sessions:
  assumes "forest_ok db" and "root \<in> f_ID ` set (folders db)"
  shows "delete_folder_row (db\<lparr>sessions := filter (\<lambda>s. FolderID s \<notin> S) (sessions db)\<rparr>) root =
     db\<lparr>folders := filter (\<lambda>f. f_ID f \<notin> subtree db root) (folders db),
        sessions := map (\<lambda>s. if FolderID s \<in> subtree db root then s\<lparr>FolderID := ''''\<rparr> else s)
          (filter (\<lambda>s. FolderID s \<notin> S) (sessions db)),
        folder_credentials := filter (\<lambda>((u, f), c). f \<notin> subtree db root) (folder_credentials db)\<rparr>"
proof -
  have "forest_ok (db\<lparr>sessions := filter (\<lambda>s. FolderID s \<notin> S) (sessions db)\<rparr>)"
    using assms(1) by (simp add: forest_sessions)
  from delete_folder_row_subtree [OF this] assms(2) show ?thesis by simp
qed

text \<open>
  C12 (functional). Deleting a person's folder recursively, in a tree of up to ten thousand
  folders, succeeds and removes exactly the folder, every folder beneath it however deep, every
  connection filed in any of them and the credentials remembered for them; nothing else changes,
  and the count it reports for the audit log is the number of connections that went.
\<close>

theorem recursive_delete_exact:
  assumes "tree_ok db" and "GetFolder db owner root = Inr f" and "\<not> f_IsTeam f" and "length (folders db) \<le> 10000"
  shows "DeleteFolderRecursive db owner root =
     Inr (without_subtree db root, length (filter (\<lambda>s. FolderID s \<in> subtree db root) (sessions db)))"
proof -
  have forest: "forest_ok db" using assms(1) by (simp add: tree_ok_def)
  from assms(2) have f: "find_folder db root = Some f" "f_OwnerID f = owner" by (simp_all add: GetFolder_Inr)
  note row = find_folder_SomeD [OF f(1)]
  have root: "folder_of db owner root" using row f(2) by (auto simp: folder_of_def)
  have person: "owner \<in> set (users db)"
    using forest row f(2) assms(3) by (auto simp: forest_ok_def owner_exists_def)
  from descendants_of_person [OF forest root person assms(4)] obtain ids where
    ids: "descendantFolderIDs db owner root = Inr ids" "set ids = subtree db root" by blast
  have rest: "map (\<lambda>s. if FolderID s \<in> T then s\<lparr>FolderID := ''''\<rparr> else s) (filter (\<lambda>s. FolderID s \<notin> T) xs)
      = filter (\<lambda>s. FolderID s \<notin> T) xs" for T and xs :: "Session list"
    by (induction xs) auto
  show ?thesis
    using recursive_delete_sessions [OF forest folder_of_id [OF root]] f ids rest
    by (simp add: DeleteFolderRecursive_Inr without_subtree_def)
qed

text \<open>
  The same call on a team's folder, which the interface makes with the team as
  the owner: the walk lists only personal folders and finds no descendants, so the connections
  filed directly in the folder are destroyed and counted, but those in its sub-folders are not:
  their folders go and they are left at the top level of the team's tree.
\<close>

theorem recursive_delete_team_strands:
  assumes "tree_ok db" and "GetFolder db team root = Inr f" and "f_IsTeam f"
  shows "\<exists>db'. DeleteFolderRecursive db team root =
       Inr (db', length (filter (\<lambda>s. FolderID s = root) (sessions db)))
     \<and> folders db' = filter (\<lambda>f. f_ID f \<notin> subtree db root) (folders db)
     \<and> sessions db' = map (\<lambda>s. if FolderID s \<in> subtree db root then s\<lparr>FolderID := ''''\<rparr> else s)
         (filter (\<lambda>s. FolderID s \<noteq> root) (sessions db))"
proof -
  have forest: "forest_ok db" using assms(1) by (simp add: tree_ok_def)
  from assms(2) have f: "find_folder db root = Some f" "f_OwnerID f = team" by (simp_all add: GetFolder_Inr)
  note row = find_folder_SomeD [OF f(1)]
  have "team \<in> set (teams db)" using forest row f(2) assms(3) by (auto simp: forest_ok_def owner_exists_def)
  then have "filter (\<lambda>g. \<not> f_IsTeam g \<and> f_OwnerID g = team) (folders db) = []"
    using team_owned [OF forest] by (auto simp: filter_empty_conv)
  then have ids: "descendantFolderIDs db team root = Inr [root]"
    by (simp add: descendantFolderIDs_def ListFolders_def children_of_def)
  have "root \<in> f_ID ` set (folders db)" using row by auto
  from recursive_delete_sessions [OF forest this, of "{root}"] f ids show ?thesis
    by (simp add: DeleteFolderRecursive_def GetFolder_def sweep Let_def)
qed

theorem recursive_delete_exact_witness:
  "DeleteFolderRecursive demo_tree ''u'' ''a'' = Inr (without_subtree demo_tree ''a'', 0)"
proof -
  have "tree_ok demo_tree" by (rule tree.run_inv [OF demo_tree_reached empty_db_ok])
  moreover have "GetFolder demo_tree ''u'' ''a'' = Inr (demo_folder ''a'' '''')"
    by (simp add: GetFolder_def find_folder_def demo_tree_def demo_folder_def)
  ultimately show ?thesis
    using recursive_delete_exact [of demo_tree "''u''" "''a''" "demo_folder ''a'' ''''"]
    by (simp add: demo_folder_def demo_tree_def empty_db_def)
qed

definition demo_session :: "string \<Rightarrow> string \<Rightarrow> bool \<Rightarrow> string \<Rightarrow> string list \<Rightarrow> Session" where
  "demo_session sid owner team folder chain = \<lparr>ID = sid, OwnerID = owner, IsTeam = team, FolderID = folder,
     Name = sid, Protocol = ProtocolSSH, Hostname = ''h'', Port = 0, Username = '''', CredentialID = '''',
     JumpChain = chain, Settings_of = no_settings, SortOrder = 0, CreatedAt = 1, UpdatedAt = 1, LastUsedAt = None\<rparr>"

text \<open>A team's folder \<open>a\<close> with a sub-folder \<open>b\<close>, and a connection in each.\<close>

definition demo_team :: tree_db where
  "demo_team = empty_db\<lparr>users := [''u''], teams := [''t''], members := [(''t'', ''u'')],
     folders := [(demo_folder ''a'' '''')\<lparr>f_OwnerID := ''t'', f_IsTeam := True\<rparr>,
                 (demo_folder ''b'' ''a'')\<lparr>f_OwnerID := ''t'', f_IsTeam := True\<rparr>],
     sessions := [demo_session ''x'' ''t'' True ''a'' [], demo_session ''y'' ''t'' True ''b'' []]\<rparr>"

lemma parents_code:
  "parents db = set (map (\<lambda>f. (f_ID f, ParentID f)) (filter (\<lambda>f. ParentID f \<noteq> '''') (folders db)))"
  by (auto simp: parents_def)

lemma demo_team_parents: "parents demo_team = {(''b'', ''a'')}"
  by (simp add: parents_code demo_team_def demo_folder_def)

lemma demo_team_ok: "tree_ok demo_team"
proof -
  have "jumps demo_team = {}" by (auto simp: jumps_def demo_team_def demo_session_def)
  moreover have "acyclic {(''b'', ''a'')}" by (simp add: acyclic_insert) (simp add: acyclic_def)
  ultimately show ?thesis
    by (simp add: tree_ok_def forest_ok_def filed_ok_def demo_team_parents)
      (simp add: demo_team_def demo_folder_def demo_session_def empty_db_def owner_exists_def folder_of_def acyclic_def)
qed

theorem recursive_delete_team_strands_witness:
  "\<exists>db'. DeleteFolderRecursive demo_team ''t'' ''a'' = Inr (db', 1)
     \<and> folders db' = [] \<and> sessions db' = [demo_session ''y'' ''t'' True '''' []]"
proof -
  have "GetFolder demo_team ''t'' ''a'' = Inr ((demo_folder ''a'' '''')\<lparr>f_OwnerID := ''t'', f_IsTeam := True\<rparr>)"
    by (simp add: GetFolder_def find_folder_def demo_team_def demo_folder_def)
  moreover have "''a'' \<in> subtree demo_team ''a''" "''b'' \<in> subtree demo_team ''a''"
    by (auto simp: subtree_def demo_team_parents)
  ultimately show ?thesis
    using recursive_delete_team_strands [OF demo_team_ok, of "''t''" "''a''"]
    by (simp add: demo_team_def demo_folder_def demo_session_def)
qed

end
