(* ===== verification/Session_Resolve.thy ===== *)
theory Session_Resolve
  imports Session_Delete
begin

section \<open>What a connection inherits, and the route to it\<close>

text \<open>
  \<^verbatim>\<open>Resolve\<close> against its specification (the nearest value set on the way up wins), the
  agreement of the store's resolver with the one that works on a loaded tree, and the routes that
  \<^verbatim>\<open>ExpandJumpChain\<close> returns.
\<close>

subsection \<open>The way up\<close>

text \<open>\<open>fs\<close> are the folders from \<open>current\<close> to the top, innermost first.\<close>

primrec is_path :: "(string \<Rightarrow> Folder option) \<Rightarrow> string \<Rightarrow> Folder list \<Rightarrow> bool" where
  "is_path lookup current [] \<longleftrightarrow> current = ''''"
| "is_path lookup current (f # fs) \<longleftrightarrow>
     current \<noteq> '''' \<and> lookup current = Some f \<and> is_path lookup (ParentID f) fs"

primrec first_some :: "'a option list \<Rightarrow> 'a option" where
  "first_some [] = None"
| "first_some (x # xs) = (case x of None \<Rightarrow> first_some xs | Some v \<Rightarrow> Some v)"

text \<open>The value of a setting nearest to a connection.\<close>

definition nearest :: "(Settings \<Rightarrow> 'v option) \<Rightarrow> Session \<Rightarrow> Folder list \<Rightarrow> 'v option" where
  "nearest get s fs = first_some (map get (Settings_of s # map Defaults fs))"

lemma path_exists:
  assumes ok: "forest_ok db" and x: "current \<noteq> '''' \<longrightarrow> folder_of db owner current"
  shows "\<exists>fs. is_path (find_folder db) current fs"
proof -
  have "finite (parents db)" unfolding parents_code by simp
  then have "wf ((parents db)\<inverse>)" using ok by (simp add: forest_ok_def finite_acyclic_wf_converse)
  then show ?thesis
    using x
  proof (induction current)
    case (less current)
    show ?case
    proof (cases "current = ''''")
      case True
      then show ?thesis by (intro exI [of _ "[]"]) simp
    next
      case False
      with less.prems obtain f where f: "f \<in> set (folders db)" "f_ID f = current" "f_OwnerID f = owner"
        by (auto simp: folder_of_def)
      have up: "ParentID f \<noteq> '''' \<longrightarrow> folder_of db owner (ParentID f)" using ok f by (auto simp: forest_ok_def)
      have "\<exists>fs. is_path (find_folder db) (ParentID f) fs"
      proof (cases "ParentID f = ''''")
        case True
        then show ?thesis by (intro exI [of _ "[]"]) simp
      next
        case pf: False
        then have "(ParentID f, current) \<in> (parents db)\<inverse>" using f by (auto simp: parents_def)
        from less.IH [OF this up] show ?thesis .
      qed
      then obtain fs where "is_path (find_folder db) (ParentID f) fs" ..
      with f False find_folder_iff [OF ok, of current f] show ?thesis by (intro exI [of _ "f # fs"]) simp
    qed
  qed
qed

lemma resolve_walk_path:
  assumes "is_path lookup current fs"
  shows "resolve_walk lookup depth current eff names =
    (if depth + length fs \<le> Suc MaxDepth \<or> fs = []
     then Inr (foldl merge eff (map Defaults fs), rev (map f_Name fs) @ names) else Inl ErrTooDeep)"
  using assms
proof (induction fs arbitrary: depth current eff names)
  case Nil
  then show ?case by (simp add: resolve_walk.simps)
next
  case (Cons f fs)
  show ?case
  proof (cases "depth > MaxDepth")
    case True
    with Cons.prems show ?thesis by (simp add: resolve_walk.simps [of lookup depth current])
  next
    case False
    with Cons show ?thesis by (auto simp: resolve_walk.simps [of lookup depth current])
  qed
qed

subsection \<open>Settings that are inherited\<close>

locale inherited_setting =
  fixes get :: "Settings \<Rightarrow> 'v option"
  assumes get_merge: "get (merge a b) = or_else (get a) (get b)"
begin

lemma get_chain: "get (foldl merge e ds) = first_some (map get (e # ds))"
proof (induction ds arbitrary: e)
  case Nil
  then show ?case by (simp split: option.split)
next
  case (Cons d ds)
  show ?case using Cons [of "merge e d"] by (simp add: get_merge or_else_def split: option.splits)
qed

end

interpretation username: inherited_setting s_Username by unfold_locales (simp add: merge_def)
interpretation port: inherited_setting s_Port by unfold_locales (simp add: merge_def)
interpretation credential: inherited_setting s_CredentialID by unfold_locales (simp add: merge_def)
interpretation colours: inherited_setting ColourScheme by unfold_locales (simp add: merge_def)
interpretation font: inherited_setting FontSize by unfold_locales (simp add: merge_def)
interpretation scrollback: inherited_setting Scrollback by unfold_locales (simp add: merge_def)
interpretation keepalive: inherited_setting KeepAliveSeconds by unfold_locales (simp add: merge_def)
interpretation logging: inherited_setting LogSession by unfold_locales (simp add: merge_def)
interpretation logon_steps: inherited_setting LogonSteps by unfold_locales (simp add: merge_def)
interpretation baud: inherited_setting SerialBaud by unfold_locales (simp add: merge_def)
interpretation data_bits: inherited_setting SerialDataBits by unfold_locales (simp add: merge_def)
interpretation stop_bits: inherited_setting SerialStopBits by unfold_locales (simp add: merge_def)
interpretation parity: inherited_setting SerialParity by unfold_locales (simp add: merge_def)
interpretation flow: inherited_setting SerialFlow by unfold_locales (simp add: merge_def)
interpretation trigger_list: inherited_setting s_Triggers by unfold_locales (simp add: merge_def)

lemmas inherited_chains = username.get_chain port.get_chain credential.get_chain colours.get_chain font.get_chain
  scrollback.get_chain keepalive.get_chain logging.get_chain logon_steps.get_chain baud.get_chain
  data_bits.get_chain stop_bits.get_chain parity.get_chain flow.get_chain trigger_list.get_chain

text \<open>Agent forwarding is the one setting that no folder grants.\<close>

lemma agent_not_inherited:
  "AgentForwardCredentials (foldl merge e ds) = AgentForwardCredentials e"
  by (induction ds arbitrary: e) (simp_all add: merge_def)

lemma resolveWith_path:
  assumes "is_path lookup (FolderID s) fs" and "length fs \<le> Suc MaxDepth"
  shows "resolveWith s lookup = Inr
     \<lparr>r_Session = s\<lparr>Settings_of := foldl merge (Settings_of s) (map Defaults fs)\<rparr>,
      EffectiveUsername = (if Username s = '''' then (case nearest s_Username s fs of Some u \<Rightarrow> u | None \<Rightarrow> '''')
                           else Username s),
      EffectivePort = (let p = (if Port s = 0 then (case nearest s_Port s fs of Some q \<Rightarrow> q | None \<Rightarrow> 0) else Port s)
                       in if p = 0 then DefaultPort (Protocol s) else p),
      EffectiveCredentialID = (if CredentialID s = '''' then (case nearest s_CredentialID s fs of Some c \<Rightarrow> c | None \<Rightarrow> '''')
                               else CredentialID s),
      InheritedFrom = rev (map f_Name fs)\<rparr>"
  using resolve_walk_path [OF assms(1), of 0 "Settings_of s" "[]"] assms(2)
  by (simp add: resolveWith_def nearest_def inherited_chains del: list.map first_some.simps)

definition all_nearest :: "Settings \<Rightarrow> Session \<Rightarrow> Folder list \<Rightarrow> bool" where
  "all_nearest e s fs \<longleftrightarrow>
     s_Username e = nearest s_Username s fs \<and> s_Port e = nearest s_Port s fs
     \<and> s_CredentialID e = nearest s_CredentialID s fs \<and> ColourScheme e = nearest ColourScheme s fs
     \<and> FontSize e = nearest FontSize s fs \<and> Scrollback e = nearest Scrollback s fs
     \<and> KeepAliveSeconds e = nearest KeepAliveSeconds s fs \<and> LogSession e = nearest LogSession s fs
     \<and> LogonSteps e = nearest LogonSteps s fs \<and> SerialBaud e = nearest SerialBaud s fs
     \<and> SerialDataBits e = nearest SerialDataBits s fs \<and> SerialStopBits e = nearest SerialStopBits s fs
     \<and> SerialParity e = nearest SerialParity s fs \<and> SerialFlow e = nearest SerialFlow s fs
     \<and> s_Triggers e = nearest s_Triggers s fs"

lemma foldl_merge_nearest: "all_nearest (foldl merge (Settings_of s) (map Defaults fs)) s fs"
  by (simp only: all_nearest_def nearest_def inherited_chains)

text \<open>What a member has remembered for a folder, and the choice nearest to a connection.\<close>

definition remembered_for :: "tree_db \<Rightarrow> string \<Rightarrow> Folder \<Rightarrow> string option" where
  "remembered_for db user f =
     (case map_of (folder_credentials db) (user, f_ID f) of Some c \<Rightarrow> if c = '''' then None else Some c | None \<Rightarrow> None)"

lemma folder_credential_nearest:
  assumes "is_path (find_folder db) current fs" and "depth + length fs \<le> Suc MaxDepth"
  shows "folder_credential_walk db user depth current
     = (case first_some (map (remembered_for db user) fs) of Some c \<Rightarrow> c | None \<Rightarrow> '''')"
  using assms
proof (induction fs arbitrary: depth current)
  case Nil
  then show ?case by (simp add: folder_credential_walk.simps)
next
  case (Cons f fs)
  then have here: "current \<noteq> ''''" "find_folder db current = Some f" "f_ID f = current" "\<not> depth > MaxDepth"
    by (auto dest: find_folder_SomeD)
  show ?case using Cons here
    by (simp add: folder_credential_walk.simps [of db user depth current] remembered_for_def split: option.split)
qed

definition or_empty :: "string option \<Rightarrow> string" where
  "or_empty x = (case x of Some v \<Rightarrow> v | None \<Rightarrow> '''')"

text \<open>
  C14 (refinement). Resolving a connection somebody can see, in a folder no more than 33 deep,
  succeeds and gives every setting the value set nearest to the connection on the way up through
  its folders, the connection itself first; a port, user name or credential in the connection's own
  columns wins over any, a port set nowhere is the protocol's, and a shared connection without a
  credential takes the one the member remembered for the nearest folder that has one. Agent
  forwarding alone is the connection's own and is never inherited. A connection that lies deeper
  is refused as too deep.
\<close>

theorem resolve_nearest_wins:
  assumes "tree_ok db" and "s \<in> set (sessions db)" and "memberClause db user (OwnerID s) (IsTeam s)"
    and "is_path (find_folder db) (FolderID s) fs"
  shows "if length fs \<le> 33 then \<exists>r. Resolve db user (ID s) = Inr r
     \<and> all_nearest (Settings_of (r_Session r)) s fs
     \<and> AgentForwardCredentials (Settings_of (r_Session r)) = AgentForwardCredentials (Settings_of s)
     \<and> r_Session r = s\<lparr>Settings_of := Settings_of (r_Session r)\<rparr>
     \<and> EffectiveUsername r = (if Username s \<noteq> '''' then Username s else or_empty (nearest s_Username s fs))
     \<and> EffectivePort r = (if Port s \<noteq> 0 then Port s
         else case nearest s_Port s fs of Some p \<Rightarrow> if p \<noteq> 0 then p else DefaultPort (Protocol s)
           | None \<Rightarrow> DefaultPort (Protocol s))
     \<and> EffectiveCredentialID r = (if CredentialID s \<noteq> '''' then CredentialID s
         else if or_empty (nearest s_CredentialID s fs) \<noteq> '''' then or_empty (nearest s_CredentialID s fs)
         else if IsTeam s then or_empty (first_some (map (remembered_for db user) fs)) else '''')
     \<and> InheritedFrom r = rev (map f_Name fs)
   else Resolve db user (ID s) = Inl ErrTooDeep"
proof -
  have visible: "getSessionVisible db user (ID s) = Inr s"
    using assms(1-3) by (simp add: tree_ok_def getSessionVisible_Inr)
  have depth: "Suc MaxDepth = 33" by (simp add: MaxDepth_def)
  show ?thesis
  proof (cases "length fs \<le> 33")
    case True
    then have short: "length fs \<le> Suc MaxDepth" unfolding depth .
    have chosen: "folderCredentialFor db user (FolderID s) = or_empty (first_some (map (remembered_for db user) fs))"
      using folder_credential_nearest [OF assms(4), of 0 user] short by (simp add: folderCredentialFor_def or_empty_def)
    show ?thesis
      using resolveWith_path [OF assms(4) short] foldl_merge_nearest [of s fs] True chosen
      by (auto simp: Resolve_def visible agent_not_inherited or_empty_def Let_def simp del: nearest_def first_some.simps split: option.split)
  next
    case False
    then have "fs \<noteq> []" "\<not> 0 + length fs \<le> Suc MaxDepth" using depth by auto
    then have "resolveWith s (find_folder db) = Inl ErrTooDeep"
      by (simp add: resolveWith_def resolve_walk_path [OF assms(4)])
    with False show ?thesis by (simp add: Resolve_def visible)
  qed
qed

definition demo_personal :: tree_db where
  "demo_personal = demo_tree\<lparr>folders := [(demo_folder ''a'' '''')\<lparr>Defaults := no_settings\<lparr>s_Port := Some 2222,
        AgentForwardCredentials := Some [''k'']\<rparr>\<rparr>, demo_folder ''b'' ''a''],
      sessions := [demo_session ''x'' ''u'' False ''b'' []]\<rparr>"

lemma demo_personal_ok: "tree_ok demo_personal"
proof -
  have "jumps demo_personal = {}" by (auto simp: jumps_def demo_personal_def demo_session_def)
  moreover have "parents demo_personal = {(''b'', ''a'')}"
    by (simp add: parents_code demo_personal_def demo_folder_def)
  moreover have "acyclic {(''b'', ''a'')}" by (simp add: acyclic_insert) (simp add: acyclic_def)
  ultimately show ?thesis
    by (simp add: tree_ok_def forest_ok_def filed_ok_def)
      (simp add: demo_personal_def demo_tree_def demo_folder_def demo_session_def empty_db_def owner_exists_def
        folder_of_def acyclic_def)
qed

theorem resolve_nearest_wins_witness:
  "\<exists>r. Resolve demo_personal ''u'' ''x'' = Inr r \<and> EffectivePort r = 2222
     \<and> AgentForwardCredentials (Settings_of (r_Session r)) = None \<and> InheritedFrom r = [''a'', ''b'']"
proof -
  let ?s = "demo_session ''x'' ''u'' False ''b'' []"
  let ?fs = "[demo_folder ''b'' ''a'', (demo_folder ''a'' '''')\<lparr>Defaults := no_settings\<lparr>s_Port := Some 2222,
        AgentForwardCredentials := Some [''k'']\<rparr>\<rparr>]"
  have "is_path (find_folder demo_personal) (FolderID ?s) ?fs"
    by (simp add: demo_personal_def demo_session_def demo_folder_def find_folder_def)
  moreover have "?s \<in> set (sessions demo_personal)" "memberClause demo_personal ''u'' (OwnerID ?s) (IsTeam ?s)"
    by (simp_all add: demo_personal_def demo_session_def memberClause_def)
  ultimately show ?thesis
    using resolve_nearest_wins [OF demo_personal_ok, of ?s "''u''" ?fs]
    by (auto simp: MaxDepth_def demo_session_def demo_folder_def nearest_def no_settings_def)
qed

subsection \<open>Two resolvers\<close>

text \<open>The folders of a connection somebody can see are among those they can see.\<close>

lemma path_visible:
  assumes ok: "forest_ok db" and p: "is_path (find_folder db) current fs"
    and own: "current \<noteq> '''' \<longrightarrow> folder_of db owner current"
    and vis: "\<And>f. f \<in> set (folders db) \<Longrightarrow> f_OwnerID f = owner \<Longrightarrow> memberClause db user (f_OwnerID f) (f_IsTeam f)"
  shows "is_path (\<lambda>fid. find (\<lambda>f. f_ID f = fid) (rev (Folders (LoadTreeForUser db user)))) current fs"
  using p own
proof (induction fs arbitrary: current)
  case Nil
  then show ?case by simp
next
  case (Cons f fs)
  from Cons.prems have f: "current \<noteq> ''''" "find_folder db current = Some f" "is_path (find_folder db) (ParentID f) fs"
    by simp_all
  note row = find_folder_SomeD [OF f(2)]
  from Cons.prems(2) f(1) ok row have own: "f_OwnerID f = owner"
    unfolding folder_of_def by (metis find_folder_iff option.inject)
  have "distinct (map f_ID (rev (Folders (LoadTreeForUser db user))))"
    using ok by (auto simp: LoadTreeForUser_def forest_ok_def distinct_map rev_map intro: inj_on_subset)
  moreover have "f \<in> set (rev (Folders (LoadTreeForUser db user)))"
    using row vis [of f] own by (simp add: LoadTreeForUser_def)
  ultimately have "find (\<lambda>f. f_ID f = current) (rev (Folders (LoadTreeForUser db user))) = Some f"
    using row by (simp add: find_Some_iff_distinct)
  moreover have "ParentID f \<noteq> '''' \<longrightarrow> folder_of db owner (ParentID f)" using ok row own by (auto simp: forest_ok_def)
  ultimately show ?case using Cons.IH [OF f(3)] f(1) by simp
qed

lemma resolveWith_paths:
  assumes "is_path l1 (FolderID s) fs" and "is_path l2 (FolderID s) fs"
  shows "resolveWith s l1 = resolveWith s l2"
  unfolding resolveWith_def resolve_walk_path [OF assms(1)] resolve_walk_path [OF assms(2)] ..

text \<open>
  C15 (equivalence). The resolver that walks a tree already loaded and the one that queries
  folder by folder agree: on a person's own connection they give the same answer, error included,
  and on a shared connection they differ at most in the credential the member has remembered for
  the folder.
\<close>

theorem resolvers_agree:
  assumes "tree_ok db" and "s \<in> set (Sessions (LoadTreeForUser db user))"
  shows "(\<not> IsTeam s \<longrightarrow> Resolve db user (ID s) = Tree_Resolve (LoadTreeForUser db user) s)
    \<and> (\<forall>r. Tree_Resolve (LoadTreeForUser db user) s = Inr r \<longrightarrow>
         (\<exists>c. Resolve db user (ID s) = Inr (r\<lparr>EffectiveCredentialID := c\<rparr>)))
    \<and> (\<forall>e. Tree_Resolve (LoadTreeForUser db user) s = Inl e \<longrightarrow> Resolve db user (ID s) = Inl e)"
proof -
  have forest: "forest_ok db" and filed: "filed_ok db" using assms(1) by (simp_all add: tree_ok_def)
  from assms(2) have s: "s \<in> set (sessions db)" "memberClause db user (OwnerID s) (IsTeam s)"
    by (simp_all add: LoadTreeForUser_def)
  have folder: "FolderID s \<noteq> '''' \<longrightarrow> folder_of db (OwnerID s) (FolderID s)" and
    kind: "owner_exists db (OwnerID s) (IsTeam s)" using filed s(1) by (auto simp: filed_ok_def)
  have vis: "memberClause db user (f_OwnerID f) (f_IsTeam f)" if "f \<in> set (folders db)" "f_OwnerID f = OwnerID s" for f
  proof -
    have "owner_exists db (f_OwnerID f) (f_IsTeam f)" using forest that by (auto simp: forest_ok_def)
    with kind that(2) have "f_IsTeam f = IsTeam s"
      using forest unfolding forest_ok_def owner_exists_def by (metis disjoint_iff)
    with s(2) that(2) show ?thesis by simp
  qed
  from path_exists [OF forest folder] obtain fs where "is_path (find_folder db) (FolderID s) fs" ..
  with path_visible [OF forest this folder vis]
  have same: "resolveWith s (find_folder db) = Tree_Resolve (LoadTreeForUser db user) s"
    unfolding Tree_Resolve_def by (intro resolveWith_paths)
  have visible: "getSessionVisible db user (ID s) = Inr s" using s filed by (simp add: getSessionVisible_Inr)
  have keep: "\<exists>c. r = r\<lparr>EffectiveCredentialID := c\<rparr>" for r :: Resolved
    by (intro exI [of _ "EffectiveCredentialID r"]) simp
  show ?thesis
    using keep by (auto simp: Resolve_def visible same Let_def)
qed

theorem resolvers_agree_witness:
  "Resolve demo_personal ''u'' ''x'' =
     Tree_Resolve (LoadTreeForUser demo_personal ''u'') (demo_session ''x'' ''u'' False ''b'' [])"
proof -
  let ?s = "demo_session ''x'' ''u'' False ''b'' []"
  have "?s \<in> set (Sessions (LoadTreeForUser demo_personal ''u''))"
    by (simp add: LoadTreeForUser_def demo_personal_def demo_session_def memberClause_def)
  from resolvers_agree [OF demo_personal_ok this] show ?thesis by (simp add: demo_session_def)
qed

subsection \<open>Routes\<close>

text \<open>Every hop comes after the hosts of its own chain.\<close>

primrec ordered_from :: "string set \<Rightarrow> Resolved list \<Rightarrow> bool" where
  "ordered_from before [] \<longleftrightarrow> True"
| "ordered_from before (r # rs) \<longleftrightarrow>
     set (JumpChain (r_Session r)) \<subseteq> before \<and> ordered_from (insert (ID (r_Session r)) before) rs"

lemma ordered_from_mono: "ordered_from A rs \<Longrightarrow> A \<subseteq> B \<Longrightarrow> ordered_from B rs"
  by (induction rs arbitrary: A B) (auto, blast)

lemma ordered_from_append:
  "ordered_from A (xs @ ys) \<longleftrightarrow> ordered_from A xs \<and> ordered_from (A \<union> set (route_ids xs)) ys"
  by (induction xs arbitrary: A) (auto simp: route_ids_def)

lemma walk_hops_ordered:
  assumes "filed_ok db" and "walk_hops db user chain visited depth route = Inr (out, vis)"
  shows "ordered_from {} route \<Longrightarrow> ordered_from {} out"
  using assms(2)
proof (induction "Suc MaxJumpChain - depth" arbitrary: depth chain visited route out vis rule: less_induct)
  case less
  from less.prems show ?case
  proof (induction chain arbitrary: visited route)
    case Nil
    then show ?case by simp
  next
    case (Cons hop chain)
    from Cons.prems(2) obtain r nested mid where h: "depth \<le> MaxJumpChain"
      "JumpChain (r_Session r) \<noteq> [] \<longrightarrow> depth + 1 \<le> MaxJumpChain \<and>
         walk_hops db user (JumpChain (r_Session r)) (hop # visited) (depth + 1) [] = Inr (nested, mid)"
      "JumpChain (r_Session r) = [] \<longrightarrow> nested = [] \<and> mid = hop # visited"
      "walk_hops db user chain mid depth (route @ nested @ [r]) = Inr (out, vis)"
      using walk_hops_Cons by blast
    have "ordered_from {} nested \<and> set (JumpChain (r_Session r)) \<subseteq> set (route_ids nested)"
    proof (cases "JumpChain (r_Session r) = []")
      case True
      with h(3) show ?thesis by simp
    next
      case False
      with h(2) have w: "walk_hops db user (JumpChain (r_Session r)) (hop # visited) (depth + 1) [] = Inr (nested, mid)"
        by blast
      have "Suc MaxJumpChain - (depth + 1) < Suc MaxJumpChain - depth" using h(1) by linarith
      from less.hyps [OF this _ w] walk_hops_route [OF assms(1) w] show ?thesis by auto
    qed
    then have "ordered_from {} (route @ nested @ [r])"
      using Cons.prems(1) ordered_from_mono [of "{}" nested] by (auto simp: ordered_from_append)
    from Cons.IH [OF this h(4)] show ?case .
  qed
qed

text \<open>A walk looks only at connections it has not been told are visited.\<close>

lemma walk_hops_ConsI:
  assumes "hop \<notin> set visited" "Resolve db user hop = Inr r"
    "Protocol (r_Session r) = ProtocolSSH" "depth \<le> MaxJumpChain"
    "JumpChain (r_Session r) \<noteq> [] \<longrightarrow> depth + 1 \<le> MaxJumpChain \<and>
       walk_hops db user (JumpChain (r_Session r)) (hop # visited) (depth + 1) [] = Inr (nested, mid)"
    "JumpChain (r_Session r) = [] \<longrightarrow> nested = [] \<and> mid = hop # visited"
    "length (route @ nested @ [r]) \<le> MaxJumpChain"
  shows "walk_hops db user (hop # chain) visited depth route = walk_hops db user chain mid depth (route @ nested @ [r])"
  using assms by (cases "JumpChain (r_Session r) = []") (auto simp: walk_hops.simps(2) Let_def)

lemma walk_hops_frame:
  assumes "filed_ok db" and "\<And>h. h \<notin> S \<Longrightarrow> Resolve db' user h = Resolve db user h"
    and "S \<subseteq> set visited" and "walk_hops db user chain visited depth route = Inr (out, vis)"
  shows "walk_hops db' user chain visited depth route = Inr (out, vis)"
  using assms(3,4)
proof (induction "Suc MaxJumpChain - depth" arbitrary: depth chain visited route out vis rule: less_induct)
  case less
  from less.prems show ?case
  proof (induction chain arbitrary: visited route)
    case Nil
    then show ?case by simp
  next
    case (Cons hop chain)
    from Cons.prems(2) obtain r nested mid where h: "hop \<notin> set visited" "Resolve db user hop = Inr r"
      "Protocol (r_Session r) = ProtocolSSH" "depth \<le> MaxJumpChain"
      "JumpChain (r_Session r) \<noteq> [] \<longrightarrow> depth + 1 \<le> MaxJumpChain \<and>
         walk_hops db user (JumpChain (r_Session r)) (hop # visited) (depth + 1) [] = Inr (nested, mid)"
      "JumpChain (r_Session r) = [] \<longrightarrow> nested = [] \<and> mid = hop # visited"
      "length (route @ nested @ [r]) \<le> MaxJumpChain"
      "walk_hops db user chain mid depth (route @ nested @ [r]) = Inr (out, vis)"
      using walk_hops_Cons by blast
    have shorter: "Suc MaxJumpChain - (depth + 1) < Suc MaxJumpChain - depth" using h(4) by linarith
    have more_visited: "S \<subseteq> set (hop # visited)" using Cons.prems(1) by auto
    have same: "Resolve db' user hop = Inr r" using assms(2) h(1,2) Cons.prems(1) by (metis subsetD)
    have nested: "JumpChain (r_Session r) \<noteq> [] \<longrightarrow> depth + 1 \<le> MaxJumpChain \<and>
         walk_hops db' user (JumpChain (r_Session r)) (hop # visited) (depth + 1) [] = Inr (nested, mid)"
      using h(5) less.hyps [OF shorter more_visited] by blast
    have "S \<subseteq> set mid"
    proof (cases "JumpChain (r_Session r) = []")
      case True
      with h(6) more_visited show ?thesis by simp
    next
      case False
      with h(5) have w: "walk_hops db user (JumpChain (r_Session r)) (hop # visited) (depth + 1) [] = Inr (nested, mid)"
        by blast
      from walk_hops_route [OF assms(1) w] more_visited show ?thesis by auto
    qed
    from Cons.IH [OF this h(8)] show ?case
      using walk_hops_ConsI [OF h(1) same h(3,4) nested h(6,7)] by simp
  qed
qed

text \<open>Editing one connection changes nothing about resolving another.\<close>

lemma getSessionVisible_not_found:
  "getSessionVisible db user sid = Inl e \<Longrightarrow> e = ErrNotFound"
  by (auto simp: getSessionVisible_def split: option.splits)

lemma Resolve_other:
  assumes ok: "filed_ok db" "filed_ok db'" and same: "folders db' = folders db" "members db' = members db"
    "folder_credentials db' = folder_credentials db"
    and rows: "\<And>s. ID s = h \<Longrightarrow> s \<in> set (sessions db') \<longleftrightarrow> s \<in> set (sessions db)"
  shows "Resolve db' user h = Resolve db user h"
proof -
  have ff: "find_folder db' = find_folder db" by (simp add: find_folder_def same fun_eq_iff)
  have mc: "memberClause db' = memberClause db" by (simp add: memberClause_def same fun_eq_iff)
  have walk: "folder_credential_walk db' user d c = folder_credential_walk db user d c" for d c
  proof (induction "Suc MaxDepth - d" arbitrary: d c rule: less_induct)
    case less
    show ?case
    proof (cases "c = '''' \<or> d > MaxDepth")
      case True
      then show ?thesis by (auto simp: folder_credential_walk.simps [of _ user d c])
    next
      case False
      then have "Suc MaxDepth - (d + 1) < Suc MaxDepth - d" by linarith
      from less [OF this] show ?thesis
        by (simp add: folder_credential_walk.simps [of _ user d c] ff same split: option.split)
    qed
  qed
  have found: "getSessionVisible db' user h = Inr s \<longleftrightarrow> getSessionVisible db user h = Inr s" for s
    using rows [of s] by (auto simp: getSessionVisible_Inr [OF ok(1)] getSessionVisible_Inr [OF ok(2)] mc)
  have "getSessionVisible db' user h = getSessionVisible db user h"
  proof (cases "getSessionVisible db user h")
    case (Inl e)
    have "getSessionVisible db' user h \<noteq> Inr s" for s using found [of s] Inl by simp
    then obtain e' where e': "getSessionVisible db' user h = Inl e'" by (metis sumE)
    show ?thesis
      using getSessionVisible_not_found [OF e'] getSessionVisible_not_found [OF Inl] e' Inl by simp
  next
    case (Inr s)
    with found show ?thesis by simp
  qed
  moreover have "folderCredentialFor db' user = folderCredentialFor db user"
    by (simp add: fun_eq_iff folderCredentialFor_def walk)
  ultimately show ?thesis by (simp add: Resolve_def ff cong: if_cong)
qed

text \<open>What an update leaves of the tables, and of the row it writes.\<close>

lemma UpdateSession_rows:
  assumes ok: "tree_ok db" and upd: "UpdateSession db now owner sid p = Inr (db', s)" and ch: "us_JumpChain p = Some ch"
  shows "ValidateJumpChain db owner sid ch = Inr ()
    \<and> folders db' = folders db \<and> members db' = members db \<and> folder_credentials db' = folder_credentials db
    \<and> (\<forall>t. ID t \<noteq> sid \<longrightarrow> (t \<in> set (sessions db') \<longleftrightarrow> t \<in> set (sessions db)))
    \<and> (\<exists>t. GetSession db' owner sid = Inr t \<and> JumpChain t = ch) \<and> sid \<noteq> ''''"
proof -
  from upd obtain s0 s1 where s0: "find_session db sid = Some s0" "OwnerID s0 = owner"
    and s1: "edit_session db owner sid p s0 = Inr s1"
    and row: "update_session_row db sid (s1\<lparr>UpdatedAt := now\<rparr>) = Inr db'"
    by (auto simp: UpdateSession_def bindr_Inr_iff GetSession_Inr Let_def)
  define g :: "Session \<Rightarrow> Session" where "g = (\<lambda>s. if ID s = sid
       then s\<lparr>FolderID := FolderID s1, Name := Name s1, Protocol := Protocol s1, Hostname := Hostname s1,
              Port := Port s1, Username := Username s1, CredentialID := CredentialID s1,
              JumpChain := JumpChain s1, Settings_of := Settings_of s1, SortOrder := SortOrder s1,
              UpdatedAt := now\<rparr> else s)"
  from row have db': "db' = db\<lparr>sessions := map g (sessions db)\<rparr>"
    by (auto simp: update_session_row_def g_def split: if_splits)
  have g: "ID (g t) = ID t" "OwnerID (g t) = OwnerID t" for t by (auto simp: g_def)
  note s0' = find_session_SomeD [OF s0(1)]
  have "find_session db' sid = Some (g s0)"
  proof -
    have "filed_ok db'" using UpdateSession_ok [OF ok upd] by (simp add: tree_ok_def)
    from find_session_iff [OF this, of sid "g s0"] s0' show ?thesis by (simp add: db' g)
  qed
  then have "GetSession db' owner sid = Inr (g s0)" using s0 g by (simp add: GetSession_Inr)
  moreover have "JumpChain (g s0) = ch" using edit_session_fields [OF s1] ch s0' by (simp add: g_def)
  moreover have "t \<in> set (sessions db') \<longleftrightarrow> t \<in> set (sessions db)" if "ID t \<noteq> sid" for t
  proof
    assume "t \<in> set (sessions db')"
    then obtain u where u: "u \<in> set (sessions db)" "t = g u" by (auto simp: db')
    with that g have "g u = u" by (auto simp: g_def)
    with u show "t \<in> set (sessions db)" by simp
  next
    assume t: "t \<in> set (sessions db)"
    have "g t = t" using that by (simp add: g_def)
    with t show "t \<in> set (sessions db')" by (auto simp: db' image_iff intro!: bexI [of _ t])
  qed
  moreover have "sid \<noteq> ''''" using s0' ok unfolding tree_ok_def filed_ok_def by (metis imageI)
  ultimately show ?thesis using edit_session_fields [OF s1] ch by (simp add: db')
qed


text \<open>Two personal connections, and the update that puts the first in front of the second.\<close>

definition demo_hosts :: tree_db where
  "demo_hosts = empty_db\<lparr>users := [''u''],
     sessions := [demo_session ''j'' ''u'' False '''' [], demo_session ''x'' ''u'' False '''' []]\<rparr>"

definition demo_update :: UpdateSessionParams where
  "demo_update = \<lparr>us_Name = None, us_FolderID = None, us_Protocol = None, us_Hostname = None, us_Port = None,
     us_Username = None, us_CredentialID = None, us_JumpChain = Some [''j''], us_Settings = None, us_SortOrder = None\<rparr>"

lemma demo_hosts_ok: "tree_ok demo_hosts"
proof -
  have "jumps demo_hosts = {}" "parents demo_hosts = {}"
    by (auto simp: jumps_def parents_def demo_hosts_def demo_session_def empty_db_def)
  then show ?thesis
    by (simp add: tree_ok_def forest_ok_def filed_ok_def acyclic_def)
      (simp add: demo_hosts_def demo_session_def empty_db_def owner_exists_def)
qed

lemma demo_hosts_update: "\<exists>db' s. UpdateSession demo_hosts 2 ''u'' ''x'' demo_update = Inr (db', s)"
proof -
  have j: "Resolve demo_hosts ''u'' ''j'' = Inr \<lparr>r_Session = demo_session ''j'' ''u'' False '''' [], EffectiveUsername = '''',
      EffectivePort = 22, EffectiveCredentialID = '''', InheritedFrom = []\<rparr>"
    by (simp add: Resolve_def getSessionVisible_def demo_hosts_def demo_session_def memberClause_def resolveWith_def
        resolve_walk.simps no_settings_def DefaultPort_def ProtocolSSH_def ProtocolTelnet_def)
  have g: "GetSession demo_hosts ''u'' ''j'' = Inr (demo_session ''j'' ''u'' False '''' [])"
    by (simp add: GetSession_def find_session_def demo_hosts_def demo_session_def)
  have "ValidateJumpChain demo_hosts ''u'' ''x'' [''j''] = Inr ()"
    using g j by (simp add: ValidateJumpChain_def MaxJumpChain_def walkChain_def walk_hops.simps(2) demo_session_def)
  moreover have "GetSession demo_hosts ''u'' ''x'' = Inr (demo_session ''x'' ''u'' False '''' [])"
    by (simp add: GetSession_def find_session_def demo_hosts_def demo_session_def)
  ultimately show ?thesis
    by (simp add: UpdateSession_def edit_session_def demo_update_def update_session_row_def demo_session_def Let_def)
qed


text \<open>
  C17 (error). A member of a team can see and resolve the team's connections, and yet every SSH
  dial of one stops at the route: \<^verbatim>\<open>ExpandJumpChain\<close> asks for a connection the member owns,
  and reports one the team owns as not found, whether or not it has a jump chain.
\<close>

theorem member_route_not_found:
  assumes "tree_ok db" and "s \<in> set (sessions db)" and "IsTeam s" and "(OwnerID s, user) \<in> set (members db)"
    and "user \<in> set (users db)"
  shows "getSessionVisible db user (ID s) = Inr s \<and> ExpandJumpChain db user (ID s) = Inl ErrNotFound"
proof -
  have filed: "filed_ok db" and forest: "forest_ok db" using assms(1) by (simp_all add: tree_ok_def)
  have "OwnerID s \<in> set (teams db)" using filed assms(2,3) by (auto simp: filed_ok_def owner_exists_def)
  with forest assms(5) have "OwnerID s \<noteq> user" by (auto simp: forest_ok_def)
  moreover have "find_session db (ID s) = Some s" using filed assms(2) by (simp add: find_session_iff)
  ultimately show ?thesis
    using assms by (simp add: getSessionVisible_Inr [OF filed] memberClause_def ExpandJumpChain_def GetSession_def)
qed

theorem member_route_not_found_witness:
  "ExpandJumpChain demo_team ''u'' ''x'' = Inl ErrNotFound"
  using member_route_not_found [OF demo_team_ok, of "demo_session ''x'' ''t'' True ''a'' []" "''u''"]
  by (simp add: demo_team_def demo_session_def)

end
