(* ===== verification/Vault.thy ===== *)
theory Vault
  imports Prelude
begin

section \<open>The vault (\<^verbatim>\<open>internal/vault\<close>: key.go, envelope.go, masterkey.go)\<close>

text \<open>
  Keys, envelopes and the binding of every ciphertext to what it belongs to. AES-GCM, Argon2id and
  HKDF are library code and are arguments of the operations that call them; what the code relies
  on of an AEAD is the predicate \<open>aead\<close>: what was sealed opens again under the same key, nonce and
  additional data, and what opens was sealed under exactly these. Random bytes are drawn outside
  and are arguments, \<open>None\<close> when the source of randomness fails.
\<close>

unbundle bit_operations_syntax

type_synonym key = "byte list"

definition KeyLen :: nat where "KeyLen = 32"
definition SaltLen :: nat where "SaltLen = 16"

datatype vault_error =
    ErrWrongPassphrase | ErrTampered | ErrBadKeyLength nat | AllZeroKey | ErrLocked
  | RandomFailed | KDFTimeTooLow | KDFTimeTooHigh | KDFMemoryTooLow | KDFMemoryTooHigh
  | KDFThreadsTooLow | KDFThreadsTooHigh | KDFSaltTooShort nat | EmptyPassphrase
  | DerivingSubkey vault_error | EmptyInfo | AADScopeEmpty | AADOwnerEmpty | ErrAADTooLong
  | UnsupportedVersion byte | NoSuchFile | IsADirectory | ErrMasterKeyPermissions | ErrMasterKeyExists
  | MasterKeyEmpty | MasterKeyNotHex | MasterKeyLength nat | MasterKeyZero

subsection \<open>Keys\<close>

definition Zero :: "key \<Rightarrow> key" where
  "Zero k = map (\<lambda>_. 0) k"

definition IsZero :: "key \<Rightarrow> bool" where
  "IsZero k = (if k = [] then True else foldl (\<lambda>acc b. acc OR b) 0 k = 0)"

definition Equal :: "key \<Rightarrow> key \<Rightarrow> bool" where
  "Equal k other = (k = other)"

definition validate :: "key \<Rightarrow> (vault_error, unit) result" where
  "validate k =
     (if length k \<noteq> KeyLen then Inl (ErrBadKeyLength (length k))
      else if IsZero k then Inl AllZeroKey else Inr ())"

definition NewKey :: "byte list option \<Rightarrow> (vault_error, key) result" where
  "NewKey draw = (case draw of None \<Rightarrow> Inl RandomFailed | Some k \<Rightarrow> Inr k)"

definition NewSalt :: "byte list option \<Rightarrow> (vault_error, byte list) result" where
  "NewSalt draw = (case draw of None \<Rightarrow> Inl RandomFailed | Some s \<Rightarrow> Inr s)"

record KDFParams =
  Time :: "32 word"
  MemoryKB :: "32 word"
  Threads :: byte
  Salt :: "byte list"

definition DefaultKDFTime :: "32 word" where "DefaultKDFTime = 3"
definition DefaultKDFMemoryKB :: "32 word" where "DefaultKDFMemoryKB = 64 * 1024"
definition DefaultKDFThreads :: byte where "DefaultKDFThreads = 4"
definition MaxKDFTime :: "32 word" where "MaxKDFTime = 16"
definition MaxKDFMemoryKB :: "32 word" where "MaxKDFMemoryKB = 1024 * 1024"
definition MaxKDFThreads :: byte where "MaxKDFThreads = 16"

definition Validate_kdf :: "KDFParams \<Rightarrow> (vault_error, unit) result" where
  "Validate_kdf p =
     (if Time p < 1 then Inl KDFTimeTooLow
      else if Time p > MaxKDFTime then Inl KDFTimeTooHigh
      else if MemoryKB p < 16 * 1024 then Inl KDFMemoryTooLow
      else if MemoryKB p > MaxKDFMemoryKB then Inl KDFMemoryTooHigh
      else if Threads p < 1 then Inl KDFThreadsTooLow
      else if Threads p > MaxKDFThreads then Inl KDFThreadsTooHigh
      else if length (Salt p) < SaltLen then Inl (KDFSaltTooShort (length (Salt p)))
      else Inr ())"

definition NewKDFParams ::
  "byte list option \<Rightarrow> 32 word \<Rightarrow> 32 word \<Rightarrow> byte \<Rightarrow> (vault_error, KDFParams) result" where
  "NewKDFParams draw time memoryKB threads =
     bindr (NewSalt draw) (\<lambda>salt.
     let p = \<lparr>Time = time, MemoryKB = memoryKB, Threads = threads, Salt = salt\<rparr>
     in bindr (Validate_kdf p) (\<lambda>_. Inr p))"

definition DefaultKDFParams :: "byte list option \<Rightarrow> (vault_error, KDFParams) result" where
  "DefaultKDFParams draw = NewKDFParams draw DefaultKDFTime DefaultKDFMemoryKB DefaultKDFThreads"

type_synonym argon2id = "byte list \<Rightarrow> byte list \<Rightarrow> 32 word \<Rightarrow> 32 word \<Rightarrow> byte \<Rightarrow> nat \<Rightarrow> byte list"
type_synonym hkdf = "key \<Rightarrow> byte list \<Rightarrow> byte list \<Rightarrow> nat \<Rightarrow> byte list"

definition DeriveKEK :: "argon2id \<Rightarrow> byte list \<Rightarrow> KDFParams \<Rightarrow> (vault_error, key) result" where
  "DeriveKEK argon passphrase p =
     (if passphrase = [] then Inl EmptyPassphrase
      else bindr (Validate_kdf p) (\<lambda>_.
           Inr (argon passphrase (Salt p) (Time p) (MemoryKB p) (Threads p) KeyLen)))"

definition DeriveSubkey :: "hkdf \<Rightarrow> key \<Rightarrow> string \<Rightarrow> (vault_error, key) result" where
  "DeriveSubkey expand master info =
     (case validate master of
        Inl e \<Rightarrow> Inl (DerivingSubkey e)
      | Inr _ \<Rightarrow>
          (if info = '''' then Inl EmptyInfo
           else Inr (expand master (bytes_of ''bkd/subkey/v1'') (bytes_of info) KeyLen)))"

subsection \<open>Envelopes\<close>

definition EnvelopeVersion :: byte where "EnvelopeVersion = 1"

record Envelope =
  Version :: byte
  Nonce :: "byte list"
  Ciphertext :: "byte list"

record AAD =
  Scope :: string
  aad_OwnerID :: string
  RecordID :: string
  FieldName :: string

definition MaxAADComponent :: nat where "MaxAADComponent = 1024"

text \<open>\<^verbatim>\<open>binary.BigEndian.PutUint32\<close> of a length converted to 32 bits.\<close>

definition put_uint32 :: "nat \<Rightarrow> byte list" where
  "put_uint32 n = [word_of_nat (n div 2 ^ 24), word_of_nat (n div 2 ^ 16), word_of_nat (n div 2 ^ 8), word_of_nat n]"

definition aad_parts :: "AAD \<Rightarrow> string list" where
  "aad_parts a = [Scope a, aad_OwnerID a, RecordID a, FieldName a]"

text \<open>\<open>None\<close> is the panic on a component that is too long.\<close>

definition aad_bytes :: "AAD \<Rightarrow> byte list option" where
  "aad_bytes a =
     (if \<exists>p \<in> set (aad_parts a). length p > MaxAADComponent then None
      else Some (EnvelopeVersion # concat (map (\<lambda>p. put_uint32 (length p) @ bytes_of p) (aad_parts a))))"

definition Validate_aad :: "AAD \<Rightarrow> (vault_error, unit) result" where
  "Validate_aad a =
     (if Scope a = '''' then Inl AADScopeEmpty
      else if aad_OwnerID a = '''' then Inl AADOwnerEmpty
      else if \<exists>p \<in> set (aad_parts a). length p > MaxAADComponent then Inl ErrAADTooLong
      else Inr ())"

type_synonym seal_fn = "key \<Rightarrow> byte list \<Rightarrow> byte list \<Rightarrow> byte list \<Rightarrow> byte list"
type_synonym open_fn = "key \<Rightarrow> byte list \<Rightarrow> byte list \<Rightarrow> byte list \<Rightarrow> byte list option"

definition NonceSize :: nat where "NonceSize = 12"

text \<open>
  \<^verbatim>\<open>newGCM\<close> can fail only on the key: \<^verbatim>\<open>aes.NewCipher\<close> accepts 32 bytes and
  \<^verbatim>\<open>cipher.NewGCM\<close> a 16-byte block. The panic of \<^verbatim>\<open>aad.bytes()\<close> is unreachable after
  \<^verbatim>\<open>Validate\<close>; \<open>the\<close> reads its result.
\<close>

definition Seal :: "seal_fn \<Rightarrow> byte list option \<Rightarrow> key \<Rightarrow> AAD \<Rightarrow> byte list \<Rightarrow> (vault_error, Envelope) result" where
  "Seal seal draw k aad plaintext =
     bindr (Validate_aad aad) (\<lambda>_.
     bindr (validate k) (\<lambda>_.
     case draw of
       None \<Rightarrow> Inl RandomFailed
     | Some nonce \<Rightarrow>
         Inr \<lparr>Version = EnvelopeVersion, Nonce = nonce,
              Ciphertext = seal k nonce (the (aad_bytes aad)) plaintext\<rparr>))"

definition Open :: "open_fn \<Rightarrow> key \<Rightarrow> AAD \<Rightarrow> Envelope \<Rightarrow> (vault_error, byte list) result" where
  "Open unseal k aad env =
     bindr (Validate_aad aad) (\<lambda>_.
     bindr (check (Version env = EnvelopeVersion) (UnsupportedVersion (Version env))) (\<lambda>_.
     bindr (validate k) (\<lambda>_.
     if length (Nonce env) \<noteq> NonceSize then Inl ErrTampered
     else case unseal k (Nonce env) (the (aad_bytes aad)) (Ciphertext env) of
            None \<Rightarrow> Inl ErrTampered
          | Some pt \<Rightarrow> Inr pt)))"

record WrappedKey =
  KDF :: KDFParams
  wk_Envelope :: Envelope

definition wrapAAD :: "string \<Rightarrow> AAD" where
  "wrapAAD owner = \<lparr>Scope = ''user-dek'', aad_OwnerID = owner, RecordID = '''', FieldName = ''dek''\<rparr>"

definition NewUserKey ::
  "argon2id \<Rightarrow> seal_fn \<Rightarrow> byte list option \<Rightarrow> byte list option \<Rightarrow> string \<Rightarrow> byte list \<Rightarrow> KDFParams
     \<Rightarrow> (vault_error, key \<times> WrappedKey) result" where
  "NewUserKey argon seal draw nonce owner passphrase params =
     bindr (Validate_kdf params) (\<lambda>_.
     bindr (DeriveKEK argon passphrase params) (\<lambda>kek.
     bindr (NewKey draw) (\<lambda>dek.
     bindr (Seal seal nonce kek (wrapAAD owner) dek) (\<lambda>env.
     Inr (dek, \<lparr>KDF = params, wk_Envelope = env\<rparr>)))))"

definition UnwrapUserKey ::
  "argon2id \<Rightarrow> open_fn \<Rightarrow> string \<Rightarrow> byte list \<Rightarrow> WrappedKey \<Rightarrow> (vault_error, key) result" where
  "UnwrapUserKey argon unseal owner passphrase wk =
     bindr (DeriveKEK argon passphrase (KDF wk)) (\<lambda>kek.
     case Open unseal kek (wrapAAD owner) (wk_Envelope wk) of
       Inl _ \<Rightarrow> Inl ErrWrongPassphrase
     | Inr dek \<Rightarrow> if length dek \<noteq> KeyLen then Inl ErrWrongPassphrase else Inr dek)"

definition RewrapUserKey ::
  "argon2id \<Rightarrow> seal_fn \<Rightarrow> byte list option \<Rightarrow> string \<Rightarrow> key \<Rightarrow> byte list \<Rightarrow> KDFParams
     \<Rightarrow> (vault_error, WrappedKey) result" where
  "RewrapUserKey argon seal nonce owner dek newPassphrase params =
     bindr (validate dek) (\<lambda>_.
     bindr (Validate_kdf params) (\<lambda>_.
     bindr (DeriveKEK argon newPassphrase params) (\<lambda>kek.
     bindr (Seal seal nonce kek (wrapAAD owner) dek) (\<lambda>env.
     Inr \<lparr>KDF = params, wk_Envelope = env\<rparr>))))"

definition SealKeyUnder ::
  "seal_fn \<Rightarrow> byte list option \<Rightarrow> key \<Rightarrow> AAD \<Rightarrow> key \<Rightarrow> (vault_error, Envelope) result" where
  "SealKeyUnder seal nonce outer aad inner_key =
     bindr (validate inner_key) (\<lambda>_. Seal seal nonce outer aad inner_key)"

definition OpenKeyFrom :: "open_fn \<Rightarrow> key \<Rightarrow> AAD \<Rightarrow> Envelope \<Rightarrow> (vault_error, key) result" where
  "OpenKeyFrom unseal outer aad env =
     bindr (Open unseal outer aad env) (\<lambda>k.
     case validate k of Inl _ \<Rightarrow> Inl ErrTampered | Inr _ \<Rightarrow> Inr k)"

definition TeamAAD :: "string \<Rightarrow> string \<Rightarrow> AAD" where
  "TeamAAD team member = \<lparr>Scope = ''team-dek'', aad_OwnerID = member, RecordID = team, FieldName = ''dek''\<rparr>"

definition CredentialAAD :: "string \<Rightarrow> string \<Rightarrow> string \<Rightarrow> AAD" where
  "CredentialAAD owner credential field =
     \<lparr>Scope = ''credential'', aad_OwnerID = owner, RecordID = credential, FieldName = field\<rparr>"

definition MasterAAD :: "string \<Rightarrow> string \<Rightarrow> AAD" where
  "MasterAAD record_id field =
     \<lparr>Scope = ''master'', aad_OwnerID = ''server'', RecordID = record_id, FieldName = field\<rparr>"

subsection \<open>The master key file\<close>

text \<open>
  The file system is a map from paths to files with their permission bits; reads, writes and the
  creation of directories succeed. \<^verbatim>\<open>hex.DecodeString\<close> takes both cases of digits.
\<close>

record disk_file =
  content :: string
  perm :: "32 word"
  is_dir :: bool

definition MasterKeyFileMode :: "32 word" where "MasterKeyFileMode = 256"

definition hex_digit :: "nat \<Rightarrow> char" where
  "hex_digit n = char_of (if n < 10 then 48 + n else 87 + n)"

definition hex_encode :: "byte list \<Rightarrow> string" where
  "hex_encode bs = concat (map (\<lambda>b. [hex_digit (unat b div 16), hex_digit (unat b mod 16)]) bs)"

definition unhex :: "char \<Rightarrow> nat option" where
  "unhex c = (let n = of_char c in
     if 48 \<le> n \<and> n \<le> 57 then Some (n - 48)
     else if 97 \<le> n \<and> n \<le> 102 then Some (n - 87)
     else if 65 \<le> n \<and> n \<le> 70 then Some (n - 55)
     else None)"

fun hex_decode :: "string \<Rightarrow> byte list option" where
  "hex_decode [] = Some []"
| "hex_decode [c] = None"
| "hex_decode (c # d # s) =
     (case (unhex c, unhex d, hex_decode s) of
        (Some h, Some l, Some bs) \<Rightarrow> Some (word_of_nat (16 * h + l) # bs)
      | _ \<Rightarrow> None)"

definition decodeMasterKey :: "string \<Rightarrow> (vault_error, key) result" where
  "decodeMasterKey raw =
     (let t = trim_space raw
      in if t = '''' then Inl MasterKeyEmpty
         else case hex_decode t of
             None \<Rightarrow> Inl MasterKeyNotHex
           | Some k \<Rightarrow> if length k \<noteq> KeyLen then Inl (MasterKeyLength (length k))
                       else if IsZero k then Inl MasterKeyZero else Inr k)"

definition LoadMasterKey :: "(string \<Rightarrow> disk_file option) \<Rightarrow> string \<Rightarrow> (vault_error, key) result" where
  "LoadMasterKey fs path =
     (case fs path of
        None \<Rightarrow> Inl NoSuchFile
      | Some f \<Rightarrow> if is_dir f then Inl IsADirectory
                  else if perm f AND 63 \<noteq> 0 then Inl ErrMasterKeyPermissions
                  else decodeMasterKey (content f))"

definition GenerateMasterKeyFile ::
  "byte list option \<Rightarrow> (string \<Rightarrow> disk_file option) \<Rightarrow> string \<Rightarrow> (vault_error, string \<Rightarrow> disk_file option) result" where
  "GenerateMasterKeyFile draw fs path =
     (if fs path \<noteq> None then Inl ErrMasterKeyExists
      else bindr (NewKey draw) (\<lambda>k.
        Inr (fs(path \<mapsto> \<lparr>content = hex_encode k @ [CHR 0x0A], perm = MasterKeyFileMode, is_dir = False\<rparr>))))"

subsection \<open>Zero keys\<close>

lemma foldl_or_zero: "foldl (\<lambda>acc b. acc OR b) a k = 0 \<longleftrightarrow> a = 0 \<and> (\<forall>b \<in> set k. b = (0 :: byte))"
  by (induction k arbitrary: a) (auto simp: or_eq_0_iff)

lemma IsZero_iff: "IsZero k \<longleftrightarrow> (\<forall>b \<in> set k. b = 0)"
  by (simp add: IsZero_def foldl_or_zero)

lemma Zero_props [simp]: "IsZero (Zero k)" "length (Zero k) = length k"
  by (simp_all add: IsZero_iff Zero_def)

subsection \<open>Bindings are unambiguous\<close>

lemma nat_bytes_eq:
  assumes "n < 2 ^ 16" and "m < 2 ^ 16" and "n mod 256 = m mod 256" and "n div 256 mod 256 = m div 256 mod 256"
  shows "n = (m :: nat)"
proof -
  have "n div 256 < 256" "m div 256 < 256" using assms(1,2) by auto
  with assms(4) have "n div 256 = m div 256" by simp
  with assms(3) show ?thesis by (metis mult_div_mod_eq)
qed

lemma byte_of_nat_eq: "(word_of_nat n :: byte) = word_of_nat m \<longleftrightarrow> n mod 256 = m mod 256"
  by (simp add: word_of_nat_eq_iff take_bit_eq_mod)

lemma put_uint32_eq:
  assumes "n \<le> MaxAADComponent" and "m \<le> MaxAADComponent" and "put_uint32 n @ xs = put_uint32 m @ ys"
  shows "n = m \<and> xs = ys"
  using assms nat_bytes_eq [of n m] by (simp add: put_uint32_def byte_of_nat_eq MaxAADComponent_def)

lemma parts_eq:
  assumes "length ps = length qs" and "\<forall>p \<in> set ps \<union> set qs. length p \<le> MaxAADComponent"
    and "concat (map (\<lambda>p. put_uint32 (length p) @ bytes_of p) ps) = concat (map (\<lambda>p. put_uint32 (length p) @ bytes_of p) qs)"
  shows "ps = qs"
  using assms
proof (induction ps qs rule: list_induct2)
  case Nil
  then show ?case by simp
next
  case (Cons p ps q qs)
  let ?enc = "\<lambda>ps. concat (map (\<lambda>p. put_uint32 (length p) @ bytes_of p) ps)"
  have "put_uint32 (length p) @ (bytes_of p @ ?enc ps) = put_uint32 (length q) @ (bytes_of q @ ?enc qs)"
    using Cons.prems(2) by simp
  from put_uint32_eq [OF _ _ this] Cons.prems(1)
  have "length p = length q" "bytes_of p @ ?enc ps = bytes_of q @ ?enc qs" by auto
  then have "bytes_of p = bytes_of q" "?enc ps = ?enc qs" by (simp_all add: append_eq_append_conv)
  with Cons.IH Cons.prems(1) show ?case by (simp add: bytes_of_inj)
qed

lemma aad_bytes_inj:
  assumes "Validate_aad a = Inr ()" and "Validate_aad b = Inr ()" and "the (aad_bytes a) = the (aad_bytes b)"
  shows "a = b"
proof -
  have short: "\<forall>p \<in> set (aad_parts a) \<union> set (aad_parts b). length p \<le> MaxAADComponent"
    using assms(1,2) by (auto simp: Validate_aad_def split: if_splits)
  then have "aad_parts a = aad_parts b"
    using assms(3) parts_eq [of "aad_parts a" "aad_parts b"] by (auto simp: aad_bytes_def aad_parts_def)
  then show ?thesis by (cases a; cases b) (simp add: aad_parts_def)
qed

subsection \<open>Properties\<close>

text \<open>
  What the code relies on of AES-GCM: opening inverts sealing, and additional data that differs
  from what was sealed is refused.
\<close>

definition aead :: "seal_fn \<Rightarrow> open_fn \<Rightarrow> bool" where
  "aead seal unseal \<longleftrightarrow> (\<forall>k n a p. unseal k n a (seal k n a p) = Some p)
     \<and> (\<forall>k n a b p q. unseal k n b (seal k n a p) = Some q \<longrightarrow> b = a)"

lemma Open_sealed:
  assumes "aead seal unseal" and "Seal seal (Some n) k aad pt = Inr env" and "length n = NonceSize"
  shows "Open unseal k aad env = Inr pt"
  using assms by (auto simp: Seal_def Open_def bindr_Inr_iff aead_def check_def)

lemma Open_sealed_iff:
  assumes "aead seal unseal" and "Seal seal (Some n) k aad pt = Inr env" and "Open unseal k aad' env = Inr q"
  shows "aad' = aad \<and> q = pt"
proof -
  from assms(2) have env: "env = \<lparr>Version = EnvelopeVersion, Nonce = n, Ciphertext = seal k n (the (aad_bytes aad)) pt\<rparr>"
    and aad: "Validate_aad aad = Inr ()" by (auto simp: Seal_def bindr_Inr_iff)
  from assms(3) have aad': "Validate_aad aad' = Inr ()"
    and q: "unseal k n (the (aad_bytes aad')) (seal k n (the (aad_bytes aad)) pt) = Some q"
    by (auto simp: Open_def bindr_Inr_iff env split: if_splits option.splits)
  with assms(1) have "the (aad_bytes aad') = the (aad_bytes aad)" unfolding aead_def by blast
  with aad_bytes_inj [OF aad' aad] have "aad' = aad" by simp
  with q assms(1) show ?thesis by (simp add: aead_def)
qed

text \<open>
  C18 (safety). A ciphertext opens under the identity it was sealed for and under no other: with
  the same key, presenting it as another owner's, another record's, another field's or another
  scope's is refused, and what opens is what was sealed. The length prefixes keep any two valid
  identities apart.
\<close>

theorem envelope_bound_to_identity:
  assumes "aead seal unseal" and "Seal seal (Some n) k aad pt = Inr env" and "length n = NonceSize"
  shows "Open unseal k aad' env = Inr q \<longleftrightarrow> aad' = aad \<and> q = pt"
proof
  assume "Open unseal k aad' env = Inr q"
  then show "aad' = aad \<and> q = pt" by (rule Open_sealed_iff [OF assms(1,2)])
next
  assume "aad' = aad \<and> q = pt"
  then show "Open unseal k aad' env = Inr q" using Open_sealed [OF assms] by simp
qed

text \<open>A toy AEAD that keeps the additional data in front of the plaintext, and its length before it.\<close>

definition demo_seal :: seal_fn where
  "demo_seal k n a p = replicate (length a) 1 @ [0] @ a @ p"

definition demo_open :: open_fn where
  "demo_open k n a c =
     (let rest = drop 1 (dropWhile (\<lambda>b. b = 1) c)
      in if length (takeWhile (\<lambda>b. b = 1) c) = length a \<and> take (length a) rest = a
         then Some (drop (length a) rest) else None)"

lemma demo_aead: "aead demo_seal demo_open"
proof -
  have tw: "takeWhile (\<lambda>b. b = 1) (replicate m 1 @ 0 # xs) = replicate m (1 :: byte)"
    and dw: "dropWhile (\<lambda>b. b = 1) (replicate m 1 @ 0 # xs) = (0 :: byte) # xs" for m xs
    by (induction m) auto
  show ?thesis by (auto simp: aead_def demo_seal_def demo_open_def tw dw Let_def)
qed

definition demo_key :: key where "demo_key = replicate 32 7"

lemma demo_key_valid: "validate demo_key = Inr ()"
  by (simp add: validate_def demo_key_def KeyLen_def IsZero_iff)

theorem envelope_bound_to_identity_witness:
  "\<exists>env. Seal demo_seal (Some (replicate 12 9)) demo_key (CredentialAAD ''alice'' ''c1'' ''secret'') [1, 2, 3] = Inr env
     \<and> Open demo_open demo_key (CredentialAAD ''alice'' ''c1'' ''secret'') env = Inr [1, 2, 3]
     \<and> \<not> is_ok (Open demo_open demo_key (CredentialAAD ''bob'' ''c1'' ''secret'') env)"
proof -
  have "Validate_aad (CredentialAAD ''alice'' ''c1'' ''secret'') = Inr ()"
    by (simp add: Validate_aad_def CredentialAAD_def aad_parts_def MaxAADComponent_def)
  then obtain env where env:
    "Seal demo_seal (Some (replicate 12 9)) demo_key (CredentialAAD ''alice'' ''c1'' ''secret'') [1, 2, 3] = Inr env"
    by (simp add: Seal_def demo_key_valid)
  have "length (replicate 12 (9 :: byte)) = NonceSize" by (simp add: NonceSize_def)
  note bound = envelope_bound_to_identity [OF demo_aead env this]
  have "Open demo_open demo_key (CredentialAAD ''bob'' ''c1'' ''secret'') env \<noteq> Inr q" for q
    using bound [of "CredentialAAD ''bob'' ''c1'' ''secret''" q] by (simp add: CredentialAAD_def)
  then show ?thesis using env bound by (auto simp: is_ok_iff)
qed

lemma Seal_parts:
  "Seal seal (Some n) k aad pt = Inr env \<Longrightarrow> Validate_aad aad = Inr () \<and> validate k = Inr () \<and> Nonce env = n"
  by (auto simp: Seal_def bindr_Inr_iff)

lemma UnwrapUserKey_sealed:
  assumes "aead seal unseal" and "DeriveKEK argon pass (KDF wk) = Inr kek"
    and "Seal seal (Some n) kek (wrapAAD owner) dek = Inr (wk_Envelope wk)" and "length n = NonceSize" and "length dek = KeyLen"
  shows "UnwrapUserKey argon unseal other pass wk = (if other = owner then Inr dek else Inl ErrWrongPassphrase)"
proof (cases "other = owner")
  case True
  with Open_sealed [OF assms(1,3,4)] assms(2,5) show ?thesis by (simp add: UnwrapUserKey_def)
next
  case False
  then have "wrapAAD other \<noteq> wrapAAD owner" by (simp add: wrapAAD_def)
  then have "Open unseal kek (wrapAAD other) (wk_Envelope wk) \<noteq> Inr q" for q
    using Open_sealed_iff [OF assms(1,3)] by blast
  then obtain e where "Open unseal kek (wrapAAD other) (wk_Envelope wk) = Inl e" by (metis sumE)
  with False assms(2) show ?thesis by (simp add: UnwrapUserKey_def)
qed

text \<open>
  C19 (round trip). The key made for a user at enrolment comes back from the stored record with
  the passphrase it was made with, and after a change of passphrase the same key comes back with
  the new one; the record opens for no other user, which is reported as a wrong passphrase.
\<close>

theorem user_key_roundtrip:
  assumes "aead seal unseal" and "NewUserKey argon seal (Some d) (Some n) owner pass params = Inr (dek, wk)"
    and "RewrapUserKey argon seal (Some m) owner dek pass' params' = Inr wk'"
    and "length n = NonceSize" and "length m = NonceSize"
  shows "UnwrapUserKey argon unseal user pass wk = (if user = owner then Inr dek else Inl ErrWrongPassphrase)
    \<and> UnwrapUserKey argon unseal user pass' wk' = (if user = owner then Inr dek else Inl ErrWrongPassphrase)"
proof -
  from assms(3) obtain kek' where kek': "DeriveKEK argon pass' (KDF wk') = Inr kek'"
    "Seal seal (Some m) kek' (wrapAAD owner) dek = Inr (wk_Envelope wk')" and len: "length dek = KeyLen"
    by (auto simp: RewrapUserKey_def bindr_Inr_iff validate_def split: if_splits)
  from assms(2) obtain kek where kek: "DeriveKEK argon pass (KDF wk) = Inr kek"
    "Seal seal (Some n) kek (wrapAAD owner) dek = Inr (wk_Envelope wk)"
    by (auto simp: NewUserKey_def bindr_Inr_iff)
  show ?thesis
    using UnwrapUserKey_sealed [OF assms(1) kek assms(4) len] UnwrapUserKey_sealed [OF assms(1) kek' assms(5) len]
    by simp
qed

definition demo_argon :: argon2id where
  "demo_argon pass salt t m th n = take n (pass @ replicate n 1)"

definition demo_params :: KDFParams where
  "demo_params = \<lparr>Time = 3, MemoryKB = 65536, Threads = 4, Salt = replicate 16 5\<rparr>"

lemma demo_params_valid: "Validate_kdf demo_params = Inr ()"
  by (simp add: Validate_kdf_def demo_params_def MaxKDFTime_def MaxKDFMemoryKB_def MaxKDFThreads_def SaltLen_def)

lemma demo_kek: "\<exists>kek. DeriveKEK demo_argon (b # pass) demo_params = Inr kek \<and> validate kek = Inr ()" if "b \<noteq> 0"
  using that by (simp add: DeriveKEK_def demo_params_valid demo_argon_def validate_def KeyLen_def IsZero_iff)

lemma demo_wrap_valid: "Validate_aad (wrapAAD ''alice'') = Inr ()"
  by (simp add: Validate_aad_def wrapAAD_def aad_parts_def MaxAADComponent_def)

theorem user_key_roundtrip_witness:
  "\<exists>dek wk wk'. NewUserKey demo_argon demo_seal (Some demo_key) (Some (replicate 12 9)) ''alice'' [1] demo_params = Inr (dek, wk)
     \<and> RewrapUserKey demo_argon demo_seal (Some (replicate 12 8)) ''alice'' dek [2] demo_params = Inr wk'
     \<and> UnwrapUserKey demo_argon demo_open ''alice'' [2] wk' = Inr dek
     \<and> UnwrapUserKey demo_argon demo_open ''bob'' [2] wk' = Inl ErrWrongPassphrase"
proof -
  obtain k1 k2 where k: "DeriveKEK demo_argon [1] demo_params = Inr k1" "validate k1 = Inr ()"
    "DeriveKEK demo_argon [2] demo_params = Inr k2" "validate k2 = Inr ()"
    using demo_kek [of 1 "[]"] demo_kek [of 2 "[]"] by auto
  obtain wk where wk: "NewUserKey demo_argon demo_seal (Some demo_key) (Some (replicate 12 9)) ''alice'' [1] demo_params
      = Inr (demo_key, wk)"
    using k by (simp add: NewUserKey_def NewKey_def Seal_def demo_params_valid demo_wrap_valid)
  obtain wk' where wk': "RewrapUserKey demo_argon demo_seal (Some (replicate 12 8)) ''alice'' demo_key [2] demo_params = Inr wk'"
    using k by (simp add: RewrapUserKey_def Seal_def demo_params_valid demo_wrap_valid demo_key_valid)
  have len: "length (replicate 12 (9 :: byte)) = NonceSize" "length (replicate 12 (8 :: byte)) = NonceSize"
    by (simp_all add: NonceSize_def)
  from user_key_roundtrip [OF demo_aead wk wk' len, of "''alice''"] user_key_roundtrip [OF demo_aead wk wk' len, of "''bob''"]
  show ?thesis using wk wk' by auto
qed

subsection \<open>The key file\<close>

lemma unhex_hex_digit: "n < 16 \<Longrightarrow> unhex (hex_digit n) = Some n"
  by (auto simp: unhex_def hex_digit_def Let_def)

lemma hex_roundtrip: "hex_decode (hex_encode bs) = Some bs"
proof (induction bs)
  case Nil
  then show ?case by (simp add: hex_encode_def)
next
  case (Cons b bs)
  have small: "unat b div 16 < 16" "unat b mod 16 < 16"
    using unat_byte [of b] by auto
  have "hex_encode (b # bs) = hex_digit (unat b div 16) # hex_digit (unat b mod 16) # hex_encode bs"
    by (simp add: hex_encode_def)
  then show ?case using Cons small by (simp add: unhex_hex_digit)
qed

lemma hex_digit_no_space: "n < 16 \<Longrightarrow> \<not> is_space (hex_digit n)"
  by (auto simp: is_space_def hex_digit_def Let_def)

lemma hex_encode_no_space: "\<forall>c \<in> set (hex_encode bs). \<not> is_space c"
proof -
  have "\<not> is_space (hex_digit (unat b div 16))" "\<not> is_space (hex_digit (unat b mod 16))" for b :: byte
    using unat_byte [of b] by (auto intro!: hex_digit_no_space)
  then show ?thesis by (auto simp: hex_encode_def)
qed

lemma trim_space_line: "\<forall>c \<in> set s. \<not> is_space c \<Longrightarrow> trim_space (s @ [CHR 0x0A]) = s"
proof (cases s)
  case Nil
  then show ?thesis by (simp add: trim_space_def is_space_def)
next
  case (Cons c cs)
  assume all: "\<forall>c \<in> set s. \<not> is_space c"
  have "dropWhile is_space (s @ [CHR 0x0A]) = s @ [CHR 0x0A]" using all Cons by simp
  moreover have "dropWhile is_space (CHR 0x0A # rev s) = rev s"
  proof -
    have "is_space (CHR 0x0A)" by (simp add: is_space_def)
    moreover have "dropWhile is_space (rev s) = rev s"
      using all Cons by (metis dropWhile_eq_self_iff hd_in_set set_rev)
    ultimately show ?thesis by simp
  qed
  ultimately show ?thesis by (simp add: trim_space_def)
qed

text \<open>
  C20 (round trip). A master key file is readable only by its owner and loads back as exactly the
  key that was generated, and generating one never replaces a file that is there.
\<close>

theorem master_key_file_roundtrip:
  assumes "GenerateMasterKeyFile (Some k) fs path = Inr fs'" and "validate k = Inr ()"
  shows "LoadMasterKey fs' path = Inr k \<and> fs path = None
    \<and> \<not> is_ok (GenerateMasterKeyFile draw fs' path)
    \<and> (\<forall>p. p \<noteq> path \<longrightarrow> fs' p = fs p)"
proof -
  from assms(1) have fs': "fs' = fs(path \<mapsto> \<lparr>content = hex_encode k @ [CHR 0x0A], perm = MasterKeyFileMode, is_dir = False\<rparr>)"
    and none: "fs path = None" by (auto simp: GenerateMasterKeyFile_def NewKey_def split: if_splits)
  from assms(2) have k: "length k = KeyLen" "\<not> IsZero k" by (auto simp: validate_def split: if_splits)
  have "hex_encode k \<noteq> []" using hex_roundtrip [of k] k by (auto simp: KeyLen_def)
  then have "decodeMasterKey (hex_encode k @ [CHR 0x0A]) = Inr k"
    using k by (simp add: decodeMasterKey_def trim_space_line hex_encode_no_space hex_roundtrip Let_def)
  moreover have "MasterKeyFileMode AND 63 = 0" by (simp add: MasterKeyFileMode_def)
  ultimately show ?thesis
    using none by (simp add: fs' LoadMasterKey_def GenerateMasterKeyFile_def)
qed

theorem master_key_file_roundtrip_witness:
  "\<exists>fs'. GenerateMasterKeyFile (Some demo_key) (\<lambda>_. None) ''/etc/bkd/master.key'' = Inr fs'
     \<and> LoadMasterKey fs' ''/etc/bkd/master.key'' = Inr demo_key"
proof -
  obtain fs' where g: "GenerateMasterKeyFile (Some demo_key) (\<lambda>_. None) ''/etc/bkd/master.key'' = Inr fs'"
    by (simp add: GenerateMasterKeyFile_def NewKey_def)
  from master_key_file_roundtrip [OF g demo_key_valid] g show ?thesis by blast
qed

end
