(* ===== verification/Go_Time.thy ===== *)
theory Go_Time
  imports Prelude
begin

section \<open>Time and text of Go's standard library\<close>

text \<open>
  An instant is a number of nanoseconds since 1970 in UTC. The layouts of
  \<^verbatim>\<open>time.Time.Format\<close> that the program uses are written out over the proleptic Gregorian
  calendar, for the four-digit years they are meant for. \<open>rune_width\<close> is how many bytes
  \<^verbatim>\<open>range\<close> over a string takes at a time: the length of the well-formed UTF-8 sequence at the
  front, or one byte when there is none.
\<close>

subsection \<open>Durations and dates\<close>

definition second :: int where "second = 10 ^ 9"
definition minute :: int where "minute = 60 * second"
definition hour :: int where "hour = 60 * minute"

lemmas durations [simp] = second_def minute_def hour_def

fun digits_of :: "nat \<Rightarrow> nat \<Rightarrow> string" where
  "digits_of 0 n = ''''"
| "digits_of (Suc w) n = digits_of w (n div 10) @ [char_of (48 + n mod 10 :: nat)]"

lemma length_digits_of [simp]: "length (digits_of w n) = w"
  by (induction w n rule: digits_of.induct) simp_all

fun decimal_of :: "nat \<Rightarrow> string" where
  "decimal_of n = (if n < 10 then '''' else decimal_of (n div 10)) @ [char_of (48 + n mod 10 :: nat)]"

declare decimal_of.simps [simp del]

text \<open>The civil date of a day number: year, month, day. Years begin in March inside.\<close>

definition civil :: "int \<Rightarrow> int \<times> int \<times> int" where
  "civil days =
     (let z = days + 719468; era = z div 146097; doe = z mod 146097;
          yoe = (doe - doe div 1460 + doe div 36524 - doe div 146096) div 365;
          doy = doe - (365 * yoe + yoe div 4 - yoe div 100);
          mp = (5 * doy + 2) div 153;
          d = doy - (153 * mp + 2) div 5 + 1;
          m = (if mp < 10 then mp + 3 else mp - 9)
      in (yoe + era * 400 + (if m \<le> 2 then 1 else 0), m, d))"

definition unix_seconds :: "int \<Rightarrow> int" where
  "unix_seconds t = t div second"

definition clock :: "int \<Rightarrow> nat \<times> nat \<times> nat" where
  "clock t = (let s = nat (unix_seconds t mod 86400) in (s div 3600, s div 60 mod 60, s mod 60))"

text \<open>\<^verbatim>\<open>20060102-150405\<close>, \<^verbatim>\<open>time.RFC3339\<close> and \<^verbatim>\<open>time.RFC3339Nano\<close> in UTC.\<close>

definition stamp :: "int \<Rightarrow> string" where
  "stamp t =
     (case (civil (unix_seconds t div 86400), clock t) of ((y, m, d), (h, mi, s)) \<Rightarrow>
        digits_of 4 (nat y) @ digits_of 2 (nat m) @ digits_of 2 (nat d) @ ''-''
        @ digits_of 2 h @ digits_of 2 mi @ digits_of 2 s)"

definition rfc3339_base :: "int \<Rightarrow> string" where
  "rfc3339_base t =
     (case (civil (unix_seconds t div 86400), clock t) of ((y, m, d), (h, mi, s)) \<Rightarrow>
        digits_of 4 (nat y) @ ''-'' @ digits_of 2 (nat m) @ ''-'' @ digits_of 2 (nat d) @ ''T''
        @ digits_of 2 h @ '':'' @ digits_of 2 mi @ '':'' @ digits_of 2 s)"

definition rfc3339 :: "int \<Rightarrow> string" where
  "rfc3339 t = rfc3339_base t @ ''Z''"

definition rfc3339_nano :: "int \<Rightarrow> string" where
  "rfc3339_nano t =
     (let frac = rev (dropWhile (\<lambda>c. c = CHR ''0'') (rev (digits_of 9 (nat (t mod second)))))
      in rfc3339_base t @ (if frac = '''' then '''' else ''.'' @ frac) @ ''Z'')"

lemma stamp_same_second: "unix_seconds t = unix_seconds u \<Longrightarrow> stamp t = stamp u"
  by (simp add: stamp_def clock_def)

subsection \<open>Runes\<close>

definition in_range :: "nat \<Rightarrow> nat \<Rightarrow> char \<Rightarrow> bool" where
  "in_range lo hi c \<longleftrightarrow> lo \<le> of_char c \<and> of_char c \<le> hi"

definition continuation :: "char \<Rightarrow> bool" where
  "continuation = in_range 128 191"

fun rune_width :: "string \<Rightarrow> nat" where
  "rune_width (a # b # c # d # s) =
     (if in_range 194 223 a \<and> continuation b then 2
      else if (a = CHR 0xE0 \<and> in_range 160 191 b \<or> a = CHR 0xED \<and> in_range 128 159 b
               \<or> (in_range 225 236 a \<or> in_range 238 239 a) \<and> continuation b) \<and> continuation c then 3
      else if (a = CHR 0xF0 \<and> in_range 144 191 b \<or> in_range 241 243 a \<and> continuation b
               \<or> a = CHR 0xF4 \<and> in_range 128 143 b) \<and> continuation c \<and> continuation d then 4
      else 1)"
| "rune_width [a, b, c] =
     (if in_range 194 223 a \<and> continuation b then 2
      else if (a = CHR 0xE0 \<and> in_range 160 191 b \<or> a = CHR 0xED \<and> in_range 128 159 b
               \<or> (in_range 225 236 a \<or> in_range 238 239 a) \<and> continuation b) \<and> continuation c then 3
      else 1)"
| "rune_width [a, b] = (if in_range 194 223 a \<and> continuation b then 2 else 1)"
| "rune_width _ = 1"

lemma rune_width_pos [simp]: "0 < rune_width s"
  by (cases s rule: rune_width.cases) auto

lemma rune_width_ascii: "of_char c < (128 :: nat) \<Longrightarrow> rune_width (c # s) = 1"
  by (cases "c # s" rule: rune_width.cases) (auto simp: in_range_def)

end
