(* ===== verification/Vault_Cache.thy ===== *)
theory Vault_Cache
  imports Vault Go_Time
begin

section \<open>The key cache (\<^verbatim>\<open>internal/vault/cache.go\<close>)\<close>

text \<open>
  Unwrapped keys of logged-in sessions. A Go \<^verbatim>\<open>Key\<close> is a slice: \<^verbatim>\<open>Get\<close> hands out the
  cache's own memory and \<^verbatim>\<open>Zero\<close> writes to it, so the model keeps the bytes in a \<open>heap\<close> from
  addresses to keys and an entry holds an address. The clock is an argument. The map of entries is
  an association list with one row per session; the loops of \<^verbatim>\<open>ForgetFunc\<close>,
  \<^verbatim>\<open>EvictExpired\<close> and \<^verbatim>\<open>Close\<close> visit it in some order, which their effect does not depend
  on. The mutex makes every operation atomic; the janitor is a caller of \<^verbatim>\<open>EvictExpired\<close>.
\<close>

type_synonym addr = nat

record entry =
  e_key :: addr
  expiresAt :: int

record Cache =
  entries :: "(string \<times> entry) list"
  ttl :: int
  heap :: "addr \<Rightarrow> key"

definition newCache :: "int \<Rightarrow> (addr \<Rightarrow> key) \<Rightarrow> Cache" where
  "newCache t h = \<lparr>entries = [], ttl = t, heap = h\<rparr>"

text \<open>How often the janitor runs.\<close>

definition janitor_interval :: "int \<Rightarrow> int" where
  "janitor_interval t =
     (let i = t div 10; j = (if i < second then second else i)
      in if j > 60 * second then 60 * second else j)"

definition zero_at :: "addr \<Rightarrow> (addr \<Rightarrow> key) \<Rightarrow> addr \<Rightarrow> key" where
  "zero_at a h = h(a := Zero (h a))"

definition zero_entries :: "(string \<times> entry) list \<Rightarrow> (addr \<Rightarrow> key) \<Rightarrow> addr \<Rightarrow> key" where
  "zero_entries es h = foldl (\<lambda>h (i, e). zero_at (e_key e) h) h es"

definition without :: "string \<Rightarrow> (string \<times> entry) list \<Rightarrow> (string \<times> entry) list" where
  "without sid es = filter (\<lambda>x. fst x \<noteq> sid) es"

definition Put :: "Cache \<Rightarrow> int \<Rightarrow> string \<Rightarrow> addr \<Rightarrow> Cache" where
  "Put c now sid a =
     c\<lparr>heap := (case map_of (entries c) sid of Some old \<Rightarrow> zero_at (e_key old) (heap c) | None \<Rightarrow> heap c),
       entries := (sid, \<lparr>e_key = a, expiresAt = now + ttl c\<rparr>) # without sid (entries c)\<rparr>"

definition cache_Get :: "Cache \<Rightarrow> int \<Rightarrow> string \<Rightarrow> Cache \<times> (vault_error, addr) result" where
  "cache_Get c now sid =
     (case map_of (entries c) sid of
        None \<Rightarrow> (c, Inl ErrLocked)
      | Some e \<Rightarrow>
          (if now > expiresAt e
           then (c\<lparr>heap := zero_at (e_key e) (heap c), entries := without sid (entries c)\<rparr>, Inl ErrLocked)
           else (c\<lparr>entries := (sid, e\<lparr>expiresAt := now + ttl c\<rparr>) # without sid (entries c)\<rparr>, Inr (e_key e))))"

definition cache_Forget :: "Cache \<Rightarrow> string \<Rightarrow> Cache" where
  "cache_Forget c sid =
     (case map_of (entries c) sid of
        None \<Rightarrow> c
      | Some e \<Rightarrow> c\<lparr>heap := zero_at (e_key e) (heap c), entries := without sid (entries c)\<rparr>)"

text \<open>Zero and drop every entry that satisfies a predicate, counting them.\<close>

definition sweep_entries :: "(string \<times> entry \<Rightarrow> bool) \<Rightarrow> Cache \<Rightarrow> Cache \<times> nat" where
  "sweep_entries P c =
     (c\<lparr>heap := zero_entries (filter P (entries c)) (heap c), entries := filter (\<lambda>x. \<not> P x) (entries c)\<rparr>,
      length (filter P (entries c)))"

definition ForgetFunc :: "Cache \<Rightarrow> (string \<Rightarrow> bool) \<Rightarrow> Cache \<times> nat" where
  "ForgetFunc c pred = sweep_entries (\<lambda>x. pred (fst x)) c"

definition EvictExpired :: "Cache \<Rightarrow> int \<Rightarrow> Cache \<times> nat" where
  "EvictExpired c now = sweep_entries (\<lambda>x. now > expiresAt (snd x)) c"

definition Len :: "Cache \<Rightarrow> nat" where
  "Len c = length (entries c)"

definition cache_Close :: "Cache \<Rightarrow> Cache" where
  "cache_Close c = fst (sweep_entries (\<lambda>_. True) c)"

subsection \<open>Where the keys are\<close>

text \<open>
  The history a reader of the code keeps in mind: which key was handed over at which address.
  The cache takes ownership, so every \<^verbatim>\<open>Put\<close> brings memory the cache has not seen.
\<close>

record history =
  cache :: Cache
  given :: "addr \<Rightarrow> key option"

inductive cache_step :: "history \<Rightarrow> history \<Rightarrow> bool" where
  put: "given h a = None \<Longrightarrow>
     cache_step h \<lparr>cache = Put ((cache h)\<lparr>heap := (heap (cache h))(a := k)\<rparr>) now sid a, given = (given h)(a \<mapsto> k)\<rparr>"
| get: "cache_step h (h\<lparr>cache := fst (cache_Get (cache h) now sid)\<rparr>)"
| forget: "cache_step h (h\<lparr>cache := cache_Forget (cache h) sid\<rparr>)"
| forget_func: "cache_step h (h\<lparr>cache := fst (ForgetFunc (cache h) pred)\<rparr>)"
| evict: "cache_step h (h\<lparr>cache := fst (EvictExpired (cache h) now)\<rparr>)"
| close: "cache_step h (h\<lparr>cache := cache_Close (cache h)\<rparr>)"

definition live :: "(string \<times> entry) list \<Rightarrow> addr set" where
  "live es = e_key ` snd ` set es"

text \<open>Every address in use is used once and holds its key; every other address given is zero.\<close>

definition cache_ok :: "history \<Rightarrow> bool" where
  "cache_ok h \<longleftrightarrow>
     distinct (map fst (entries (cache h))) \<and> distinct (map (\<lambda>x. e_key (snd x)) (entries (cache h)))
     \<and> live (entries (cache h)) \<subseteq> dom (given h)
     \<and> (\<forall>a k. given h a = Some k \<longrightarrow>
          heap (cache h) a = (if a \<in> live (entries (cache h)) then k else Zero k))"

lemma Zero_Zero [simp]: "Zero (Zero k) = Zero k"
  by (simp add: Zero_def)

lemma zero_entries_apply: "zero_entries es h a = (if a \<in> live es then Zero (h a) else h a)"
proof (induction es arbitrary: h)
  case Nil
  then show ?case by (simp add: zero_entries_def live_def)
next
  case (Cons x es)
  have "zero_entries (x # es) h = zero_entries es (zero_at (e_key (snd x)) h)"
    by (simp add: zero_entries_def case_prod_beta)
  then show ?case by (auto simp: Cons zero_at_def live_def)
qed

lemma live_filter_disjoint:
  assumes "distinct (map (\<lambda>x. e_key (snd x)) es)"
  shows "live (filter P es) \<inter> live (filter (\<lambda>x. \<not> P x) es) = {}"
    and "live es = live (filter P es) \<union> live (filter (\<lambda>x. \<not> P x) es)"
  using assms by (induction es) (auto simp: live_def)

text \<open>All the ways of dropping entries are one sweep.\<close>

lemma sweep_ok:
  assumes "cache_ok h"
  shows "cache_ok (h\<lparr>cache := fst (sweep_entries P (cache h))\<rparr>)"
proof -
  let ?es = "entries (cache h)"
  have d: "distinct (map fst ?es)" "distinct (map (\<lambda>x. e_key (snd x)) ?es)" using assms by (simp_all add: cache_ok_def)
  note parts = live_filter_disjoint [OF d(2), of P]
  have "heap (fst (sweep_entries P (cache h))) a = (if a \<in> live (filter (\<lambda>x. \<not> P x) ?es) then k else Zero k)"
    if "given h a = Some k" for a k
    using assms that parts by (auto simp: cache_ok_def sweep_entries_def zero_entries_apply)
  moreover have "live (filter (\<lambda>x. \<not> P x) ?es) \<subseteq> dom (given h)"
    using assms parts by (auto simp: cache_ok_def)
  ultimately show ?thesis
    using d by (auto simp: cache_ok_def sweep_entries_def distinct_map_filter)
qed

lemma row_unique:
  assumes "distinct (map fst es)" and "map_of es sid = Some e"
  shows "filter (\<lambda>x. fst x = sid) es = [(sid, e)]"
  using assms
proof (induction es)
  case (Cons x es)
  show ?case
  proof (cases "fst x = sid")
    case True
    with Cons.prems have "sid \<notin> fst ` set es" by auto
    then have "filter (\<lambda>x. fst x = sid) es = []" by (force simp: filter_empty_conv)
    with True Cons.prems show ?thesis by (cases x) auto
  next
    case False
    with Cons show ?thesis by (cases x) auto
  qed
qed simp

lemma forget_is_sweep:
  assumes "distinct (map fst (entries c))"
  shows "cache_Forget c sid = fst (sweep_entries (\<lambda>x. fst x = sid) c)"
proof (cases "map_of (entries c) sid")
  case None
  then have "filter (\<lambda>x. fst x = sid) (entries c) = []" "filter (\<lambda>x. fst x \<noteq> sid) (entries c) = entries c"
    by (force simp: map_of_eq_None_iff filter_empty_conv filter_id_conv)+
  with None show ?thesis by (simp add: cache_Forget_def sweep_entries_def zero_entries_def)
next
  case (Some e)
  from row_unique [OF assms Some] Some show ?thesis
    by (simp add: cache_Forget_def sweep_entries_def zero_entries_def without_def case_prod_beta)
qed

lemma expired_get_is_forget:
  assumes "map_of (entries c) sid = Some e" and "now > expiresAt e"
  shows "cache_Get c now sid = (cache_Forget c sid, Inl ErrLocked)"
  using assms by (simp add: cache_Get_def cache_Forget_def)

lemma live_replace:
  assumes "distinct (map fst es)" and "map_of es sid = Some e" and "e_key e' = e_key e"
  shows "live ((sid, e') # without sid es) = live es"
proof -
  have "live es = live (filter (\<lambda>x. fst x = sid) es) \<union> live (filter (\<lambda>x. fst x \<noteq> sid) es)"
    by (auto simp: live_def)
  with row_unique [OF assms(1,2)] assms(3) show ?thesis by (auto simp: live_def without_def)
qed

lemma keys_without:
  assumes "distinct (map (\<lambda>x. e_key (snd x)) es)" and "distinct (map fst es)" and "map_of es sid = Some e"
  shows "e_key e \<notin> live (without sid es)"
proof -
  have "live (filter (\<lambda>x. fst x = sid) es) \<inter> live (filter (\<lambda>x. fst x \<noteq> sid) es) = {}"
    using live_filter_disjoint(1) [OF assms(1), of "\<lambda>x. fst x = sid"] by simp
  then show ?thesis by (simp add: row_unique [OF assms(2,3)] live_def without_def)
qed

lemma distinct_without: "distinct (map f es) \<Longrightarrow> distinct (map f (without sid es))"
  by (simp add: without_def distinct_map_filter)

lemma not_in_without [simp]: "sid \<notin> fst ` set (without sid es)"
  by (auto simp: without_def)

lemma without_absent: "map_of es sid = None \<Longrightarrow> without sid es = es"
  by (force simp: without_def filter_id_conv map_of_eq_None_iff)

lemma get_ok:
  assumes ok: "cache_ok h"
  shows "cache_ok (h\<lparr>cache := fst (cache_Get (cache h) now sid)\<rparr>)"
proof (cases "map_of (entries (cache h)) sid")
  case None
  with ok show ?thesis by (simp add: cache_Get_def)
next
  case (Some e)
  have d: "distinct (map fst (entries (cache h)))" "distinct (map (\<lambda>x. e_key (snd x)) (entries (cache h)))"
    using ok by (simp_all add: cache_ok_def)
  show ?thesis
  proof (cases "now > expiresAt e")
    case True
    then show ?thesis
      using sweep_ok [OF ok] by (simp add: expired_get_is_forget [OF Some] forget_is_sweep [OF d(1)])
  next
    case False
    let ?e = "e\<lparr>expiresAt := now + ttl (cache h)\<rparr>"
    have "live ((sid, ?e) # without sid (entries (cache h))) = live (entries (cache h))"
      by (rule live_replace [OF d(1) Some]) simp
    moreover have "e_key e \<notin> live (without sid (entries (cache h)))" by (rule keys_without [OF d(2,1) Some])
    ultimately show ?thesis
      using ok False d distinct_without [OF d(1), of sid] distinct_without [OF d(2), of sid]
      by (simp add: cache_ok_def cache_Get_def Some) (simp add: live_def image_image)
  qed
qed

lemma put_ok:
  assumes ok: "cache_ok h" and fresh: "given h a = None"
  shows "cache_ok \<lparr>cache = Put ((cache h)\<lparr>heap := (heap (cache h))(a := k)\<rparr>) now sid a, given = (given h)(a \<mapsto> k)\<rparr>"
proof -
  let ?es = "entries (cache h)"
  have d: "distinct (map fst ?es)" "distinct (map (\<lambda>x. e_key (snd x)) ?es)" using ok by (simp_all add: cache_ok_def)
  have new: "a \<notin> live ?es" using ok fresh by (auto simp: cache_ok_def)
  have swept: "cache_ok (h\<lparr>cache := cache_Forget (cache h) sid\<rparr>)"
    using sweep_ok [OF ok] by (simp add: forget_is_sweep [OF d(1)])
  have forget: "entries (cache_Forget (cache h) sid) = without sid ?es"
    "heap (cache_Forget (cache h) sid) = (case map_of ?es sid of Some old \<Rightarrow> zero_at (e_key old) (heap (cache h)) | None \<Rightarrow> heap (cache h))"
    by (simp_all add: cache_Forget_def without_absent split: option.split)
  have sub: "live (without sid ?es) \<subseteq> live ?es" by (auto simp: live_def without_def)
  let ?new = "(sid, \<lparr>e_key = a, expiresAt = now + ttl (cache h)\<rparr>) # without sid ?es"
  have result: "Put ((cache h)\<lparr>heap := (heap (cache h))(a := k)\<rparr>) now sid a
      = (cache h)\<lparr>heap := (heap (cache_Forget (cache h) sid))(a := k), entries := ?new\<rparr>"
  proof (cases "map_of ?es sid")
    case None
    then show ?thesis by (simp add: Put_def forget)
  next
    case (Some old)
    then have "e_key old \<in> live ?es" using map_of_SomeD [OF Some] by (force simp: live_def)
    with new have "zero_at (e_key old) ((heap (cache h))(a := k)) = (zero_at (e_key old) (heap (cache h)))(a := k)"
      by (auto simp: zero_at_def)
    then show ?thesis by (simp add: Put_def forget Some)
  qed
  have keys: "live ?new = insert a (live (without sid ?es))" by (simp add: live_def)
  have fresh_key: "a \<notin> live (without sid ?es)" using new sub by blast
  have rows: "distinct (map fst ?new)" "distinct (map (\<lambda>x. e_key (snd x)) ?new)"
    using distinct_without [OF d(1), of sid] distinct_without [OF d(2), of sid] fresh_key
    by (simp_all add: live_def image_image)
  show ?thesis
    using swept rows by (auto simp: cache_ok_def result keys forget(1) simp del: list.map)
qed

interpretation key_cache: invariant_of cache_step cache_ok
proof
  fix s t
  assume "cache_step s t" and ok: "cache_ok s"
  then show "cache_ok t"
  proof (induction rule: cache_step.induct)
    case (forget h sid)
    then show ?case
      using sweep_ok [of h] forget_is_sweep [of "cache h" sid] by (simp add: cache_ok_def)
  qed (auto intro: put_ok get_ok simp: ForgetFunc_def EvictExpired_def cache_Close_def sweep_ok)
qed

text \<open>
  C21 (safety). Whatever sequence of unlocks, uses, logouts, revocations, evictions and shutdowns
  the cache goes through: a key in use is intact and belongs to one session, and every key that
  was ever handed over and is no longer in use has been overwritten with zeros.
\<close>

theorem no_key_outlives_its_entry:
  assumes "cache_step\<^sup>*\<^sup>* \<lparr>cache = newCache t mem, given = (\<lambda>_. None)\<rparr> h" and "given h a = Some k"
  shows "heap (cache h) a = (if a \<in> live (entries (cache h)) then k else Zero k)
    \<and> distinct (map (\<lambda>x. e_key (snd x)) (entries (cache h)))"
proof -
  have "cache_ok \<lparr>cache = newCache t mem, given = (\<lambda>_. None)\<rparr>"
    by (simp add: cache_ok_def newCache_def live_def)
  from key_cache.run_inv [OF assms(1) this] assms(2) show ?thesis by (simp add: cache_ok_def)
qed

theorem no_key_outlives_its_entry_witness:
  "heap (cache_Forget (Put (newCache 60 ((\<lambda>_. [])(5 := demo_key))) 0 ''s'' 5) ''s'') 5 = Zero demo_key"
proof -
  let ?h0 = "\<lparr>cache = newCache 60 (\<lambda>_. []), given = (\<lambda>_. None)\<rparr>"
  let ?h1 = "\<lparr>cache = Put ((cache ?h0)\<lparr>heap := (heap (cache ?h0))(5 := demo_key)\<rparr>) 0 ''s'' 5, given = (given ?h0)(5 \<mapsto> demo_key)\<rparr>"
  have "cache_step ?h0 ?h1" by (rule put) simp
  then have "cache_step\<^sup>*\<^sup>* ?h0 (?h1\<lparr>cache := cache_Forget (cache ?h1) ''s''\<rparr>)"
    using forget [of ?h1 "''s''"] by (meson r_into_rtranclp rtranclp_trans)
  from no_key_outlives_its_entry [OF this, of 5 demo_key] show ?thesis
    by (simp add: cache_Forget_def Put_def newCache_def live_def without_def)
qed

text \<open>
  A session that keeps using its key keeps it and one that is idle for longer
  than the lifetime loses it: after a use at one time, a use at a later time finds the same key
  if no more than the lifetime has passed, and otherwise finds the vault locked and the key gone
  from memory.
\<close>

theorem idle_key_expires:
  assumes "cache_Get c now sid = (c', Inr a)" and "0 \<le> ttl c"
  shows "cache_Get c' later sid =
     (if later \<le> now + ttl c then (fst (cache_Get c' later sid), Inr a)
      else (cache_Forget c' sid, Inl ErrLocked))
   \<and> heap (cache_Forget c' sid) a = Zero (heap c' a)"
proof -
  from assms(1) obtain e where e: "map_of (entries c) sid = Some e" "\<not> now > expiresAt e" "a = e_key e"
    and c': "c' = c\<lparr>entries := (sid, e\<lparr>expiresAt := now + ttl c\<rparr>) # without sid (entries c)\<rparr>"
    by (auto simp: cache_Get_def split: option.splits if_splits)
  have row: "map_of (entries c') sid = Some (e\<lparr>expiresAt := now + ttl c\<rparr>)" by (simp add: c')
  show ?thesis
    using e expired_get_is_forget [OF row, of later]
    by (auto simp: cache_Get_def [of c'] cache_Forget_def row zero_at_def)
qed

theorem idle_key_expires_witness:
  "snd (cache_Get (fst (cache_Get (Put (newCache 60 ((\<lambda>_. [])(5 := demo_key))) 0 ''s'' 5) 10 ''s'')) 71 ''s'') = Inl ErrLocked"
proof -
  let ?c = "Put (newCache 60 ((\<lambda>_. [])(5 := demo_key))) 0 ''s'' 5"
  have "cache_Get ?c 10 ''s'' = (fst (cache_Get ?c 10 ''s''), Inr 5)" "ttl ?c = 60"
    by (simp_all add: cache_Get_def Put_def newCache_def)
  from idle_key_expires [OF this(1), of 71] this(2) show ?thesis by simp
qed

end
