(* ===== verification/Ring_Buffer.thy ===== *)
theory Ring_Buffer
  imports Prelude
begin

section \<open>The replay buffer (\<^verbatim>\<open>ringBuffer\<close> in \<^verbatim>\<open>internal/terminal/session.go\<close>)\<close>

text \<open>
  A terminal keeps its recent output for a browser that comes back. The locale \<open>replay_buffer\<close> is
  what a terminal relies on: after any writes the buffer reads as the most recent part of all that
  was written. The ring is the implementation, an array overwritten in place.
\<close>

text \<open>The last \<open>n\<close> of a sequence, or all of it.\<close>

definition recent :: "nat \<Rightarrow> 'a list \<Rightarrow> 'a list" where
  "recent n xs = drop (length xs - n) xs"

lemma length_recent [simp]: "length (recent n xs) = min n (length xs)"
  by (simp add: recent_def)

lemma recent_Nil [simp]: "recent n [] = []"
  by (simp add: recent_def)

lemma recent_short: "length xs \<le> n \<Longrightarrow> recent n xs = xs"
  by (simp add: recent_def)

lemma recent_recent_append: "recent n (recent n xs @ ys) = recent n (xs @ ys)"
  by (cases "length xs \<le> n") (auto simp: recent_def drop_append add.commute)

lemma recent_append_long: "n \<le> length ys \<Longrightarrow> recent n (xs @ ys) = recent n ys"
  by (simp add: recent_def drop_append)

locale replay_buffer =
  fixes capacity :: "'b \<Rightarrow> nat" and wr :: "'b \<Rightarrow> 'a list \<Rightarrow> 'b" and contents :: "'b \<Rightarrow> 'a list"
    and well_formed :: "'b \<Rightarrow> bool"
  assumes write_ok: "well_formed r \<Longrightarrow> well_formed (wr r p) \<and> capacity (wr r p) = capacity r"
    and write_contents: "well_formed r \<Longrightarrow> contents (wr r p) = recent (capacity r) (contents r @ p)"
begin

lemma writes_ok: "well_formed r \<Longrightarrow> well_formed (foldl wr r ps) \<and> capacity (foldl wr r ps) = capacity r"
  by (induction ps arbitrary: r) (auto simp: write_ok)

lemma writes_contents:
  assumes "well_formed r" and "length (contents r) \<le> capacity r"
  shows "contents (foldl wr r ps) = recent (capacity r) (contents r @ concat ps)"
  using assms
proof (induction ps arbitrary: r)
  case Nil
  then show ?case by (simp add: recent_short)
next
  case (Cons p ps)
  have "length (contents (wr r p)) \<le> capacity r" using Cons.prems by (simp add: write_contents)
  then show ?case
    using Cons write_ok [of r p] write_contents [of r p]
    by (simp add: recent_recent_append)
qed

end

subsection \<open>The ring\<close>

record ringBuffer =
  rbuf :: "byte list"
  rb_size :: nat
  rb_start :: nat
  rb_length :: nat

definition newRingBuffer :: "nat \<Rightarrow> ringBuffer" where
  "newRingBuffer n = \<lparr>rbuf = replicate n 0, rb_size = n, rb_start = 0, rb_length = 0\<rparr>"

text \<open>Go's \<^verbatim>\<open>copy\<close>.\<close>

definition copy_into :: "'a list \<Rightarrow> 'a list \<Rightarrow> 'a list" where
  "copy_into dst src = take (length dst) src @ drop (length src) dst"

definition ring_byte :: "ringBuffer \<Rightarrow> byte \<Rightarrow> ringBuffer" where
  "ring_byte r b =
     (let i = (rb_start r + rb_length r) mod rb_size r; r' = r\<lparr>rbuf := (rbuf r)[i := b]\<rparr>
      in if rb_length r < rb_size r then r'\<lparr>rb_length := rb_length r + 1\<rparr>
         else r'\<lparr>rb_start := (rb_start r + 1) mod rb_size r\<rparr>)"

definition ring_Write :: "ringBuffer \<Rightarrow> byte list \<Rightarrow> ringBuffer" where
  "ring_Write r p =
     (if length p \<ge> rb_size r
      then r\<lparr>rbuf := copy_into (rbuf r) (drop (length p - rb_size r) p), rb_start := 0, rb_length := rb_size r\<rparr>
      else foldl ring_byte r p)"

definition ring_Bytes :: "ringBuffer \<Rightarrow> byte list" where
  "ring_Bytes r = map (\<lambda>i. rbuf r ! ((rb_start r + i) mod rb_size r)) [0..<rb_length r]"

definition ring_ok :: "ringBuffer \<Rightarrow> bool" where
  "ring_ok r \<longleftrightarrow> length (rbuf r) = rb_size r \<and> rb_length r \<le> rb_size r \<and> (rb_start r < rb_size r \<or> rb_size r = 0)"

lemma new_ring [simp]:
  "ring_ok (newRingBuffer n)" "ring_Bytes (newRingBuffer n) = []" "rb_size (newRingBuffer n) = n"
  by (auto simp: ring_ok_def newRingBuffer_def ring_Bytes_def)

lemma mod_offset_inj:
  fixes n :: nat
  assumes "i < n" and "j < n" and "(s + i) mod n = (s + j) mod n"
  shows "i = j"
proof -
  have "i = j" if "i \<le> j" "j < n" "(s + j) mod n = (s + i) mod n" for i j
  proof -
    have "n dvd (s + j) - (s + i)" using that by (subst (asm) mod_eq_dvd_iff_nat) auto
    then have "n dvd j - i" by simp
    then show ?thesis using that(1,2) by (auto dest: dvd_imp_le)
  qed
  from this [of i j] this [of j i] assms show ?thesis by (cases "i \<le> j") auto
qed

lemma ring_byte_ok:
  assumes "ring_ok r" and "0 < rb_size r"
  shows "ring_ok (ring_byte r b)" and "rb_size (ring_byte r b) = rb_size r"
  using assms by (auto simp: ring_ok_def ring_byte_def Let_def)

lemma ring_byte_contents:
  assumes ok: "ring_ok r" and pos: "0 < rb_size r"
  shows "ring_Bytes (ring_byte r b) = recent (rb_size r) (ring_Bytes r @ [b])"
proof (cases "rb_length r < rb_size r")
  case True
  have "(rbuf r)[(rb_start r + rb_length r) mod rb_size r := b] ! ((rb_start r + i) mod rb_size r)
      = rbuf r ! ((rb_start r + i) mod rb_size r)" if "i < rb_length r" for i
    using mod_offset_inj [of i "rb_size r" "rb_length r" "rb_start r"] that True by (metis less_trans nat_neq_iff nth_list_update_neq)
  with True ok pos show ?thesis
    by (simp add: ring_Bytes_def ring_byte_def Let_def recent_short ring_ok_def)
next
  case False
  let ?n = "rb_size r" and ?s = "rb_start r"
  have full: "rb_length r = ?n" "?s < ?n" "length (rbuf r) = ?n" using False ok pos by (auto simp: ring_ok_def)
  have at: "ring_Bytes (ring_byte r b) ! i = (ring_Bytes r @ [b]) ! Suc i" if i: "i < ?n" for i
  proof (cases "Suc i < ?n")
    case True
    then have "(?s + Suc i) mod ?n \<noteq> (?s + 0) mod ?n"
      using mod_offset_inj [of "Suc i" ?n 0 ?s] pos by auto
    with True full show ?thesis
      by (simp add: ring_Bytes_def ring_byte_def Let_def nth_append mod_simps)
  next
    case False
    with i have "Suc i = ?n" by simp
    then have "(Suc ?s mod ?n + i) mod ?n = ?s"
      using full by (metis add_Suc_shift mod_add_left_eq mod_add_self2 mod_less)
    with full False i show ?thesis
      by (simp add: ring_Bytes_def ring_byte_def Let_def nth_append)
  qed
  have "length (ring_Bytes (ring_byte r b)) = ?n" "length (ring_Bytes r) = ?n"
    using full by (simp_all add: ring_Bytes_def ring_byte_def Let_def)
  then show ?thesis using at by (intro nth_equalityI) (auto simp: recent_def simp del: drop_append)
qed

lemma ring_bytes_fold:
  assumes "ring_ok r" and "0 < rb_size r"
  shows "ring_ok (foldl ring_byte r p) \<and> rb_size (foldl ring_byte r p) = rb_size r
    \<and> ring_Bytes (foldl ring_byte r p) = recent (rb_size r) (ring_Bytes r @ p)"
  using assms
proof (induction p arbitrary: r)
  case Nil
  then show ?case by (auto simp: recent_short ring_Bytes_def ring_ok_def)
next
  case (Cons b p)
  then show ?case
    using ring_byte_ok [of r b] ring_byte_contents [of r b] by (simp add: recent_recent_append)
qed

lemma ring_Write_long:
  assumes "ring_ok r" and "rb_size r \<le> length p"
  shows "ring_Bytes (ring_Write r p) = recent (rb_size r) p"
proof -
  have "map (\<lambda>i. xs ! (i mod n)) [0..<n] = xs" if "length xs = n" for xs :: "byte list" and n
    using that by (intro nth_equalityI) auto
  from this [of "drop (length p - rb_size r) p"] assms show ?thesis
    by (simp add: ring_Write_def ring_Bytes_def copy_into_def recent_def ring_ok_def)
qed

interpretation ring: replay_buffer rb_size ring_Write ring_Bytes ring_ok
proof
  fix r p
  assume ok: "ring_ok r"
  show "ring_ok (ring_Write r p) \<and> rb_size (ring_Write r p) = rb_size r"
  proof (cases "rb_size r \<le> length p")
    case True
    with ok show ?thesis by (auto simp: ring_Write_def ring_ok_def copy_into_def)
  next
    case False
    with ring_bytes_fold [OF ok] show ?thesis by (simp add: ring_Write_def)
  qed
  show "ring_Bytes (ring_Write r p) = recent (rb_size r) (ring_Bytes r @ p)"
  proof (cases "rb_size r \<le> length p")
    case True
    with ok show ?thesis by (simp add: ring_Write_long recent_append_long)
  next
    case False
    with ring_bytes_fold [OF ok] show ?thesis by (simp add: ring_Write_def)
  qed
qed

end
