(* ===== verification/Transcript.thy ===== *)
theory Transcript
  imports Go_Time
begin

section \<open>Session transcripts (\<^verbatim>\<open>internal/terminal/transcript.go\<close>)\<close>

text \<open>
  A transcript is a file to which a session's output is appended up to a cap. The record carries
  the file's contents, whether it is still open, and the counters of the code. The file system is
  the list of files under the log directory, each in the directory of a user. An append can fail
  after some bytes: \<open>fault\<close> is how many, \<open>None\<close> when it does not fail. The code ignores errors
  of the two closing notes, and the model has them written. Times are \<^verbatim>\<open>Go_Time\<close> instants.
\<close>

definition MaxTranscriptBytes :: nat where "MaxTranscriptBytes = 64 * 2 ^ 20"
definition transcriptFileMode :: nat where "transcriptFileMode = 384"

record Transcript =
  tpath :: "string \<times> string"
  tdata :: "byte list"
  t_open :: bool
  t_written :: nat
  t_full :: bool
  t_failed :: bool

record TranscriptConfig =
  Dir :: string
  tc_UserID :: string
  tc_Label :: string
  Forced :: bool

record log_file =
  lf_dir :: string
  lf_name :: string
  lf_mode :: nat
  lf_is_dir :: bool
  lf_size :: nat
  lf_modified :: int

datatype transcript_error = NoLogDirectory | TranscriptOpenFailed | TranscriptNotExist

subsection \<open>Names\<close>

definition safe_char :: "char \<Rightarrow> bool" where
  "safe_char c \<longleftrightarrow> in_range 97 122 c \<or> in_range 65 90 c \<or> in_range 48 57 c \<or> c = CHR ''-'' \<or> c = CHR ''_''"

function safe_runes :: "string \<Rightarrow> string" where
  "safe_runes [] = []"
| "safe_runes (c # s) = (if safe_char c then c else CHR ''_'') # safe_runes (drop (rune_width (c # s)) (c # s))"
  by pat_completeness auto
termination by (relation "measure length") (auto simp: Suc_le_eq)

definition safeName :: "string \<Rightarrow> string" where
  "safeName s = (if s = '''' then ''unnamed'' else take 64 (safe_runes s))"

subsection \<open>Writing\<close>

definition truncated_note :: string where
  "truncated_note = [CHR 0x0A, CHR 0x0A] @ ''# transcript truncated at 67108864 bytes; the session continued'' @ [CHR 0x0A]"

definition ended_note :: "int \<Rightarrow> string" where
  "ended_note now = [CHR 0x0A, CHR 0x0A] @ ''# session ended '' @ rfc3339 now @ [CHR 0x0A]"

definition recordingReason :: "bool \<Rightarrow> string" where
  "recordingReason forced =
     (if forced then ''required by this server'' @ [CHR 0x27] @ ''s policy (record_all_sessions)''
      else ''enabled on this connection'')"

definition header_text :: "TranscriptConfig \<Rightarrow> int \<Rightarrow> string" where
  "header_text cfg now =
     ''# bkd session transcript'' @ [CHR 0x0A]
     @ ''# connection: '' @ tc_Label cfg @ [CHR 0x0A]
     @ ''# started:    '' @ rfc3339 now @ [CHR 0x0A]
     @ ''# recording:  '' @ recordingReason (Forced cfg) @ [CHR 0x0A]
     @ ''# contents:   output only '' @ [CHR 0xE2, CHR 0x80, CHR 0x94]
     @ '' keystrokes are not recorded, so a password typed at a prompt that does not echo is not here''
     @ [CHR 0x0A, CHR 0x0A]"

definition markFull :: "Transcript \<Rightarrow> Transcript" where
  "markFull t =
     (if t_full t \<or> \<not> t_open t then t
      else t\<lparr>t_full := True, tdata := tdata t @ bytes_of truncated_note, t_open := False\<rparr>)"

definition transcript_write :: "nat option \<Rightarrow> Transcript \<Rightarrow> byte list \<Rightarrow> Transcript" where
  "transcript_write fault t b =
     (if \<not> t_open t \<or> t_full t \<or> t_failed t then t
      else if MaxTranscriptBytes \<le> t_written t then markFull t
      else let chunk = take (MaxTranscriptBytes - t_written t) b;
               n = (case fault of None \<Rightarrow> length chunk | Some k \<Rightarrow> min k (length chunk));
               t1 = t\<lparr>tdata := tdata t @ take n chunk, t_written := t_written t + n\<rparr>
           in if fault \<noteq> None then t1\<lparr>t_failed := True, t_open := False\<rparr>
              else if MaxTranscriptBytes \<le> t_written t1 then markFull t1 else t1)"

definition transcript_Close :: "Transcript \<Rightarrow> int \<Rightarrow> Transcript" where
  "transcript_Close t now =
     (if \<not> t_open t then t else t\<lparr>tdata := tdata t @ bytes_of (ended_note now), t_open := False\<rparr>)"

definition transcript_Bytes :: "Transcript \<Rightarrow> nat" where
  "transcript_Bytes t = t_written t"

definition Truncated :: "Transcript \<Rightarrow> bool" where
  "Truncated t = t_full t"

text \<open>The file the transcript is opened as: a name that is free, or a name with the process id, or none.\<close>

definition free_name :: "log_file list \<Rightarrow> string \<Rightarrow> string \<Rightarrow> bool" where
  "free_name fs d n \<longleftrightarrow> (\<forall>f \<in> set fs. (lf_dir f, lf_name f) \<noteq> (d, n))"

definition plain_name :: "TranscriptConfig \<Rightarrow> int \<Rightarrow> string" where
  "plain_name cfg now = stamp now @ ''-'' @ safeName (tc_Label cfg) @ ''.log''"

definition fallback_name :: "nat \<Rightarrow> TranscriptConfig \<Rightarrow> int \<Rightarrow> string" where
  "fallback_name pid cfg now = stamp now @ ''-'' @ safeName (tc_Label cfg) @ ''-'' @ decimal_of pid @ ''.log''"

definition NewTranscript ::
  "nat \<Rightarrow> nat option \<Rightarrow> log_file list \<Rightarrow> TranscriptConfig \<Rightarrow> int \<Rightarrow> (transcript_error, log_file list \<times> Transcript) result" where
  "NewTranscript pid fault fs cfg now =
     bindr (check (Dir cfg \<noteq> '''') NoLogDirectory) (\<lambda>_.
     let d = safeName (tc_UserID cfg);
         name1 = plain_name cfg now; name2 = fallback_name pid cfg now
     in bindr (if free_name fs d name1 then Inr name1
               else if free_name fs d name2 then Inr name2 else Inl TranscriptOpenFailed) (\<lambda>name.
        Inr (fs @ [\<lparr>lf_dir = d, lf_name = name, lf_mode = transcriptFileMode, lf_is_dir = False,
                     lf_size = 0, lf_modified = now\<rparr>],
             transcript_write fault
               \<lparr>tpath = (d, name), tdata = [], t_open = True, t_written = 0, t_full = False, t_failed = False\<rparr>
               (bytes_of (header_text cfg now)))))"

subsection \<open>The slot a recording occupies, and the shell that fills it\<close>

type_synonym TranscriptHolder = "Transcript option"

definition NewTranscriptHolder :: "Transcript option \<Rightarrow> TranscriptHolder" where
  "NewTranscriptHolder t = t"

definition Swap :: "TranscriptHolder \<Rightarrow> Transcript option \<Rightarrow> TranscriptHolder \<times> Transcript option" where
  "Swap h t = (t, h)"

text \<open>What a read of the recording shell adds to the slot, and what its close does to it.\<close>

definition recording_Read :: "nat option \<Rightarrow> TranscriptHolder \<Rightarrow> byte list \<Rightarrow> TranscriptHolder" where
  "recording_Read fault h p =
     (if p = [] then h else case h of None \<Rightarrow> None | Some t \<Rightarrow> Some (transcript_write fault t p))"

definition recording_Close :: "TranscriptHolder \<Rightarrow> int \<Rightarrow> TranscriptHolder" where
  "recording_Close h now = map_option (\<lambda>t. transcript_Close t now) h"

subsection \<open>Listing\<close>

record TranscriptInfo =
  ti_Name :: string
  ti_Size :: nat
  ti_Modified :: int

definition ListTranscripts :: "log_file list \<Rightarrow> string \<Rightarrow> string \<Rightarrow> TranscriptInfo list" where
  "ListTranscripts fs dir user =
     (if dir = '''' then []
      else sort_key (\<lambda>i. - ti_Modified i)
             (map (\<lambda>f. \<lparr>ti_Name = lf_name f, ti_Size = lf_size f, ti_Modified = lf_modified f\<rparr>)
                (filter (\<lambda>f. lf_dir f = safeName user \<and> \<not> lf_is_dir f \<and> has_suffix (lf_name f) ''.log'') fs)))"

definition ListAllTranscripts :: "log_file list \<Rightarrow> string \<Rightarrow> (string \<times> TranscriptInfo) list" where
  "ListAllTranscripts fs dir =
     (if dir = '''' then []
      else sort_key (\<lambda>i. - ti_Modified (snd i))
             (concat (map (\<lambda>u. map (Pair u) (ListTranscripts fs dir u)) (remdups (map lf_dir fs)))))"

text \<open>A name with a slash or a name of dots never matches a file of the list, as the scoped root refuses it.\<close>

definition OpenTranscriptFile :: "log_file list \<Rightarrow> string \<Rightarrow> string \<Rightarrow> string \<Rightarrow> (transcript_error, log_file) result" where
  "OpenTranscriptFile fs dir user name =
     (if dir = '''' then Inl TranscriptNotExist
      else case find (\<lambda>f. lf_dir f = safeName user \<and> lf_name f = name) fs of
        None \<Rightarrow> Inl TranscriptNotExist
      | Some f \<Rightarrow> Inr f)"

subsection \<open>What a transcript holds\<close>

text \<open>Open: everything so far. Full: the first bytes and the note. Failed: some first bytes.\<close>

definition records :: "Transcript \<Rightarrow> byte list \<Rightarrow> bool" where
  "records t s \<longleftrightarrow>
     (if t_open t
      then \<not> t_full t \<and> \<not> t_failed t \<and> tdata t = s \<and> t_written t = length s \<and> length s < MaxTranscriptBytes
      else if t_failed t then \<not> t_full t \<and> (\<exists>k \<le> MaxTranscriptBytes. tdata t = take k s)
      else t_full t \<and> MaxTranscriptBytes \<le> length s
           \<and> tdata t = take MaxTranscriptBytes s @ bytes_of truncated_note)"

lemma records_write:
  assumes "records t s"
  shows "records (transcript_write fault t b) (s @ b)"
proof (cases "t_open t")
  case False
  then have "transcript_write fault t b = t" by (simp add: transcript_write_def)
  moreover have "\<exists>k' \<le> MaxTranscriptBytes. take k s = take k' (s @ b)" if "k \<le> MaxTranscriptBytes" for k
    using that by (intro exI [of _ "min k (length s)"]) (auto simp: min_def)
  ultimately show ?thesis using assms False by (auto simp: records_def)
next
  case True
  with assms have t: "\<not> t_full t" "\<not> t_failed t" "tdata t = s" "t_written t = length s" "length s < MaxTranscriptBytes"
    by (simp_all add: records_def)
  show ?thesis
  proof (cases fault)
    case None
    then show ?thesis using t True
      by (auto simp: transcript_write_def records_def markFull_def Let_def)
  next
    case (Some n)
    let ?m = "min n (length (take (MaxTranscriptBytes - length s) b))"
    have "s @ take ?m (take (MaxTranscriptBytes - length s) b) = take (length s + ?m) (s @ b)" by simp
    moreover have "length s + ?m \<le> MaxTranscriptBytes" using t(5) by auto
    ultimately show ?thesis using t True Some
      by (auto simp: transcript_write_def records_def Let_def intro: exI [of _ "length s + ?m"])
  qed
qed

lemma records_writes:
  assumes "records t s"
  shows "records (foldl (\<lambda>t (fault, b). transcript_write fault t b) t es) (s @ concat (map snd es))"
  using assms records_write by (induction es arbitrary: t s) (force simp: case_prod_beta)+

lemma write_not_failed: "\<not> t_failed t \<Longrightarrow> \<not> t_failed (transcript_write None t b)"
  by (simp add: transcript_write_def markFull_def Let_def)

lemma writes_not_failed:
  "\<not> t_failed t \<Longrightarrow> \<forall>e \<in> set es. fst e = None \<Longrightarrow>
     \<not> t_failed (foldl (\<lambda>t (fault, b). transcript_write fault t b) t es)"
  using write_not_failed by (induction es arbitrary: t) (auto simp: case_prod_beta)

lemma new_transcript_records:
  assumes "NewTranscript pid fault fs cfg now = Inr (fs', t)"
  shows "records t (bytes_of (header_text cfg now))" and "fault = None \<Longrightarrow> \<not> t_failed t"
proof -
  from assms obtain p where t: "t = transcript_write fault
      \<lparr>tpath = p, tdata = [], t_open = True, t_written = 0, t_full = False, t_failed = False\<rparr> (bytes_of (header_text cfg now))"
    by (auto simp: NewTranscript_def bindr_Inr_iff Let_def split: if_splits)
  let ?t = "\<lparr>tpath = p, tdata = [], t_open = True, t_written = 0, t_full = False, t_failed = False\<rparr>"
  have "records ?t []" by (simp add: records_def MaxTranscriptBytes_def)
  from records_write [OF this] t show "records t (bytes_of (header_text cfg now))" by simp
  show "fault = None \<Longrightarrow> \<not> t_failed t" unfolding t by (simp add: write_not_failed)
qed

text \<open>
  C28 (bounds). A transcript that was opened and closed holds, of the header and the session's
  output in the order it was printed, an initial part of at most \<^verbatim>\<open>MaxTranscriptBytes\<close> bytes,
  followed by nothing but one note. When the disk took every write, nothing is missing before the
  cap, and the note says whether the cap or the end of the session was reached.
\<close>

theorem transcript_is_capped_prefix:
  assumes "NewTranscript pid fault fs cfg now = Inr (fs', t)"
  shows "let s = bytes_of (header_text cfg now) @ concat (map snd es);
             t' = transcript_Close (foldl (\<lambda>t (fault, b). transcript_write fault t b) t es) end_time
         in (\<exists>k \<le> MaxTranscriptBytes. \<exists>note \<in> {[], bytes_of truncated_note, bytes_of (ended_note end_time)}.
               tdata t' = take k s @ note)
          \<and> (fault = None \<and> (\<forall>e \<in> set es. fst e = None) \<longrightarrow>
               tdata t' = take MaxTranscriptBytes s
                 @ (if MaxTranscriptBytes \<le> length s then bytes_of truncated_note else bytes_of (ended_note end_time)))"
proof -
  let ?s = "bytes_of (header_text cfg now) @ concat (map snd es)"
  let ?t = "foldl (\<lambda>t (fault, b). transcript_write fault t b) t es"
  have r: "records ?t ?s" by (rule records_writes [OF new_transcript_records(1) [OF assms]])
  have ok: "fault = None \<and> (\<forall>e \<in> set es. fst e = None) \<longrightarrow> \<not> t_failed ?t"
    using writes_not_failed new_transcript_records(2) [OF assms] by blast
  show ?thesis
  proof (cases "t_open ?t")
    case True
    with r have all: "tdata ?t = ?s" "length ?s < MaxTranscriptBytes" by (simp_all add: records_def)
    then have cut: "take MaxTranscriptBytes ?s = ?s" by (intro take_all) simp
    have whole: "tdata (transcript_Close ?t end_time) = take MaxTranscriptBytes ?s @ bytes_of (ended_note end_time)"
      unfolding cut using True all by (simp add: transcript_Close_def)
    show ?thesis unfolding Let_def whole using all(2) by (auto simp del: take_append)
  next
    case False
    then have "transcript_Close ?t end_time = ?t" by (simp add: transcript_Close_def)
    with r ok False show ?thesis by (cases "t_failed ?t") (auto simp: records_def Let_def)
  qed
qed

definition demo_cfg :: TranscriptConfig where
  "demo_cfg = \<lparr>Dir = ''logs'', tc_UserID = ''u/1'', tc_Label = ''core sw'', Forced = True\<rparr>"

theorem transcript_is_capped_prefix_witness:
  "\<exists>fs' t. NewTranscript 7 None [] demo_cfg 0 = Inr (fs', t)
     \<and> tdata (transcript_Close (transcript_write None t [104, 105]) 0)
       = take MaxTranscriptBytes (bytes_of (header_text demo_cfg 0) @ [104, 105])
         @ bytes_of (ended_note 0)"
proof -
  have "is_ok (NewTranscript 7 None [] demo_cfg 0)"
    by (simp add: NewTranscript_def demo_cfg_def Let_def free_name_def check_def)
  then obtain fs' t where n: "NewTranscript 7 None [] demo_cfg 0 = Inr (fs', t)" by (auto simp: is_ok_iff)
  have "length (header_text demo_cfg 0) + 2 < MaxTranscriptBytes"
    by (simp add: header_text_def demo_cfg_def rfc3339_def rfc3339_base_def recordingReason_def MaxTranscriptBytes_def
        case_prod_beta)
  with transcript_is_capped_prefix [OF n, of "[(None, [104, 105])]" 0] n show ?thesis by (auto simp: Let_def)
qed

lemma safe_runes_ne: "safe_runes s = [] \<longleftrightarrow> s = []"
  by (cases s) auto

lemma safe_runes_safe: "c \<in> set (safe_runes s) \<Longrightarrow> safe_char c"
proof (induction s rule: safe_runes.induct)
  case (2 d s)
  then show ?case by (auto simp: safe_char_def split: if_splits)
qed simp

text \<open>
  Whatever a connection or a user is called, the name that reaches the file system
  is one path component of 1 to 64 characters out of letters, digits, hyphen and underscore, so
  no separator and no dot.
\<close>

theorem safe_name_is_one_component:
  "safeName s \<noteq> '''' \<and> length (safeName s) \<le> 64 \<and> (\<forall>c \<in> set (safeName s). safe_char c)
   \<and> CHR ''/'' \<notin> set (safeName s) \<and> CHR ''.'' \<notin> set (safeName s)"
proof -
  have safe: "\<forall>c \<in> set (safeName s). safe_char c"
    using safe_runes_safe by (auto simp: safeName_def safe_char_def in_range_def dest: in_set_takeD)
  then have "CHR ''/'' \<notin> set (safeName s)" "CHR ''.'' \<notin> set (safeName s)"
    by (auto simp: safe_char_def in_range_def)
  with safe show ?thesis by (auto simp: safeName_def safe_runes_ne)
qed

theorem safe_name_is_one_component_witness:
  "safeName ''../../etc/passwd'' = ''______etc_passwd'' \<and> CHR ''/'' \<notin> set (safeName ''../../etc/passwd'')
   \<and> safe_char (safeName ''../../etc/passwd'' ! 0)"
proof -
  have "safeName ''../../etc/passwd'' = ''______etc_passwd''" by code_simp
  with safe_name_is_one_component [of "''../../etc/passwd''"] show ?thesis by (simp del: safe_char_def)
qed

lemma new_transcript_takes_name:
  assumes "NewTranscript pid fault fs cfg now = Inr (fs', t)"
  shows "\<exists>f. fs' = fs @ [f] \<and> lf_dir f = safeName (tc_UserID cfg)
    \<and> lf_name f = (if free_name fs (safeName (tc_UserID cfg)) (plain_name cfg now) then plain_name cfg now else fallback_name pid cfg now)
    \<and> Dir cfg \<noteq> ''''"
  using assms
  by (auto simp: NewTranscript_def bindr_Inr_iff Let_def split: if_splits)

lemma new_transcript_refused:
  assumes "Dir cfg \<noteq> ''''" and "\<not> free_name fs (safeName (tc_UserID cfg)) (plain_name cfg now)"
    and "\<not> free_name fs (safeName (tc_UserID cfg)) (fallback_name pid cfg now)"
  shows "NewTranscript pid fault fs cfg now = Inl TranscriptOpenFailed"
  using assms by (simp add: NewTranscript_def check_def Let_def)

lemma free_name_append:
  "free_name (fs @ [f]) d n \<longleftrightarrow> free_name fs d n \<and> (lf_dir f, lf_name f) \<noteq> (d, n)"
  by (auto simp: free_name_def)

text \<open>
  The fallback name is not unique: it carries the process id, which all sessions of a
  server share. Of three recordings of one connection by one user that start within one second the
  third is refused.
\<close>

theorem third_transcript_in_a_second_refused:
  assumes "NewTranscript pid f1 fs cfg t1 = Inr (fs1, x1)" and "NewTranscript pid f2 fs1 cfg t2 = Inr (fs2, x2)"
    and "unix_seconds t1 = unix_seconds t2" and "unix_seconds t2 = unix_seconds t3"
  shows "NewTranscript pid f3 fs2 cfg t3 = Inl TranscriptOpenFailed"
proof -
  have "stamp t1 = stamp t3" "stamp t2 = stamp t3" by (rule stamp_same_second, use assms(3,4) in simp)+
  then have names: "plain_name cfg t1 = plain_name cfg t3" "plain_name cfg t2 = plain_name cfg t3"
    "fallback_name pid cfg t2 = fallback_name pid cfg t3"
    by (simp_all add: plain_name_def fallback_name_def)
  let ?d = "safeName (tc_UserID cfg)"
  obtain f1' where f1: "fs1 = fs @ [f1']" "lf_dir f1' = ?d"
    "lf_name f1' = (if free_name fs ?d (plain_name cfg t1) then plain_name cfg t1 else fallback_name pid cfg t1)"
    "Dir cfg \<noteq> ''''" using new_transcript_takes_name [OF assms(1)] by blast
  obtain f2' where f2: "fs2 = fs1 @ [f2']" "lf_dir f2' = ?d"
    "lf_name f2' = (if free_name fs1 ?d (plain_name cfg t2) then plain_name cfg t2 else fallback_name pid cfg t2)"
    using new_transcript_takes_name [OF assms(2)] by blast
  have taken: "\<not> free_name fs1 ?d (plain_name cfg t3)"
    using f1 names by (simp add: free_name_append)
  then have "\<not> free_name fs2 ?d (plain_name cfg t3)" "\<not> free_name fs2 ?d (fallback_name pid cfg t3)"
    using f2 names by (simp_all add: free_name_append)
  then show ?thesis by (rule new_transcript_refused [OF f1(4)])
qed

theorem third_transcript_in_a_second_refused_witness:
  "\<exists>fs2 x2. NewTranscript 7 None (fst (projr (NewTranscript 7 None [] demo_cfg 5))) demo_cfg 6 = Inr (fs2, x2)
     \<and> NewTranscript 7 None fs2 demo_cfg 7 = Inl TranscriptOpenFailed"
proof -
  have "is_ok (NewTranscript 7 None [] demo_cfg 5)"
    by (simp add: NewTranscript_def demo_cfg_def Let_def free_name_def check_def)
  then obtain fs1 x1 where one: "NewTranscript 7 None [] demo_cfg 5 = Inr (fs1, x1)" by (auto simp: is_ok_iff)
  from new_transcript_takes_name [OF one] obtain f where f: "fs1 = [f]" "lf_name f = plain_name demo_cfg 5"
    by (auto simp: free_name_def)
  have "stamp 5 = stamp 6" by (rule stamp_same_second) (simp add: unix_seconds_def)
  then have "plain_name demo_cfg 5 \<noteq> fallback_name 7 demo_cfg 6"
    by (simp add: plain_name_def fallback_name_def)
  then have "is_ok (NewTranscript 7 None fs1 demo_cfg 6)"
    using f by (simp add: NewTranscript_def demo_cfg_def Let_def free_name_def check_def)
  then obtain fs2 x2 where two: "NewTranscript 7 None fs1 demo_cfg 6 = Inr (fs2, x2)" by (auto simp: is_ok_iff)
  from third_transcript_in_a_second_refused [OF one two, of 7 None] one two show ?thesis
    by (simp add: unix_seconds_def)
qed

end
