(* ===== verification/Terminal.thy ===== *)
theory Terminal
  imports Session_Tree Ring_Buffer Transcript
begin

section \<open>Terminals (\<^verbatim>\<open>Terminal\<close> in \<^verbatim>\<open>internal/terminal/session.go\<close>)\<close>

text \<open>
  A terminal outlives the browsers that attach to it. Each attachment is a Go channel of at most
  256 frames; sending on a closed channel and closing one twice are panics, so the operations that
  touch channels return \<open>None\<close> for a panic and the theorems show that they never do. The shell
  beneath is a type parameter; its \<^verbatim>\<open>Write\<close>, \<^verbatim>\<open>Resize\<close> and \<^verbatim>\<open>Close\<close> are
  arguments, as the interface value is in the code. The mutex makes each operation one step;
  \<^verbatim>\<open>close\<close> closes the shell and releases after the lock, which is part of its step here because
  only the call that set \<^verbatim>\<open>closed\<close> goes on to them. The slot for the recording is the one the
  recording shell writes to, so \<open>pump_read\<close> and \<open>close_terminal\<close> pass through it. Fields that
  are only displayed are kept; the logger is not.
\<close>

datatype terminal_error =
    ErrTerminalNotFound
  | ErrNotOwner
  | ErrTerminalClosed
  | ShellWriteFailed
  | ShellResizeFailed
  | CannotRecord
  | AlreadyRecording
  | RecordingRequired

text \<open>Why a terminal ended: on purpose, or by an error of its shell.\<close>

datatype cause = Deliberate string | Fault string

definition ReplayBytes :: nat where "ReplayBytes = 256 * 1024"
definition DetachedGrace :: int where "DetachedGrace = 15 * minute"
definition frame_capacity :: nat where "frame_capacity = 256"

record Transport =
  tr_Protocol :: string
  tr_Host :: string
  tr_Port :: int
  tr_Device :: string
  tr_Detail :: string

definition Encrypted :: "Transport \<Rightarrow> bool" where
  "Encrypted t \<longleftrightarrow> tr_Protocol t = ProtocolSSH"

subsection \<open>Channels\<close>

record channel =
  frames :: "byte list list"
  ch_closed :: bool

definition fresh_channel :: channel where
  "fresh_channel = \<lparr>frames = [], ch_closed = False\<rparr>"

definition chan_close :: "nat \<Rightarrow> channel list \<Rightarrow> channel list option" where
  "chan_close i chs =
     (if i < length chs \<and> \<not> ch_closed (chs ! i) then Some (chs[i := (chs ! i)\<lparr>ch_closed := True\<rparr>]) else None)"

text \<open>A send in a \<^verbatim>\<open>select\<close> with a default: dropped when the buffer is full.\<close>

definition chan_try_send :: "nat \<Rightarrow> byte list \<Rightarrow> channel list \<Rightarrow> channel list option" where
  "chan_try_send i p chs =
     (if i < length chs \<and> \<not> ch_closed (chs ! i)
      then Some (if length (frames (chs ! i)) < frame_capacity
                 then chs[i := (chs ! i)\<lparr>frames := frames (chs ! i) @ [p]\<rparr>] else chs)
      else None)"

datatype received = Frame "byte list" | NothingYet | EndOfOutput

definition chan_recv :: "nat \<Rightarrow> channel list \<Rightarrow> channel list \<times> received" where
  "chan_recv i chs =
     (case frames (chs ! i) of
        p # ps \<Rightarrow> (chs[i := (chs ! i)\<lparr>frames := ps\<rparr>], Frame p)
      | [] \<Rightarrow> (chs, if ch_closed (chs ! i) then EndOfOutput else NothingYet))"

subsection \<open>The terminal\<close>

record 's Terminal =
  tm_ID :: string
  tm_UserID :: string
  tm_SessionID :: string
  tm_Label :: string
  tm_Transport :: Transport
  tm_Username :: string
  tm_CreatedAt :: int
  tm_AgentKeys :: "string list"
  tm_AgentRefused :: bool
  tm_LogonSteps :: nat
  Recorded :: bool
  RecordForced :: bool
  tm_Triggers :: nat
  tm_Highlights :: "Highlight list"
  recording :: "TranscriptHolder option"
  tm_shell :: 's
  shell_closes :: nat
  releases :: nat
  replay :: ringBuffer
  channels :: "channel list"
  attached :: "nat option"
  tm_cols :: int
  tm_rows :: int
  tm_closed :: bool
  closeErr :: "cause option"
  exitCode :: "int option"
  detachedAt :: "int option"
  attachments :: nat
  tm_done :: bool

definition on_attached ::
  "(nat \<Rightarrow> channel list \<Rightarrow> channel list option) \<Rightarrow> 's Terminal \<Rightarrow> channel list option" where
  "on_attached f t = (case attached t of None \<Rightarrow> Some (channels t) | Some i \<Rightarrow> f i (channels t))"

record Attachment =
  Replay :: "byte list"
  Output :: nat
  Reattached :: bool

definition Attach :: "'s Terminal \<Rightarrow> ('s Terminal \<times> (terminal_error, Attachment) result) option" where
  "Attach t =
     (if tm_closed t then Some (t, Inl ErrTerminalClosed)
      else map_option (\<lambda>chs.
          (t\<lparr>channels := chs @ [fresh_channel], attached := Some (length chs), detachedAt := None,
             attachments := attachments t + 1\<rparr>,
           Inr \<lparr>Replay = ring_Bytes (replay t), Output = length chs, Reattached = attachments t + 1 > 1\<rparr>))
        (on_attached chan_close t))"

definition Detach :: "int \<Rightarrow> 's Terminal \<Rightarrow> 's Terminal option" where
  "Detach now t =
     map_option (\<lambda>chs. t\<lparr>channels := chs, attached := None, detachedAt := Some now\<rparr>) (on_attached chan_close t)"

definition close_terminal :: "('s \<Rightarrow> 's) \<Rightarrow> int \<Rightarrow> cause option \<Rightarrow> 's Terminal \<Rightarrow> 's Terminal option" where
  "close_terminal cl now why t =
     (if tm_closed t then Some t
      else map_option (\<lambda>chs.
          t\<lparr>tm_closed := True, closeErr := why, channels := chs, attached := None,
            tm_shell := cl (tm_shell t), shell_closes := shell_closes t + 1,
            recording := map_option (\<lambda>h. recording_Close h now) (recording t),
            releases := releases t + 1\<rparr>)
        (on_attached chan_close t))"

text \<open>One round of \<^verbatim>\<open>pump\<close> with \<open>chunk\<close> read, and the round in which the shell's end is seen.\<close>

definition pump_read :: "nat option \<Rightarrow> byte list \<Rightarrow> 's Terminal \<Rightarrow> 's Terminal option" where
  "pump_read fault chunk t =
     (let t1 = t\<lparr>recording := map_option (\<lambda>h. recording_Read fault h chunk) (recording t)\<rparr>
      in if chunk = [] then Some t1
         else map_option (\<lambda>chs. t1\<lparr>replay := ring_Write (replay t1) chunk, channels := chs\<rparr>)
                (on_attached (\<lambda>i. chan_try_send i chunk) t1))"

datatype wait_result = WaitNil | WaitExit int | WaitFailed

definition exit_of :: "'s Terminal \<Rightarrow> wait_result \<Rightarrow> int option" where
  "exit_of t w =
     (case w of WaitExit code \<Rightarrow> Some code
      | WaitFailed \<Rightarrow> None
      | WaitNil \<Rightarrow> if tr_Protocol (tm_Transport t) = ProtocolSSH then Some 0 else None)"

text \<open>The error of the read is \<open>None\<close> for end of file.\<close>

definition pump_end :: "('s \<Rightarrow> 's) \<Rightarrow> int \<Rightarrow> string option \<Rightarrow> wait_result \<Rightarrow> 's Terminal \<Rightarrow> 's Terminal option" where
  "pump_end cl now err w t =
     map_option (\<lambda>t. t\<lparr>tm_done := True\<rparr>)
       (close_terminal cl now (map_option Fault err) (t\<lparr>exitCode := exit_of t w\<rparr>))"

definition terminal_Write :: "'s writer \<Rightarrow> 's Terminal \<Rightarrow> string \<Rightarrow> 's Terminal \<times> (terminal_error, unit) result" where
  "terminal_Write wr t p =
     (if tm_closed t then (t, Inl ErrTerminalClosed)
      else case wr (tm_shell t) p of (s, ok) \<Rightarrow>
        (t\<lparr>tm_shell := s\<rparr>, if ok then Inr () else Inl ShellWriteFailed))"

definition terminal_Resize ::
  "('s \<Rightarrow> int \<Rightarrow> int \<Rightarrow> 's \<times> bool) \<Rightarrow> 's Terminal \<Rightarrow> int \<Rightarrow> int \<Rightarrow> 's Terminal \<times> (terminal_error, unit) result" where
  "terminal_Resize rs t c r =
     (if tm_closed t then (t, Inl ErrTerminalClosed)
      else case rs (tm_shell t) c r of (s, ok) \<Rightarrow>
        (t\<lparr>tm_cols := c, tm_rows := r, tm_shell := s\<rparr>, if ok then Inr () else Inl ShellResizeFailed))"

definition EndedDeliberately :: "'s Terminal \<Rightarrow> bool" where
  "EndedDeliberately t \<longleftrightarrow> exitCode t \<noteq> None \<or> (\<exists>s. closeErr t = Some (Deliberate s))"

definition TranscriptPath :: "'s Terminal \<Rightarrow> (string \<times> string) option" where
  "TranscriptPath t = (case recording t of Some (Some tr) \<Rightarrow> Some (tpath tr) | _ \<Rightarrow> None)"

definition StartRecording :: "Transcript \<Rightarrow> 's Terminal \<Rightarrow> 's Terminal \<times> (terminal_error, unit) result" where
  "StartRecording tr t =
     (if tm_closed t then (t, Inl ErrTerminalClosed)
      else case recording t of
          None \<Rightarrow> (t, Inl CannotRecord)
        | Some (Some _) \<Rightarrow> (t, Inl AlreadyRecording)
        | Some None \<Rightarrow> (t\<lparr>recording := Some (Some tr), Recorded := True\<rparr>, Inr ()))"

text \<open>The transcript that was stopped is closed and returned, since the terminal forgets it.\<close>

definition StopRecording ::
  "int \<Rightarrow> 's Terminal \<Rightarrow> 's Terminal \<times> Transcript option \<times> (terminal_error, unit) result" where
  "StopRecording now t =
     (if RecordForced t then (t, None, Inl RecordingRequired)
      else case recording t of
          Some (Some tr) \<Rightarrow> (t\<lparr>recording := Some None, Recorded := False\<rparr>, Some (transcript_Close tr now), Inr ())
        | _ \<Rightarrow> (t, None, Inr ()))"

subsection \<open>No panic, one end\<close>

text \<open>
  Everything that happens to one terminal, in any order: browsers coming, going and reading,
  output, keys, resizes, recordings and every way of closing. \<open>None\<close> is a crashed server.
\<close>

inductive term_step :: "'s writer \<Rightarrow> ('s \<Rightarrow> int \<Rightarrow> int \<Rightarrow> 's \<times> bool) \<Rightarrow> ('s \<Rightarrow> 's)
    \<Rightarrow> 's Terminal option \<Rightarrow> 's Terminal option \<Rightarrow> bool" for wr rs cl where
  attach: "term_step wr rs cl (Some t) (map_option fst (Attach t))"
| detach: "term_step wr rs cl (Some t) (Detach now t)"
| printed: "term_step wr rs cl (Some t) (pump_read fault chunk t)"
| shell_ended: "term_step wr rs cl (Some t) (pump_end cl now err w t)"
| ended: "term_step wr rs cl (Some t) (close_terminal cl now why t)"
| typed: "term_step wr rs cl (Some t) (Some (fst (terminal_Write wr t p)))"
| resized: "term_step wr rs cl (Some t) (Some (fst (terminal_Resize rs t c r)))"
| rec_on: "term_step wr rs cl (Some t) (Some (fst (StartRecording tr t)))"
| rec_off: "term_step wr rs cl (Some t) (Some (fst (StopRecording now t)))"
| taken: "i < length (channels t) \<Longrightarrow>
    term_step wr rs cl (Some t) (Some (t\<lparr>channels := fst (chan_recv i (channels t))\<rparr>))"

definition only_open :: "nat option \<Rightarrow> channel list \<Rightarrow> bool" where
  "only_open a chs \<longleftrightarrow> (\<forall>i < length chs. ch_closed (chs ! i) \<longleftrightarrow> a \<noteq> Some i) \<and> (\<forall>i. a = Some i \<longrightarrow> i < length chs)"

definition recording_kept :: "'s Terminal \<Rightarrow> bool" where
  "recording_kept t \<longleftrightarrow> RecordForced t \<longrightarrow> (\<exists>tr. recording t = Some (Some tr))"

definition term_ok :: "'s Terminal \<Rightarrow> bool" where
  "term_ok t \<longleftrightarrow>
     only_open (attached t) (channels t)
     \<and> (tm_closed t \<longrightarrow> attached t = None)
     \<and> shell_closes t = (if tm_closed t then 1 else 0) \<and> releases t = shell_closes t
     \<and> (tm_done t \<longrightarrow> tm_closed t)
     \<and> ring_ok (replay t) \<and> rb_size (replay t) = ReplayBytes
     \<and> recording_kept t"

lemma close_attached:
  assumes "only_open (attached t) (channels t)"
  obtains chs where "on_attached chan_close t = Some chs" and "only_open None chs"
    and "map frames chs = map frames (channels t)"
proof (cases "attached t")
  case None
  with assms that [of "channels t"] show ?thesis by (simp add: on_attached_def)
next
  case (Some i)
  let ?chs = "(channels t)[i := (channels t ! i)\<lparr>ch_closed := True\<rparr>]"
  have "on_attached chan_close t = Some ?chs" "only_open None ?chs"
    using assms Some by (auto simp: on_attached_def chan_close_def only_open_def nth_list_update)
  moreover have "map frames ?chs = map frames (channels t)"
    using assms Some by (simp add: only_open_def map_update list_update_same_conv)
  ultimately show ?thesis by (rule that)
qed

lemma send_attached:
  assumes "only_open (attached t) (channels t)"
  obtains chs where "on_attached (\<lambda>i. chan_try_send i p) t = Some chs" and "only_open (attached t) chs"
proof (cases "attached t")
  case None
  with assms that [of "channels t"] show ?thesis by (simp add: on_attached_def)
next
  case (Some i)
  with assms that show ?thesis
    by (cases "length (frames (channels t ! i)) < frame_capacity")
      (auto simp: on_attached_def chan_try_send_def only_open_def nth_list_update)
qed

lemma chan_recv_open: "i < length chs \<Longrightarrow> only_open a chs \<Longrightarrow> only_open a (fst (chan_recv i chs))"
  by (auto simp: only_open_def chan_recv_def nth_list_update split: list.split)

lemma only_open_fresh: "only_open None chs \<Longrightarrow> only_open (Some (length chs)) (chs @ [fresh_channel])"
  by (auto simp: only_open_def nth_append fresh_channel_def less_Suc_eq)

lemma term_ok_open: "term_ok t \<Longrightarrow> only_open (attached t) (channels t)"
  by (simp add: term_ok_def)

lemma Attach_ok:
  assumes "term_ok t"
  shows "\<exists>t' r. Attach t = Some (t', r) \<and> term_ok t'"
proof (cases "tm_closed t")
  case True
  with assms show ?thesis by (simp add: Attach_def)
next
  case False
  obtain chs where "on_attached chan_close t = Some chs" "only_open None chs"
    using close_attached [OF term_ok_open [OF assms]] .
  with False assms show ?thesis
    by (simp add: Attach_def term_ok_def recording_kept_def only_open_fresh)
qed

lemma Detach_ok:
  assumes "term_ok t"
  shows "\<exists>t'. Detach now t = Some t' \<and> term_ok t'"
proof -
  obtain chs where "on_attached chan_close t = Some chs" "only_open None chs"
    using close_attached [OF term_ok_open [OF assms]] .
  with assms show ?thesis by (simp add: Detach_def term_ok_def recording_kept_def)
qed

lemma close_terminal_ok:
  assumes "term_ok t"
  shows "\<exists>t'. close_terminal cl now why t = Some t' \<and> term_ok t' \<and> tm_closed t'"
proof (cases "tm_closed t")
  case True
  with assms show ?thesis by (simp add: close_terminal_def)
next
  case False
  obtain chs where "on_attached chan_close t = Some chs" "only_open None chs"
    using close_attached [OF term_ok_open [OF assms]] .
  with False assms show ?thesis
    by (simp add: close_terminal_def term_ok_def recording_kept_def recording_Close_def) metis
qed

lemma pump_read_ok:
  assumes "term_ok t"
  shows "\<exists>t'. pump_read fault chunk t = Some t' \<and> term_ok t'"
proof -
  let ?t = "t\<lparr>recording := map_option (\<lambda>h. recording_Read fault h chunk) (recording t)\<rparr>"
  have "\<exists>tr'. recording_Read fault (Some tr) chunk = Some tr'" for tr by (simp add: recording_Read_def)
  then have "recording_kept ?t" using assms by (force simp: term_ok_def recording_kept_def)
  then have ok: "term_ok ?t" using assms by (simp add: term_ok_def)
  obtain chs where "on_attached (\<lambda>i. chan_try_send i chunk) ?t = Some chs" "only_open (attached ?t) chs"
    using send_attached [OF term_ok_open [OF ok]] .
  with ok ring.write_ok [of "replay t" chunk] show ?thesis
    by (cases "chunk = []") (simp_all add: pump_read_def Let_def, simp_all add: term_ok_def recording_kept_def)
qed

lemma term_ok_exit [simp]: "term_ok (t\<lparr>exitCode := x\<rparr>) = term_ok t"
  by (simp add: term_ok_def recording_kept_def)

lemma pump_end_ok:
  assumes "term_ok t"
  shows "\<exists>t'. pump_end cl now err w t = Some t' \<and> term_ok t'"
proof -
  have "term_ok (t\<lparr>exitCode := exit_of t w\<rparr>)" using assms by simp
  then obtain t' where "close_terminal cl now (map_option Fault err) (t\<lparr>exitCode := exit_of t w\<rparr>) = Some t'"
    "term_ok t'" "tm_closed t'" using close_terminal_ok by blast
  then show ?thesis by (auto simp: pump_end_def term_ok_def recording_kept_def)
qed

definition sound :: "'s Terminal option \<Rightarrow> bool" where
  "sound x \<longleftrightarrow> (\<exists>t. x = Some t \<and> term_ok t)"

lemma term_step_sound: "term_step wr rs cl x y \<Longrightarrow> sound x \<Longrightarrow> sound y"
proof (induction rule: term_step.induct)
  case (attach t)
  then show ?case using Attach_ok [of t] by (auto simp: sound_def)
next
  case (typed t p)
  then show ?case by (auto simp: sound_def term_ok_def recording_kept_def terminal_Write_def case_prod_beta)
next
  case (resized t c r)
  then show ?case by (auto simp: sound_def term_ok_def recording_kept_def terminal_Resize_def case_prod_beta)
next
  case (rec_on t tr)
  then show ?case
    by (auto simp: sound_def term_ok_def recording_kept_def StartRecording_def split: option.splits)
next
  case (rec_off t now)
  then show ?case
    by (auto simp: sound_def term_ok_def recording_kept_def StopRecording_def split: option.splits)
next
  case (taken i t)
  then show ?case using chan_recv_open by (auto simp: sound_def term_ok_def recording_kept_def)
qed (auto simp: sound_def dest: Detach_ok pump_read_ok pump_end_ok close_terminal_ok)

end
