(* ===== verification/Terminal_Manager.thy ===== *)
theory Terminal_Manager
  imports Terminal "HOL-Library.Char_ord" "HOL-Library.List_Lexorder" "HOL-Library.Product_Lexorder"
begin

section \<open>The registry of terminals (\<^verbatim>\<open>Manager\<close> in \<^verbatim>\<open>internal/terminal/session.go\<close>)\<close>

text \<open>
  A terminal is known by its identifier, which \<^verbatim>\<open>Open\<close> draws fresh. \<open>terms\<close> is every
  terminal ever opened, because a bridge or a pump goes on holding a pointer to one that was
  removed; \<open>registry\<close> is the keys of the manager's map, in the order in which a loop happens to
  visit them. The steps of one operation between its locks are taken as one.
\<close>

record 's Manager =
  terms :: "string \<Rightarrow> 's Terminal option"
  registry :: "string list"
  draining :: bool

definition NewManager :: "'s Manager" where
  "NewManager = \<lparr>terms = (\<lambda>_. None), registry = [], draining = False\<rparr>"

record OpenParams =
  op_UserID :: string
  op_SessionID :: string
  op_Label :: string
  op_Username :: string
  op_Cols :: int
  op_Rows :: int
  op_AgentKeys :: "string list"
  op_AgentRefused :: bool
  op_Transport :: Transport
  op_LogonSteps :: nat
  op_Triggers :: nat
  op_Highlights :: "Highlight list"
  op_Recording :: "TranscriptHolder option"
  op_Recorded :: bool
  op_RecordForced :: bool

definition new_terminal :: "string \<Rightarrow> int \<Rightarrow> 's \<Rightarrow> OpenParams \<Rightarrow> 's Terminal" where
  "new_terminal i now s p =
     \<lparr>tm_ID = i, tm_UserID = op_UserID p, tm_SessionID = op_SessionID p, tm_Label = op_Label p,
      tm_Transport = op_Transport p, tm_Username = op_Username p, tm_CreatedAt = now,
      tm_AgentKeys = op_AgentKeys p, tm_AgentRefused = op_AgentRefused p, tm_LogonSteps = op_LogonSteps p,
      Recorded = op_Recorded p, RecordForced = op_RecordForced p, tm_Triggers = op_Triggers p,
      tm_Highlights = op_Highlights p, recording = op_Recording p, tm_shell = s, shell_closes = 0,
      releases = 0, replay = newRingBuffer ReplayBytes, channels = [], attached = None,
      tm_cols = (if op_Cols p \<le> 0 then 80 else op_Cols p), tm_rows = (if op_Rows p \<le> 0 then 24 else op_Rows p),
      tm_closed = False, closeErr = None, exitCode = None, detachedAt = None, attachments = 0, tm_done = False\<rparr>"

definition manager_Open :: "string \<Rightarrow> int \<Rightarrow> 's \<Rightarrow> OpenParams \<Rightarrow> 's Manager \<Rightarrow> 's Manager" where
  "manager_Open i now s p m =
     m\<lparr>terms := (terms m)(i \<mapsto> new_terminal i now s p), registry := i # registry m\<rparr>"

text \<open>Closing the terminals with the given identifiers, one after the other.\<close>

fun close_all :: "('s \<Rightarrow> 's) \<Rightarrow> int \<Rightarrow> string \<Rightarrow> string list
    \<Rightarrow> (string \<Rightarrow> 's Terminal option) \<Rightarrow> (string \<Rightarrow> 's Terminal option) option" where
  "close_all cl now why [] ts = Some ts"
| "close_all cl now why (i # is) ts =
     (case ts i of
        None \<Rightarrow> close_all cl now why is ts
      | Some t \<Rightarrow> (case close_terminal cl now (Some (Deliberate why)) t of
            None \<Rightarrow> None
          | Some t' \<Rightarrow> close_all cl now why is (ts(i \<mapsto> t'))))"

definition expired :: "int \<Rightarrow> 's Terminal \<Rightarrow> bool" where
  "expired now t \<longleftrightarrow> attached t = None \<and> (case detachedAt t of None \<Rightarrow> False | Some d \<Rightarrow> now - d > DetachedGrace)"

definition abandoned :: "int \<Rightarrow> 's Manager \<Rightarrow> string list" where
  "abandoned now m = filter (\<lambda>i. case terms m i of None \<Rightarrow> False | Some t \<Rightarrow> expired now t) (registry m)"

text \<open>Drop some identifiers from the map and close what they named.\<close>

definition drop_and_close ::
  "('s \<Rightarrow> 's) \<Rightarrow> int \<Rightarrow> string \<Rightarrow> string list \<Rightarrow> 's Manager \<Rightarrow> 's Manager option" where
  "drop_and_close cl now why ids m =
     map_option (\<lambda>ts. m\<lparr>registry := filter (\<lambda>i. i \<notin> set ids) (registry m), terms := ts\<rparr>)
       (close_all cl now why ids (terms m))"

definition reapOnce :: "('s \<Rightarrow> 's) \<Rightarrow> int \<Rightarrow> 's Manager \<Rightarrow> ('s Manager \<times> nat) option" where
  "reapOnce cl now m =
     map_option (\<lambda>m'. (m', length (abandoned now m)))
       (drop_and_close cl now ''terminal: abandoned'' (abandoned now m) m)"

definition manager_Close :: "('s \<Rightarrow> 's) \<Rightarrow> int \<Rightarrow> 's Manager \<Rightarrow> 's Manager option" where
  "manager_Close cl now m = drop_and_close cl now ''terminal: server shutting down'' (registry m) m"

definition registered :: "'s Manager \<Rightarrow> string \<Rightarrow> 's Terminal option" where
  "registered m i = (if i \<in> set (registry m) then terms m i else None)"

definition manager_Get :: "'s Manager \<Rightarrow> string \<Rightarrow> string \<Rightarrow> (terminal_error, 's Terminal) result" where
  "manager_Get m user i =
     (case registered m i of
        None \<Rightarrow> Inl ErrTerminalNotFound
      | Some t \<Rightarrow> if tm_UserID t \<noteq> user then Inl ErrTerminalNotFound else Inr t)"

definition CloseTerminal ::
  "('s \<Rightarrow> 's) \<Rightarrow> int \<Rightarrow> string \<Rightarrow> string \<Rightarrow> 's Manager \<Rightarrow> ('s Manager \<times> (terminal_error, unit) result) option" where
  "CloseTerminal cl now user i m =
     (case manager_Get m user i of
        Inl e \<Rightarrow> Some (m, Inl e)
      | Inr t \<Rightarrow> map_option (\<lambda>m'. (m', Inr ())) (drop_and_close cl now ''terminal: closed by the user'' [i] m))"

definition CloseAny ::
  "('s \<Rightarrow> 's) \<Rightarrow> int \<Rightarrow> string \<Rightarrow> 's Manager \<Rightarrow> ('s Manager \<times> (terminal_error, string) result) option" where
  "CloseAny cl now i m =
     (case registered m i of
        None \<Rightarrow> Some (m, Inl ErrTerminalNotFound)
      | Some t \<Rightarrow> map_option (\<lambda>m'. (m', Inr (tm_UserID t)))
                    (drop_and_close cl now ''terminal: ended by an administrator'' [i] m))"

record Info =
  i_ID :: string
  i_UserID :: string
  i_SessionID :: string
  i_Label :: string
  i_Protocol :: string
  i_Host :: string
  i_Port :: int
  i_Device :: string
  i_Encrypted :: bool
  i_Username :: string
  i_CreatedAt :: int
  i_Attached :: bool
  i_Closed :: bool
  i_Recorded :: bool
  i_RecordForced :: bool

definition info_of :: "string \<Rightarrow> 's Terminal \<Rightarrow> Info" where
  "info_of user t =
     \<lparr>i_ID = tm_ID t, i_UserID = user, i_SessionID = tm_SessionID t, i_Label = tm_Label t,
      i_Protocol = tr_Protocol (tm_Transport t), i_Host = tr_Host (tm_Transport t),
      i_Port = tr_Port (tm_Transport t), i_Device = tr_Device (tm_Transport t),
      i_Encrypted = Encrypted (tm_Transport t), i_Username = tm_Username t, i_CreatedAt = tm_CreatedAt t,
      i_Attached = (attached t \<noteq> None), i_Closed = tm_closed t, i_Recorded = Recorded t,
      i_RecordForced = RecordForced t\<rparr>"

definition registered_list :: "'s Manager \<Rightarrow> 's Terminal list" where
  "registered_list m = List.map_filter (terms m) (registry m)"

definition oldest_first :: "Info list \<Rightarrow> Info list" where
  "oldest_first = sort_key (\<lambda>i. (i_CreatedAt i, i_ID i))"

definition ListForUser :: "'s Manager \<Rightarrow> string \<Rightarrow> Info list" where
  "ListForUser m user =
     oldest_first (map (info_of '''') (filter (\<lambda>t. tm_UserID t = user) (registered_list m)))"

definition ListAll :: "'s Manager \<Rightarrow> Info list" where
  "ListAll m = oldest_first (map (\<lambda>t. info_of (tm_UserID t) t) (registered_list m))"

definition OpenCount :: "'s Manager \<Rightarrow> nat" where
  "OpenCount m = length (filter (\<lambda>t. \<not> tm_closed t) (registered_list m))"

definition CountForUser :: "'s Manager \<Rightarrow> string \<Rightarrow> nat" where
  "CountForUser m user = length (filter (\<lambda>t. tm_UserID t = user) (registered_list m))"

definition SetDraining :: "'s Manager \<Rightarrow> bool \<Rightarrow> 's Manager" where
  "SetDraining m on = m\<lparr>draining := on\<rparr>"

subsection \<open>One terminal from its opening on\<close>

interpretation terminals: invariant_of "term_step wr rs cl" sound for wr rs cl
  by unfold_locales (rule term_step_sound)

lemma new_terminal_ok:
  assumes "op_RecordForced p \<Longrightarrow> \<exists>tr. op_Recording p = Some (Some tr)"
  shows "term_ok (new_terminal i now s p)"
  using assms by (simp add: term_ok_def new_terminal_def only_open_def recording_kept_def)

text \<open>
  C23 (safety). From the moment a terminal is opened, however browsers attach, displace one
  another, detach and read, and however output, keys, recordings and the ways of ending interleave:
  the server does not panic on a channel, at most the attached browser's channel is open, the shell
  is closed and what it borrowed given back exactly once, when the terminal ends, nobody stays
  attached to a terminal that has ended, and a recording required by policy is never taken off.
\<close>

theorem terminal_never_panics:
  assumes "(term_step wr rs cl)\<^sup>*\<^sup>* (Some (new_terminal i now s p)) x"
    and "op_RecordForced p \<longrightarrow> (\<exists>tr. op_Recording p = Some (Some tr))"
  shows "\<exists>t. x = Some t
    \<and> (\<forall>c < length (channels t). \<not> ch_closed (channels t ! c) \<longleftrightarrow> attached t = Some c)
    \<and> shell_closes t = (if tm_closed t then 1 else 0) \<and> releases t = shell_closes t
    \<and> (tm_closed t \<longrightarrow> attached t = None)
    \<and> (RecordForced t \<longrightarrow> (\<exists>tr. recording t = Some (Some tr)))"
proof -
  have "sound (Some (new_terminal i now s p))" using assms(2) by (simp add: sound_def new_terminal_ok)
  from terminals.run_inv [OF assms(1) this] show ?thesis
    by (auto simp: sound_def term_ok_def only_open_def recording_kept_def)
qed

definition demo_transport :: Transport where
  "demo_transport = \<lparr>tr_Protocol = ''telnet'', tr_Host = ''sw1'', tr_Port = 23, tr_Device = '''', tr_Detail = ''''\<rparr>"

definition demo_open :: OpenParams where
  "demo_open =
     \<lparr>op_UserID = ''u'', op_SessionID = ''s'', op_Label = ''sw1'', op_Username = '''', op_Cols = 0, op_Rows = 0,
      op_AgentKeys = [], op_AgentRefused = False, op_Transport = demo_transport, op_LogonSteps = 0,
      op_Triggers = 0, op_Highlights = [], op_Recording = Some None, op_Recorded = False, op_RecordForced = False\<rparr>"

definition demo_term :: "wire Terminal" where
  "demo_term = new_terminal ''t'' 0 \<lparr>written = [], budget = None, hung_up = False\<rparr> demo_open"

theorem terminal_never_panics_witness:
  "\<exists>t. Option.bind (map_option fst (Attach demo_term)) (close_terminal wire_close 5 None) = Some t \<and> releases t = 1"
proof -
  let ?s = "term_step wire_write (\<lambda>s c r. (s, True)) wire_close"
  let ?x = "map_option fst (Attach demo_term)"
  obtain t1 where t1: "?x = Some t1" "\<not> tm_closed t1"
    by (simp add: Attach_def demo_term_def new_terminal_def on_attached_def)
  have "?s\<^sup>*\<^sup>* (Some demo_term) (close_terminal wire_close 5 None t1)"
    using attach [of wire_write "\<lambda>s c r. (s, True)" wire_close demo_term] ended [of wire_write "\<lambda>s c r. (s, True)" wire_close t1 5 None] t1
    by (simp add: rtranclp.rtrancl_into_rtrancl)
  from terminal_never_panics [OF this [unfolded demo_term_def]] obtain t where
    t: "close_terminal wire_close 5 None t1 = Some t" "releases t = (if tm_closed t then 1 else 0)"
    by (auto simp: demo_open_def)
  then have "tm_closed t" using t1 by (auto simp: close_terminal_def)
  with t show ?thesis unfolding t1(1) by simp
qed

subsection \<open>What a browser sees\<close>

text \<open>
  A history of one terminal, as a list of what happened to it: the steps of \<open>term_step\<close> by name.
\<close>

datatype term_moment =
    BrowserComes | BrowserGoes int | FrameTaken nat
  | ShellPrints "nat option" "byte list" | ShellEnds int "string option" wait_result | Closes int "cause option"
  | KeysTyped string | Resizes int int | RecordOn Transcript | RecordOff int

fun term_event :: "'s writer \<Rightarrow> ('s \<Rightarrow> int \<Rightarrow> int \<Rightarrow> 's \<times> bool) \<Rightarrow> ('s \<Rightarrow> 's) \<Rightarrow> term_moment \<Rightarrow> 's Terminal \<Rightarrow> 's Terminal option" where
  "term_event wr rs cl BrowserComes t = map_option fst (Attach t)"
| "term_event wr rs cl (BrowserGoes now) t = Detach now t"
| "term_event wr rs cl (FrameTaken i) t =
     Some (if i < length (channels t) then t\<lparr>channels := fst (chan_recv i (channels t))\<rparr> else t)"
| "term_event wr rs cl (ShellPrints fault chunk) t = pump_read fault chunk t"
| "term_event wr rs cl (ShellEnds now err w) t = pump_end cl now err w t"
| "term_event wr rs cl (Closes now why) t = close_terminal cl now why t"
| "term_event wr rs cl (KeysTyped p) t = Some (fst (terminal_Write wr t p))"
| "term_event wr rs cl (Resizes c r) t = Some (fst (terminal_Resize rs t c r))"
| "term_event wr rs cl (RecordOn tr) t = Some (fst (StartRecording tr t))"
| "term_event wr rs cl (RecordOff now) t = Some (fst (StopRecording now t))"

fun term_run :: "'s writer \<Rightarrow> ('s \<Rightarrow> int \<Rightarrow> int \<Rightarrow> 's \<times> bool) \<Rightarrow> ('s \<Rightarrow> 's) \<Rightarrow> term_moment list \<Rightarrow> 's Terminal \<Rightarrow> 's Terminal option" where
  "term_run wr rs cl [] t = Some t"
| "term_run wr rs cl (e # es) t = Option.bind (term_event wr rs cl e t) (term_run wr rs cl es)"

text \<open>Everything the shell printed in a history, whoever was there to see it.\<close>

fun output_of :: "term_moment list \<Rightarrow> byte list" where
  "output_of [] = []"
| "output_of (ShellPrints fault chunk # es) = chunk @ output_of es"
| "output_of (_ # es) = output_of es"

lemma term_run_append:
  "term_run wr rs cl (es @ fs) t = Option.bind (term_run wr rs cl es t) (term_run wr rs cl fs)"
  by (induction es arbitrary: t) (simp_all split: bind_split)

lemma term_event_ok:
  assumes "term_ok t"
  obtains t' where "term_event wr rs cl e t = Some t'" and "term_ok t'"
proof -
  have "term_step wr rs cl (Some t) (term_event wr rs cl e t) \<or> term_event wr rs cl e t = Some t"
    by (cases e) (auto intro: term_step.intros)
  moreover have "sound (Some t)" using assms by (simp add: sound_def)
  ultimately have "sound (term_event wr rs cl e t)" using term_step_sound by metis
  with that show thesis by (auto simp: sound_def)
qed

definition remembers :: "'s Terminal \<Rightarrow> byte list \<Rightarrow> bool" where
  "remembers t past \<longleftrightarrow> ring_Bytes (replay t) = recent ReplayBytes past"

lemma new_terminal_remembers: "remembers (new_terminal i now s p) []"
  by (simp add: remembers_def new_terminal_def)

text \<open>What is printed is remembered whether or not a browser is attached; nothing else touches it.\<close>

lemma pump_read_remembers:
  assumes "term_ok t" and "remembers t past" and "pump_read fault chunk t = Some t'"
  shows "remembers t' (past @ chunk) \<and> tm_closed t' = tm_closed t \<and> attachments t' = attachments t"
proof (cases "chunk = []")
  case True
  with assms show ?thesis by (auto simp: pump_read_def Let_def remembers_def)
next
  case False
  have "ring_ok (replay t)" "rb_size (replay t) = ReplayBytes" using assms(1) by (simp_all add: term_ok_def)
  moreover from False assms(3) have "replay t' = ring_Write (replay t) chunk" "tm_closed t' = tm_closed t" "attachments t' = attachments t"
    by (auto simp: pump_read_def Let_def)
  ultimately show ?thesis using assms(2)
    by (simp add: remembers_def ring.write_contents recent_recent_append)
qed

lemma term_event_remembers:
  assumes "term_ok t" and "remembers t past" and "term_event wr rs cl e t = Some t'"
  shows "remembers t' (past @ output_of [e])
    \<and> (\<not> tm_closed t' \<longrightarrow> \<not> tm_closed t \<and> attachments t' = attachments t + count_list [e] BrowserComes)"
proof (cases e)
  case (ShellPrints fault chunk)
  with pump_read_remembers [of t past fault chunk t'] assms show ?thesis by simp
next
  case (ShellEnds now err w)
  with assms show ?thesis by (auto simp: pump_end_def close_terminal_def remembers_def split: if_splits)
qed (use assms in \<open>auto simp: Attach_def Detach_def close_terminal_def terminal_Write_def terminal_Resize_def
      StartRecording_def StopRecording_def remembers_def case_prod_beta split: if_splits option.splits\<close>)

lemma term_run_remembers:
  assumes "term_ok t" and "remembers t past"
  shows "\<exists>t'. term_run wr rs cl es t = Some t' \<and> term_ok t' \<and> remembers t' (past @ output_of es)
    \<and> (\<not> tm_closed t' \<longrightarrow> \<not> tm_closed t \<and> attachments t' = attachments t + count_list es BrowserComes)"
  using assms
proof (induction es arbitrary: t past)
  case (Cons e es)
  obtain t1 where t1: "term_event wr rs cl e t = Some t1" "term_ok t1" using term_event_ok [OF Cons.prems(1)] .
  note e = term_event_remembers [OF Cons.prems t1(1)]
  have "(past @ output_of [e]) @ output_of es = past @ output_of (e # es)" by (cases e) simp_all
  with Cons.IH [OF t1(2) conjunct1 [OF e]] e t1(1) show ?case by (auto simp del: append_assoc)
qed simp

text \<open>One attached browser: the shell prints, the bridge takes frames off its channel.\<close>

datatype happening = Prints "byte list" | Takes

fun watch :: "nat \<Rightarrow> 's Terminal \<Rightarrow> happening list \<Rightarrow> ('s Terminal \<times> byte list list) option" where
  "watch c t [] = Some (t, [])"
| "watch c t (Prints p # es) = Option.bind (pump_read None p t) (\<lambda>t'. watch c t' es)"
| "watch c t (Takes # es) =
     (case chan_recv c (channels t) of (chs, r) \<Rightarrow>
        map_option (\<lambda>(t', fs). (t', (case r of Frame p \<Rightarrow> p # fs | _ \<Rightarrow> fs))) (watch c (t\<lparr>channels := chs\<rparr>) es))"

fun printed_by :: "happening list \<Rightarrow> byte list" where
  "printed_by [] = []"
| "printed_by (Prints p # es) = p @ printed_by es"
| "printed_by (Takes # es) = printed_by es"

text \<open>The browser is never a full channel behind, starting with \<open>n\<close> frames waiting.\<close>

fun keeps_up :: "nat \<Rightarrow> happening list \<Rightarrow> bool" where
  "keeps_up n [] = True"
| "keeps_up n (Prints p # es) = (if p = [] then keeps_up n es else n < frame_capacity \<and> keeps_up (n + 1) es)"
| "keeps_up n (Takes # es) = keeps_up (n - 1) es"

text \<open>The same as a history.\<close>

fun event_of :: "nat \<Rightarrow> happening \<Rightarrow> term_moment" where
  "event_of c (Prints p) = ShellPrints None p"
| "event_of c Takes = FrameTaken c"

lemma pump_read_attached:
  assumes ok: "term_ok t" and c: "attached t = Some c" and room: "p = [] \<or> length (frames (channels t ! c)) < frame_capacity"
  obtains t' where "pump_read None p t = Some t'" and "term_ok t'" and "attached t' = Some c"
    and "frames (channels t' ! c) = frames (channels t ! c) @ (if p = [] then [] else [p])"
proof -
  obtain t' where t': "pump_read None p t = Some t'" "term_ok t'" using pump_read_ok [OF ok] by blast
  have open_c: "c < length (channels t)" "\<not> ch_closed (channels t ! c)"
    using ok c by (auto simp: term_ok_def only_open_def)
  have "attached t' = Some c \<and> frames (channels t' ! c) = frames (channels t ! c) @ (if p = [] then [] else [p])"
  proof (cases "p = []")
    case True
    with t'(1) c show ?thesis by (auto simp: pump_read_def Let_def)
  next
    case False
    with room have len: "length (frames (channels t ! c)) < frame_capacity" by simp
    from False t'(1) have "t' = t\<lparr>recording := map_option (\<lambda>h. recording_Read None h p) (recording t),
        replay := ring_Write (replay t) p, channels := (channels t)[c := (channels t ! c)\<lparr>frames := frames (channels t ! c) @ [p]\<rparr>]\<rparr>"
      by (simp add: pump_read_def Let_def on_attached_def c chan_try_send_def open_c len)
    with False c open_c(1) show ?thesis by simp
  qed
  with t' that show ?thesis by blast
qed

lemma watch_attached:
  assumes "term_ok t" and "attached t = Some c" and "keeps_up (length (frames (channels t ! c))) es"
  shows "\<exists>t' got. watch c t es = Some (t', got) \<and> term_run wr rs cl (map (event_of c) es) t = Some t'
    \<and> concat got @ concat (frames (channels t' ! c)) = concat (frames (channels t ! c)) @ printed_by es"
  using assms
proof (induction es arbitrary: t)
  case Nil
  then show ?case by simp
next
  case (Cons e es)
  show ?case
  proof (cases e)
    case (Prints p)
    with Cons.prems(3) have room: "p = [] \<or> length (frames (channels t ! c)) < frame_capacity" by (auto split: if_splits)
    obtain t1 where t1: "pump_read None p t = Some t1" "term_ok t1" "attached t1 = Some c"
      "frames (channels t1 ! c) = frames (channels t ! c) @ (if p = [] then [] else [p])"
      using pump_read_attached [OF Cons.prems(1,2) room] .
    have "keeps_up (length (frames (channels t1 ! c))) es"
      using Cons.prems(3) Prints t1(4) by (auto split: if_splits)
    from Cons.IH [OF t1(2,3) this] t1(1,4) Prints show ?thesis by (auto split: if_splits)
  next
    case Takes
    obtain chs r where recv: "chan_recv c (channels t) = (chs, r)" by fastforce
    have c: "c < length (channels t)" using Cons.prems(1,2) by (auto simp: term_ok_def only_open_def)
    let ?t = "t\<lparr>channels := chs\<rparr>"
    have chs: "frames (chs ! c) = tl (frames (channels t ! c))
        \<and> (case r of Frame p \<Rightarrow> p # frames (chs ! c) = frames (channels t ! c) | _ \<Rightarrow> frames (chs ! c) = frames (channels t ! c))"
      using recv c by (auto simp: chan_recv_def split: list.splits if_splits)
    have "only_open (attached t) (fst (chan_recv c (channels t)))"
      using chan_recv_open [OF c] Cons.prems(1) by (simp add: term_ok_def)
    then have ok: "term_ok ?t" using Cons.prems(1) recv by (simp add: term_ok_def recording_kept_def)
    have "keeps_up (length (frames (channels ?t ! c))) es" using Cons.prems(3) Takes chs by simp
    from Cons.IH [OF ok _ this] Cons.prems(2) obtain t' got where
      "watch c ?t es = Some (t', got)" "term_run wr rs cl (map (event_of c) es) ?t = Some t'"
      "concat got @ concat (frames (channels t' ! c)) = concat (frames (chs ! c)) @ printed_by es" by auto
    with recv chs Takes c show ?thesis by (cases r; cases "frames (channels t ! c)") auto
  qed
qed

text \<open>
  C24 (functional). However a terminal got to where it is since it was opened, with browsers coming
  and going, output printed with or without one, keys, resizes and recordings: while it is not
  closed, a browser that attaches is shown the most recent 256 KiB of everything it has printed
  and then, as long as it is never 256 frames behind, everything printed afterwards, once and in
  order. It is told that it reattached exactly if a browser was there before it, and since what
  it watches is part of the terminal's history, the next one continues from there.
\<close>

theorem reattached_browser_sees_suffix:
  fixes cl :: "'s \<Rightarrow> 's" and s :: 's and i :: string and now :: int
  assumes "op_RecordForced p \<longrightarrow> (\<exists>tr. op_Recording p = Some (Some tr))" and "keeps_up 0 es"
  defines "opened \<equiv> new_terminal i now s p"
  shows "\<exists>t. term_run wr rs cl before opened = Some t
    \<and> (\<not> tm_closed t \<longrightarrow> (\<exists>t1 a t2 got. Attach t = Some (t1, Inr a) \<and> watch (Output a) t1 es = Some (t2, got)
        \<and> Replay a @ concat got @ concat (frames (channels t2 ! Output a)) = recent ReplayBytes (output_of before) @ printed_by es
        \<and> Reattached a = (BrowserComes \<in> set before)
        \<and> term_run wr rs cl (before @ BrowserComes # map (event_of (Output a)) es) opened = Some t2))"
proof -
  have "term_ok opened" "remembers opened []" "attachments opened = 0"
    using assms(1) unfolding opened_def
    by (blast intro: new_terminal_ok, intro new_terminal_remembers, simp add: new_terminal_def)
  with term_run_remembers [of opened "[]" wr rs cl before] obtain t where
    t: "term_run wr rs cl before opened = Some t" "term_ok t" "remembers t (output_of before)"
      "\<not> tm_closed t \<longrightarrow> attachments t = count_list before BrowserComes" by auto
  have "\<exists>t1 a t2 got. Attach t = Some (t1, Inr a) \<and> watch (Output a) t1 es = Some (t2, got)
        \<and> Replay a @ concat got @ concat (frames (channels t2 ! Output a)) = recent ReplayBytes (output_of before) @ printed_by es
        \<and> Reattached a = (BrowserComes \<in> set before)
        \<and> term_run wr rs cl (before @ BrowserComes # map (event_of (Output a)) es) opened = Some t2"
    if alive: "\<not> tm_closed t"
  proof -
    obtain t1 r where a: "Attach t = Some (t1, r)" "term_ok t1" using Attach_ok [OF t(2)] by blast
    from a(1) alive obtain chs where t1: "t1 = t\<lparr>channels := chs @ [fresh_channel], attached := Some (length chs),
        detachedAt := None, attachments := attachments t + 1\<rparr>"
      and r: "r = Inr \<lparr>Replay = ring_Bytes (replay t), Output = length chs, Reattached = attachments t + 1 > 1\<rparr>"
      by (auto simp: Attach_def)
    have "frames (channels t1 ! length chs) = []" "attached t1 = Some (length chs)"
      by (simp_all add: t1 fresh_channel_def)
    with watch_attached [OF a(2), of "length chs" es wr rs cl] assms(2) obtain t2 got where
      "watch (length chs) t1 es = Some (t2, got)" "term_run wr rs cl (map (event_of (length chs)) es) t1 = Some t2"
      "concat got @ concat (frames (channels t2 ! length chs)) = printed_by es"
      by auto
    moreover have "(attachments t > 0) = (BrowserComes \<in> set before)"
      using t(4) alive by (simp add: count_list_0_iff zero_less_iff_neq_zero)
    ultimately show ?thesis using a(1) r t(1,3) by (auto simp: remembers_def term_run_append)
  qed
  with t(1) show ?thesis by blast
qed

theorem reattached_browser_sees_suffix_witness:
  "\<exists>t t1 a t2 got. term_run wire_write (\<lambda>s c r. (s, True)) wire_close
       [BrowserComes, ShellPrints None [103], BrowserGoes 7, ShellPrints None [104]] demo_term = Some t
     \<and> Attach t = Some (t1, Inr a) \<and> watch (Output a) t1 [Prints [105], Takes, Prints [106]] = Some (t2, got)
     \<and> Replay a @ concat got @ concat (frames (channels t2 ! Output a)) = [103, 104, 105, 106] \<and> Reattached a"
proof -
  let ?es = "[BrowserComes, ShellPrints None [103], BrowserGoes 7, ShellPrints None [104]]"
  have "op_RecordForced demo_open \<longrightarrow> (\<exists>tr. op_Recording demo_open = Some (Some tr))" by (simp add: demo_open_def)
  from reattached_browser_sees_suffix [OF this, of "[Prints [105], Takes, Prints [106]]" wire_write "\<lambda>s c r. (s, True)" wire_close
      ?es "''t''" 0 "\<lparr>written = [], budget = None, hung_up = False\<rparr>"]
  obtain t where t: "term_run wire_write (\<lambda>s c r. (s, True)) wire_close ?es demo_term = Some t"
    "\<not> tm_closed t \<longrightarrow> (\<exists>t1 a t2 got. Attach t = Some (t1, Inr a) \<and> watch (Output a) t1 [Prints [105], Takes, Prints [106]] = Some (t2, got)
        \<and> Replay a @ concat got @ concat (frames (channels t2 ! Output a)) = recent ReplayBytes [103, 104] @ [105, 106]
        \<and> Reattached a)"
    unfolding demo_term_def by (auto simp: frame_capacity_def simp del: term_run.simps watch.simps)
  have "\<not> tm_closed t"
    using t(1) by (auto simp: demo_term_def new_terminal_def Attach_def Detach_def pump_read_def on_attached_def
        chan_try_send_def chan_close_def frame_capacity_def fresh_channel_def Let_def)
  with t show ?thesis by (simp add: recent_def ReplayBytes_def)
qed

end
