(* ===== verification/Terminal_Reaper.thy ===== *)
theory Terminal_Reaper
  imports Terminal_Manager
begin

section \<open>Abandoned terminals\<close>

text \<open>
  Everything that can happen to the terminals of a server, as a sequence of timed actions on the
  registry, and what the reaper (\<^verbatim>\<open>reapOnce\<close>, run every minute) does in such a history.
\<close>

datatype 's action =
    AOpen string int 's OpenParams
  | AAttach string
  | ADetach string int
  | APrint string "nat option" "byte list"
  | AShellEnd string int "string option" wait_result
  | AWrite string string
  | AResize string int int
  | ARecord string Transcript
  | AUnrecord string int
  | AReap int
  | ACloseUser string string int
  | ACloseAdmin string int
  | AShutdown int

definition on_term :: "string \<Rightarrow> ('s Terminal \<Rightarrow> 's Terminal option) \<Rightarrow> 's Manager \<Rightarrow> 's Manager option" where
  "on_term i f m =
     (case terms m i of
        None \<Rightarrow> Some m
      | Some t \<Rightarrow> map_option (\<lambda>t'. m\<lparr>terms := (terms m)(i \<mapsto> t')\<rparr>) (f t))"

fun perform :: "'s writer \<Rightarrow> ('s \<Rightarrow> int \<Rightarrow> int \<Rightarrow> 's \<times> bool) \<Rightarrow> ('s \<Rightarrow> 's) \<Rightarrow> 's action \<Rightarrow> 's Manager \<Rightarrow> 's Manager option" where
  "perform wr rs cl (AOpen i now s p) m = Some (if terms m i = None then manager_Open i now s p m else m)"
| "perform wr rs cl (AAttach i) m = on_term i (\<lambda>t. map_option fst (Attach t)) m"
| "perform wr rs cl (ADetach i now) m = on_term i (Detach now) m"
| "perform wr rs cl (APrint i fault p) m = on_term i (pump_read fault p) m"
| "perform wr rs cl (AShellEnd i now err w) m = on_term i (pump_end cl now err w) m"
| "perform wr rs cl (AWrite i p) m = on_term i (\<lambda>t. Some (fst (terminal_Write wr t p))) m"
| "perform wr rs cl (AResize i c r) m = on_term i (\<lambda>t. Some (fst (terminal_Resize rs t c r))) m"
| "perform wr rs cl (ARecord i tr) m = on_term i (\<lambda>t. Some (fst (StartRecording tr t))) m"
| "perform wr rs cl (AUnrecord i now) m = on_term i (\<lambda>t. Some (fst (StopRecording now t))) m"
| "perform wr rs cl (AReap now) m = map_option fst (reapOnce cl now m)"
| "perform wr rs cl (ACloseUser u i now) m = map_option fst (CloseTerminal cl now u i m)"
| "perform wr rs cl (ACloseAdmin i now) m = map_option fst (CloseAny cl now i m)"
| "perform wr rs cl (AShutdown now) m = manager_Close cl now m"

fun perform_all :: "'s writer \<Rightarrow> ('s \<Rightarrow> int \<Rightarrow> int \<Rightarrow> 's \<times> bool) \<Rightarrow> ('s \<Rightarrow> 's) \<Rightarrow> 's action list \<Rightarrow> 's Manager \<Rightarrow> 's Manager option" where
  "perform_all wr rs cl [] m = Some m"
| "perform_all wr rs cl (a # as) m = Option.bind (perform wr rs cl a m) (perform_all wr rs cl as)"

text \<open>Every terminal is sound, and none is kept open that the registry has lost.\<close>

definition mgr_ok :: "'s Manager \<Rightarrow> bool" where
  "mgr_ok m \<longleftrightarrow> (\<forall>i t. terms m i = Some t \<longrightarrow> term_ok t \<and> (i \<in> set (registry m) \<or> tm_closed t))"

text \<open>A policy recording has its transcript from the start.\<close>

fun well_opened :: "'s action \<Rightarrow> bool" where
  "well_opened (AOpen i now s p) = (op_RecordForced p \<longrightarrow> (case op_Recording p of Some (Some _) \<Rightarrow> True | _ \<Rightarrow> False))"
| "well_opened _ = True"

lemma mgr_okD: "mgr_ok m \<Longrightarrow> terms m i = Some t \<Longrightarrow> term_ok t \<and> (i \<in> set (registry m) \<or> tm_closed t)"
  by (simp add: mgr_ok_def)

lemma on_term_ok:
  assumes m: "mgr_ok m" and f: "\<And>t. term_ok t \<Longrightarrow> \<exists>t'. f t = Some t' \<and> term_ok t' \<and> (tm_closed t \<longrightarrow> tm_closed t')"
  shows "\<exists>m'. on_term i f m = Some m' \<and> mgr_ok m'"
proof (cases "terms m i")
  case None
  with m show ?thesis by (simp add: on_term_def)
next
  case (Some t)
  with mgr_okD [OF m] have t: "term_ok t" "i \<in> set (registry m) \<or> tm_closed t" by auto
  then obtain t' where "f t = Some t'" "term_ok t'" "i \<in> set (registry m) \<or> tm_closed t'" using f by blast
  with Some m show ?thesis by (simp add: on_term_def mgr_ok_def)
qed

subsection \<open>What operations leave alone\<close>

lemma close_terminal_keeps: "close_terminal cl now why t = Some t' \<Longrightarrow> detachedAt t' = detachedAt t"
  by (auto simp: close_terminal_def split: if_splits)

lemma Attach_closed: "Attach t = Some (t', r) \<Longrightarrow> tm_closed t' = tm_closed t"
  by (auto simp: Attach_def split: if_splits)

lemma Detach_closed: "Detach now t = Some t' \<Longrightarrow> tm_closed t' = tm_closed t"
  by (auto simp: Detach_def)

lemma pump_read_keeps:
  "pump_read fault p t = Some t' \<Longrightarrow> tm_closed t' = tm_closed t \<and> attached t' = attached t \<and> detachedAt t' = detachedAt t"
  by (auto simp: pump_read_def Let_def split: if_splits)

lemma write_keeps:
  "tm_closed (fst (terminal_Write wr t p)) = tm_closed t" "attached (fst (terminal_Write wr t p)) = attached t"
  "detachedAt (fst (terminal_Write wr t p)) = detachedAt t"
  by (simp_all add: terminal_Write_def case_prod_beta)

lemma resize_keeps:
  "tm_closed (fst (terminal_Resize rs t c r)) = tm_closed t" "attached (fst (terminal_Resize rs t c r)) = attached t"
  "detachedAt (fst (terminal_Resize rs t c r)) = detachedAt t"
  by (simp_all add: terminal_Resize_def case_prod_beta)

lemma start_keeps:
  "tm_closed (fst (StartRecording tr t)) = tm_closed t" "attached (fst (StartRecording tr t)) = attached t"
  "detachedAt (fst (StartRecording tr t)) = detachedAt t"
  by (simp_all add: StartRecording_def split: option.split)

lemma stop_keeps:
  "tm_closed (fst (StopRecording now t)) = tm_closed t" "attached (fst (StopRecording now t)) = attached t"
  "detachedAt (fst (StopRecording now t)) = detachedAt t"
  by (simp_all add: StopRecording_def split: option.split)

lemmas op_keeps [simp] = write_keeps resize_keeps start_keeps stop_keeps

lemma step_ok: "term_step wr rs cl (Some t) y \<Longrightarrow> term_ok t \<Longrightarrow> \<exists>t'. y = Some t' \<and> term_ok t'"
  using term_step_sound [of wr rs cl "Some t" y] by (simp add: sound_def)

text \<open>What closing makes of an entry of the table.\<close>

definition ended_entry :: "'s Terminal option \<Rightarrow> 's Terminal option \<Rightarrow> bool" where
  "ended_entry x y \<longleftrightarrow> (case y of None \<Rightarrow> x = None
       | Some t \<Rightarrow> term_ok t \<and> tm_closed t \<and> (\<exists>u. x = Some u \<and> detachedAt t = detachedAt u))"

definition ends_exactly ::
  "string list \<Rightarrow> (string \<Rightarrow> 's Terminal option) \<Rightarrow> (string \<Rightarrow> 's Terminal option) \<Rightarrow> bool" where
  "ends_exactly ids ts ts' \<longleftrightarrow> (\<forall>i. if i \<in> set ids then ended_entry (ts i) (ts' i) else ts' i = ts i)"

lemma ends_exactlyD:
  "ends_exactly ids ts ts' \<Longrightarrow> if i \<in> set ids then ended_entry (ts i) (ts' i) else ts' i = ts i"
  unfolding ends_exactly_def by blast

lemma ends_exactly_Cons_absent:
  assumes "ends_exactly is ts ts'" and "ts i = None"
  shows "ends_exactly (i # is) ts ts'"
  unfolding ends_exactly_def
proof
  fix j
  show "if j \<in> set (i # is) then ended_entry (ts j) (ts' j) else ts' j = ts j"
    using ends_exactlyD [OF assms(1), of j] assms(2)
    by (cases "j = i"; cases "j \<in> set is") (auto simp: ended_entry_def)
qed

lemma close_all_ok:
  assumes "\<forall>i t. ts i = Some t \<longrightarrow> term_ok t"
  shows "\<exists>ts'. close_all cl now why is ts = Some ts' \<and> ends_exactly is ts ts'"
  using assms
proof (induction "is" arbitrary: ts)
  case Nil
  then show ?case by (simp add: ends_exactly_def)
next
  case (Cons i "is")
  show ?case
  proof (cases "ts i")
    case None
    from Cons.IH [OF Cons.prems] obtain ts' where "close_all cl now why is ts = Some ts'" "ends_exactly is ts ts'" by blast
    with ends_exactly_Cons_absent None show ?thesis by simp blast
  next
    case (Some t)
    with Cons.prems have "term_ok t" by blast
    then obtain t' where t': "close_terminal cl now (Some (Deliberate why)) t = Some t'" "term_ok t'" "tm_closed t'"
      using close_terminal_ok by blast
    have same: "detachedAt t' = detachedAt t" by (rule close_terminal_keeps [OF t'(1)])
    have "\<forall>j u. (ts(i \<mapsto> t')) j = Some u \<longrightarrow> term_ok u" using Cons.prems t'(2) by simp
    from Cons.IH [OF this] obtain ts' where ts': "close_all cl now why is (ts(i \<mapsto> t')) = Some ts'"
      "ends_exactly is (ts(i \<mapsto> t')) ts'" by blast
    have "if j \<in> set (i # is) then ended_entry (ts j) (ts' j) else ts' j = ts j" for j
    proof -
      show ?thesis
        using ends_exactlyD [OF ts'(2), of j] t' same Some
        by (cases "j = i"; cases "ts' j"; cases "j \<in> set is") (simp_all add: ended_entry_def)
    qed
    then have "ends_exactly (i # is) ts ts'" by (simp only: ends_exactly_def) blast
    with ts'(1) t'(1) Some show ?thesis by simp
  qed
qed

lemma drop_and_close_ok:
  assumes "mgr_ok m"
  shows "\<exists>m'. drop_and_close cl now why ids m = Some m' \<and> mgr_ok m'
    \<and> set (registry m') = set (registry m) - set ids \<and> ends_exactly ids (terms m) (terms m')"
proof -
  have "\<forall>i t. terms m i = Some t \<longrightarrow> term_ok t" using mgr_okD [OF assms] by blast
  from close_all_ok [OF this] obtain ts where ts: "close_all cl now why ids (terms m) = Some ts"
    "ends_exactly ids (terms m) ts" by blast
  let ?m = "m\<lparr>registry := filter (\<lambda>i. i \<notin> set ids) (registry m), terms := ts\<rparr>"
  have "term_ok t \<and> (i \<in> set (registry ?m) \<or> tm_closed t)" if "terms ?m i = Some t" for i t
  proof -
    show ?thesis
      using ends_exactlyD [OF ts(2), of i] that mgr_okD [OF assms, of i t]
      by (cases "i \<in> set ids") (auto simp: ended_entry_def)
  qed
  then have "mgr_ok ?m" by (simp add: mgr_ok_def)
  with ts show ?thesis by (simp add: drop_and_close_def) blast
qed

lemma pump_end_closes:
  "term_ok t \<Longrightarrow> \<exists>t'. pump_end cl now err w t = Some t' \<and> term_ok t' \<and> (tm_closed t \<longrightarrow> tm_closed t')"
  using pump_end_ok [of t cl now err w] by (auto simp: pump_end_def close_terminal_def split: if_splits)

lemma perform_ok:
  assumes m: "mgr_ok m" and "well_opened a"
  shows "\<exists>m'. perform wr rs cl a m = Some m' \<and> mgr_ok m'"
proof (cases a)
  case (AOpen i now s p)
  with assms have "term_ok (new_terminal i now s p)"
    by (intro new_terminal_ok) (auto split: option.splits)
  with AOpen m show ?thesis by (simp add: mgr_ok_def manager_Open_def)
next
  case (AAttach i)
  have "\<exists>t'. map_option fst (Attach t) = Some t' \<and> term_ok t' \<and> (tm_closed t \<longrightarrow> tm_closed t')" if "term_ok t" for t
    using Attach_ok [OF that] Attach_closed [of t] by fastforce
  from on_term_ok [OF m this] AAttach show ?thesis by simp
next
  case (ADetach i now)
  have "\<exists>t'. Detach now t = Some t' \<and> term_ok t' \<and> (tm_closed t \<longrightarrow> tm_closed t')" if "term_ok t" for t
    using Detach_ok [OF that] Detach_closed [of now t] by fastforce
  from on_term_ok [OF m this] ADetach show ?thesis by simp
next
  case (APrint i fault p)
  have "\<exists>t'. pump_read fault p t = Some t' \<and> term_ok t' \<and> (tm_closed t \<longrightarrow> tm_closed t')" if "term_ok t" for t
    using pump_read_ok [OF that] pump_read_keeps [of fault p t] by fastforce
  from on_term_ok [OF m this] APrint show ?thesis by simp
next
  case (AShellEnd i now err w)
  from on_term_ok [OF m pump_end_closes] AShellEnd show ?thesis by simp
next
  case (AWrite i p)
  have "\<exists>t'. Some (fst (terminal_Write wr t p)) = Some t' \<and> term_ok t' \<and> (tm_closed t \<longrightarrow> tm_closed t')" if "term_ok t" for t
    using step_ok [OF typed [of wr rs cl t p] that] by simp
  from on_term_ok [OF m this] AWrite show ?thesis by simp
next
  case (AResize i c r)
  have "\<exists>t'. Some (fst (terminal_Resize rs t c r)) = Some t' \<and> term_ok t' \<and> (tm_closed t \<longrightarrow> tm_closed t')" if "term_ok t" for t
    using step_ok [OF resized [of wr rs cl t c r] that] by simp
  from on_term_ok [OF m this] AResize show ?thesis by simp
next
  case (ARecord i tr)
  have "\<exists>t'. Some (fst (StartRecording tr t)) = Some t' \<and> term_ok t' \<and> (tm_closed t \<longrightarrow> tm_closed t')" if "term_ok t" for t
    using step_ok [OF rec_on that] by simp
  from on_term_ok [OF m this] ARecord show ?thesis by simp
next
  case (AUnrecord i now)
  have "\<exists>t'. Some (fst (StopRecording now t)) = Some t' \<and> term_ok t' \<and> (tm_closed t \<longrightarrow> tm_closed t')" if "term_ok t" for t
    using step_ok [OF rec_off that] by simp
  from on_term_ok [OF m this] AUnrecord show ?thesis by simp
next
  case (AReap now)
  with drop_and_close_ok [OF m] show ?thesis by (fastforce simp: reapOnce_def)
next
  case (ACloseUser u i now)
  with drop_and_close_ok [OF m] m show ?thesis by (fastforce simp: CloseTerminal_def split: sum.split)
next
  case (ACloseAdmin i now)
  with drop_and_close_ok [OF m] m show ?thesis by (fastforce simp: CloseAny_def split: option.split)
next
  case (AShutdown now)
  with drop_and_close_ok [OF m] show ?thesis by (fastforce simp: manager_Close_def)
qed

subsection \<open>A terminal nobody comes back to\<close>

fun visits :: "string \<Rightarrow> 's action \<Rightarrow> bool" where
  "visits i (AAttach j) = (j = i)"
| "visits i (ADetach j now) = (j = i)"
| "visits i _ = False"

definition idle_since :: "int \<Rightarrow> 's Manager \<Rightarrow> string \<Rightarrow> bool" where
  "idle_since d m i \<longleftrightarrow> (\<exists>t. terms m i = Some t \<and> attached t = None \<and> detachedAt t = Some d)"

definition stays_idle :: "int \<Rightarrow> string \<Rightarrow> 's Manager \<Rightarrow> 's Manager \<Rightarrow> bool" where
  "stays_idle d i m m' \<longleftrightarrow> idle_since d m' i \<and> (i \<in> set (registry m') \<longrightarrow> i \<in> set (registry m))"

lemma on_term_idle:
  assumes "idle_since d m i" and "on_term j f m = Some m'"
    and "j = i \<Longrightarrow> (\<And>t t'. f t = Some t' \<Longrightarrow> attached t = None \<Longrightarrow> attached t' = None \<and> detachedAt t' = detachedAt t)"
  shows "stays_idle d i m m'"
proof (cases "terms m j")
  case None
  with assms(1,2) show ?thesis by (simp add: on_term_def stays_idle_def)
next
  case (Some t)
  with assms(2) obtain t' where t': "f t = Some t'" "m' = m\<lparr>terms := (terms m)(j \<mapsto> t')\<rparr>"
    by (auto simp: on_term_def)
  show ?thesis
  proof (cases "j = i")
    case True
    with assms(1) Some have "attached t = None" "detachedAt t = Some d" by (auto simp: idle_since_def)
    with assms(3) [OF True t'(1)] t' True show ?thesis by (simp add: stays_idle_def idle_since_def)
  next
    case False
    with assms(1) t'(2) show ?thesis by (auto simp: stays_idle_def idle_since_def)
  qed
qed

lemma drop_and_close_idle:
  assumes "mgr_ok m" and "idle_since d m i" and "drop_and_close cl now why ids m = Some m'"
  shows "stays_idle d i m m'"
proof -
  from drop_and_close_ok [OF assms(1), of cl now why ids] assms(3)
  have m': "set (registry m') = set (registry m) - set ids" "ends_exactly ids (terms m) (terms m')" by auto
  from assms(2) obtain t where t: "terms m i = Some t" "attached t = None" "detachedAt t = Some d"
    by (auto simp: idle_since_def)
  have "\<exists>t'. terms m' i = Some t' \<and> attached t' = None \<and> detachedAt t' = Some d"
  proof (cases "i \<in> set ids")
    case True
    with ends_exactlyD [OF m'(2), of i] have "ended_entry (Some t) (terms m' i)" by (simp add: t)
    then obtain t' where "terms m' i = Some t'" "term_ok t'" "tm_closed t'" "detachedAt t' = detachedAt t"
      by (auto simp: ended_entry_def split: option.splits)
    with t(3) show ?thesis by (simp add: term_ok_def)
  next
    case False
    with ends_exactlyD [OF m'(2), of i] t show ?thesis by simp
  qed
  with m'(1) show ?thesis by (simp add: stays_idle_def idle_since_def)
qed

lemma pump_end_idle:
  "pump_end cl now err w t = Some t' \<Longrightarrow> attached t = None \<Longrightarrow> attached t' = None \<and> detachedAt t' = detachedAt t"
  by (auto simp: pump_end_def close_terminal_def split: if_splits)

lemma perform_idle:
  assumes m: "mgr_ok m" and idle: "idle_since d m i" and "\<not> visits i a" and "perform wr rs cl a m = Some m'"
  shows "stays_idle d i m m'"
proof -
  have self: "stays_idle d i m m" using idle by (simp add: stays_idle_def)
  show ?thesis
  proof (cases a)
    case (AOpen j now s p)
    with assms self show ?thesis
      by (auto simp: manager_Open_def stays_idle_def idle_since_def split: if_splits)
  next
    case (AReap now)
    with assms drop_and_close_idle [OF m idle] show ?thesis by (auto simp: reapOnce_def)
  next
    case (ACloseUser u j now)
    with assms self drop_and_close_idle [OF m idle] show ?thesis
      by (auto simp: CloseTerminal_def split: sum.splits)
  next
    case (ACloseAdmin j now)
    with assms self drop_and_close_idle [OF m idle] show ?thesis
      by (auto simp: CloseAny_def split: option.splits)
  next
    case (AShutdown now)
    with assms drop_and_close_idle [OF m idle] show ?thesis by (auto simp: manager_Close_def)
  next
    case (AShellEnd j now err w)
    with assms(4) show ?thesis by (auto intro!: on_term_idle [OF idle] dest: pump_end_idle)
  qed (use assms in \<open>auto intro!: on_term_idle [OF idle] dest: pump_read_keeps\<close>)
qed


lemma quiet_run:
  assumes "mgr_ok m" and "idle_since d m i" and "\<forall>a \<in> set as. \<not> visits i a \<and> well_opened a"
  shows "\<exists>m'. perform_all wr rs cl as m = Some m' \<and> mgr_ok m' \<and> stays_idle d i m m'"
  using assms
proof (induction as arbitrary: m)
  case Nil
  then show ?case by (simp add: stays_idle_def)
next
  case (Cons a as)
  then obtain m1 where m1: "perform wr rs cl a m = Some m1" "mgr_ok m1" using perform_ok [of m a wr rs cl] by auto
  have idle: "stays_idle d i m m1" using perform_idle [OF Cons.prems(1,2) _ m1(1)] Cons.prems(3) by simp
  with Cons.IH [OF m1(2)] Cons.prems(3) m1(1) show ?case by (fastforce simp: stays_idle_def)
qed

lemma reap_takes_expired:
  assumes "mgr_ok m" and "idle_since d m i" and "now - d > DetachedGrace" and "perform wr rs cl (AReap now) m = Some m'"
  shows "i \<notin> set (registry m')"
proof -
  from assms(4) have "drop_and_close cl now ''terminal: abandoned'' (abandoned now m) m = Some m'"
    by (auto simp: reapOnce_def)
  with drop_and_close_ok [OF assms(1), of cl now "''terminal: abandoned''" "abandoned now m"]
  have "set (registry m') = set (registry m) - set (abandoned now m)" by auto
  moreover have "i \<in> set (registry m) \<Longrightarrow> i \<in> set (abandoned now m)"
    using assms(2,3) by (auto simp: abandoned_def idle_since_def expired_def)
  ultimately show ?thesis by blast
qed

text \<open>
  C25 (liveness). A terminal that was left by its browser and that nobody attaches to again does
  end: in every history of the server that contains a run of the reaper more than
  \<^verbatim>\<open>DetachedGrace\<close> after the browser left, whatever else happens before and after it, the
  terminal is closed, what it borrowed has been given back, and it is no longer listed.
\<close>

theorem abandoned_terminal_ends:
  assumes "mgr_ok m" and "idle_since d m i" and "\<forall>a \<in> set (before @ after). \<not> visits i a \<and> well_opened a"
    and "now - d > DetachedGrace"
  shows "\<exists>m' t. perform_all wr rs cl (before @ AReap now # after) m = Some m'
    \<and> terms m' i = Some t \<and> tm_closed t \<and> releases t = 1 \<and> i \<notin> set (registry m')"
proof -
  have split: "perform_all wr rs cl (xs @ ys) m0 = Option.bind (perform_all wr rs cl xs m0) (perform_all wr rs cl ys)" for xs ys m0
    by (induction xs arbitrary: m0) (auto split: bind_splits)
  obtain m1 where m1: "perform_all wr rs cl before m = Some m1" "mgr_ok m1" "stays_idle d i m m1"
    using quiet_run [OF assms(1,2), of before wr rs cl] assms(3) by auto
  then have idle1: "idle_since d m1 i" by (simp add: stays_idle_def)
  obtain m2 where m2: "perform wr rs cl (AReap now) m1 = Some m2" "mgr_ok m2" using perform_ok [OF m1(2), of "AReap now" wr rs cl] by auto
  have out: "i \<notin> set (registry m2)" by (rule reap_takes_expired [OF m1(2) idle1 assms(4) m2(1)])
  have "stays_idle d i m1 m2" by (rule perform_idle [OF m1(2) idle1 _ m2(1)]) simp
  then have "idle_since d m2 i" by (simp add: stays_idle_def)
  then obtain m3 where m3: "perform_all wr rs cl after m2 = Some m3" "mgr_ok m3" "stays_idle d i m2 m3"
    using quiet_run [OF m2(2), of d i after wr rs cl] assms(3) by auto
  with out obtain t where "terms m3 i = Some t" "i \<notin> set (registry m3)" by (auto simp: stays_idle_def idle_since_def)
  with mgr_okD [OF m3(2)] m1(1) m2(1) m3(1) show ?thesis by (fastforce simp: split term_ok_def)
qed

definition demo_manager :: "wire Manager" where
  "demo_manager = \<lparr>terms = [''t'' \<mapsto> demo_term\<lparr>detachedAt := Some 10\<rparr>], registry = [''t''], draining = False\<rparr>"

theorem abandoned_terminal_ends_witness:
  "\<exists>m' t. perform_all wire_write (\<lambda>s c r. (s, True)) wire_close
       [APrint ''t'' None [104], AReap (16 * minute), AWrite ''t'' ''x''] demo_manager = Some m'
     \<and> terms m' ''t'' = Some t \<and> tm_closed t \<and> ''t'' \<notin> set (registry m')"
proof -
  have "term_ok (demo_term\<lparr>detachedAt := Some 10\<rparr>)"
    using new_terminal_ok [of demo_open "''t''" 0 "\<lparr>written = [], budget = None, hung_up = False\<rparr>"]
    by (simp add: demo_open_def demo_term_def term_ok_def recording_kept_def)
  then have "mgr_ok demo_manager" by (simp add: mgr_ok_def demo_manager_def)
  moreover have "idle_since 10 demo_manager ''t''"
    by (simp add: idle_since_def demo_manager_def demo_term_def new_terminal_def)
  ultimately show ?thesis
    using abandoned_terminal_ends [of demo_manager 10 "''t''" "[APrint ''t'' None [104]]" "[AWrite ''t'' ''x'']" "16 * minute"
        wire_write "\<lambda>s c r. (s, True)" wire_close]
    by (auto simp: DetachedGrace_def)
qed

end
