(* ===== verification/Terminal_Bridge.thy ===== *)
theory Terminal_Bridge
  imports Terminal_Manager
begin

section \<open>The websocket bridge (\<^verbatim>\<open>internal/terminal/bridge.go\<close>, \<^verbatim>\<open>protocol.go\<close>)\<close>

text \<open>
  A bridge carries one browser's socket to one terminal and mirrors its keys to a broadcast group.
  Terminals are named by their identifiers in the registry. What the bridge sent is kept in the
  record: control messages, binary frames, and the calls of \<^verbatim>\<open>GroupChanged\<close>. Messages arrive
  decoded: \<open>None\<close> is a text frame that is not JSON. \<^verbatim>\<open>Run\<close> is three pieces, because other
  goroutines run between them: \<open>Run_start\<close> up to its \<^verbatim>\<open>select\<close>, the messages and frames
  handled meanwhile, and \<open>Run_return\<close> with the deferred \<^verbatim>\<open>Detach\<close>. The host key fields of
  a control message belong to the dial path and are left out.
\<close>

record Control =
  c_Type :: string
  c_Cols :: int
  c_Rows :: int
  c_Status :: string
  c_Message :: string
  c_Code :: string
  c_TerminalID :: string
  c_ExitStatus :: "int option"
  c_Final :: bool
  c_Trigger :: "TriggerEvent option"
  c_Highlights :: "Highlight list"
  c_Terminals :: "string list"

definition ControlResize :: string where "ControlResize = ''resize''"
definition ControlBroadcast :: string where "ControlBroadcast = ''broadcast''"
definition ControlPing :: string where "ControlPing = ''ping''"
definition ControlStatus :: string where "ControlStatus = ''status''"
definition ControlError :: string where "ControlError = ''error''"
definition ControlWarning :: string where "ControlWarning = ''warning''"
definition ControlClosed :: string where "ControlClosed = ''closed''"
definition ControlPong :: string where "ControlPong = ''pong''"

definition StatusConnected :: string where "StatusConnected = ''connected''"
definition StatusReattached :: string where "StatusReattached = ''reattached''"
definition ErrCodeNotFound :: string where "ErrCodeNotFound = ''not_found''"
definition ErrCodeInternal :: string where "ErrCodeInternal = ''internal_error''"

definition control :: "string \<Rightarrow> Control" where
  "control ty =
     \<lparr>c_Type = ty, c_Cols = 0, c_Rows = 0, c_Status = '''', c_Message = '''', c_Code = '''', c_TerminalID = '''',
      c_ExitStatus = None, c_Final = False, c_Trigger = None, c_Highlights = [], c_Terminals = []\<rparr>"

definition errorMessage :: "string \<Rightarrow> string \<Rightarrow> Control" where
  "errorMessage code msg = (control ControlError)\<lparr>c_Code := code, c_Message := msg\<rparr>"

text \<open>A message that is JSON but has no type is refused as well.\<close>

definition DecodeControl :: "Control option \<Rightarrow> Control option" where
  "DecodeControl x = (case x of None \<Rightarrow> None | Some c \<Rightarrow> if c_Type c = '''' then None else Some c)"

record Bridge =
  b_term :: string
  b_broadcaster :: "string option"
  mirror :: "string list"
  b_output :: nat
  sent_controls :: "Control list"
  sent_frames :: "byte list list"
  group_changes :: "string list list"

definition NewBridge :: "string \<Rightarrow> Bridge" where
  "NewBridge i = \<lparr>b_term = i, b_broadcaster = None, mirror = [], b_output = 0, sent_controls = [],
                  sent_frames = [], group_changes = []\<rparr>"

definition WithBroadcast :: "Bridge \<Rightarrow> string \<Rightarrow> Bridge" where
  "WithBroadcast b user = b\<lparr>b_broadcaster := Some user\<rparr>"

definition sendControl :: "Bridge \<Rightarrow> Control \<Rightarrow> Bridge" where
  "sendControl b c = b\<lparr>sent_controls := sent_controls b @ [c]\<rparr>"

subsection \<open>Broadcast groups\<close>

text \<open>\<^verbatim>\<open>broadcaster.Targets\<close> of \<^verbatim>\<open>internal/api/terminal_handlers.go\<close>.\<close>

fun Targets :: "'s Manager \<Rightarrow> string \<Rightarrow> string list \<Rightarrow> (terminal_error, string list) result" where
  "Targets m user [] = Inr []"
| "Targets m user (i # is) = bindr (manager_Get m user i) (\<lambda>t. bindr (Targets m user is) (\<lambda>rest. Inr (i # rest)))"

definition setBroadcast :: "'s Manager \<Rightarrow> string list \<Rightarrow> Bridge \<Rightarrow> Bridge" where
  "setBroadcast m ids b =
     (case b_broadcaster b of
        None \<Rightarrow> sendControl b (errorMessage ErrCodeInternal ''This server does not support broadcasting.'')
      | Some user \<Rightarrow>
          if ids = [] then
            sendControl (b\<lparr>mirror := [], group_changes := group_changes b @ [[]]\<rparr>) (control ControlBroadcast)
          else case Targets m user ids of
              Inl e \<Rightarrow> sendControl b (errorMessage ErrCodeNotFound
                         ''One of those terminals is no longer open, so nothing was joined.'')
            | Inr targets \<Rightarrow>
                let group = filter (\<lambda>i. i \<noteq> b_term b) targets
                in sendControl (b\<lparr>mirror := group, group_changes := group_changes b @ [group]\<rparr>)
                     ((control ControlBroadcast)\<lparr>c_Terminals := group\<rparr>))"

text \<open>The loop over the group: the terminals after it, who stays, and the labels of those that left.\<close>

fun mirror_loop :: "'s writer \<Rightarrow> string \<Rightarrow> string list \<Rightarrow> (string \<Rightarrow> 's Terminal option)
    \<Rightarrow> (string \<Rightarrow> 's Terminal option) \<times> string list \<times> string list" where
  "mirror_loop wr p [] ts = (ts, [], [])"
| "mirror_loop wr p (i # is) ts =
     (case ts i of
        None \<Rightarrow> mirror_loop wr p is ts
      | Some t \<Rightarrow>
          (case terminal_Write wr t p of (t', r) \<Rightarrow>
           case mirror_loop wr p is (ts(i \<mapsto> t')) of (ts', live, left) \<Rightarrow>
             if is_ok r then (ts', i # live, left) else (ts', live, tm_Label t # left)))"

definition mirrorInput :: "'s writer \<Rightarrow> string \<Rightarrow> 's Manager \<times> Bridge \<Rightarrow> 's Manager \<times> Bridge" where
  "mirrorInput wr p mb =
     (case mb of (m, b) \<Rightarrow>
      case mirror_loop wr p (mirror b) (terms m) of (ts, live, left) \<Rightarrow>
        (m\<lparr>terms := ts\<rparr>,
         b\<lparr>mirror := live,
           sent_controls := sent_controls b @ map (\<lambda>l. (control ControlWarning)\<lparr>c_Code := ''broadcast_target_ended'',
              c_Message := l @ '' has ended and left the broadcast group.''\<rparr>) left\<rparr>))"

subsection \<open>Messages from the browser\<close>

definition handleControl ::
  "('s \<Rightarrow> int \<Rightarrow> int \<Rightarrow> 's \<times> bool) \<Rightarrow> Control option \<Rightarrow> 's Manager \<times> Bridge \<Rightarrow> 's Manager \<times> Bridge" where
  "handleControl rs x mb =
     (case mb of (m, b) \<Rightarrow>
      case DecodeControl x of
        None \<Rightarrow> (m, sendControl b (errorMessage ErrCodeInternal ''That control message could not be read.''))
      | Some msg \<Rightarrow>
          if c_Type msg = ControlResize then
            (if c_Cols msg \<le> 0 \<or> c_Rows msg \<le> 0 then (m, b)
             else case terms m (b_term b) of
                 None \<Rightarrow> (m, b)
               | Some t \<Rightarrow> (m\<lparr>terms := (terms m)(b_term b \<mapsto> fst (terminal_Resize rs t (c_Cols msg) (c_Rows msg)))\<rparr>, b))
          else if c_Type msg = ControlBroadcast then (m, setBroadcast m (c_Terminals msg) b)
          else if c_Type msg = ControlPing then (m, sendControl b (control ControlPong))
          else (m, b))"

datatype message = Binary string | Text "Control option"
datatype verdict = Continue | Finish | FinishErr terminal_error

fun readFromBrowser ::
  "'s writer \<Rightarrow> ('s \<Rightarrow> int \<Rightarrow> int \<Rightarrow> 's \<times> bool) \<Rightarrow> message \<Rightarrow> 's Manager \<times> Bridge \<Rightarrow> ('s Manager \<times> Bridge) \<times> verdict" where
  "readFromBrowser wr rs (Binary p) (m, b) =
     (case terms m (b_term b) of
        None \<Rightarrow> ((m, b), Finish)
      | Some t \<Rightarrow>
          (case terminal_Write wr t p of (t', r) \<Rightarrow>
             let m1 = m\<lparr>terms := (terms m)(b_term b \<mapsto> t')\<rparr>
             in case r of
                  Inl e \<Rightarrow> ((m1, b), if e = ErrTerminalClosed then Finish else FinishErr e)
                | Inr _ \<Rightarrow> (mirrorInput wr p (m1, b), Continue)))"
| "readFromBrowser wr rs (Text x) mb = (handleControl rs x mb, Continue)"

subsection \<open>The life of a bridge\<close>

definition cause_text :: "cause \<Rightarrow> string" where
  "cause_text c = (case c of Deliberate s \<Rightarrow> s | Fault s \<Rightarrow> s)"

definition reportClosed :: "'s Terminal \<Rightarrow> Bridge \<Rightarrow> Bridge" where
  "reportClosed t b =
     sendControl b ((control ControlClosed)\<lparr>c_TerminalID := b_term b, c_ExitStatus := exitCode t,
       c_Final := EndedDeliberately t,
       c_Message := (case closeErr t of Some e \<Rightarrow> cause_text e | None \<Rightarrow> ''The remote session ended.'')\<rparr>)"

text \<open>Up to the \<^verbatim>\<open>select\<close>; \<open>None\<close> is a panic, and the flag says whether \<^verbatim>\<open>Run\<close> goes on.\<close>

definition Run_start :: "'s Manager \<times> Bridge \<Rightarrow> (('s Manager \<times> Bridge) \<times> bool) option" where
  "Run_start mb =
     (case mb of (m, b) \<Rightarrow>
      case terms m (b_term b) of
        None \<Rightarrow> Some ((m, b), False)
      | Some t \<Rightarrow>
          (case Attach t of
             None \<Rightarrow> None
           | Some (t', Inl e) \<Rightarrow> Some ((m, reportClosed t b), False)
           | Some (t', Inr a) \<Rightarrow>
               (let hello = (control ControlStatus)\<lparr>c_Status := (if Reattached a then StatusReattached else StatusConnected),
                      c_TerminalID := b_term b, c_Cols := tm_cols t', c_Rows := tm_rows t', c_Highlights := tm_Highlights t'\<rparr>;
                    b1 = (sendControl b hello)\<lparr>b_output := Output a\<rparr>
                in Some ((m\<lparr>terms := (terms m)(b_term b \<mapsto> t')\<rparr>,
                          if Replay a = [] then b1 else b1\<lparr>sent_frames := sent_frames b1 @ [Replay a]\<rparr>), True))))"

text \<open>One round of \<^verbatim>\<open>writeToBrowser\<close>: the verdict \<open>Finish\<close> ends \<^verbatim>\<open>Run\<close>.\<close>

definition writeToBrowser :: "'s Manager \<times> Bridge \<Rightarrow> ('s Manager \<times> Bridge) \<times> verdict" where
  "writeToBrowser mb =
     (case mb of (m, b) \<Rightarrow>
      case terms m (b_term b) of
        None \<Rightarrow> (mb, Finish)
      | Some t \<Rightarrow>
          (case chan_recv (b_output b) (channels t) of (chs, r) \<Rightarrow>
             let m1 = m\<lparr>terms := (terms m)(b_term b \<mapsto> t\<lparr>channels := chs\<rparr>)\<rparr>
             in case r of
                  Frame p \<Rightarrow> ((m1, b\<lparr>sent_frames := sent_frames b @ [p]\<rparr>), Continue)
                | NothingYet \<Rightarrow> ((m1, b), Continue)
                | EndOfOutput \<Rightarrow> ((m1, b), Finish)))"

text \<open>How \<^verbatim>\<open>Run\<close> returns: it reports a terminal that has ended, and always detaches.\<close>

definition Run_return :: "int \<Rightarrow> 's Manager \<times> Bridge \<Rightarrow> ('s Manager \<times> Bridge) option" where
  "Run_return now mb =
     (case mb of (m, b) \<Rightarrow>
      case terms m (b_term b) of
        None \<Rightarrow> Some mb
      | Some t \<Rightarrow>
          map_option (\<lambda>t'. (m\<lparr>terms := (terms m)(b_term b \<mapsto> t')\<rparr>, if tm_closed t then reportClosed t b else b))
            (Detach now t))"

subsection \<open>Properties\<close>

lemma Targets_ids: "Targets m user ids = Inr ts \<Longrightarrow> ts = ids \<and> (\<forall>i \<in> set ids. is_ok (manager_Get m user i))"
  by (induction ids arbitrary: ts) (auto simp: bindr_Inr_iff)

text \<open>How often a terminal of the table was typed into.\<close>

definition typed_into :: "(string \<Rightarrow> wire Terminal option) \<Rightarrow> string \<Rightarrow> string list" where
  "typed_into ts i = (case ts i of None \<Rightarrow> [] | Some t \<Rightarrow> written (tm_shell t))"

definition live_terms :: "(string \<Rightarrow> wire Terminal option) \<Rightarrow> string list \<Rightarrow> bool" where
  "live_terms ts ids \<longleftrightarrow> (\<forall>i \<in> set ids. \<exists>t. ts i = Some t \<and> \<not> tm_closed t \<and> wire_lasting (tm_shell t))"

lemma write_live:
  assumes "\<not> tm_closed t" and "wire_lasting (tm_shell t)"
  shows "\<exists>t'. terminal_Write wire_write t p = (t', Inr ()) \<and> \<not> tm_closed t' \<and> wire_lasting (tm_shell t')
    \<and> written (tm_shell t') = written (tm_shell t) @ [p]"
  using assms wire.write_ready [OF wire.lasting_ready [OF assms(2)], of p] wire.write_lasting [OF assms(2), of p]
  by (simp add: terminal_Write_def case_prod_beta)

lemma mirror_loop_live:
  assumes "live_terms ts ids"
  shows "\<exists>ts'. mirror_loop wire_write p ids ts = (ts', ids, [])
    \<and> (\<forall>i. typed_into ts' i = typed_into ts i @ replicate (count_list ids i) p)"
  using assms
proof (induction ids arbitrary: ts)
  case Nil
  then show ?case by simp
next
  case (Cons i ids)
  then obtain t where t: "ts i = Some t" "\<not> tm_closed t" "wire_lasting (tm_shell t)" by (auto simp: live_terms_def)
  then obtain t' where t': "terminal_Write wire_write t p = (t', Inr ())" "\<not> tm_closed t'" "wire_lasting (tm_shell t')"
    "written (tm_shell t') = written (tm_shell t) @ [p]" using write_live by blast
  have "live_terms (ts(i \<mapsto> t')) ids" using Cons.prems t' by (auto simp: live_terms_def)
  from Cons.IH [OF this] obtain ts' where ts': "mirror_loop wire_write p ids (ts(i \<mapsto> t')) = (ts', ids, [])"
    "\<forall>j. typed_into ts' j = typed_into (ts(i \<mapsto> t')) j @ replicate (count_list ids j) p" by blast
  have "typed_into (ts(i \<mapsto> t')) j = typed_into ts j @ (if j = i then [p] else [])" for j
    using t(1) t'(4) by (simp add: typed_into_def)
  with ts' t(1) t'(1) show ?case by (auto simp: replicate_append_same [symmetric])
qed

text \<open>
  After a browser has put its keyboard on a group, a keystroke reaches its own
  terminal once and every other terminal as often as the request named it. So nobody outside the
  group is typed at and the primary is not typed at twice; but a terminal named twice receives
  every key twice, because the group is not deduplicated.
\<close>

theorem keystroke_reaches_group:
  assumes "b_broadcaster b = Some user" and "ids \<noteq> []" and "Targets m user ids = Inr ts"
    and "live_terms (terms m) (b_term b # ids)"
  shows "let ((m', b'), v) = readFromBrowser wire_write rs (Binary p) (m, setBroadcast m ids b)
         in v = Continue \<and> mirror b' = filter (\<lambda>i. i \<noteq> b_term b) ids
          \<and> (\<forall>i. typed_into (terms m') i = typed_into (terms m) i
                 @ replicate (if i = b_term b then 1 else count_list ids i) p)"
proof -
  let ?g = "filter (\<lambda>i. i \<noteq> b_term b) ids"
  have b: "b_term (setBroadcast m ids b) = b_term b" "mirror (setBroadcast m ids b) = ?g"
    using assms(1,2,3) Targets_ids [OF assms(3)] by (simp_all add: setBroadcast_def sendControl_def Let_def)
  obtain t where t: "terms m (b_term b) = Some t" "\<not> tm_closed t" "wire_lasting (tm_shell t)"
    using assms(4) by (auto simp: live_terms_def)
  then obtain t' where t': "terminal_Write wire_write t p = (t', Inr ())" "\<not> tm_closed t'" "wire_lasting (tm_shell t')"
    "written (tm_shell t') = written (tm_shell t) @ [p]" using write_live by blast
  let ?ts = "(terms m)(b_term b \<mapsto> t')"
  have "live_terms ?ts ?g" using assms(4) by (auto simp: live_terms_def)
  from mirror_loop_live [OF this, of p] obtain ts' where ts': "mirror_loop wire_write p ?g ?ts = (ts', ?g, [])"
    "\<And>i. typed_into ts' i = typed_into ?ts i @ replicate (count_list ?g i) p" by blast
  have "typed_into ?ts i = typed_into (terms m) i @ (if i = b_term b then [p] else [])" for i
    using t(1) t'(4) by (simp add: typed_into_def)
  moreover have "count_list ?g i = (if i = b_term b then 0 else count_list ids i)" for i
    by (induction ids) auto
  ultimately have "typed_into ts' i = typed_into (terms m) i @ replicate (if i = b_term b then 1 else count_list ids i) p" for i
    using ts'(2) [of i] by simp
  with ts'(1) t(1) t'(1) b show ?thesis by (simp add: mirrorInput_def Let_def)
qed

definition two_terminals :: "wire Manager" where
  "two_terminals = \<lparr>terms = [''t'' \<mapsto> demo_term, ''u'' \<mapsto> demo_term], registry = [''t'', ''u''], draining = False\<rparr>"

theorem keystroke_reaches_group_witness:
  "typed_into (terms (fst (fst (readFromBrowser wire_write (\<lambda>s c r. (s, True)) (Binary ''x'')
       (two_terminals, setBroadcast two_terminals [''u'', ''u''] (WithBroadcast (NewBridge ''t'') ''u'')))))) ''u'' = [''x'', ''x'']"
proof -
  let ?b = "WithBroadcast (NewBridge ''t'') ''u''"
  have "Targets two_terminals ''u'' [''u'', ''u''] = Inr [''u'', ''u'']" "b_broadcaster ?b = Some ''u''"
    "live_terms (terms two_terminals) (b_term ?b # [''u'', ''u''])"
    by (simp_all add: two_terminals_def manager_Get_def registered_def demo_term_def new_terminal_def demo_open_def
        WithBroadcast_def NewBridge_def live_terms_def wire_lasting_def)
  from keystroke_reaches_group [OF this(2) _ this(1) this(3), of "\<lambda>s c r. (s, True)" "''x''"] show ?thesis
    by (simp add: case_prod_beta Let_def WithBroadcast_def NewBridge_def two_terminals_def typed_into_def
        demo_term_def new_terminal_def numeral_2_eq_2)
qed

lemma Attach_open:
  assumes "term_ok t" and "\<not> tm_closed t"
  obtains chs where "Attach t = Some (t\<lparr>channels := chs @ [fresh_channel], attached := Some (length chs), detachedAt := None,
        attachments := attachments t + 1\<rparr>,
      Inr \<lparr>Replay = ring_Bytes (replay t), Output = length chs, Reattached = attachments t + 1 > 1\<rparr>)"
    and "only_open None chs" and "map frames chs = map frames (channels t)"
proof -
  obtain chs where chs: "on_attached chan_close t = Some chs" "only_open None chs" "map frames chs = map frames (channels t)"
    using close_attached [OF term_ok_open [OF assms(1)]] .
  from chs(1) assms(2) that [OF _ chs(2,3)] show ?thesis by (simp add: Attach_def)
qed


lemma Run_start_open:
  assumes "terms m (b_term b) = Some t" and "term_ok t" and "\<not> tm_closed t"
  obtains chs b' t' where "Run_start (m, b) = Some ((m\<lparr>terms := (terms m)(b_term b \<mapsto> t')\<rparr>, b'), True)"
    and "channels t' = chs @ [fresh_channel]" and "attached t' = Some (length chs)" and "term_ok t'" and "\<not> tm_closed t'"
    and "only_open None chs" and "map frames chs = map frames (channels t)"
    and "b_term b' = b_term b" and "b_output b' = length chs"
proof -
  obtain chs where a: "Attach t = Some (t\<lparr>channels := chs @ [fresh_channel], attached := Some (length chs), detachedAt := None,
        attachments := attachments t + 1\<rparr>,
      Inr \<lparr>Replay = ring_Bytes (replay t), Output = length chs, Reattached = attachments t + 1 > 1\<rparr>)"
    and chs: "only_open None chs" "map frames chs = map frames (channels t)"
    using Attach_open [OF assms(2,3)] .
  let ?t = "t\<lparr>channels := chs @ [fresh_channel], attached := Some (length chs), detachedAt := None, attachments := attachments t + 1\<rparr>"
  have "\<exists>b'. Run_start (m, b) = Some ((m\<lparr>terms := (terms m)(b_term b \<mapsto> ?t)\<rparr>, b'), True)
      \<and> b_term b' = b_term b \<and> b_output b' = length chs"
    by (simp add: Run_start_def assms(1) a Let_def sendControl_def)
  then obtain b' where b': "Run_start (m, b) = Some ((m\<lparr>terms := (terms m)(b_term b \<mapsto> ?t)\<rparr>, b'), True)"
    "b_term b' = b_term b" "b_output b' = length chs" by blast
  have "term_ok ?t" using Attach_ok [OF assms(2)] a by auto
  with that [OF b'(1) _ _ _ _ chs b'(2,3)] assms(3) show ?thesis by simp
qed

text \<open>A writer whose channel is closed and drained finishes.\<close>

lemma writer_finishes:
  assumes "terms m (b_term b) = Some t" and "frames (channels t ! b_output b) = []" and "ch_closed (channels t ! b_output b)"
  shows "writeToBrowser (m, b) = ((m\<lparr>terms := (terms m)(b_term b \<mapsto> t)\<rparr>, b), Finish)"
  using assms by (simp add: writeToBrowser_def chan_recv_def)

lemma Detach_attached:
  assumes "term_ok t" and "attached t = Some c"
  obtains t' where "Detach now t = Some t'" and "tm_closed t' = tm_closed t" and "attached t' = None"
    and "ch_closed (channels t' ! c)" and "frames (channels t' ! c) = frames (channels t ! c)"
proof -
  have "c < length (channels t)" "\<not> ch_closed (channels t ! c)" using assms by (auto simp: term_ok_def only_open_def)
  with assms(2) that show ?thesis by (simp add: Detach_def on_attached_def chan_close_def)
qed

text \<open>
  A second browser that takes a terminal over is thrown off it again by the first.
  Taking over closes the first browser's channel, so the first bridge's writer finishes and its
  \<^verbatim>\<open>Run\<close> returns; the deferred \<^verbatim>\<open>Detach\<close> then closes whichever channel is attached, which
  is the second browser's. The terminal is still running, nobody is attached, and the writer of
  the second bridge finds its channel at an end too.
\<close>

theorem displaced_browser_evicts_successor:
  assumes "terms m i = Some t" and "term_ok t" and "\<not> tm_closed t" and "b_term b1 = i" and "b_term b2 = i"
  shows "\<exists>m1 m2 m3 m4 c1 c2 t4.
     Run_start (m, b1) = Some ((m1, c1), True) \<and> Run_start (m1, b2) = Some ((m2, c2), True)
     \<and> writeToBrowser (m2, c1) = ((m3, c1), Finish) \<and> Run_return now (m3, c1) = Some (m4, c1)
     \<and> terms m4 i = Some t4 \<and> \<not> tm_closed t4 \<and> attached t4 = None
     \<and> snd (writeToBrowser (m4, c2)) = Finish"
proof -
  have i: "terms m (b_term b1) = Some t" using assms(1,4) by simp
  obtain chs1 c1 t1 where one: "Run_start (m, b1) = Some ((m\<lparr>terms := (terms m)(b_term b1 \<mapsto> t1)\<rparr>, c1), True)"
    "channels t1 = chs1 @ [fresh_channel]" "term_ok t1" "\<not> tm_closed t1" "b_term c1 = b_term b1" "b_output c1 = length chs1"
    using Run_start_open [OF i assms(2,3)] by metis
  let ?m1 = "m\<lparr>terms := (terms m)(b_term b1 \<mapsto> t1)\<rparr>"
  have i1: "terms ?m1 (b_term b2) = Some t1" using assms(4,5) by simp
  obtain chs2 c2 t2 where two: "Run_start (?m1, b2) = Some ((?m1\<lparr>terms := (terms ?m1)(b_term b2 \<mapsto> t2)\<rparr>, c2), True)"
    "channels t2 = chs2 @ [fresh_channel]" "attached t2 = Some (length chs2)" "term_ok t2" "\<not> tm_closed t2"
    "only_open None chs2" "map frames chs2 = map frames (channels t1)" "b_term c2 = b_term b2" "b_output c2 = length chs2"
    using Run_start_open [OF i1 one(3,4)] by metis
  let ?m2 = "?m1\<lparr>terms := (terms ?m1)(b_term b2 \<mapsto> t2)\<rparr>"
  have len: "length chs1 < length chs2" using arg_cong [OF two(7), of length] one(2) by simp
  have drained: "frames (channels t2 ! length chs1) = []" "ch_closed (channels t2 ! length chs1)"
    using arg_cong [OF two(7), of "\<lambda>xs. xs ! length chs1"] one(2) len two(2,6)
    by (simp_all add: nth_append fresh_channel_def only_open_def)
  have t2: "terms ?m2 (b_term c1) = Some t2" using assms(4,5) one(5) by simp
  have fin: "writeToBrowser (?m2, c1) = ((?m2\<lparr>terms := (terms ?m2)(b_term c1 \<mapsto> t2)\<rparr>, c1), Finish)"
    by (rule writer_finishes [OF t2]) (use drained one(6) in simp_all)
  obtain t4 where t4: "Detach now t2 = Some t4" "tm_closed t4 = tm_closed t2" "attached t4 = None"
    "ch_closed (channels t4 ! length chs2)" "frames (channels t4 ! length chs2) = frames (channels t2 ! length chs2)"
    using Detach_attached [OF two(4,3)] .
  let ?m3 = "?m2\<lparr>terms := (terms ?m2)(b_term c1 \<mapsto> t2)\<rparr>"
  let ?m4 = "?m3\<lparr>terms := (terms ?m3)(b_term c1 \<mapsto> t4)\<rparr>"
  have ret: "Run_return now (?m3, c1) = Some (?m4, c1)" using t4(1) two(5) by (simp add: Run_return_def)
  have "terms ?m4 (b_term c2) = Some t4" using assms(4,5) one(5) two(8) by simp
  then have "snd (writeToBrowser (?m4, c2)) = Finish"
    using writer_finishes [of ?m4 c2 t4] t4(4,5) two(2,9) by (simp add: nth_append fresh_channel_def)
  moreover have "terms ?m4 i = Some t4" using assms(4) one(5) by simp
  ultimately show ?thesis using one(1) two(1,5) fin ret t4(2,3) by blast
qed

theorem displaced_browser_evicts_successor_witness:
  "\<exists>m1 m2 c1 c2. Run_start (two_terminals, NewBridge ''t'') = Some ((m1, c1), True)
     \<and> Run_start (m1, NewBridge ''t'') = Some ((m2, c2), True)
     \<and> (\<exists>m3 m4. writeToBrowser (m2, c1) = ((m3, c1), Finish) \<and> Run_return 0 (m3, c1) = Some (m4, c1)
          \<and> snd (writeToBrowser (m4, c2)) = Finish)"
proof -
  have "term_ok demo_term" "\<not> tm_closed demo_term"
    unfolding demo_term_def by (rule new_terminal_ok, simp add: demo_open_def, simp add: new_terminal_def)
  moreover have "terms two_terminals ''t'' = Some demo_term" by (simp add: two_terminals_def)
  ultimately show ?thesis
    using displaced_browser_evicts_successor [of two_terminals "''t''" demo_term "NewBridge ''t''" "NewBridge ''t''" 0]
    by (simp add: NewBridge_def) blast
qed

end
