(* ===== verification/Remote_Pool.thy ===== *)
theory Remote_Pool
  imports Prelude
begin

section \<open>The pool of shared SSH connections (\<^verbatim>\<open>internal/remote/pool.go\<close>, \<^verbatim>\<open>chain.go\<close>)\<close>

text \<open>
  A connection is shared by reference count. The pool's entries live in a heap, because leases and
  the watcher hold pointers to entries that have left the map; \<open>conns\<close> is the map. A claim is one
  reference that was counted, by the caller that dials or by one that joins; the \<^verbatim>\<open>Lease\<close> a
  caller gets is its claim, and \<open>cl_released\<close> is the lease's \<^verbatim>\<open>once\<close>. An entry's
  \<^verbatim>\<open>release\<close> function gives back claims on the hops it was reached through. \<open>through\<close> is the
  entry whose client carries this entry's connection, which the SSH client knows and the pool does
  not. \<open>is_open\<close> says that the client is there and nobody called its \<^verbatim>\<open>Close\<close>;
  \<open>pe_owner\<close> is the claim of the caller that dials.

  \<^verbatim>\<open>Acquire\<close> holds the lock twice, around a dial that takes its time, so it is two steps,
  \<open>acquire_begin\<close> and \<open>acquire_finish\<close>, with other steps between; \<^verbatim>\<open>wait\<close> ends with the dial or
  with a cancelled context. The claims that \<^verbatim>\<open>release\<close> sets free recursively are a worklist.
\<close>

record Key =
  k_UserID :: string
  k_SessionID :: string
  k_Via :: string

definition PathKey :: "string \<Rightarrow> string list \<Rightarrow> string \<Rightarrow> Key" where
  "PathKey user hops sid = \<lparr>k_UserID = user, k_SessionID = sid, k_Via = join_with ''>'' hops\<rparr>"

definition depth :: "Key \<Rightarrow> nat" where
  "depth k = (if k_Via k = '''' then 0 else count_list (k_Via k) (CHR ''>'') + 1)"

record pool_entry =
  pe_key :: Key
  pe_ready :: bool
  has_client :: bool
  is_open :: bool
  pe_err :: bool
  pe_release :: "nat list"
  pe_refs :: int
  pe_evicted :: bool
  through :: "nat option"
  pe_owner :: nat

record claim =
  cl_entry :: nat
  cl_released :: bool

record Pool =
  conns :: "(Key \<times> nat) list"
  pool_closed :: bool
  pool_entries :: "pool_entry list"
  claims :: "claim list"

definition NewPool :: Pool where
  "NewPool = \<lparr>conns = [], pool_closed = False, pool_entries = [], claims = []\<rparr>"

definition upd_entry :: "nat \<Rightarrow> (pool_entry \<Rightarrow> pool_entry) \<Rightarrow> Pool \<Rightarrow> Pool" where
  "upd_entry e f p = p\<lparr>pool_entries := (pool_entries p)[e := f (pool_entries p ! e)]\<rparr>"

text \<open>\<^verbatim>\<open>evict\<close>: off the map only if it is still the current entry of its key.\<close>

definition evict :: "nat \<Rightarrow> Pool \<Rightarrow> Pool" where
  "evict e p =
     (let k = pe_key (pool_entries p ! e);
          p1 = (if map_of (conns p) k = Some e then p\<lparr>conns := filter (\<lambda>x. fst x \<noteq> k) (conns p)\<rparr> else p)
      in upd_entry e (\<lambda>x. x\<lparr>pe_evicted := True\<rparr>) p1)"

datatype begun = PoolIsClosed | Joined nat nat | MustDial nat nat

text \<open>The first critical section of \<^verbatim>\<open>Acquire\<close>: the entry and the caller's claim on it.\<close>

definition acquire_begin :: "Key \<Rightarrow> Pool \<Rightarrow> Pool \<times> begun" where
  "acquire_begin k p =
     (if pool_closed p then (p, PoolIsClosed)
      else case map_of (conns p) k of
          Some e \<Rightarrow>
            (upd_entry e (\<lambda>x. x\<lparr>pe_refs := pe_refs x + 1\<rparr>) p\<lparr>claims := claims p @ [\<lparr>cl_entry = e, cl_released = False\<rparr>]\<rparr>,
             Joined e (length (claims p)))
        | None \<Rightarrow>
            let e = length (pool_entries p)
            in (p\<lparr>conns := (k, e) # conns p,
                  pool_entries := pool_entries p @ [\<lparr>pe_key = k, pe_ready = False, has_client = False, is_open = False,
                     pe_err = False, pe_release = [], pe_refs = 1, pe_evicted = False, through = None,
                     pe_owner = length (claims p)\<rparr>],
                  claims := claims p @ [\<lparr>cl_entry = e, cl_released = False\<rparr>]\<rparr>,
                MustDial e (length (claims p))))"

subsection \<open>Releasing\<close>

text \<open>
  One reference less on an entry; at the last one the entry leaves the map, its client is closed,
  and the claims its dial borrowed are to be released, innermost hop first.
\<close>

definition drop_ref :: "nat \<Rightarrow> Pool \<Rightarrow> Pool \<times> nat list" where
  "drop_ref e p =
     (let p1 = upd_entry e (\<lambda>x. x\<lparr>pe_refs := pe_refs x - 1\<rparr>) p
      in if pe_refs (pool_entries p1 ! e) \<le> 0
         then (upd_entry e (\<lambda>x. x\<lparr>is_open := False\<rparr>) (if pe_evicted (pool_entries p1 ! e) then p1 else evict e p1),
               rev (pe_release (pool_entries p1 ! e)))
         else (p1, []))"

definition mark_released :: "nat \<Rightarrow> Pool \<Rightarrow> Pool" where
  "mark_released c p = p\<lparr>claims := (claims p)[c := (claims p ! c)\<lparr>cl_released := True\<rparr>]\<rparr>"

definition unreleased :: "Pool \<Rightarrow> nat" where
  "unreleased p = length (filter (\<lambda>c. \<not> cl_released c) (claims p))"

lemma drop_ref_claims [simp]: "claims (fst (drop_ref e p)) = claims p"
  by (simp add: drop_ref_def upd_entry_def evict_def Let_def)

lemma unreleased_mark:
  assumes "c < length (claims p)" and "\<not> cl_released (claims p ! c)"
  shows "unreleased (mark_released c p) < unreleased p"
proof -
  let ?n = "\<lambda>cs. length (filter (\<lambda>c. \<not> cl_released c) cs)"
  have before: "?n (claims p) = ?n (take c (claims p)) + Suc (?n (drop (Suc c) (claims p)))"
    by (subst id_take_nth_drop [OF assms(1)]) (simp add: assms(2))
  have "claims (mark_released c p) = take c (claims p) @ (claims p ! c)\<lparr>cl_released := True\<rparr> # drop (Suc c) (claims p)"
    using assms(1) by (simp add: mark_released_def upd_conv_take_nth_drop)
  then have "?n (claims (mark_released c p)) = ?n (take c (claims p)) + ?n (drop (Suc c) (claims p))" by simp
  with before show ?thesis by (simp add: unreleased_def)
qed

function release_claims :: "nat list \<Rightarrow> Pool \<Rightarrow> Pool" where
  "release_claims [] p = p"
| "release_claims (c # cs) p =
     (if c < length (claims p) \<and> \<not> cl_released (claims p ! c)
      then let (p1, freed) = drop_ref (cl_entry (claims p ! c)) (mark_released c p)
           in release_claims (freed @ cs) p1
      else release_claims cs p)"
  by pat_completeness auto
termination
proof (relation "measures [\<lambda>(_, p). unreleased p, \<lambda>(cs, _). length cs]")
  fix c cs p x p1 freed
  assume "c < length (claims p) \<and> \<not> cl_released (claims p ! c)"
    and "x = drop_ref (cl_entry (claims p ! c)) (mark_released c p)" and "(p1, freed) = x"
  then show "((freed @ cs, p1), c # cs, p) \<in> measures [\<lambda>(_, p). unreleased p, \<lambda>(cs, _). length cs]"
    using unreleased_mark [of c p] by (auto simp: unreleased_def dest!: arg_cong [of _ _ fst])
qed auto

declare release_claims.simps [simp del]

definition Release :: "nat \<Rightarrow> Pool \<Rightarrow> Pool" where
  "Release c = release_claims [c]"

subsection \<open>Dials and waiting\<close>

text \<open>What a dial came back with: a client carried by some entry and the claims it borrowed, or an error.\<close>

datatype dialled = Dialled "nat option" "nat list" | DialFailed "nat list"

text \<open>The second critical section, and what follows it.\<close>

fun acquire_finish :: "nat \<Rightarrow> dialled \<Rightarrow> Pool \<Rightarrow> Pool" where
  "acquire_finish e (Dialled via held) p =
     upd_entry e (\<lambda>x. x\<lparr>has_client := True, is_open := True, pe_release := held, through := via, pe_ready := True\<rparr>) p"
| "acquire_finish e (DialFailed held) p =
     release_claims (rev held)
       (upd_entry e (\<lambda>x. x\<lparr>pe_ready := True\<rparr>)
         (evict e (upd_entry e (\<lambda>x. x\<lparr>pe_err := True, pe_release := held\<rparr>) p)))"

definition watch_fires :: "nat \<Rightarrow> Pool \<Rightarrow> Pool" where
  "watch_fires e p = (if pe_evicted (pool_entries p ! e) then p else evict e p)"

text \<open>\<^verbatim>\<open>Close\<close>: every entry of the map, deepest route first.\<close>

definition doomed :: "Pool \<Rightarrow> nat list" where
  "doomed p = sort_key (\<lambda>e. - int (depth (pe_key (pool_entries p ! e)))) (map snd (conns p))"

fun close_entries :: "nat list \<Rightarrow> Pool \<Rightarrow> Pool" where
  "close_entries [] p = p"
| "close_entries (e # es) p =
     close_entries es (release_claims (rev (pe_release (pool_entries p ! e))) (upd_entry e (\<lambda>x. x\<lparr>is_open := False\<rparr>) p))"

definition pool_Close :: "Pool \<Rightarrow> Pool" where
  "pool_Close p =
     close_entries (doomed p)
       (p\<lparr>pool_closed := True, conns := [],
          pool_entries := map (\<lambda>(e, x). if e \<in> set (map snd (conns p)) then x\<lparr>pe_evicted := True\<rparr> else x)
            (enumerate 0 (pool_entries p))\<rparr>)"

definition pool_Len :: "Pool \<Rightarrow> nat" where
  "pool_Len p = length (conns p)"

subsection \<open>Dialling through jump hosts\<close>

text \<open>
  \<^verbatim>\<open>Acquire\<close> run without interruption: \<open>dial\<close> is the closure that runs between the two
  critical sections. \<open>None\<close> is a call that would wait for somebody else's dial.
\<close>

definition Acquire :: "Key \<Rightarrow> (Pool \<Rightarrow> (Pool \<times> dialled) option) \<Rightarrow> Pool \<Rightarrow> (Pool \<times> nat option) option" where
  "Acquire k dial p =
     (case acquire_begin k p of
        (p1, PoolIsClosed) \<Rightarrow> Some (p1, None)
      | (p1, Joined e c) \<Rightarrow>
          if \<not> pe_ready (pool_entries p1 ! e) then None
          else if pe_err (pool_entries p1 ! e) then Some (p1, None) else Some (p1, Some c)
      | (p1, MustDial e c) \<Rightarrow>
          map_option (\<lambda>(p2, r). (acquire_finish e r p2, case r of Dialled via held \<Rightarrow> Some c | DialFailed held \<Rightarrow> None))
            (dial p1))"

text \<open>
  The loop of \<^verbatim>\<open>dialThrough\<close>. \<open>able\<close> says for which hosts the
  credential and the agent can be had, \<open>ok\<close> which hosts a dial reaches; a hop's own dial borrows
  nothing, as in the code. What is left is the entry to dial the target from and the claims taken.
\<close>

fun dial_hops :: "(string \<Rightarrow> bool) \<Rightarrow> (string \<Rightarrow> bool) \<Rightarrow> string \<Rightarrow> string list \<Rightarrow> string list \<Rightarrow> nat option \<Rightarrow> nat list \<Rightarrow> Pool
    \<Rightarrow> (Pool \<times> (nat option \<times> nat list) option) option" where
  "dial_hops able ok user route [] via held p = Some (p, Some (via, held))"
| "dial_hops able ok user route (h # hs) via held p =
     (if \<not> able h then Some (release_claims (rev held) p, None)
      else case Acquire (PathKey user route h) (\<lambda>q. Some (q, if ok h then Dialled via [] else DialFailed [])) p of
        None \<Rightarrow> None
      | Some (p1, None) \<Rightarrow> Some (release_claims (rev held) p1, None)
      | Some (p1, Some c) \<Rightarrow> dial_hops able ok user (route @ [h]) hs (Some (cl_entry (claims p1 ! c))) (held @ [c]) p1)"

definition dialThrough :: "(string \<Rightarrow> bool) \<Rightarrow> (string \<Rightarrow> bool) \<Rightarrow> string \<Rightarrow> string list \<Rightarrow> string \<Rightarrow> Pool \<Rightarrow> (Pool \<times> dialled) option" where
  "dialThrough able ok user hops target p =
     (case dial_hops able ok user [] hops None [] p of
        None \<Rightarrow> None
      | Some (p1, None) \<Rightarrow> Some (p1, DialFailed [])
      | Some (p1, Some (via, held)) \<Rightarrow>
          Some (if ok target then (p1, Dialled via held) else (release_claims (rev held) p1, DialFailed [])))"

subsection \<open>The reference count\<close>

text \<open>
  What callers, dials, watchers and holders do before shutdown, in any order. A dial comes back
  with claims that were granted to it and that nobody else answers for. A claim is given back by
  its holder: not the dialler's before the dial is over, and not one that an open connection rides on.
\<close>

definition holder_of :: "Pool \<Rightarrow> nat \<Rightarrow> nat" where
  "holder_of p c = cl_entry (claims p ! c)"

definition granted :: "Pool \<Rightarrow> nat list \<Rightarrow> bool" where
  "granted p held \<longleftrightarrow> distinct held
     \<and> (\<forall>c \<in> set held. c < length (claims p) \<and> \<not> cl_released (claims p ! c)
          \<and> pe_ready (pool_entries p ! holder_of p c)
          \<and> (\<forall>x \<in> set (pool_entries p). c \<notin> set (pe_release x)))"

inductive pool_step :: "Pool \<Rightarrow> Pool \<Rightarrow> bool" where
  begin_acquire: "pool_step p (fst (acquire_begin k p))"
| dialled: "e < length (pool_entries p) \<Longrightarrow> \<not> pe_ready (pool_entries p ! e) \<Longrightarrow> granted p held \<Longrightarrow>
    pool_step p (acquire_finish e (Dialled via held) p)"
| dial_failed: "e < length (pool_entries p) \<Longrightarrow> \<not> pe_ready (pool_entries p ! e) \<Longrightarrow>
    pool_step p (acquire_finish e (DialFailed []) p)"
| watched: "e < length (pool_entries p) \<Longrightarrow> pool_step p (watch_fires e p)"
| given_back: "c < length (claims p) \<Longrightarrow> pe_ready (pool_entries p ! holder_of p c) \<or> c \<noteq> pe_owner (pool_entries p ! holder_of p c)
    \<Longrightarrow> (\<forall>x \<in> set (pool_entries p). c \<in> set (pe_release x) \<longrightarrow> pe_refs x \<le> 0) \<Longrightarrow> pool_step p (Release c p)"

definition count_claims :: "nat \<Rightarrow> claim list \<Rightarrow> nat" where
  "count_claims e cs = length (filter (\<lambda>c. cl_entry c = e \<and> \<not> cl_released c) cs)"

definition released :: "Pool \<Rightarrow> nat \<Rightarrow> bool" where
  "released p c \<longleftrightarrow> c < length (claims p) \<and> cl_released (claims p ! c)"

text \<open>The invariant while the claims \<open>ws\<close> are still to be released.\<close>

definition counted :: "Pool \<Rightarrow> bool" where
  "counted p \<longleftrightarrow> (\<forall>c \<in> set (claims p). cl_entry c < length (pool_entries p))
     \<and> (\<forall>e < length (pool_entries p). let x = pool_entries p ! e in
          pe_refs x = int (count_claims e (claims p))
          \<and> (is_open x \<longleftrightarrow> has_client x \<and> 0 < pe_refs x)
          \<and> (\<not> pe_ready x \<longrightarrow> \<not> has_client x \<and> pe_release x = [] \<and> pe_owner x < length (claims p)
               \<and> holder_of p (pe_owner x) = e \<and> \<not> cl_released (claims p ! pe_owner x)))"

definition borrowing :: "nat list \<Rightarrow> Pool \<Rightarrow> bool" where
  "borrowing ws p \<longleftrightarrow>
     (\<forall>e < length (pool_entries p). \<forall>c \<in> set (pe_release (pool_entries p ! e)).
        c < length (claims p) \<and> pe_ready (pool_entries p ! holder_of p c)
        \<and> (0 < pe_refs (pool_entries p ! e) \<longrightarrow> \<not> cl_released (claims p ! c) \<and> c \<notin> set ws)
        \<and> (pe_refs (pool_entries p ! e) \<le> 0 \<longrightarrow> cl_released (claims p ! c) \<or> c \<in> set ws)
        \<and> (\<forall>e' < length (pool_entries p). e' \<noteq> e \<longrightarrow> c \<notin> set (pe_release (pool_entries p ! e'))))"

definition mapped :: "Pool \<Rightarrow> bool" where
  "mapped p \<longleftrightarrow> distinct (map fst (conns p))
     \<and> (\<forall>(k, e) \<in> set (conns p). e < length (pool_entries p) \<and> pe_key (pool_entries p ! e) = k
          \<and> \<not> pe_evicted (pool_entries p ! e) \<and> 0 < pe_refs (pool_entries p ! e))"

lemma count_claims_append [simp]:
  "count_claims e (cs @ [\<lparr>cl_entry = e', cl_released = False\<rparr>]) = count_claims e cs + (if e' = e then 1 else 0)"
  by (simp add: count_claims_def)

lemma count_claims_none: "(\<forall>c \<in> set cs. cl_entry c \<noteq> e) \<Longrightarrow> count_claims e cs = 0"
  by (simp add: count_claims_def)

lemma count_claims_mark:
  assumes "c < length cs" and "\<not> cl_released (cs ! c)"
  shows "count_claims e (cs[c := (cs ! c)\<lparr>cl_released := True\<rparr>]) = count_claims e cs - (if cl_entry (cs ! c) = e then 1 else 0)"
    and "count_claims (cl_entry (cs ! c)) cs > 0"
proof -
  let ?n = "\<lambda>e cs. length (filter (\<lambda>c. cl_entry c = e \<and> \<not> cl_released c) cs)"
  have before: "?n e cs = ?n e (take c cs) + (if cl_entry (cs ! c) = e then 1 else 0) + ?n e (drop (Suc c) cs)" for e
    by (subst id_take_nth_drop [OF assms(1)]) (simp add: assms(2))
  show "count_claims e (cs[c := (cs ! c)\<lparr>cl_released := True\<rparr>]) = count_claims e cs - (if cl_entry (cs ! c) = e then 1 else 0)"
    using before [of e] by (simp add: count_claims_def upd_conv_take_nth_drop [OF assms(1)])
  show "count_claims (cl_entry (cs ! c)) cs > 0"
    using before [of "cl_entry (cs ! c)"] by (simp add: count_claims_def)
qed

text \<open>One round of the release loop.\<close>

lemma drop_ref_entries:
  assumes "e < length (pool_entries p)"
  shows "length (pool_entries (fst (drop_ref e p))) = length (pool_entries p)"
    and "pool_entries (fst (drop_ref e p)) ! e =
      (let x = pool_entries p ! e in
       if pe_refs x \<le> 1 then x\<lparr>pe_refs := pe_refs x - 1, pe_evicted := True, is_open := False\<rparr> else x\<lparr>pe_refs := pe_refs x - 1\<rparr>)"
    and "j \<noteq> e \<Longrightarrow> pool_entries (fst (drop_ref e p)) ! j = pool_entries p ! j"
    and "snd (drop_ref e p) = (if pe_refs (pool_entries p ! e) \<le> 1 then rev (pe_release (pool_entries p ! e)) else [])"
    and "conns (fst (drop_ref e p)) =
      (let x = pool_entries p ! e in
       if pe_refs x \<le> 1 \<and> \<not> pe_evicted x \<and> map_of (conns p) (pe_key x) = Some e
       then filter (\<lambda>y. fst y \<noteq> pe_key x) (conns p) else conns p)"
  using assms by (auto simp: drop_ref_def upd_entry_def evict_def Let_def)

text \<open>The claims of a worklist may be given back by whoever gives them back.\<close>

definition returnable :: "nat list \<Rightarrow> Pool \<Rightarrow> bool" where
  "returnable ws p \<longleftrightarrow> (\<forall>c \<in> set ws. c < length (claims p) \<longrightarrow>
     pe_ready (pool_entries p ! holder_of p c) \<or> c \<noteq> pe_owner (pool_entries p ! holder_of p c))"

definition pool_ok :: "nat list \<Rightarrow> Pool \<Rightarrow> bool" where
  "pool_ok ws p \<longleftrightarrow> counted p \<and> borrowing ws p \<and> mapped p \<and> returnable ws p"

definition round :: "nat \<Rightarrow> Pool \<Rightarrow> Pool \<times> nat list" where
  "round c p = drop_ref (holder_of p c) (mark_released c p)"

text \<open>A round in terms of the pool before it.\<close>

lemma round_result:
  assumes p: "counted p" and c: "c < length (claims p)" "\<not> cl_released (claims p ! c)"
  defines "e \<equiv> holder_of p c" and "p1 \<equiv> fst (round c p)"
  shows "e < length (pool_entries p)" and "0 < pe_refs (pool_entries p ! e)"
    and "length (pool_entries p1) = length (pool_entries p)"
    and "claims p1 = (claims p)[c := (claims p ! c)\<lparr>cl_released := True\<rparr>]"
    and "pool_entries p1 ! j =
      (let x = pool_entries p ! j in if j \<noteq> e then x
       else if pe_refs x = 1 then x\<lparr>pe_refs := 0, pe_evicted := True, is_open := False\<rparr> else x\<lparr>pe_refs := pe_refs x - 1\<rparr>)"
    and "snd (round c p) = (if pe_refs (pool_entries p ! e) = 1 then rev (pe_release (pool_entries p ! e)) else [])"
    and "conns p1 = (let x = pool_entries p ! e in
       if pe_refs x = 1 \<and> \<not> pe_evicted x \<and> map_of (conns p) (pe_key x) = Some e
       then filter (\<lambda>y. fst y \<noteq> pe_key x) (conns p) else conns p)"
    and "holder_of p1 d = holder_of p d"
proof -
  have m [simp]: "pool_entries (mark_released c p) = pool_entries p" "conns (mark_released c p) = conns p"
    "claims (mark_released c p) = (claims p)[c := (claims p ! c)\<lparr>cl_released := True\<rparr>]"
    by (simp_all add: mark_released_def)
  show e: "e < length (pool_entries p)" using p c(1) by (auto simp: counted_def e_def holder_of_def)
  then have e': "e < length (pool_entries (mark_released c p))" by simp
  have "pe_refs (pool_entries p ! e) = int (count_claims e (claims p))" using p e by (simp add: counted_def Let_def)
  then show pos: "0 < pe_refs (pool_entries p ! e)" using count_claims_mark(2) [OF c] by (simp add: e_def holder_of_def)
  then have one: "pe_refs (pool_entries p ! e) \<le> 1 \<longleftrightarrow> pe_refs (pool_entries p ! e) = 1" by auto
  note d = drop_ref_entries [OF e']
  show "length (pool_entries p1) = length (pool_entries p)" by (simp add: p1_def round_def e_def [symmetric] d(1))
  show "claims p1 = (claims p)[c := (claims p ! c)\<lparr>cl_released := True\<rparr>]" by (simp add: p1_def round_def)
  then show "holder_of p1 d = holder_of p d"
    using c(1) by (cases "d = c") (simp_all add: holder_of_def)
  show "pool_entries p1 ! j =
      (let x = pool_entries p ! j in if j \<noteq> e then x
       else if pe_refs x = 1 then x\<lparr>pe_refs := 0, pe_evicted := True, is_open := False\<rparr> else x\<lparr>pe_refs := pe_refs x - 1\<rparr>)"
    using d(2) d(3) [of j] one by (cases "j = e") (simp_all add: p1_def round_def e_def [symmetric] Let_def)
  show "snd (round c p) = (if pe_refs (pool_entries p ! e) = 1 then rev (pe_release (pool_entries p ! e)) else [])"
    using d(4) one by (simp add: round_def e_def [symmetric])
  show "conns p1 = (let x = pool_entries p ! e in
       if pe_refs x = 1 \<and> \<not> pe_evicted x \<and> map_of (conns p) (pe_key x) = Some e
       then filter (\<lambda>y. fst y \<noteq> pe_key x) (conns p) else conns p)"
    using d(5) one by (simp add: p1_def round_def e_def [symmetric] Let_def)
qed

lemma round_counted:
  assumes ok: "pool_ok (c # ws) p" and c: "c < length (claims p)" "\<not> cl_released (claims p ! c)"
  shows "counted (fst (round c p))"
proof -
  have p: "counted p" using ok by (simp add: pool_ok_def)
  note r = round_result [OF p c]
  let ?p = "fst (round c p)" and ?e = "holder_of p c"
  have claim_entry: "\<forall>d \<in> set (claims ?p). cl_entry d < length (pool_entries ?p)"
    using p c(1) unfolding r(3,4) counted_def
    by (auto simp: set_conv_nth nth_list_update Ball_def split: if_splits)
  have entry: "let x = pool_entries ?p ! j in
          pe_refs x = int (count_claims j (claims ?p))
          \<and> (is_open x \<longleftrightarrow> has_client x \<and> 0 < pe_refs x)
          \<and> (\<not> pe_ready x \<longrightarrow> \<not> has_client x \<and> pe_release x = [] \<and> pe_owner x < length (claims ?p)
               \<and> holder_of ?p (pe_owner x) = j \<and> \<not> cl_released (claims ?p ! pe_owner x))" if j: "j < length (pool_entries p)" for j
  proof -
    let ?x = "pool_entries p ! j"
    have x: "pe_refs ?x = int (count_claims j (claims p))" "is_open ?x \<longleftrightarrow> has_client ?x \<and> 0 < pe_refs ?x"
      "\<not> pe_ready ?x \<Longrightarrow> \<not> has_client ?x \<and> pe_release ?x = [] \<and> pe_owner ?x < length (claims p)
               \<and> holder_of p (pe_owner ?x) = j \<and> \<not> cl_released (claims p ! pe_owner ?x)"
      using p j by (auto simp: counted_def Let_def)
    have own: "\<not> pe_ready ?x \<Longrightarrow> pe_owner ?x \<noteq> c"
      using x(3) ok c(1) by (cases "j = ?e") (auto simp: pool_ok_def returnable_def)
    have cnt: "int (count_claims j (claims ?p)) = pe_refs ?x - (if j = ?e then 1 else 0)"
      using x(1) count_claims_mark [OF c] unfolding r(4) by (auto simp: holder_of_def)
    show ?thesis
      unfolding r(5) r(8) cnt Let_def using x own r(2) by (auto simp: r(4))
  qed
  with claim_entry show ?thesis by (simp add: counted_def r(3))
qed

lemma round_borrowing:
  assumes ok: "pool_ok (c # ws) p" and c: "c < length (claims p)" "\<not> cl_released (claims p ! c)"
  shows "borrowing (snd (round c p) @ ws) (fst (round c p))"
  unfolding borrowing_def
proof (intro allI ballI impI)
  have p: "counted p" and b: "borrowing (c # ws) p" using ok by (simp_all add: pool_ok_def)
  note r = round_result [OF p c]
  let ?p = "fst (round c p)" and ?e = "holder_of p c"
  fix j d
  assume "j < length (pool_entries ?p)" and "d \<in> set (pe_release (pool_entries ?p ! j))"
  then have j: "j < length (pool_entries p)" and d: "d \<in> set (pe_release (pool_entries p ! j))"
    unfolding r(3,5) by (auto simp: Let_def split: if_splits)
  have all: "d < length (claims p) \<and> pe_ready (pool_entries p ! holder_of p d)
        \<and> (0 < pe_refs (pool_entries p ! j) \<longrightarrow> \<not> cl_released (claims p ! d) \<and> d \<notin> set (c # ws))
        \<and> (pe_refs (pool_entries p ! j) \<le> 0 \<longrightarrow> cl_released (claims p ! d) \<or> d \<in> set (c # ws))
        \<and> (\<forall>e' < length (pool_entries p). e' \<noteq> j \<longrightarrow> d \<notin> set (pe_release (pool_entries p ! e')))"
    using b j d unfolding borrowing_def by blast
  then have old: "d < length (claims p)" "pe_ready (pool_entries p ! holder_of p d)"
    "0 < pe_refs (pool_entries p ! j) \<Longrightarrow> \<not> cl_released (claims p ! d) \<and> d \<notin> set (c # ws)"
    "pe_refs (pool_entries p ! j) \<le> 0 \<Longrightarrow> cl_released (claims p ! d) \<or> d \<in> set (c # ws)"
    "\<And>j'. j' < length (pool_entries p) \<Longrightarrow> j' \<noteq> j \<Longrightarrow> d \<notin> set (pe_release (pool_entries p ! j'))"
    by blast+
  have rel: "cl_released (claims ?p ! d) \<longleftrightarrow> d = c \<or> cl_released (claims p ! d)"
    using c(1) by (cases "d = c") (simp_all add: r(4))
  have keep: "pe_release (pool_entries ?p ! i) = pe_release (pool_entries p ! i)"
    "pe_ready (pool_entries ?p ! i) = pe_ready (pool_entries p ! i)" for i
    unfolding r(5) by (auto simp: Let_def)
  have refs: "pe_refs (pool_entries ?p ! j) = pe_refs (pool_entries p ! j) - (if j = ?e then 1 else 0)"
    unfolding r(5) by (auto simp: Let_def)
  have freed: "set (snd (round c p)) = (if pe_refs (pool_entries p ! ?e) = 1 then set (pe_release (pool_entries p ! ?e)) else {})"
    by (simp add: r(6))
  show "d < length (claims ?p) \<and> pe_ready (pool_entries ?p ! holder_of ?p d)
        \<and> (0 < pe_refs (pool_entries ?p ! j) \<longrightarrow> \<not> cl_released (claims ?p ! d) \<and> d \<notin> set (snd (round c p) @ ws))
        \<and> (pe_refs (pool_entries ?p ! j) \<le> 0 \<longrightarrow> cl_released (claims ?p ! d) \<or> d \<in> set (snd (round c p) @ ws))
        \<and> (\<forall>e' < length (pool_entries ?p). e' \<noteq> j \<longrightarrow> d \<notin> set (pe_release (pool_entries ?p ! e')))"
  proof (intro conjI)
    show "d < length (claims ?p)" using old(1) by (simp add: r(4))
    show "pe_ready (pool_entries ?p ! holder_of ?p d)" using old(2) by (simp add: keep r(8))
    show "0 < pe_refs (pool_entries ?p ! j) \<longrightarrow> \<not> cl_released (claims ?p ! d) \<and> d \<notin> set (snd (round c p) @ ws)"
      using old(3) old(5) [OF r(1)] unfolding rel refs by (cases "j = ?e") (auto simp: freed)
    show "pe_refs (pool_entries ?p ! j) \<le> 0 \<longrightarrow> cl_released (claims ?p ! d) \<or> d \<in> set (snd (round c p) @ ws)"
      using old(4) d r(2) unfolding rel refs by (cases "j = ?e") (auto simp: freed)
    show "\<forall>e' < length (pool_entries ?p). e' \<noteq> j \<longrightarrow> d \<notin> set (pe_release (pool_entries ?p ! e'))"
      using old(5) by (simp add: keep r(3))
  qed
qed


lemma mappedD:
  "mapped p \<Longrightarrow> (k, e) \<in> set (conns p) \<Longrightarrow>
     e < length (pool_entries p) \<and> pe_key (pool_entries p ! e) = k \<and> \<not> pe_evicted (pool_entries p ! e) \<and> 0 < pe_refs (pool_entries p ! e)"
  by (auto simp: mapped_def)

lemma round_mapped:
  assumes ok: "pool_ok (c # ws) p" and c: "c < length (claims p)" "\<not> cl_released (claims p ! c)"
  shows "mapped (fst (round c p))"
proof -
  have p: "counted p" and m: "mapped p" using ok by (simp_all add: pool_ok_def)
  note r = round_result [OF p c]
  let ?p = "fst (round c p)" and ?e = "holder_of p c"
  have "distinct (map fst (conns ?p))" using m by (simp add: r(7) Let_def mapped_def distinct_map_filter)
  moreover have "e < length (pool_entries ?p) \<and> pe_key (pool_entries ?p ! e) = k \<and> \<not> pe_evicted (pool_entries ?p ! e)
      \<and> 0 < pe_refs (pool_entries ?p ! e)" if ke: "(k, e) \<in> set (conns ?p)" for k e
  proof -
    have old: "(k, e) \<in> set (conns p)" using ke by (auto simp: r(7) Let_def split: if_splits)
    note x = mappedD [OF m old]
    show ?thesis
    proof (cases "e = ?e \<and> pe_refs (pool_entries p ! e) = 1")
      case True
      have "map_of (conns p) (pe_key (pool_entries p ! e)) = Some e"
        using old m x by (simp add: mapped_def)
      with ke True x have False by (auto simp: r(7) Let_def)
      then show ?thesis ..
    next
      case False
      with x show ?thesis unfolding r(3,5) by (auto simp: Let_def)
    qed
  qed
  ultimately show ?thesis unfolding mapped_def by blast
qed

lemma round_ok:
  assumes ok: "pool_ok (c # ws) p" and c: "c < length (claims p)" "\<not> cl_released (claims p ! c)"
  shows "pool_ok (snd (round c p) @ ws) (fst (round c p))"
proof -
  have p: "counted p" and b: "borrowing (c # ws) p" and ret: "returnable (c # ws) p" using ok by (simp_all add: pool_ok_def)
  note r = round_result [OF p c]
  have same: "pe_ready (pool_entries (fst (round c p)) ! i) = pe_ready (pool_entries p ! i)"
    "pe_owner (pool_entries (fst (round c p)) ! i) = pe_owner (pool_entries p ! i)" for i
    unfolding r(5) by (auto simp: Let_def)
  have "pe_ready (pool_entries p ! holder_of p d)" if "d \<in> set (snd (round c p))" for d
    using that b r(1) by (auto simp: r(6) borrowing_def split: if_splits)
  then have "returnable (snd (round c p) @ ws) (fst (round c p))"
    using ret by (auto simp: returnable_def r(4,8) same)
  with round_counted [OF ok c] round_borrowing [OF ok c] round_mapped [OF ok c] show ?thesis by (simp add: pool_ok_def)
qed

lemma skip_ok:
  assumes "pool_ok (c # ws) p" and "\<not> (c < length (claims p) \<and> \<not> cl_released (claims p ! c))"
  shows "pool_ok ws p"
proof -
  have "borrowing ws p"
    unfolding borrowing_def
  proof (intro allI impI ballI)
    fix e d
    assume "e < length (pool_entries p)" and "d \<in> set (pe_release (pool_entries p ! e))"
    with assms(1) have "d < length (claims p) \<and> pe_ready (pool_entries p ! holder_of p d)
        \<and> (0 < pe_refs (pool_entries p ! e) \<longrightarrow> \<not> cl_released (claims p ! d) \<and> d \<notin> set (c # ws))
        \<and> (pe_refs (pool_entries p ! e) \<le> 0 \<longrightarrow> cl_released (claims p ! d) \<or> d \<in> set (c # ws))
        \<and> (\<forall>e' < length (pool_entries p). e' \<noteq> e \<longrightarrow> d \<notin> set (pe_release (pool_entries p ! e')))"
      unfolding pool_ok_def borrowing_def by blast
    with assms(2) show "d < length (claims p) \<and> pe_ready (pool_entries p ! holder_of p d)
        \<and> (0 < pe_refs (pool_entries p ! e) \<longrightarrow> \<not> cl_released (claims p ! d) \<and> d \<notin> set ws)
        \<and> (pe_refs (pool_entries p ! e) \<le> 0 \<longrightarrow> cl_released (claims p ! d) \<or> d \<in> set ws)
        \<and> (\<forall>e' < length (pool_entries p). e' \<noteq> e \<longrightarrow> d \<notin> set (pe_release (pool_entries p ! e')))" by auto
  qed
  with assms(1) show ?thesis by (simp add: pool_ok_def returnable_def)
qed

lemma release_ok: "pool_ok ws p \<Longrightarrow> pool_ok [] (release_claims ws p)"
proof (induction ws p rule: release_claims.induct)
  case (1 p)
  then show ?case by (simp add: release_claims.simps)
next
  case (2 c cs p)
  show ?case
  proof (cases "c < length (claims p) \<and> \<not> cl_released (claims p ! c)")
    case True
    then have "pool_ok (snd (round c p) @ cs) (fst (round c p))" using round_ok [OF 2(3)] by blast
    with 2(1) [OF True refl, of "fst (round c p)" "snd (round c p)"] True show ?thesis
      by (simp add: release_claims.simps(2) [of c cs p] round_def holder_of_def case_prod_beta)
  next
    case False
    then have "release_claims (c # cs) p = release_claims cs p" by (subst release_claims.simps(2)) (simp only: if_False)
    with 2(2) [OF False skip_ok [OF 2(3) False]] show ?thesis by simp
  qed
qed

subsection \<open>Every step keeps the count\<close>

lemma upd_entry_simps [simp]:
  "conns (upd_entry e f p) = conns p" "claims (upd_entry e f p) = claims p" "pool_closed (upd_entry e f p) = pool_closed p"
  "length (pool_entries (upd_entry e f p)) = length (pool_entries p)" "holder_of (upd_entry e f p) c = holder_of p c"
  by (simp_all add: upd_entry_def holder_of_def)

lemma upd_entry_nth:
  "e < length (pool_entries p) \<Longrightarrow> pool_entries (upd_entry e f p) ! j = (if j = e then f (pool_entries p ! j) else pool_entries p ! j)"
  by (simp add: upd_entry_def)

text \<open>An update of one entry that leaves alone what the invariant reads.\<close>

lemma quiet_update:
  assumes ok: "pool_ok [] p" and e: "e < length (pool_entries p)"
    and f: "let x = pool_entries p ! e in pe_refs (f x) = pe_refs x \<and> is_open (f x) = is_open x \<and> has_client (f x) = has_client x
        \<and> pe_release (f x) = pe_release x \<and> pe_owner (f x) = pe_owner x \<and> (pe_ready x \<longrightarrow> pe_ready (f x)) \<and> pe_key (f x) = pe_key x"
    and m: "set (conns q) \<subseteq> set (conns p)" "distinct (map fst (conns q))" "pe_evicted (f (pool_entries p ! e)) \<Longrightarrow> e \<notin> snd ` set (conns q) \<or> pe_evicted (pool_entries p ! e)"
    and q: "pool_entries q = (pool_entries p)[e := f (pool_entries p ! e)]" "claims q = claims p"
  shows "pool_ok [] q"
proof -
  have at: "pool_entries q ! j = (if j = e then f (pool_entries p ! j) else pool_entries p ! j)" for j
    using e by (simp add: q)
  have len: "length (pool_entries q) = length (pool_entries p)" and h: "holder_of q c = holder_of p c" for c
    by (simp_all add: q holder_of_def)
  have refs: "pe_refs (pool_entries q ! j) = pe_refs (pool_entries p ! j)" "is_open (pool_entries q ! j) = is_open (pool_entries p ! j)"
    "has_client (pool_entries q ! j) = has_client (pool_entries p ! j)" "pe_release (pool_entries q ! j) = pe_release (pool_entries p ! j)"
    "pe_owner (pool_entries q ! j) = pe_owner (pool_entries p ! j)" "pe_key (pool_entries q ! j) = pe_key (pool_entries p ! j)"
    "pe_ready (pool_entries p ! j) \<Longrightarrow> pe_ready (pool_entries q ! j)" for j
    using f by (auto simp: at Let_def)
  have "counted q" using ok refs(7) by (force simp: pool_ok_def counted_def Let_def refs len h q(2))
  moreover have "borrowing [] q" using ok refs(7) by (simp add: pool_ok_def borrowing_def refs len h q(2))
  moreover have "mapped q"
  proof -
    have "j < length (pool_entries q) \<and> pe_key (pool_entries q ! j) = k \<and> \<not> pe_evicted (pool_entries q ! j) \<and> 0 < pe_refs (pool_entries q ! j)"
      if "(k, j) \<in> set (conns q)" for k j
    proof -
      have "(k, j) \<in> set (conns p)" using that m(1) by blast
      with ok have "j < length (pool_entries p) \<and> pe_key (pool_entries p ! j) = k \<and> \<not> pe_evicted (pool_entries p ! j) \<and> 0 < pe_refs (pool_entries p ! j)"
        by (intro mappedD) (simp_all add: pool_ok_def)
      moreover have "\<not> pe_evicted (pool_entries q ! j)"
        using calculation m(3) that by (cases "j = e") (force simp: at)+
      ultimately show ?thesis by (simp add: refs len)
    qed
    with m(2) show ?thesis by (auto simp: mapped_def)
  qed
  ultimately show ?thesis by (simp add: pool_ok_def returnable_def)
qed

lemma evict_ok:
  assumes ok: "pool_ok [] p" and e: "e < length (pool_entries p)"
  shows "pool_ok [] (evict e p)"
proof (rule quiet_update [OF ok e, where f = "\<lambda>x. x\<lparr>pe_evicted := True\<rparr>"])
  let ?k = "pe_key (pool_entries p ! e)"
  have m: "mapped p" using ok by (simp add: pool_ok_def)
  show "set (conns (evict e p)) \<subseteq> set (conns p)" by (auto simp: evict_def Let_def)
  show "distinct (map fst (conns (evict e p)))"
    using m by (simp add: evict_def Let_def mapped_def distinct_map_filter)
  show "pool_entries (evict e p) = (pool_entries p)[e := (pool_entries p ! e)\<lparr>pe_evicted := True\<rparr>]"
    "claims (evict e p) = claims p" by (simp_all add: evict_def upd_entry_def Let_def)
  have "e \<notin> snd ` set (conns (evict e p))"
  proof
    assume "e \<in> snd ` set (conns (evict e p))"
    then obtain k where k: "(k, e) \<in> set (conns (evict e p))" by force
    then have "(k, e) \<in> set (conns p)" by (auto simp: evict_def Let_def split: if_splits)
    with m have "k = ?k" "map_of (conns p) k = Some e" by (auto simp: mapped_def)
    with k show False by (simp add: evict_def Let_def)
  qed
  then show "e \<notin> snd ` set (conns (evict e p)) \<or> pe_evicted (pool_entries p ! e)" ..
qed simp_all

lemma counted_entry:
  assumes "counted p" and "e < length (pool_entries p)"
  shows "pe_refs (pool_entries p ! e) = int (count_claims e (claims p))"
    and "is_open (pool_entries p ! e) \<longleftrightarrow> has_client (pool_entries p ! e) \<and> 0 < pe_refs (pool_entries p ! e)"
    and "\<not> pe_ready (pool_entries p ! e) \<Longrightarrow> \<not> has_client (pool_entries p ! e) \<and> pe_release (pool_entries p ! e) = []
      \<and> pe_owner (pool_entries p ! e) < length (claims p) \<and> holder_of p (pe_owner (pool_entries p ! e)) = e
      \<and> \<not> cl_released (claims p ! pe_owner (pool_entries p ! e))"
  using assms by (simp_all add: counted_def Let_def)

lemma borrowingD:
  assumes "borrowing ws p" and "e < length (pool_entries p)" and "c \<in> set (pe_release (pool_entries p ! e))"
  shows "c < length (claims p)" and "pe_ready (pool_entries p ! holder_of p c)"
    and "0 < pe_refs (pool_entries p ! e) \<Longrightarrow> \<not> cl_released (claims p ! c) \<and> c \<notin> set ws"
    and "pe_refs (pool_entries p ! e) \<le> 0 \<Longrightarrow> cl_released (claims p ! c) \<or> c \<in> set ws"
    and "e' < length (pool_entries p) \<Longrightarrow> e' \<noteq> e \<Longrightarrow> c \<notin> set (pe_release (pool_entries p ! e'))"
  using assms(1) [unfolded borrowing_def, rule_format, OF assms(2,3)] by blast+

lemma counted_claims: "counted p \<Longrightarrow> c < length (claims p) \<Longrightarrow> holder_of p c < length (pool_entries p)"
  by (simp add: counted_def holder_of_def)

lemma unready_live: "counted p \<Longrightarrow> e < length (pool_entries p) \<Longrightarrow> \<not> pe_ready (pool_entries p ! e) \<Longrightarrow> 0 < pe_refs (pool_entries p ! e)"
  using counted_entry(1,3) [of p e] count_claims_mark(2) [of "pe_owner (pool_entries p ! e)" "claims p"]
  by (simp add: holder_of_def)

lemma countedI:
  assumes "\<And>c. c \<in> set (claims p) \<Longrightarrow> cl_entry c < length (pool_entries p)"
    and "\<And>e. e < length (pool_entries p) \<Longrightarrow> pe_refs (pool_entries p ! e) = int (count_claims e (claims p))"
    and "\<And>e. e < length (pool_entries p) \<Longrightarrow> is_open (pool_entries p ! e) \<longleftrightarrow> has_client (pool_entries p ! e) \<and> 0 < pe_refs (pool_entries p ! e)"
    and "\<And>e. e < length (pool_entries p) \<Longrightarrow> \<not> pe_ready (pool_entries p ! e) \<Longrightarrow>
      \<not> has_client (pool_entries p ! e) \<and> pe_release (pool_entries p ! e) = []
      \<and> pe_owner (pool_entries p ! e) < length (claims p) \<and> holder_of p (pe_owner (pool_entries p ! e)) = e
      \<and> \<not> cl_released (claims p ! pe_owner (pool_entries p ! e))"
  shows "counted p"
  unfolding counted_def Let_def using assms by blast

text \<open>A new reference, on an entry of the map or on a new entry.\<close>

lemma join_ok:
  assumes ok: "pool_ok [] p" and e: "e < length (pool_entries p)" "0 < pe_refs (pool_entries p ! e)"
    and q: "conns q = conns p" "claims q = claims p @ [\<lparr>cl_entry = e, cl_released = False\<rparr>]"
    "length (pool_entries q) = length (pool_entries p)"
    "\<And>j. pool_entries q ! j = (if j = e then (pool_entries p ! j)\<lparr>pe_refs := pe_refs (pool_entries p ! j) + 1\<rparr> else pool_entries p ! j)"
  shows "pool_ok [] q"
proof -
  have p: "counted p" and b: "borrowing [] p" and m: "mapped p" using ok by (simp_all add: pool_ok_def)
  have old: "holder_of q c = holder_of p c" "claims q ! c = claims p ! c" if "c < length (claims p)" for c
    using that by (simp_all add: holder_of_def q(2) nth_append)
  have keep: "is_open (pool_entries q ! j) = is_open (pool_entries p ! j)" "has_client (pool_entries q ! j) = has_client (pool_entries p ! j)"
    "pe_release (pool_entries q ! j) = pe_release (pool_entries p ! j)" "pe_owner (pool_entries q ! j) = pe_owner (pool_entries p ! j)"
    "pe_ready (pool_entries q ! j) = pe_ready (pool_entries p ! j)" for j
    by (simp_all add: q(4))
  have refs: "pe_refs (pool_entries q ! j) = pe_refs (pool_entries p ! j) + (if j = e then 1 else 0)" for j by (simp add: q(4))
  have pos: "0 < pe_refs (pool_entries q ! j) \<longleftrightarrow> 0 < pe_refs (pool_entries p ! j)" for j using e(2) by (auto simp: refs)
  have "counted q"
  proof (rule countedI)
    show "cl_entry c < length (pool_entries q)" if "c \<in> set (claims q)" for c
      using that p e(1) by (auto simp: q(2,3) counted_def)
    fix j
    assume "j < length (pool_entries q)"
    then have j: "j < length (pool_entries p)" by (simp add: q(3))
    show "pe_refs (pool_entries q ! j) = int (count_claims j (claims q))"
      using counted_entry(1) [OF p j] by (simp add: refs q(2))
    show "is_open (pool_entries q ! j) \<longleftrightarrow> has_client (pool_entries q ! j) \<and> 0 < pe_refs (pool_entries q ! j)"
      using counted_entry(2) [OF p j] by (simp add: keep pos)
    assume "\<not> pe_ready (pool_entries q ! j)"
    with counted_entry(3) [OF p j] show "\<not> has_client (pool_entries q ! j) \<and> pe_release (pool_entries q ! j) = []
      \<and> pe_owner (pool_entries q ! j) < length (claims q) \<and> holder_of q (pe_owner (pool_entries q ! j)) = j
      \<and> \<not> cl_released (claims q ! pe_owner (pool_entries q ! j))"
      by (simp add: keep old) (simp add: q(2))
  qed
  moreover have "borrowing [] q"
    unfolding borrowing_def q(3) keep
  proof (intro allI impI ballI)
    fix j c
    assume jc: "j < length (pool_entries p)" "c \<in> set (pe_release (pool_entries p ! j))"
    note d = borrowingD [OF b jc]
    show "c < length (claims q) \<and> pe_ready (pool_entries p ! holder_of q c)
        \<and> (0 < pe_refs (pool_entries q ! j) \<longrightarrow> \<not> cl_released (claims q ! c) \<and> c \<notin> set [])
        \<and> (pe_refs (pool_entries q ! j) \<le> 0 \<longrightarrow> cl_released (claims q ! c) \<or> c \<in> set [])
        \<and> (\<forall>e' < length (pool_entries p). e' \<noteq> j \<longrightarrow> c \<notin> set (pe_release (pool_entries p ! e')))"
      using d(1-4) d(5) by (simp add: old pos not_less [symmetric]) (simp add: q(2))
  qed
  moreover have "mapped q" using m e by (auto simp: mapped_def q)
  ultimately show ?thesis by (simp add: pool_ok_def returnable_def)
qed

lemma fresh_ok:
  assumes ok: "pool_ok [] p" and k: "map_of (conns p) k = None" and x: "pe_key x = k" "\<not> pe_ready x" "\<not> has_client x" "\<not> is_open x"
      "pe_release x = []" "pe_refs x = 1" "\<not> pe_evicted x" "pe_owner x = length (claims p)"
    and q: "conns q = (k, length (pool_entries p)) # conns p" "pool_entries q = pool_entries p @ [x]"
      "claims q = claims p @ [\<lparr>cl_entry = length (pool_entries p), cl_released = False\<rparr>]"
  shows "pool_ok [] q"
proof -
  have p: "counted p" and b: "borrowing [] p" and m: "mapped p" using ok by (simp_all add: pool_ok_def)
  let ?n = "length (pool_entries p)"
  have old: "holder_of q c = holder_of p c" "claims q ! c = claims p ! c" if "c < length (claims p)" for c
    using that by (simp_all add: holder_of_def q(3) nth_append)
  have entry: "pool_entries q ! ?n = x" "\<And>j. j < ?n \<Longrightarrow> pool_entries q ! j = pool_entries p ! j" by (simp_all add: q(2) nth_append)
  have less: "j < length (pool_entries q) \<longleftrightarrow> j < ?n \<or> j = ?n" for j by (auto simp: q(2))
  have none: "count_claims ?n (claims p) = 0" using p by (intro count_claims_none) (auto simp: counted_def)
  have "counted q"
  proof (rule countedI)
    show "cl_entry c < length (pool_entries q)" if "c \<in> set (claims q)" for c
      using that p by (auto simp: q(2,3) counted_def less_Suc_eq)
    fix j
    assume j: "j < length (pool_entries q)"
    show "pe_refs (pool_entries q ! j) = int (count_claims j (claims q))"
      using j counted_entry(1) [OF p, of j] none by (auto simp: less entry x q(3))
    show "is_open (pool_entries q ! j) \<longleftrightarrow> has_client (pool_entries q ! j) \<and> 0 < pe_refs (pool_entries q ! j)"
      using j counted_entry(2) [OF p, of j] by (auto simp: less entry x)
    assume nr: "\<not> pe_ready (pool_entries q ! j)"
    show "\<not> has_client (pool_entries q ! j) \<and> pe_release (pool_entries q ! j) = []
      \<and> pe_owner (pool_entries q ! j) < length (claims q) \<and> holder_of q (pe_owner (pool_entries q ! j)) = j
      \<and> \<not> cl_released (claims q ! pe_owner (pool_entries q ! j))"
    proof (cases "j = ?n")
      case True
      then show ?thesis by (simp add: entry x q(3) holder_of_def)
    next
      case False
      with j have j': "j < ?n" by (simp add: less)
      with nr counted_entry(3) [OF p j'] show ?thesis by (simp add: entry old) (simp add: q(3))
    qed
  qed
  moreover have "borrowing [] q"
    unfolding borrowing_def
  proof (intro allI impI ballI)
    fix j c
    assume "j < length (pool_entries q)" and "c \<in> set (pe_release (pool_entries q ! j))"
    then have jc: "j < ?n" "c \<in> set (pe_release (pool_entries p ! j))" by (auto simp: less entry x)
    note d = borrowingD [OF b jc]
    have "holder_of p c < ?n" by (rule counted_claims [OF p d(1)])
    then show "c < length (claims q) \<and> pe_ready (pool_entries q ! holder_of q c)
        \<and> (0 < pe_refs (pool_entries q ! j) \<longrightarrow> \<not> cl_released (claims q ! c) \<and> c \<notin> set [])
        \<and> (pe_refs (pool_entries q ! j) \<le> 0 \<longrightarrow> cl_released (claims q ! c) \<or> c \<in> set [])
        \<and> (\<forall>e' < length (pool_entries q). e' \<noteq> j \<longrightarrow> c \<notin> set (pe_release (pool_entries q ! e')))"
      using d(1-4) d(5) jc(1) by (simp add: old entry) (auto simp: q(3) less entry x)
  qed
  moreover have "mapped q"
  proof -
    have "j < length (pool_entries q) \<and> pe_key (pool_entries q ! j) = k' \<and> \<not> pe_evicted (pool_entries q ! j) \<and> 0 < pe_refs (pool_entries q ! j)"
      if "(k', j) \<in> set (conns q)" for k' j
      using that mappedD [OF m, of k' j] by (cases "j = ?n") (auto simp: q(1) less entry x)
    with m k show ?thesis by (auto simp: mapped_def q(1) map_of_eq_None_iff)
  qed
  ultimately show ?thesis by (simp add: pool_ok_def returnable_def)
qed

lemma dialled_ok:
  assumes ok: "pool_ok [] p" and e: "e < length (pool_entries p)" "\<not> pe_ready (pool_entries p ! e)" and held: "granted p held"
  shows "pool_ok [] (acquire_finish e (Dialled via held) p)" 
proof -
  define q where "q = acquire_finish e (Dialled via held) p"
  have p: "counted p" and b: "borrowing [] p" and m: "mapped p" using ok by (simp_all add: pool_ok_def)
  have live: "0 < pe_refs (pool_entries p ! e)" by (rule unready_live [OF p e])
  have q: "conns q = conns p" "claims q = claims p" "length (pool_entries q) = length (pool_entries p)" "holder_of q c = holder_of p c"
    "pool_entries q ! j = (if j = e then (pool_entries p ! j)\<lparr>has_client := True, is_open := True, pe_release := held, through := via, pe_ready := True\<rparr>
       else pool_entries p ! j)" for j c
    using upd_entry_nth [OF e(1)] by (simp_all add: q_def)
  have mem: "c \<notin> set (pe_release (pool_entries p ! j))" if "c \<in> set held" "j < length (pool_entries p)" for c j
    using held that by (auto simp: granted_def)
  have "counted q"
    by (rule countedI) (use p counted_entry [OF p] live in \<open>auto simp: q counted_def split: if_splits\<close>)
  moreover have "borrowing [] q"
    unfolding borrowing_def
  proof (intro allI impI ballI)
    fix j c
    assume j: "j < length (pool_entries q)" and c: "c \<in> set (pe_release (pool_entries q ! j))"
    show "c < length (claims q) \<and> pe_ready (pool_entries q ! holder_of q c)
        \<and> (0 < pe_refs (pool_entries q ! j) \<longrightarrow> \<not> cl_released (claims q ! c) \<and> c \<notin> set [])
        \<and> (pe_refs (pool_entries q ! j) \<le> 0 \<longrightarrow> cl_released (claims q ! c) \<or> c \<in> set [])
        \<and> (\<forall>e' < length (pool_entries q). e' \<noteq> j \<longrightarrow> c \<notin> set (pe_release (pool_entries q ! e')))"
    proof (cases "j = e")
      case True
      then have "c \<in> set held" using c by (simp add: q)
      with held live True mem show ?thesis by (auto simp: granted_def q)
    next
      case False
      then have c': "c \<in> set (pe_release (pool_entries p ! j))" and j': "j < length (pool_entries p)" using c j by (simp_all add: q)
      then have "c \<notin> set held" using mem by blast
      with borrowingD [OF b j' c'] False show ?thesis by (auto simp: q)
    qed
  qed
  moreover have "mapped q" using m by (auto simp: mapped_def q)
  ultimately have "pool_ok [] q" by (simp add: pool_ok_def returnable_def)
  then show ?thesis by (simp add: q_def)
qed

lemma begin_ok:
  assumes "pool_ok [] p"
  shows "pool_ok [] (fst (acquire_begin k p))"
proof (cases "pool_closed p")
  case True
  with assms show ?thesis by (simp add: acquire_begin_def)
next
  case False
  show ?thesis
  proof (cases "map_of (conns p) k")
    case None
    have "pool_ok [] (fst (acquire_begin k p))"
      by (rule fresh_ok [OF assms None, where x = "\<lparr>pe_key = k, pe_ready = False, has_client = False, is_open = False,
            pe_err = False, pe_release = [], pe_refs = 1, pe_evicted = False, through = None, pe_owner = length (claims p)\<rparr>"])
        (simp_all add: acquire_begin_def False None Let_def)
    then show ?thesis .
  next
    case (Some e)
    then have "(k, e) \<in> set (conns p)" by (rule map_of_SomeD)
    with assms have e: "e < length (pool_entries p)" "0 < pe_refs (pool_entries p ! e)"
      using mappedD [of p k e] by (simp_all add: pool_ok_def)
    show ?thesis
      by (rule join_ok [OF assms e]) (use e(1) in \<open>simp_all add: acquire_begin_def False Some upd_entry_def\<close>)
  qed
qed

lemma failed_ok:
  assumes ok: "pool_ok [] p" and e: "e < length (pool_entries p)" "\<not> pe_ready (pool_entries p ! e)"
  shows "pool_ok [] (acquire_finish e (DialFailed []) p)"
proof -
  let ?p1 = "upd_entry e (\<lambda>x. x\<lparr>pe_err := True, pe_release := []\<rparr>) p"
  have m: "mapped p" and empty: "pe_release (pool_entries p ! e) = []"
    using ok counted_entry(3) [of p e] e by (simp_all add: pool_ok_def)
  have "pool_ok [] ?p1"
    by (rule quiet_update [OF ok e(1), where f = "\<lambda>x. x\<lparr>pe_err := True, pe_release := []\<rparr>"])
      (use m empty in \<open>simp_all add: upd_entry_def mapped_def\<close>)
  then have ok2: "pool_ok [] (evict e ?p1)" using e(1) by (intro evict_ok) simp_all
  have len: "e < length (pool_entries (evict e ?p1))" using e(1) by (simp add: evict_def Let_def)
  have "pool_ok [] (upd_entry e (\<lambda>x. x\<lparr>pe_ready := True\<rparr>) (evict e ?p1))"
    by (rule quiet_update [OF ok2 len, where f = "\<lambda>x. x\<lparr>pe_ready := True\<rparr>"])
      (use ok2 in \<open>simp_all add: upd_entry_def pool_ok_def mapped_def\<close>)
  then show ?thesis by (simp add: release_claims.simps)
qed

lemma given_back_ok:
  assumes ok: "pool_ok [] p" and c: "c < length (claims p)"
    "pe_ready (pool_entries p ! holder_of p c) \<or> c \<noteq> pe_owner (pool_entries p ! holder_of p c)"
    and free: "\<forall>x \<in> set (pool_entries p). c \<in> set (pe_release x) \<longrightarrow> pe_refs x \<le> 0"
  shows "pool_ok [] (Release c p)"
proof -
  have "borrowing [c] p"
    unfolding borrowing_def
  proof (intro allI impI ballI)
    fix e d
    assume ed: "e < length (pool_entries p)" "d \<in> set (pe_release (pool_entries p ! e))"
    have b: "borrowing [] p" using ok by (simp add: pool_ok_def)
    have "d = c \<Longrightarrow> pe_refs (pool_entries p ! e) \<le> 0" using free ed by auto
    with borrowingD [OF b ed] show "d < length (claims p) \<and> pe_ready (pool_entries p ! holder_of p d)
        \<and> (0 < pe_refs (pool_entries p ! e) \<longrightarrow> \<not> cl_released (claims p ! d) \<and> d \<notin> set [c])
        \<and> (pe_refs (pool_entries p ! e) \<le> 0 \<longrightarrow> cl_released (claims p ! d) \<or> d \<in> set [c])
        \<and> (\<forall>e' < length (pool_entries p). e' \<noteq> e \<longrightarrow> d \<notin> set (pe_release (pool_entries p ! e')))" by force
  qed
  with ok c have "pool_ok [c] p" by (simp add: pool_ok_def returnable_def)
  then show ?thesis unfolding Release_def by (rule release_ok)
qed

interpretation pool: invariant_of pool_step "pool_ok []"
proof
  fix p q
  assume "pool_step p q" and "pool_ok [] p"
  then show "pool_ok [] q"
    by (induction rule: pool_step.induct)
      (auto intro: begin_ok dialled_ok failed_ok evict_ok given_back_ok simp: watch_fires_def simp del: acquire_finish.simps)
qed

definition claimed :: "Pool \<Rightarrow> nat \<Rightarrow> bool" where
  "claimed p e \<longleftrightarrow> (\<exists>c \<in> set (claims p). cl_entry c = e \<and> \<not> cl_released c)"

text \<open>
  C31 (invariant). However callers acquire, join, wait, give up and release what they were handed,
  dials succeed and fail and connections die, before shutdown: a connection is open exactly as long
  as somebody holds a claim on it; the claims its dial handed over with it, which are those on the
  hops for a host dialled through some, stay unreleased as long as it is claimed and are given back
  with its last claim; and the pool never has two current connections for one user, host and route.
  A connection that was dialled as a hop of another is handed none, so nothing here keeps the hop
  before it open for its own holders (\<open>hop_closed_under_holder\<close>).
\<close>

theorem pool_counts_references:
  assumes "pool_step\<^sup>*\<^sup>* NewPool p" and "e < length (pool_entries p)" and "x = pool_entries p ! e"
  shows "(is_open x \<longleftrightarrow> has_client x \<and> claimed p e)
    \<and> (\<forall>c \<in> set (pe_release x). \<not> cl_released (claims p ! c) \<longleftrightarrow> claimed p e)
    \<and> distinct (map fst (conns p)) \<and> (map_of (conns p) k = Some e \<longrightarrow> pe_key x = k \<and> claimed p e)"
proof -
  have "pool_ok [] NewPool"
    by (simp add: pool_ok_def NewPool_def counted_def borrowing_def mapped_def returnable_def)
  from pool.run_inv [OF assms(1) this] have p: "counted p" "borrowing [] p" "mapped p" by (simp_all add: pool_ok_def)
  note x = counted_entry [OF p(1) assms(2), folded assms(3)]
  have held: "0 < pe_refs x \<longleftrightarrow> claimed p e"
    unfolding x(1) by (auto simp: count_claims_def claimed_def filter_empty_conv)
  moreover have "\<not> cl_released (claims p ! c) \<longleftrightarrow> 0 < pe_refs x" if "c \<in> set (pe_release x)" for c
    using borrowingD(3,4) [OF p(2) assms(2), of c] that assms(3) by (cases "0 < pe_refs x") auto
  moreover have "map_of (conns p) k = Some e \<longrightarrow> pe_key x = k \<and> 0 < pe_refs x"
    using mappedD [OF p(3), of k e] assms(3) map_of_SomeD [of "conns p" k e] by blast
  ultimately show ?thesis using x(2) p(3) by (simp add: mapped_def)
qed

theorem pool_counts_references_witness:
  "\<exists>p. pool_step\<^sup>*\<^sup>* NewPool p \<and> is_open (pool_entries p ! 0) \<and> claimed p 0"
proof -
  let ?p1 = "fst (acquire_begin (PathKey ''u'' [] ''s'') NewPool)"
  let ?p2 = "acquire_finish 0 (Dialled None []) ?p1"
  have "pool_step ?p1 ?p2"
    by (rule dialled) (simp_all add: acquire_begin_def NewPool_def Let_def granted_def)
  then have run: "pool_step\<^sup>*\<^sup>* NewPool ?p2"
    using begin_acquire [of NewPool "PathKey ''u'' [] ''s''"] by (meson r_into_rtranclp rtranclp_trans)
  have "is_open (pool_entries ?p2 ! 0)" "0 < length (pool_entries ?p2)"
    by (simp_all add: acquire_begin_def NewPool_def Let_def upd_entry_def)
  with pool_counts_references [OF run, of 0] run show ?thesis by blast
qed

subsection \<open>A hop under somebody else\<close>

text \<open>A host dialled through \<open>hops\<close>, as \<^verbatim>\<open>Dialer.Acquire\<close> asks the pool for it.\<close>

definition open_route :: "(string \<Rightarrow> bool) \<Rightarrow> (string \<Rightarrow> bool) \<Rightarrow> string \<Rightarrow> string list \<Rightarrow> string \<Rightarrow> Pool \<Rightarrow> (Pool \<times> nat option) option" where
  "open_route able ok user hops target = Acquire (PathKey user hops target) (dialThrough able ok user hops target)"

text \<open>
  A connection can be closed from under its holder. With a connection open to a host
  behind two hops, somebody opens a terminal on the second hop: the pool hands out the entry that
  was dialled as a hop, which holds no claim on the first hop. When the far connection is closed,
  its claims go back, the first hop's client is closed, and the terminal on the second hop, whose
  claim was never given back, has lost the transport it rides on.
\<close>

theorem hop_closed_under_holder:
  assumes "a \<noteq> b" and "b \<noteq> t" and "a \<noteq> t" and "able a \<and> able b" and "ok a \<and> ok b \<and> ok t"
  shows "\<exists>p1 far p2 near eb ea.
     open_route able ok u [a, b] t NewPool = Some (p1, Some far) \<and> open_route able ok u [a] b p1 = Some (p2, Some near)
     \<and> (let p3 = Release far p2 in
          \<not> cl_released (claims p3 ! near) \<and> cl_entry (claims p3 ! near) = eb \<and> is_open (pool_entries p3 ! eb)
          \<and> through (pool_entries p3 ! eb) = Some ea \<and> \<not> is_open (pool_entries p3 ! ea))"
proof -

  have keys: "PathKey u [a, b] t \<noteq> PathKey u [] a" "PathKey u [a, b] t \<noteq> PathKey u [a] b" "PathKey u [] a \<noteq> PathKey u [a] b"
    using assms by (simp_all add: PathKey_def)
  note run = open_route_def Acquire_def dialThrough_def acquire_begin_def NewPool_def Let_def upd_entry_def
  show ?thesis
    using keys keys [symmetric] assms
    by (simp add: run Release_def release_claims.simps drop_ref_def evict_def mark_released_def)
qed

theorem hop_closed_under_holder_witness:
  "\<exists>p1 far p2 near. open_route (\<lambda>_. True) (\<lambda>_. True) ''u'' [''bastion'', ''core''] ''leaf'' NewPool = Some (p1, Some far)
     \<and> open_route (\<lambda>_. True) (\<lambda>_. True) ''u'' [''bastion''] ''core'' p1 = Some (p2, Some near)
     \<and> (\<exists>e. through (pool_entries (Release far p2) ! cl_entry (claims (Release far p2) ! near)) = Some e
          \<and> \<not> is_open (pool_entries (Release far p2) ! e))"
  using hop_closed_under_holder [of "''bastion''" "''core''" "''leaf''" "\<lambda>_. True" "\<lambda>_. True" "''u''"]
  by (simp add: Let_def) blast

end
