(* ===== verification/Host_Keys.thy ===== *)
theory Host_Keys
  imports Prelude
begin

section \<open>Trusted host keys (\<^verbatim>\<open>internal/hostkeys/hostkeys.go\<close>)\<close>

text \<open>
  The table of known hosts and the decision about a presented key. An entry without a user is
  published for everybody; its SQL \<^verbatim>\<open>NULL\<close> is the empty user here, which no query for a user's
  own rows matches. A presented key arrives described: its type, text and fingerprint come from the
  SSH package. \<open>hostKeyCallback\<close> (\<^verbatim>\<open>internal/proto/sshx/client.go\<close>) and the closures of
  \<^verbatim>\<open>dialOne\<close> (\<^verbatim>\<open>internal/remote/dial.go\<close>) are what a handshake runs before any credential
  is offered.
\<close>

datatype Verdict = VerdictTrusted | VerdictUnknown | VerdictChanged

datatype hostkey_error =
    ErrKeyChanged
  | NoRecord
  | TrustNeedsUser
  | EmptyHostname
  | PortOutOfRange
  | KeyRequired
  | ErrHostKeyRejected
  | RecordingFailed hostkey_error

record hostkey_entry =
  hk_ID :: string
  hk_UserID :: string
  hk_Hostname :: string
  hk_Port :: int
  hk_KeyType :: string
  hk_PublicKey :: string
  hk_Fingerprint :: string
  hk_CreatedAt :: int

record Presented =
  pk_KeyType :: string
  pk_PublicKey :: string
  pk_Fingerprint :: string

record Check =
  ck_Verdict :: Verdict
  ck_Presented :: Presented
  Existing :: "hostkey_entry option"

type_synonym known_hosts = "hostkey_entry list"

definition IsOrgWide :: "hostkey_entry \<Rightarrow> bool" where
  "IsOrgWide e \<longleftrightarrow> hk_UserID e = ''''"

definition NormalizeHost :: "string \<Rightarrow> string" where
  "NormalizeHost host =
     trim_suffix (trim_prefix (trim_suffix (to_lower (trim_space host)) ''.'') ''['') '']''"

definition same_slot :: "string \<Rightarrow> string \<Rightarrow> int \<Rightarrow> string \<Rightarrow> hostkey_entry \<Rightarrow> bool" where
  "same_slot user host port kt e \<longleftrightarrow>
     hk_UserID e = user \<and> hk_Hostname e = host \<and> hk_Port e = port \<and> hk_KeyType e = kt"

definition lookup_key :: "known_hosts \<Rightarrow> string \<Rightarrow> string \<Rightarrow> int \<Rightarrow> string \<Rightarrow> hostkey_entry option" where
  "lookup_key db user host port kt = find (same_slot user host port kt) db"

definition verdict_on :: "hostkey_entry \<Rightarrow> Presented \<Rightarrow> Check" where
  "verdict_on e pres =
     \<lparr>ck_Verdict = (if hk_Fingerprint e = pk_Fingerprint pres then VerdictTrusted else VerdictChanged),
      ck_Presented = pres, Existing = Some e\<rparr>"

definition Verify :: "known_hosts \<Rightarrow> string \<Rightarrow> string \<Rightarrow> int \<Rightarrow> Presented \<Rightarrow> Check" where
  "Verify db user hostname port pres =
     (let host = NormalizeHost hostname
      in case lookup_key db '''' host port (pk_KeyType pres) of
           Some e \<Rightarrow> verdict_on e pres
         | None \<Rightarrow>
             (case lookup_key db user host port (pk_KeyType pres) of
                Some e \<Rightarrow> verdict_on e pres
              | None \<Rightarrow> \<lparr>ck_Verdict = VerdictUnknown, ck_Presented = pres, Existing = None\<rparr>))"

definition insert_key ::
  "string \<Rightarrow> int \<Rightarrow> known_hosts \<Rightarrow> string \<Rightarrow> string \<Rightarrow> int \<Rightarrow> Presented \<Rightarrow> known_hosts \<times> (hostkey_error, hostkey_entry) result" where
  "insert_key i now db user hostname port pres =
     (let host = NormalizeHost hostname
      in if host = '''' then (db, Inl EmptyHostname)
         else if port < 1 \<or> port > 65535 then (db, Inl PortOutOfRange)
         else if pk_Fingerprint pres = '''' \<or> pk_PublicKey pres = '''' then (db, Inl KeyRequired)
         else case lookup_key db user host port (pk_KeyType pres) of
             Some e \<Rightarrow> (db, if hk_Fingerprint e = pk_Fingerprint pres then Inr e else Inl ErrKeyChanged)
           | None \<Rightarrow>
               let e = \<lparr>hk_ID = i, hk_UserID = user, hk_Hostname = host, hk_Port = port, hk_KeyType = pk_KeyType pres,
                        hk_PublicKey = pk_PublicKey pres, hk_Fingerprint = pk_Fingerprint pres, hk_CreatedAt = now\<rparr>
               in (db @ [e], Inr e))"

definition Trust ::
  "string \<Rightarrow> int \<Rightarrow> known_hosts \<Rightarrow> string \<Rightarrow> string \<Rightarrow> int \<Rightarrow> Presented \<Rightarrow> known_hosts \<times> (hostkey_error, hostkey_entry) result" where
  "Trust i now db user hostname port pres =
     (if user = '''' then (db, Inl TrustNeedsUser) else insert_key i now db user hostname port pres)"

definition TrustOrgWide ::
  "string \<Rightarrow> int \<Rightarrow> known_hosts \<Rightarrow> string \<Rightarrow> int \<Rightarrow> Presented \<Rightarrow> known_hosts \<times> (hostkey_error, hostkey_entry) result" where
  "TrustOrgWide i now db hostname port pres = insert_key i now db '''' hostname port pres"

definition Replace ::
  "string \<Rightarrow> int \<Rightarrow> known_hosts \<Rightarrow> string \<Rightarrow> string \<Rightarrow> int \<Rightarrow> Presented \<Rightarrow> known_hosts \<times> (hostkey_error, hostkey_entry) result" where
  "Replace i now db user hostname port pres =
     (let host = NormalizeHost hostname;
          db' = filter (\<lambda>e. \<not> same_slot user host port (pk_KeyType pres) e) db
                @ [\<lparr>hk_ID = i, hk_UserID = user, hk_Hostname = host, hk_Port = port, hk_KeyType = pk_KeyType pres,
                     hk_PublicKey = pk_PublicKey pres, hk_Fingerprint = pk_Fingerprint pres, hk_CreatedAt = now\<rparr>]
      in (db', case lookup_key db' user host port (pk_KeyType pres) of None \<Rightarrow> Inl NoRecord | Some e \<Rightarrow> Inr e))"

definition Forget_host :: "known_hosts \<Rightarrow> string \<Rightarrow> string \<Rightarrow> int \<Rightarrow> known_hosts \<times> nat" where
  "Forget_host db user hostname port =
     (let gone = (\<lambda>e. user \<noteq> '''' \<and> hk_UserID e = user \<and> hk_Hostname e = NormalizeHost hostname \<and> hk_Port e = port)
      in (filter (\<lambda>e. \<not> gone e) db, length (filter gone db)))"

definition ListForUser_keys :: "known_hosts \<Rightarrow> string \<Rightarrow> hostkey_entry list" where
  "ListForUser_keys db user = filter (\<lambda>e. hk_UserID e = user \<or> hk_UserID e = '''') db"

subsection \<open>The decision during a handshake\<close>

text \<open>
  The prompter is absent, or answers with acceptance, refusal, or an error (\<open>None\<close>).
\<close>

definition decide ::
  "string \<Rightarrow> int \<Rightarrow> (Presented \<Rightarrow> bool option) option \<Rightarrow> string \<Rightarrow> string \<Rightarrow> int \<Rightarrow> Check \<Rightarrow> known_hosts
     \<Rightarrow> known_hosts \<times> (hostkey_error, unit) result" where
  "decide i now prompter user hostname port ck db =
     (case ck_Verdict ck of
        VerdictTrusted \<Rightarrow> (db, Inr ())
      | VerdictChanged \<Rightarrow> (db, Inl ErrHostKeyRejected)
      | VerdictUnknown \<Rightarrow>
          (case prompter of
             None \<Rightarrow> (db, Inl ErrHostKeyRejected)
           | Some ask \<Rightarrow>
               if ask (ck_Presented ck) \<noteq> Some True then (db, Inl ErrHostKeyRejected)
               else case Trust i now db user hostname port (ck_Presented ck) of
                   (db', Inl e) \<Rightarrow> (db', Inl (RecordingFailed e))
                 | (db', Inr _) \<Rightarrow> (db', Inr ())))"

definition hostKeyCallback ::
  "string \<Rightarrow> int \<Rightarrow> (Presented \<Rightarrow> bool option) option \<Rightarrow> string \<Rightarrow> string \<Rightarrow> int \<Rightarrow> Presented \<Rightarrow> known_hosts
     \<Rightarrow> known_hosts \<times> (hostkey_error, unit) result" where
  "hostKeyCallback i now prompter user hostname port pres db =
     decide i now prompter user hostname port (Verify db user hostname port pres) db"

text \<open>How a failed dial is reported, by the code of the error.\<close>

datatype dial_error = DialHostKey | DialAuthFailed | DialUnreachable | DialNoCredential | DialOther

definition classify :: "dial_error \<Rightarrow> Verdict option \<Rightarrow> string" where
  "classify e verdict =
     (case e of
        DialHostKey \<Rightarrow> if verdict = Some VerdictChanged then ''host_key_changed'' else ''host_key_rejected''
      | DialAuthFailed \<Rightarrow> ''auth_failed''
      | DialUnreachable \<Rightarrow> ''unreachable''
      | DialNoCredential \<Rightarrow> ''no_credential''
      | DialOther \<Rightarrow> ''internal_error'')"

subsection \<open>A key stays pinned\<close>

datatype hostkey_op =
    OConnect string int "(Presented \<Rightarrow> bool option) option" string string int Presented
  | OTrust string int string string int Presented
  | OTrustOrgWide string int string int Presented
  | OReplace string int string string int Presented
  | OForget string string int

fun hostkey_apply :: "known_hosts \<Rightarrow> hostkey_op \<Rightarrow> known_hosts" where
  "hostkey_apply db (OConnect i now pr u h p pres) = fst (hostKeyCallback i now pr u h p pres db)"
| "hostkey_apply db (OTrust i now u h p pres) = fst (Trust i now db u h p pres)"
| "hostkey_apply db (OTrustOrgWide i now h p pres) = fst (TrustOrgWide i now db h p pres)"
| "hostkey_apply db (OReplace i now u h p pres) = fst (Replace i now db u h p pres)"
| "hostkey_apply db (OForget u h p) = fst (Forget_host db u h p)"

text \<open>The deliberate acts that take a user's record of a host away.\<close>

fun overrides :: "string \<Rightarrow> string \<Rightarrow> int \<Rightarrow> string \<Rightarrow> hostkey_op \<Rightarrow> bool" where
  "overrides u h p kt (OReplace i now u' h' p' pres) = (u' = u \<and> NormalizeHost h' = h \<and> p' = p \<and> pk_KeyType pres = kt)"
| "overrides u h p kt (OForget u' h' p') = (u' = u \<and> NormalizeHost h' = h \<and> p' = p)"
| "overrides u h p kt _ = False"

lemma find_append_Some: "find P xs = Some y \<Longrightarrow> find P (xs @ ys) = Some y"
  by (induction xs) auto

lemma find_filter_keep: "find P xs = Some y \<Longrightarrow> (\<And>x. P x \<Longrightarrow> Q x) \<Longrightarrow> find P (filter Q xs) = Some y"
  by (induction xs) auto

lemma insert_keeps:
  "lookup_key db u h p kt = Some e \<Longrightarrow> lookup_key (fst (insert_key i now db u' h' p' pres)) u h p kt = Some e"
  by (auto simp: insert_key_def Let_def lookup_key_def find_append_Some split: option.splits)

lemma trust_keeps:
  "lookup_key db u h p kt = Some e \<Longrightarrow> lookup_key (fst (Trust i now db u' h' p' pres)) u h p kt = Some e"
  by (simp add: Trust_def insert_keeps)

lemma connect_keeps:
  assumes "lookup_key db u h p kt = Some e"
  shows "lookup_key (fst (hostKeyCallback i now pr u' h' p' pres db)) u h p kt = Some e"
proof -
  have "fst (decide i now pr u' h' p' ck db) \<in> {db, fst (Trust i now db u' h' p' (ck_Presented ck))}" for ck
    by (auto simp: decide_def split: Verdict.split option.split prod.splits sum.splits)
  then show ?thesis using assms trust_keeps unfolding hostKeyCallback_def by (metis insertE singletonD)
qed

lemma apply_keeps:
  assumes "lookup_key db u h p kt = Some e" and "u \<noteq> ''''" and "\<not> overrides u h p kt op"
  shows "lookup_key (hostkey_apply db op) u h p kt = Some e"
proof (cases op)
  case (OReplace i now u' h' p' pres)
  have "find (same_slot u h p kt) (filter (\<lambda>e. \<not> same_slot u' (NormalizeHost h') p' (pk_KeyType pres) e) db) = Some e"
    using assms OReplace by (intro find_filter_keep) (auto simp: lookup_key_def same_slot_def)
  with OReplace show ?thesis by (simp add: Replace_def Let_def lookup_key_def find_append_Some)
next
  case (OForget u' h' p')
  with assms show ?thesis
    by (simp add: Forget_host_def Let_def lookup_key_def) (intro find_filter_keep, auto simp: same_slot_def)
qed (use assms in \<open>simp_all add: connect_keeps trust_keeps TrustOrgWide_def insert_keeps\<close>)

lemma history_keeps:
  assumes "lookup_key db u h p kt = Some e" and "u \<noteq> ''''" and "\<forall>op \<in> set ops. \<not> overrides u h p kt op"
  shows "lookup_key (foldl hostkey_apply db ops) u h p kt = Some e"
  using assms apply_keeps by (induction ops arbitrary: db) auto

text \<open>
  C33 (safety). Once a user has a key on record for a host, a port and a key type, no sequence of
  connections, acceptances and publications changes the record: only \<^verbatim>\<open>Replace\<close> or
  \<^verbatim>\<open>Forget\<close> for that very host does. Until then a host that presents a key of that type is let
  through if and only if the fingerprint is the published one or, when none is published, the
  recorded one, whatever a prompter would say, and nothing is written. The record binds that key
  type alone: a key of a type for which nothing is on record is unknown, not changed.
\<close>

theorem host_key_pinned_per_type:
  assumes "lookup_key db u (NormalizeHost h) p kt = Some e" and "u \<noteq> ''''"
    and "\<forall>op \<in> set ops. \<not> overrides u (NormalizeHost h) p kt op" and "db' = foldl hostkey_apply db ops"
  shows "lookup_key db' u (NormalizeHost h) p kt = Some e
    \<and> (pk_KeyType pres = kt \<longrightarrow>
         hostKeyCallback i now pr u h p pres db' =
           (db', if pk_Fingerprint pres = hk_Fingerprint (case lookup_key db' '''' (NormalizeHost h) p kt of Some o' \<Rightarrow> o' | None \<Rightarrow> e)
                 then Inr () else Inl ErrHostKeyRejected))
    \<and> (lookup_key db' '''' (NormalizeHost h) p (pk_KeyType pres) = None \<and> lookup_key db' u (NormalizeHost h) p (pk_KeyType pres) = None
         \<longrightarrow> ck_Verdict (Verify db' u h p pres) = VerdictUnknown)"
proof -
  have pinned: "lookup_key db' u (NormalizeHost h) p kt = Some e"
    unfolding assms(4) by (rule history_keeps [OF assms(1,2,3)])
  then show ?thesis
    by (auto simp: hostKeyCallback_def Verify_def Let_def verdict_on_def decide_def split: option.split)
qed

definition demo_known :: known_hosts where
  "demo_known = [\<lparr>hk_ID = ''1'', hk_UserID = ''u'', hk_Hostname = ''sw1'', hk_Port = 22, hk_KeyType = ''ssh-ed25519'',
     hk_PublicKey = ''k'', hk_Fingerprint = ''f'', hk_CreatedAt = 0\<rparr>]"

theorem host_key_pinned_per_type_witness:
  "snd (hostKeyCallback ''2'' 0 (Some (\<lambda>_. Some True)) ''u'' ''SW1.'' 22
       \<lparr>pk_KeyType = ''ssh-ed25519'', pk_PublicKey = ''x'', pk_Fingerprint = ''g''\<rparr> demo_known) = Inl ErrHostKeyRejected
   \<and> ck_Verdict (Verify demo_known ''u'' ''SW1.'' 22
       \<lparr>pk_KeyType = ''ssh-rsa'', pk_PublicKey = ''x'', pk_Fingerprint = ''g''\<rparr>) = VerdictUnknown"
proof -
  have n: "NormalizeHost ''SW1.'' = ''sw1''"
    by code_simp
  let ?e = "hd demo_known"
  have e: "lookup_key demo_known ''u'' (NormalizeHost ''SW1.'') 22 ''ssh-ed25519'' = Some ?e"
    "lookup_key demo_known '''' (NormalizeHost ''SW1.'') 22 kt = None"
    "lookup_key demo_known ''u'' (NormalizeHost ''SW1.'') 22 ''ssh-rsa'' = None" for kt
    by (simp_all add: n demo_known_def lookup_key_def same_slot_def)
  show ?thesis
    using host_key_pinned_per_type [OF e(1) _ _ refl, of "[]" "\<lparr>pk_KeyType = ''ssh-ed25519'', pk_PublicKey = ''x'', pk_Fingerprint = ''g''\<rparr>"]
      host_key_pinned_per_type [OF e(1) _ _ refl, of "[]" "\<lparr>pk_KeyType = ''ssh-rsa'', pk_PublicKey = ''x'', pk_Fingerprint = ''g''\<rparr>"] e
    by (simp add: demo_known_def)
qed

end
