(* ===== verification/Tunnels.thy ===== *)
theory Tunnels
  imports Go_Time
begin

unbundle bit_operations_syntax

section \<open>Tunnels (\<^verbatim>\<open>internal/proto/tunnel\<close>)\<close>

text \<open>
  The guard on what this server dials for a device, the SOCKS handshake, the manager with its
  ports, quota, reaper and gates, and the host names and headers of web tunnels. An address is the
  list of its 4 or 16 bytes; \<open>parse_ip\<close>, which is \<^verbatim>\<open>net.ParseIP\<close>, and \<open>lookup\<close>, the resolver,
  are parameters. The SSH connection under a tunnel is a number that is claimed and released; what
  the outside world answers while a tunnel is opened is the record \<open>outside\<close>. A socket is the
  bytes its peer sends and the bytes that were written to it.
\<close>

subsection \<open>Destinations (\<^verbatim>\<open>destination.go\<close>)\<close>

type_synonym ip = "byte list"

datatype tunnel_error =
    TunnelNotFound | ErrTooManyTunnels | ErrListenersOff | ErrRemoteOff | ErrRemoteBind | ErrDestinationOff
  | ErrWebTunnelsOff | ErrNoPortAvailable | ErrManagerClosed
  | NotAKind | NowhereToForward | PortOutOfRange | RemotePortOutOfRange | LookupFailed | ResolvesToNothing
  | AcquireFailed | ListenFailed

definition To4 :: "ip \<Rightarrow> ip option" where
  "To4 a =
     (if length a = 4 then Some a
      else if length a = 16 \<and> take 10 a = replicate 10 0 \<and> take 2 (drop 10 a) = [0xFF, 0xFF] then Some (drop 12 a)
      else None)"

definition IsLoopback :: "ip \<Rightarrow> bool" where
  "IsLoopback a = (case To4 a of Some v \<Rightarrow> v ! 0 = 127 | None \<Rightarrow> a = replicate 15 0 @ [1])"

definition IsLinkLocalUnicast :: "ip \<Rightarrow> bool" where
  "IsLinkLocalUnicast a =
     (case To4 a of Some v \<Rightarrow> v ! 0 = 169 \<and> v ! 1 = 254
      | None \<Rightarrow> length a = 16 \<and> a ! 0 = 0xFE \<and> a ! 1 AND 0xC0 = 0x80)"

definition IsLinkLocalMulticast :: "ip \<Rightarrow> bool" where
  "IsLinkLocalMulticast a =
     (case To4 a of Some v \<Rightarrow> v ! 0 = 224 \<and> v ! 1 = 0 \<and> v ! 2 = 0
      | None \<Rightarrow> length a = 16 \<and> a ! 0 = 0xFF \<and> a ! 1 AND 0x0F = 0x02)"

definition IsUnspecified :: "ip \<Rightarrow> bool" where
  "IsUnspecified a = (case To4 a of Some v \<Rightarrow> v = [0, 0, 0, 0] | None \<Rightarrow> a = replicate 16 0)"

definition IsMulticast :: "ip \<Rightarrow> bool" where
  "IsMulticast a =
     (case To4 a of Some v \<Rightarrow> v ! 0 AND 0xF0 = 0xE0 | None \<Rightarrow> length a = 16 \<and> a ! 0 = 0xFF)"

definition IsInterfaceLocalMulticast :: "ip \<Rightarrow> bool" where
  "IsInterfaceLocalMulticast a \<longleftrightarrow> length a = 16 \<and> a ! 0 = 0xFF \<and> a ! 1 AND 0x0F = 0x01"

definition checkDestination :: "ip \<Rightarrow> (tunnel_error, unit) result" where
  "checkDestination a =
     (if IsLoopback a then Inl ErrDestinationOff
      else if IsLinkLocalUnicast a \<or> IsLinkLocalMulticast a then Inl ErrDestinationOff
      else if IsUnspecified a then Inl ErrDestinationOff
      else if IsMulticast a then Inl ErrDestinationOff
      else if IsInterfaceLocalMulticast a then Inl ErrDestinationOff
      else Inr ())"

fun check_each :: "ip list \<Rightarrow> (tunnel_error, ip list) result" where
  "check_each [] = Inr []"
| "check_each (a # as) = bindr (checkDestination a) (\<lambda>_. bindr (check_each as) (\<lambda>ips. Inr (a # ips)))"

definition resolveDestination ::
  "(string \<Rightarrow> ip option) \<Rightarrow> (string \<Rightarrow> ip list option) \<Rightarrow> string \<Rightarrow> (tunnel_error, ip list) result" where
  "resolveDestination parse_ip lookup host =
     (case parse_ip host of
        Some a \<Rightarrow> bindr (checkDestination a) (\<lambda>_. Inr [a])
      | None \<Rightarrow>
          (case lookup host of
             None \<Rightarrow> Inl LookupFailed
           | Some addrs \<Rightarrow> if addrs = [] then Inl ResolvesToNothing else check_each addrs))"

text \<open>The addresses are dialled in turn until one answers; \<open>answers\<close> says which would.\<close>

definition dialDestination ::
  "(string \<Rightarrow> ip option) \<Rightarrow> (string \<Rightarrow> ip list option) \<Rightarrow> (ip \<Rightarrow> bool) \<Rightarrow> string \<Rightarrow> (tunnel_error, ip list \<times> ip option) result" where
  "dialDestination parse_ip lookup answers host =
     bindr (resolveDestination parse_ip lookup host) (\<lambda>ips.
     Inr (case find answers ips of
            Some a \<Rightarrow> (takeWhile (\<lambda>x. \<not> answers x) ips @ [a], Some a)
          | None \<Rightarrow> (ips, None)))"

subsection \<open>Addresses as text\<close>

definition hex_lower :: "nat \<Rightarrow> char" where
  "hex_lower n = char_of (if n < 10 then 48 + n else 87 + n :: nat)"

fun hex_of :: "nat \<Rightarrow> string" where
  "hex_of n = (if n < 16 then '''' else hex_of (n div 16)) @ [hex_lower (n mod 16)]"

declare hex_of.simps [simp del]

fun groups_of :: "byte list \<Rightarrow> nat list" where
  "groups_of (a # b # bs) = (256 * unat a + unat b) # groups_of bs"
| "groups_of _ = []"

definition zeros_at :: "nat list \<Rightarrow> nat \<Rightarrow> nat" where
  "zeros_at gs i = length (takeWhile (\<lambda>g. g = 0) (drop i gs))"

text \<open>The leftmost longest run of at least two zero groups.\<close>

definition zero_run :: "nat list \<Rightarrow> nat \<times> nat" where
  "zero_run gs =
     foldl (\<lambda>(s, e) i. if zeros_at gs i \<ge> 2 \<and> zeros_at gs i > e - s then (i, i + zeros_at gs i) else (s, e)) (0, 0) [0..<8]"

definition ip_String :: "ip \<Rightarrow> string" where
  "ip_String a =
     (case To4 a of
        Some v \<Rightarrow> join_with ''.'' (map (\<lambda>b. decimal_of (unat b)) v)
      | None \<Rightarrow>
          (let gs = groups_of a in
           case zero_run gs of (s, e) \<Rightarrow>
             if s = e then join_with '':'' (map hex_of gs)
             else join_with '':'' (map hex_of (take s gs)) @ ''::'' @ join_with '':'' (map hex_of (drop e gs))))"

definition JoinHostPort :: "string \<Rightarrow> nat \<Rightarrow> string" where
  "JoinHostPort host port =
     (if CHR '':'' \<in> set host then ''['' @ host @ '']'' else host) @ '':'' @ decimal_of port"

subsection \<open>The SOCKS handshake (\<^verbatim>\<open>socks5.go\<close>)\<close>

definition socksVersion5 :: byte where "socksVersion5 = 0x05"
definition socksNoAuth :: byte where "socksNoAuth = 0x00"
definition socksConnect :: byte where "socksConnect = 0x01"
definition socksAddrIPv4 :: byte where "socksAddrIPv4 = 0x01"
definition socksAddrDomain :: byte where "socksAddrDomain = 0x03"
definition socksAddrIPv6 :: byte where "socksAddrIPv6 = 0x04"
definition socksReplyOK :: byte where "socksReplyOK = 0x00"
definition socksReplyGeneralFailure :: byte where "socksReplyGeneralFailure = 0x01"
definition socksReplyCommandNotBuilt :: byte where "socksReplyCommandNotBuilt = 0x07"

datatype socks_error =
    SocksShort | SocksVersion byte | SocksNoMethod | SocksCommand byte | SocksAddrType byte | SocksEmptyName | SocksPortZero

definition socksReply :: "byte \<Rightarrow> byte list" where
  "socksReply code = [socksVersion5, code, 0x00, socksAddrIPv4, 0, 0, 0, 0, 0, 0]"

text \<open>\<^verbatim>\<open>io.ReadFull\<close>: so many bytes and what follows them, or the end of the stream.\<close>

definition ReadFull :: "nat \<Rightarrow> byte list \<Rightarrow> (socks_error, byte list \<times> byte list) result" where
  "ReadFull n inp = (if length inp < n then Inl SocksShort else Inr (take n inp, drop n inp))"

text \<open>The address of a request: its text and the rest of the stream, and what is written on an unknown type.\<close>

definition socks_address :: "byte \<Rightarrow> byte list \<Rightarrow> byte list \<times> (socks_error, string \<times> byte list) result" where
  "socks_address kind inp =
     (if kind = socksAddrIPv4 then ([], bindr (ReadFull 4 inp) (\<lambda>(addr, rest). Inr (ip_String addr, rest)))
      else if kind = socksAddrIPv6 then ([], bindr (ReadFull 16 inp) (\<lambda>(addr, rest). Inr (ip_String addr, rest)))
      else if kind = socksAddrDomain
      then ([], bindr (ReadFull 1 inp) (\<lambda>(len, rest).
             if len ! 0 = 0 then Inl SocksEmptyName
             else bindr (ReadFull (unat (len ! 0)) rest) (\<lambda>(name, rest). Inr (text_of name, rest))))
      else (socksReply socksReplyGeneralFailure, Inl (SocksAddrType kind)))"

definition socks_port :: "string \<times> byte list \<Rightarrow> (socks_error, (string \<times> nat) \<times> byte list) result" where
  "socks_port = (\<lambda>(host, inp).
     bindr (ReadFull 2 inp) (\<lambda>(p, rest).
     let port = 256 * unat (p ! 0) + unat (p ! 1)
     in if port = 0 then Inl SocksPortZero else Inr ((host, port), rest)))"

text \<open>What is written to the client, and where it wants to go with the bytes it sent after that.\<close>

definition socksHandshake :: "byte list \<Rightarrow> byte list \<times> (socks_error, (string \<times> nat) \<times> byte list) result" where
  "socksHandshake inp =
     (case ReadFull 2 inp of
        Inl e \<Rightarrow> ([], Inl e)
      | Inr (header, inp) \<Rightarrow>
          if header ! 0 \<noteq> socksVersion5 then ([], Inl (SocksVersion (header ! 0)))
          else (case ReadFull (unat (header ! 1)) inp of
             Inl e \<Rightarrow> ([], Inl e)
           | Inr (methods, inp) \<Rightarrow>
               if socksNoAuth \<notin> set methods then ([socksVersion5, 0xFF], Inl SocksNoMethod)
               else let out = [socksVersion5, socksNoAuth] in
                 (case ReadFull 4 inp of
                    Inl e \<Rightarrow> (out, Inl e)
                  | Inr (request, inp) \<Rightarrow>
                      if request ! 0 \<noteq> socksVersion5 then (out, Inl (SocksVersion (request ! 0)))
                      else if request ! 1 \<noteq> socksConnect
                      then (out @ socksReply socksReplyCommandNotBuilt, Inl (SocksCommand (request ! 1)))
                      else (case socks_address (request ! 3) inp of
                              (w, r) \<Rightarrow> (out @ w, bindr r socks_port)))))"

subsection \<open>The manager (\<^verbatim>\<open>manager.go\<close>, \<^verbatim>\<open>tunnel.go\<close>)\<close>

datatype tunnel_Kind = KindWeb | KindLocal | KindSOCKS | KindRemote | KindOther string

definition Validate_kind :: "tunnel_Kind \<Rightarrow> (tunnel_error, unit) result" where
  "Validate_kind k = (case k of KindOther _ \<Rightarrow> Inl NotAKind | _ \<Rightarrow> Inr ())"

definition NeedsListener :: "tunnel_Kind \<Rightarrow> bool" where
  "NeedsListener k \<longleftrightarrow> k = KindLocal \<or> k = KindSOCKS"

definition ListensRemotely :: "tunnel_Kind \<Rightarrow> bool" where
  "ListensRemotely k \<longleftrightarrow> k = KindRemote"

datatype State = StateOpen | StateClosed | StateFailed

record Tunnel =
  t_ID :: string
  t_UserID :: string
  t_Kind :: tunnel_Kind
  t_Host :: string
  t_Port :: int
  t_RemoteBind :: string
  t_RemotePort :: int
  t_OpenedAt :: int
  t_conn :: nat
  t_connections :: nat
  t_active :: nat
  t_state :: State
  t_lastUsed :: int
  t_listenAddr :: string
  t_localPort :: int

record tunnel_Config =
  AllowListeners :: bool
  AllowRemoteForwards :: bool
  Bind :: string
  PortLow :: int
  PortHigh :: int
  Domain :: string
  MaxPerUser :: int
  IdleTimeout :: int

text \<open>
  The manager's fields, and what it holds of the world: claims on connections, and the identifiers
  of the tunnels whose listener is open.
\<close>

record tunnel_Manager =
  m_tunnels :: "Tunnel list"
  m_ports :: "int set"
  m_closed :: bool
  m_claims :: "nat set"
  m_listeners :: "string set"

record tunnel_OpenParams =
  p_UserID :: string
  p_Kind :: tunnel_Kind
  p_Host :: string
  p_Port :: int
  p_RemoteBind :: string
  p_RemotePort :: int

record outside =
  o_now :: int
  o_id :: string
  o_parse_ip :: "string \<Rightarrow> ip option"
  o_lookup :: "string \<Rightarrow> ip list option"
  o_conn :: "nat option"
  o_draws :: "nat \<Rightarrow> int option list"
  o_bindable :: "int \<Rightarrow> bool"
  o_remote_listen :: "string \<Rightarrow> int \<Rightarrow> string option"

definition tunnels_config :: "tunnel_Config \<Rightarrow> tunnel_Config" where
  "tunnels_config cfg =
     (let cfg = (if MaxPerUser cfg \<le> 0 then cfg\<lparr>MaxPerUser := 8\<rparr> else cfg)
      in if IdleTimeout cfg \<le> 0 then cfg\<lparr>IdleTimeout := hour\<rparr> else cfg)"

definition tunnel_NewManager :: tunnel_Manager where
  "tunnel_NewManager = \<lparr>m_tunnels = [], m_ports = {}, m_closed = False, m_claims = {}, m_listeners = {}\<rparr>"

definition WebTunnelsEnabled :: "tunnel_Config \<Rightarrow> bool" where
  "WebTunnelsEnabled cfg \<longleftrightarrow> Domain cfg \<noteq> ''''"

text \<open>The random probes end early when no randomness can be had; then comes the sweep.\<close>

fun probe_ports :: "int \<Rightarrow> int set \<Rightarrow> int option list \<Rightarrow> int option" where
  "probe_ports low ports [] = None"
| "probe_ports low ports (None # ds) = None"
| "probe_ports low ports (Some offset # ds) =
     (if low + offset \<notin> ports then Some (low + offset) else probe_ports low ports ds)"

definition allocatePort :: "tunnel_Config \<Rightarrow> int option list \<Rightarrow> int set \<Rightarrow> int set \<times> (tunnel_error, int) result" where
  "allocatePort cfg draws ports =
     (if PortHigh cfg - PortLow cfg + 1 \<le> 0 then (ports, Inl ErrNoPortAvailable)
      else case probe_ports (PortLow cfg) ports (take 32 draws) of
             Some p \<Rightarrow> (insert p ports, Inr p)
           | None \<Rightarrow>
               (case find (\<lambda>p. p \<notin> ports) [PortLow cfg..PortHigh cfg] of
                  Some p \<Rightarrow> (insert p ports, Inr p)
                | None \<Rightarrow> (ports, Inl ErrNoPortAvailable)))"

definition releasePort :: "int \<Rightarrow> int set \<Rightarrow> int set" where
  "releasePort p ports = ports - {p}"

definition listenAttempts :: nat where "listenAttempts = 8"

text \<open>The loop of \<^verbatim>\<open>listen\<close> with \<open>n\<close> attempts left.\<close>

fun listen_loop ::
  "tunnel_Config \<Rightarrow> (nat \<Rightarrow> int option list) \<Rightarrow> (int \<Rightarrow> bool) \<Rightarrow> nat \<Rightarrow> int set \<Rightarrow> int set \<times> (tunnel_error, int) result" where
  "listen_loop cfg draws bindable 0 ports = (ports, Inl ListenFailed)"
| "listen_loop cfg draws bindable (Suc n) ports =
     (case allocatePort cfg (draws n) ports of
        (ports, Inl e) \<Rightarrow> (ports, Inl e)
      | (ports, Inr p) \<Rightarrow>
          if bindable p then (ports, Inr p)
          else listen_loop cfg draws bindable n (releasePort p ports))"

definition checkQuota :: "tunnel_Config \<Rightarrow> string \<Rightarrow> tunnel_Manager \<Rightarrow> (tunnel_error, unit) result" where
  "checkQuota cfg user m =
     (if m_closed m then Inl ErrManagerClosed
      else if int (length (filter (\<lambda>t. t_UserID t = user) (m_tunnels m))) \<ge> MaxPerUser cfg then Inl ErrTooManyTunnels
      else Inr ())"

text \<open>What \<^verbatim>\<open>Open\<close> refuses before it takes anything, in its order.\<close>

definition open_checks :: "tunnel_Config \<Rightarrow> tunnel_OpenParams \<Rightarrow> outside \<Rightarrow> tunnel_Manager \<Rightarrow> (tunnel_error, unit) result" where
  "open_checks cfg p w m =
     bindr (Validate_kind (p_Kind p)) (\<lambda>_.
     if p_Kind p = KindWeb \<and> \<not> WebTunnelsEnabled cfg then Inl ErrWebTunnelsOff
     else if NeedsListener (p_Kind p) \<and> \<not> AllowListeners cfg then Inl ErrListenersOff
     else if ListensRemotely (p_Kind p) \<and> \<not> AllowRemoteForwards cfg then Inl ErrRemoteOff
     else if p_Kind p \<in> {KindLocal, KindRemote} \<and> p_Host p = '''' then Inl NowhereToForward
     else if p_Kind p \<in> {KindLocal, KindRemote} \<and> (p_Port p < 1 \<or> p_Port p > 65535) then Inl PortOutOfRange
     else if p_Kind p = KindRemote \<and> (p_RemotePort p < 0 \<or> p_RemotePort p > 65535) then Inl RemotePortOutOfRange
     else bindr (if p_Kind p = KindRemote then resolveDestination (o_parse_ip w) (o_lookup w) (p_Host p) else Inr []) (\<lambda>_.
       checkQuota cfg (p_UserID p) m))"

definition new_tunnel :: "tunnel_OpenParams \<Rightarrow> outside \<Rightarrow> nat \<Rightarrow> Tunnel" where
  "new_tunnel p w c =
     \<lparr>t_ID = o_id w, t_UserID = p_UserID p, t_Kind = p_Kind p, t_Host = p_Host p,
      t_Port = (if p_Kind p = KindWeb \<and> p_Port p = 0 then 80 else p_Port p),
      t_RemoteBind = p_RemoteBind p, t_RemotePort = p_RemotePort p, t_OpenedAt = o_now w, t_conn = c,
      t_connections = 0, t_active = 0, t_state = StateOpen, t_lastUsed = o_now w, t_listenAddr = '''', t_localPort = 0\<rparr>"

text \<open>\<^verbatim>\<open>listen\<close> and \<^verbatim>\<open>listenRemote\<close>: the tunnel with its listener open, or nothing taken.\<close>

definition listen :: "tunnel_Config \<Rightarrow> outside \<Rightarrow> Tunnel \<Rightarrow> tunnel_Manager \<Rightarrow> tunnel_Manager \<times> (tunnel_error, Tunnel) result" where
  "listen cfg w t m =
     (case listen_loop cfg (o_draws w) (o_bindable w) listenAttempts (m_ports m) of
        (ports, Inl e) \<Rightarrow> (m\<lparr>m_ports := ports\<rparr>, Inl e)
      | (ports, Inr p) \<Rightarrow>
          (m\<lparr>m_ports := ports, m_listeners := insert (t_ID t) (m_listeners m)\<rparr>,
           Inr (t\<lparr>t_listenAddr := JoinHostPort (Bind cfg) (nat p), t_localPort := p\<rparr>)))"

definition listenRemote :: "outside \<Rightarrow> Tunnel \<Rightarrow> tunnel_Manager \<Rightarrow> tunnel_Manager \<times> (tunnel_error, Tunnel) result" where
  "listenRemote w t m =
     (case o_remote_listen w (if t_RemoteBind t = '''' then ''localhost'' else t_RemoteBind t) (t_RemotePort t) of
        None \<Rightarrow> (m, Inl ErrRemoteBind)
      | Some bound \<Rightarrow> (m\<lparr>m_listeners := insert (t_ID t) (m_listeners m)\<rparr>, Inr (t\<lparr>t_listenAddr := bound\<rparr>)))"

text \<open>The rest of \<^verbatim>\<open>Open\<close>, once the connection has been acquired.\<close>

definition open_acquired :: "tunnel_Config \<Rightarrow> tunnel_OpenParams \<Rightarrow> outside \<Rightarrow> tunnel_Manager \<Rightarrow> tunnel_Manager \<times> (tunnel_error, Tunnel) result" where
  "open_acquired cfg p w m =
     (case o_conn w of
        None \<Rightarrow> (m, Inl AcquireFailed)
      | Some c \<Rightarrow>
          (let m = m\<lparr>m_claims := insert c (m_claims m)\<rparr>; t = new_tunnel p w c in
           case (if NeedsListener (p_Kind p) then listen cfg w t m
                 else if ListensRemotely (p_Kind p) then listenRemote w t m
                 else (m, Inr t)) of
             (m, Inl e) \<Rightarrow> (m\<lparr>m_claims := m_claims m - {c}\<rparr>, Inl e)
           | (m, Inr t) \<Rightarrow>
               if m_closed m
               then (m\<lparr>m_claims := m_claims m - {c}, m_listeners := m_listeners m - {t_ID t}\<rparr>, Inl ErrManagerClosed)
               else (m\<lparr>m_tunnels := m_tunnels m @ [t]\<rparr>, Inr t)))"

definition tunnels_Open :: "tunnel_Config \<Rightarrow> tunnel_OpenParams \<Rightarrow> outside \<Rightarrow> tunnel_Manager \<Rightarrow> tunnel_Manager \<times> (tunnel_error, Tunnel) result" where
  "tunnels_Open cfg p w m =
     (case open_checks cfg p w m of
        Inl e \<Rightarrow> (m, Inl e)
      | Inr _ \<Rightarrow> open_acquired cfg p w m)"

text \<open>\<^verbatim>\<open>forget\<close>: close the tunnel, give back its connection and its port.\<close>

definition tunnel_forget :: "Tunnel \<Rightarrow> tunnel_Manager \<Rightarrow> tunnel_Manager" where
  "tunnel_forget t m =
     m\<lparr>m_listeners := m_listeners m - {t_ID t}, m_claims := m_claims m - {t_conn t},
       m_ports := (if t_localPort t \<noteq> 0 then releasePort (t_localPort t) (m_ports m) else m_ports m)\<rparr>"

definition tunnel_Get :: "string \<Rightarrow> string \<Rightarrow> tunnel_Manager \<Rightarrow> (tunnel_error, Tunnel) result" where
  "tunnel_Get user i m =
     (case find (\<lambda>t. t_ID t = i) (m_tunnels m) of
        None \<Rightarrow> Inl TunnelNotFound
      | Some t \<Rightarrow> if t_UserID t \<noteq> user then Inl TunnelNotFound else Inr t)"

definition tunnel_Close :: "string \<Rightarrow> string \<Rightarrow> tunnel_Manager \<Rightarrow> tunnel_Manager \<times> (tunnel_error, unit) result" where
  "tunnel_Close user i m =
     (case tunnel_Get user i m of
        Inl e \<Rightarrow> (m, Inl e)
      | Inr t \<Rightarrow> (tunnel_forget t (m\<lparr>m_tunnels := filter (\<lambda>x. t_ID x \<noteq> i) (m_tunnels m)\<rparr>), Inr ()))"

definition stale :: "tunnel_Config \<Rightarrow> int \<Rightarrow> Tunnel \<Rightarrow> bool" where
  "stale cfg now t \<longleftrightarrow> \<not> t_active t > 0 \<and> now - t_lastUsed t > IdleTimeout cfg"

definition tunnels_reapOnce :: "tunnel_Config \<Rightarrow> int \<Rightarrow> tunnel_Manager \<Rightarrow> tunnel_Manager \<times> nat" where
  "tunnels_reapOnce cfg now m =
     (if m_closed m then (m, 0)
      else let gone = filter (stale cfg now) (m_tunnels m)
           in (fold tunnel_forget gone (m\<lparr>m_tunnels := filter (\<lambda>t. \<not> stale cfg now t) (m_tunnels m)\<rparr>), length gone))"

definition tunnels_Shutdown :: "tunnel_Manager \<Rightarrow> tunnel_Manager" where
  "tunnels_Shutdown m =
     (if m_closed m then m
      else fold tunnel_forget (m_tunnels m) (m\<lparr>m_closed := True, m_tunnels := []\<rparr>))"

definition tunnels_ListForUser :: "string \<Rightarrow> tunnel_Manager \<Rightarrow> Tunnel list" where
  "tunnels_ListForUser user m = rev (sort_key t_OpenedAt (filter (\<lambda>t. t_UserID t = user) (m_tunnels m)))"

definition tunnels_Len :: "tunnel_Manager \<Rightarrow> nat" where
  "tunnels_Len m = length (m_tunnels m)"

subsection \<open>Connections (\<^verbatim>\<open>forward.go\<close>)\<close>

definition edit_tunnel :: "string \<Rightarrow> (Tunnel \<Rightarrow> Tunnel) \<Rightarrow> tunnel_Manager \<Rightarrow> tunnel_Manager" where
  "edit_tunnel i f m = m\<lparr>m_tunnels := map (\<lambda>t. if t_ID t = i then f t else t) (m_tunnels m)\<rparr>"

definition tunnel_touch :: "int \<Rightarrow> Tunnel \<Rightarrow> Tunnel" where
  "tunnel_touch now t = t\<lparr>t_lastUsed := now\<rparr>"

definition conn_begins :: "int \<Rightarrow> Tunnel \<Rightarrow> Tunnel" where
  "conn_begins now t = tunnel_touch now (t\<lparr>t_connections := t_connections t + 1, t_active := t_active t + 1\<rparr>)"

text \<open>A connection that was joined to its far end touches the tunnel again before this.\<close>

definition conn_ends :: "Tunnel \<Rightarrow> Tunnel" where
  "conn_ends t = t\<lparr>t_active := t_active t - 1\<rparr>"

definition tunnel_fail :: "Tunnel \<Rightarrow> Tunnel" where
  "tunnel_fail t = (if t_state t = StateOpen then t\<lparr>t_state := StateFailed\<rparr> else t)"

text \<open>Whom an accepted connection is joined to: by this server itself, or by the far end over SSH.\<close>

datatype far_end = FromHere "ip list" int | OverSSH string

definition serve_target ::
  "(string \<Rightarrow> ip option) \<Rightarrow> (string \<Rightarrow> ip list option) \<Rightarrow> Tunnel \<Rightarrow> byte list \<Rightarrow> byte list \<times> (tunnel_error + socks_error, far_end \<times> byte list) result" where
  "serve_target parse_ip lookup t inp =
     (if t_Kind t = KindRemote
      then ([], case resolveDestination parse_ip lookup (t_Host t) of
                  Inl e \<Rightarrow> Inl (Inl e)
                | Inr ips \<Rightarrow> Inr (FromHere ips (t_Port t), inp))
      else if t_Kind t = KindSOCKS
      then (case socksHandshake inp of
              (out, Inl e) \<Rightarrow> (out, Inl (Inr e))
            | (out, Inr ((host, port), rest)) \<Rightarrow> (out, Inr (OverSSH (JoinHostPort host port), rest)))
      else ([], Inr (OverSSH (JoinHostPort (t_Host t) (nat (t_Port t))), inp)))"

text \<open>The answer to a SOCKS client once the far end was dialled.\<close>

definition socks_answer :: "bool \<Rightarrow> byte list" where
  "socks_answer connected = socksReply (if connected then socksReplyOK else socksReplyGeneralFailure)"

subsection \<open>Web tunnels (\<^verbatim>\<open>proxy.go\<close>)\<close>

definition HostFor :: "tunnel_Config \<Rightarrow> Tunnel \<Rightarrow> string" where
  "HostFor cfg t = (if Domain cfg = '''' \<or> t_Kind t \<noteq> KindWeb then '''' else t_ID t @ ''.'' @ Domain cfg)"

text \<open>\<open>host\<close> is the header without its port, which \<^verbatim>\<open>net.SplitHostPort\<close> cuts off.\<close>

definition TunnelForHost :: "tunnel_Config \<Rightarrow> string \<Rightarrow> tunnel_Manager \<Rightarrow> Tunnel option" where
  "TunnelForHost cfg host m =
     (if Domain cfg = '''' then None
      else let host = to_lower (trim_suffix host ''.''); suffix = ''.'' @ to_lower (Domain cfg) in
        if \<not> has_suffix host suffix then None
        else let i = trim_suffix host suffix in
          if i = '''' \<or> CHR ''.'' \<in> set i then None
          else case find (\<lambda>t. t_ID t = i) (m_tunnels m) of
                 None \<Rightarrow> None
               | Some t \<Rightarrow> if t_Kind t \<noteq> KindWeb then None else Some t)"

text \<open>The cookies of a request that go on to the device; \<open>None\<close> is a request without the header.\<close>

definition cookie_name :: "string \<Rightarrow> string" where
  "cookie_name part = takeWhile (\<lambda>c. c \<noteq> CHR ''='') (trim_space part)"

definition stripBkdCookies :: "string \<Rightarrow> string option" where
  "stripBkdCookies raw =
     (if raw = '''' then None
      else let kept = map trim_space (filter (\<lambda>part. \<not> has_prefix (to_lower (cookie_name part)) ''bkd_'') (split_on CHR '';'' raw))
           in if kept = [] then None else Some (join_with ''; '' kept))"

text \<open>
  Headers are a map from canonical names to values. The request goes on with the device as its host,
  without forwarding headers and without this application's cookies (several \<^verbatim>\<open>Cookie\<close> fields are
  read by their first and replaced as a whole); of the answer the policy headers are replaced.
\<close>

type_synonym headers = "string \<rightharpoonup> string list"

definition header_get :: "headers \<Rightarrow> string \<Rightarrow> string" where
  "header_get h k = (case h k of Some (v # _) \<Rightarrow> v | _ \<Rightarrow> '''')"

definition strip_cookie_header :: "headers \<Rightarrow> headers" where
  "strip_cookie_header h =
     (if header_get h ''Cookie'' = '''' then h
      else case stripBkdCookies (header_get h ''Cookie'') of
             None \<Rightarrow> h(''Cookie'' := None)
           | Some v \<Rightarrow> h(''Cookie'' \<mapsto> [v]))"

definition proxy_target :: "Tunnel \<Rightarrow> string \<times> string" where
  "proxy_target t = (if t_Port t = 443 then ''https'' else ''http'', JoinHostPort (t_Host t) (nat (t_Port t)))"

definition proxy_rewrite :: "headers \<Rightarrow> headers" where
  "proxy_rewrite h =
     strip_cookie_header (h(''X-Forwarded-For'' := None, ''X-Forwarded-Host'' := None, ''X-Forwarded-Proto'' := None))"

definition hardenProxiedResponse :: "headers \<Rightarrow> headers" where
  "hardenProxiedResponse h =
     h(''Content-Security-Policy-Report-Only'' := None, ''X-Frame-Options'' := None, ''Strict-Transport-Security'' := None,
       ''Content-Security-Policy'' \<mapsto>
         [''default-src 'self' 'unsafe-inline' 'unsafe-eval' data: blob:; frame-ancestors 'self'; base-uri 'self'; form-action 'self'' @ [CHR 0x27]],
       ''X-Content-Type-Options'' \<mapsto> [''nosniff''], ''Referrer-Policy'' \<mapsto> [''no-referrer''])"

definition URLFor :: "tunnel_Config \<Rightarrow> Tunnel \<Rightarrow> string" where
  "URLFor cfg t = (if HostFor cfg t = '''' then '''' else ''https://'' @ HostFor cfg t @ ''/'')"

subsection \<open>The guard\<close>

definition may_dial :: "ip \<Rightarrow> bool" where
  "may_dial a \<longleftrightarrow> \<not> IsLoopback a \<and> \<not> IsLinkLocalUnicast a \<and> \<not> IsLinkLocalMulticast a \<and> \<not> IsUnspecified a
     \<and> \<not> IsMulticast a \<and> \<not> IsInterfaceLocalMulticast a"

lemma checkDestination_Inr: "checkDestination a = Inr () \<longleftrightarrow> may_dial a"
  by (simp add: checkDestination_def may_dial_def)

lemma check_each_Inr: "check_each as = Inr ips \<longleftrightarrow> ips = as \<and> (\<forall>a \<in> set as. may_dial a)"
  by (induction as arbitrary: ips) (auto simp: bindr_Inr_iff checkDestination_Inr)

lemma resolveDestination_Inr:
  "resolveDestination parse_ip lookup host = Inr ips \<Longrightarrow>
     ips \<noteq> [] \<and> (\<forall>a \<in> set ips. may_dial a) \<and> (parse_ip host = Some (hd ips) \<and> ips = [hd ips] \<or> parse_ip host = None \<and> lookup host = Some ips)"
  by (auto simp: resolveDestination_def bindr_Inr_iff checkDestination_Inr check_each_Inr split: option.split_asm if_split_asm)

text \<open>An address does not become harmless by being written in sixteen bytes.\<close>

lemma may_dial_mapped:
  assumes "length v = 4"
  shows "may_dial (replicate 10 0 @ [0xFF, 0xFF] @ v) \<longleftrightarrow> may_dial v"
proof -
  have "To4 (replicate 10 0 @ [0xFF, 0xFF] @ v) = Some v" "To4 v = Some v" using assms by (simp_all add: To4_def)
  moreover have "\<not> IsInterfaceLocalMulticast (replicate 10 0 @ [0xFF, 0xFF] @ v)" "\<not> IsInterfaceLocalMulticast v"
    using assms by (simp_all add: IsInterfaceLocalMulticast_def nth_append)
  ultimately show ?thesis
    by (simp add: may_dial_def IsLoopback_def IsLinkLocalUnicast_def IsLinkLocalMulticast_def IsUnspecified_def IsMulticast_def)
qed

subsection \<open>Ports, claims and listeners\<close>

definition holds_port :: "Tunnel \<Rightarrow> bool" where
  "holds_port t \<longleftrightarrow> NeedsListener (t_Kind t)"

definition listening :: "Tunnel \<Rightarrow> bool" where
  "listening t \<longleftrightarrow> NeedsListener (t_Kind t) \<or> ListensRemotely (t_Kind t)"

text \<open>What the operator's settings say of a tunnel that exists.\<close>

definition permitted :: "tunnel_Config \<Rightarrow> Tunnel \<Rightarrow> bool" where
  "permitted cfg t \<longleftrightarrow> (holds_port t \<longrightarrow> AllowListeners cfg \<and> PortLow cfg \<le> t_localPort t \<and> t_localPort t \<le> PortHigh cfg)
     \<and> (\<not> holds_port t \<longrightarrow> t_localPort t = 0)
     \<and> (t_Kind t = KindRemote \<longrightarrow> AllowRemoteForwards cfg)
     \<and> (t_Kind t = KindWeb \<longrightarrow> WebTunnelsEnabled cfg)"

definition tunnels_ok :: "tunnel_Config \<Rightarrow> tunnel_Manager \<Rightarrow> bool" where
  "tunnels_ok cfg m \<longleftrightarrow>
     distinct (map t_ID (m_tunnels m)) \<and> distinct (map t_conn (m_tunnels m))
     \<and> distinct (map t_localPort (filter holds_port (m_tunnels m)))
     \<and> m_claims m = t_conn ` set (m_tunnels m)
     \<and> m_listeners m = t_ID ` set (filter listening (m_tunnels m))
     \<and> (\<forall>t \<in> set (m_tunnels m). permitted cfg t)
     \<and> (if m_closed m then m_tunnels m = [] else m_ports m = t_localPort ` set (filter holds_port (m_tunnels m)))"

definition quota_ok :: "tunnel_Config \<Rightarrow> tunnel_Manager \<Rightarrow> bool" where
  "quota_ok cfg m \<longleftrightarrow> (\<forall>u. int (length (filter (\<lambda>t. t_UserID t = u) (m_tunnels m))) \<le> MaxPerUser cfg)"

text \<open>Identifiers and connections that nothing else has; draws within the range.\<close>

definition outside_ok :: "tunnel_Config \<Rightarrow> outside \<Rightarrow> tunnel_Manager \<Rightarrow> bool" where
  "outside_ok cfg w m \<longleftrightarrow> o_id w \<notin> t_ID ` set (m_tunnels m) \<and> (\<forall>c. o_conn w = Some c \<longrightarrow> c \<notin> m_claims m)
     \<and> (\<forall>n d. Some d \<in> set (o_draws w n) \<longrightarrow> 0 \<le> d \<and> d \<le> PortHigh cfg - PortLow cfg)"

text \<open>
  The steps. An \<open>Open\<close> whose checks passed in an earlier state goes on in a later one, because
  acquiring the connection takes as long as it takes; \<open>overlap\<close> says whether that happens or
  requests come one after the other.
\<close>

inductive tunnel_step :: "tunnel_Config \<Rightarrow> bool \<Rightarrow> tunnel_Manager \<Rightarrow> tunnel_Manager \<Rightarrow> bool" for cfg overlap where
  t_open: "outside_ok cfg w m \<Longrightarrow> tunnel_step cfg overlap m (fst (tunnels_Open cfg p w m))"
| t_opened: "overlap \<Longrightarrow> open_checks cfg p w' m' = Inr () \<Longrightarrow> outside_ok cfg w m
     \<Longrightarrow> tunnel_step cfg overlap m (fst (open_acquired cfg p w m))"
| t_close: "tunnel_step cfg overlap m (fst (tunnel_Close user i m))"
| t_reap: "tunnel_step cfg overlap m (fst (tunnels_reapOnce cfg now m))"
| t_shutdown: "tunnel_step cfg overlap m (tunnels_Shutdown m)"
| t_begins: "tunnel_step cfg overlap m (edit_tunnel i (conn_begins now) m)"
| t_ends: "tunnel_step cfg overlap m (edit_tunnel i conn_ends m)"
| t_touch: "tunnel_step cfg overlap m (edit_tunnel i (tunnel_touch now) m)"
| t_fail: "tunnel_step cfg overlap m (edit_tunnel i tunnel_fail m)"

lemma fold_forget:
  "fold tunnel_forget ts m = m\<lparr>m_listeners := m_listeners m - t_ID ` set ts, m_claims := m_claims m - t_conn ` set ts,
     m_ports := m_ports m - (t_localPort ` set ts - {0})\<rparr>"
proof (induction ts arbitrary: m)
  case Nil
  then show ?case by (cases m) simp
next
  case (Cons t ts)
  show ?case unfolding fold_simps comp_def Cons
    by (cases m) (auto simp: tunnel_forget_def releasePort_def)
qed

lemma distinct_image_filter:
  assumes "distinct (map f xs)"
  shows "f ` set xs - f ` set (filter P xs) = f ` set (filter (\<lambda>x. \<not> P x) xs)"
  using assms by (induction xs) auto

lemma ok_without:
  assumes ok: "tunnels_ok cfg m" and low: "AllowListeners cfg \<longrightarrow> 0 < PortLow cfg"
  shows "tunnels_ok cfg (fold tunnel_forget (filter P (m_tunnels m)) (m\<lparr>m_tunnels := filter (\<lambda>t. \<not> P t) (m_tunnels m)\<rparr>))"
proof -
  let ?ts = "m_tunnels m"
  have d: "distinct (map t_ID ?ts)" "distinct (map t_conn ?ts)" "distinct (map t_localPort (filter holds_port ?ts))"
    and perm: "\<And>t. t \<in> set ?ts \<Longrightarrow> permitted cfg t" using ok by (simp_all add: tunnels_ok_def)
  have local0: "t_localPort t = 0 \<longleftrightarrow> \<not> holds_port t" if "t \<in> set ?ts" for t
    using perm [OF that] low by (auto simp: permitted_def)
  then have gone: "t_localPort ` set (filter P ?ts) - {0} = t_localPort ` set (filter P (filter holds_port ?ts))" by auto
  have ports: "t_localPort ` set (filter holds_port ?ts) - (t_localPort ` set (filter P ?ts) - {0})
      = t_localPort ` set (filter (\<lambda>t. \<not> P t) (filter holds_port ?ts))"
    unfolding gone by (rule distinct_image_filter [OF d(3)])
  have lst: "t_ID ` set (filter listening ?ts) - t_ID ` set (filter P ?ts)
      = t_ID ` set (filter listening (filter (\<lambda>t. \<not> P t) ?ts))"
    using inj_onD [OF d(1) [unfolded distinct_map, THEN conjunct2]] by (auto 4 3)
  have "distinct (map t_localPort (filter holds_port (filter (\<lambda>t. \<not> P t) ?ts)))"
    using distinct_map_filter [OF d(3), of "\<lambda>t. \<not> P t"] by (simp add: conj_commute)
  with ok d perm ports lst distinct_image_filter [OF d(2), of P] show ?thesis
    by (auto simp: tunnels_ok_def fold_forget distinct_map_filter conj_commute)
qed

text \<open>Listening: on success the port is free, in range and now taken, otherwise nothing has changed.\<close>

lemma probe_ports_Some:
  "probe_ports low ports ds = Some p \<Longrightarrow> p \<notin> ports \<and> (\<exists>d. Some d \<in> set ds \<and> p = low + d)"
  by (induction low ports ds rule: probe_ports.induct) (auto split: if_split_asm)

lemma allocatePort_cases:
  assumes "\<forall>d. Some d \<in> set draws \<longrightarrow> 0 \<le> d \<and> d \<le> PortHigh cfg - PortLow cfg"
  obtains e where "allocatePort cfg draws ports = (ports, Inl e)"
  | p where "allocatePort cfg draws ports = (insert p ports, Inr p)" "p \<notin> ports" "PortLow cfg \<le> p" "p \<le> PortHigh cfg"
proof (cases "probe_ports (PortLow cfg) ports (take 32 draws)")
  case (Some p)
  from probe_ports_Some [OF this] assms have "p \<notin> ports" "PortLow cfg \<le> p" "p \<le> PortHigh cfg"
    by (auto dest: in_set_takeD)
  with Some that show ?thesis by (auto simp: allocatePort_def)
next
  case None
  show ?thesis
  proof (cases "find (\<lambda>p. p \<notin> ports) [PortLow cfg..PortHigh cfg]")
    case (Some p)
    then have "p \<notin> ports" "PortLow cfg \<le> p" "p \<le> PortHigh cfg" by (auto simp: find_Some_iff dest: nth_mem)
    with Some None that show ?thesis by (auto simp: allocatePort_def)
  qed (use None that in \<open>auto simp: allocatePort_def\<close>)
qed

lemma listen_loop_cases:
  assumes "\<forall>n d. Some d \<in> set (draws n) \<longrightarrow> 0 \<le> d \<and> d \<le> PortHigh cfg - PortLow cfg"
  shows "(\<exists>e. listen_loop cfg draws bindable n ports = (ports, Inl e))
    \<or> (\<exists>p. listen_loop cfg draws bindable n ports = (insert p ports, Inr p) \<and> p \<notin> ports
         \<and> PortLow cfg \<le> p \<and> p \<le> PortHigh cfg \<and> bindable p)"
proof (induction n)
  case (Suc n)
  have d: "\<forall>d. Some d \<in> set (draws n) \<longrightarrow> 0 \<le> d \<and> d \<le> PortHigh cfg - PortLow cfg" using assms by blast
  show ?case
  proof (rule allocatePort_cases [OF d, of ports])
    fix p assume "allocatePort cfg (draws n) ports = (insert p ports, Inr p)" "p \<notin> ports" "PortLow cfg \<le> p" "p \<le> PortHigh cfg"
    then show ?thesis using Suc by (auto simp: releasePort_def)
  qed auto
qed simp

text \<open>A range with a free port that the kernel would give is one from which the sweep gives a port.\<close>

lemma allocatePort_total:
  assumes "PortLow cfg \<le> p" "p \<le> PortHigh cfg" "p \<notin> ports"
  shows "\<exists>q. snd (allocatePort cfg draws ports) = Inr q"
proof -
  have "find (\<lambda>p. p \<notin> ports) [PortLow cfg..PortHigh cfg] \<noteq> None" using assms by (auto simp: find_None_iff)
  then show ?thesis using assms by (auto simp: allocatePort_def split: option.split)
qed

lemma fresh_claim: "c \<notin> m_claims m \<Longrightarrow> m\<lparr>m_claims := m_claims m - {c}\<rparr> = m"
  by (cases m) simp

lemma listenRemote_cases:
  "listenRemote w t m = (m, Inl ErrRemoteBind)
    \<or> (\<exists>a. listenRemote w t m = (m\<lparr>m_listeners := insert (t_ID t) (m_listeners m)\<rparr>, Inr (t\<lparr>t_listenAddr := a\<rparr>)))"
  unfolding listenRemote_def by (auto split: option.split)

text \<open>The ways \<^verbatim>\<open>Open\<close> ends once it has the connection.\<close>

lemma open_acquired_cases:
  assumes out: "outside_ok cfg w m" and idle: "o_id w \<notin> m_listeners m"
  obtains (refused) e where "open_acquired cfg p w m = (m, Inl e)"
  | (raced) ports e where "m_closed m" "open_acquired cfg p w m = (m\<lparr>m_ports := ports\<rparr>, Inl e)"
  | (here) c q where "\<not> m_closed m" "o_conn w = Some c" "NeedsListener (p_Kind p)" "q \<notin> m_ports m"
      "PortLow cfg \<le> q" "q \<le> PortHigh cfg"
      "fst (open_acquired cfg p w m) = m\<lparr>m_claims := insert c (m_claims m), m_ports := insert q (m_ports m),
         m_listeners := insert (o_id w) (m_listeners m),
         m_tunnels := m_tunnels m @ [(new_tunnel p w c)\<lparr>t_listenAddr := JoinHostPort (Bind cfg) (nat q), t_localPort := q\<rparr>]\<rparr>"
  | (there) c a where "\<not> m_closed m" "o_conn w = Some c" "\<not> NeedsListener (p_Kind p)" "ListensRemotely (p_Kind p)"
      "fst (open_acquired cfg p w m) = m\<lparr>m_claims := insert c (m_claims m), m_listeners := insert (o_id w) (m_listeners m),
         m_tunnels := m_tunnels m @ [(new_tunnel p w c)\<lparr>t_listenAddr := a\<rparr>]\<rparr>"
  | (plain) c where "\<not> m_closed m" "o_conn w = Some c" "\<not> NeedsListener (p_Kind p)" "\<not> ListensRemotely (p_Kind p)"
      "fst (open_acquired cfg p w m) = m\<lparr>m_claims := insert c (m_claims m), m_tunnels := m_tunnels m @ [new_tunnel p w c]\<rparr>"
proof (cases "o_conn w")
  case None
  with refused show ?thesis by (simp add: open_acquired_def)
next
  case (Some c)
  with out have c: "c \<notin> m_claims m" by (simp add: outside_ok_def)
  have same: "m\<lparr>m_claims := m_claims m - {c}\<rparr> = m" "m_claims m - {c} = m_claims m"
    "m_listeners m - {o_id w} = m_listeners m" using c idle by (cases m, auto)
  have draws: "\<forall>n d. Some d \<in> set (o_draws w n) \<longrightarrow> 0 \<le> d \<and> d \<le> PortHigh cfg - PortLow cfg"
    using out by (simp add: outside_ok_def)
  show ?thesis
  proof (cases "NeedsListener (p_Kind p)")
    case True
    from listen_loop_cases [OF draws, of "o_bindable w" listenAttempts "m_ports m"] show ?thesis
    proof (elim disjE exE conjE)
      fix e assume "listen_loop cfg (o_draws w) (o_bindable w) listenAttempts (m_ports m) = (m_ports m, Inl e)"
      with True Some same have "open_acquired cfg p w m = (m, Inl e)"
        by (cases m) (simp add: open_acquired_def listen_def Let_def)
      then show ?thesis by (rule refused)
    next
      fix q
      assume q: "listen_loop cfg (o_draws w) (o_bindable w) listenAttempts (m_ports m) = (insert q (m_ports m), Inr q)"
        "q \<notin> m_ports m" "PortLow cfg \<le> q" "q \<le> PortHigh cfg"
      show ?thesis
      proof (cases "m_closed m")
        case closed: True
        have "open_acquired cfg p w m = (m\<lparr>m_ports := insert q (m_ports m)\<rparr>, Inl ErrManagerClosed)"
          using True Some q same closed by (cases m) (simp add: open_acquired_def listen_def Let_def new_tunnel_def)
        with closed show ?thesis by (rule raced)
      next
        case False
        then show ?thesis using True Some q
          by (intro here [of c q]) (simp_all add: open_acquired_def listen_def Let_def new_tunnel_def)
      qed
    qed
  next
    case False
    note quiet = this
    show ?thesis
    proof (cases "ListensRemotely (p_Kind p)")
      case True
      let ?t = "new_tunnel p w c" and ?m = "m\<lparr>m_claims := insert c (m_claims m)\<rparr>"
      have "t_ID ?t = o_id w" by (simp add: new_tunnel_def)
      from listenRemote_cases [of w ?t ?m] show ?thesis
      proof (elim disjE exE)
        assume "listenRemote w ?t ?m = (?m, Inl ErrRemoteBind)"
        then have "open_acquired cfg p w m = (m, Inl ErrRemoteBind)"
          using True quiet Some same by (cases m) (simp add: open_acquired_def Let_def)
        then show ?thesis by (rule refused)
      next
        fix a
        assume bound: "listenRemote w ?t ?m = (?m\<lparr>m_listeners := insert (t_ID ?t) (m_listeners ?m)\<rparr>, Inr (?t\<lparr>t_listenAddr := a\<rparr>))"
        show ?thesis
        proof (cases "m_closed m")
          case shut: True
          have "open_acquired cfg p w m = (m, Inl ErrManagerClosed)"
            using bound shut True quiet Some same \<open>t_ID ?t = o_id w\<close> by (cases m) (simp add: open_acquired_def Let_def)
          then show ?thesis by (rule refused)
        next
          case False
          then show ?thesis using bound True quiet Some \<open>t_ID ?t = o_id w\<close>
            by (intro there [of c a]) (simp_all add: open_acquired_def Let_def)
        qed
      qed
    next
      case False
      note local = this
      show ?thesis
      proof (cases "m_closed m")
        case True
        then show ?thesis using quiet Some same local
          by (intro refused [of ErrManagerClosed]) (cases m; simp add: open_acquired_def Let_def new_tunnel_def)
      next
        case False
        then show ?thesis using quiet Some local
          by (intro plain [of c]) (simp_all add: open_acquired_def Let_def)
      qed
    qed
  qed
qed

lemma open_checks_Inr:
  "open_checks cfg p w m = Inr () \<Longrightarrow>
     (p_Kind p = KindWeb \<longrightarrow> WebTunnelsEnabled cfg) \<and> (NeedsListener (p_Kind p) \<longrightarrow> AllowListeners cfg)
     \<and> (ListensRemotely (p_Kind p) \<longrightarrow> AllowRemoteForwards cfg) \<and> \<not> m_closed m
     \<and> int (length (filter (\<lambda>t. t_UserID t = p_UserID p) (m_tunnels m))) < MaxPerUser cfg"
  by (auto simp: open_checks_def bindr_Inr_iff checkQuota_def split: if_split_asm)

subsection \<open>What the manager holds\<close>

lemma ok_with:
  assumes ok: "tunnels_ok cfg m" and "\<not> m_closed m" and "t_ID t \<notin> t_ID ` set (m_tunnels m)" and "t_conn t \<notin> m_claims m"
    and perm: "permitted cfg t" and port: "holds_port t \<Longrightarrow> t_localPort t \<notin> m_ports m"
  shows "tunnels_ok cfg (m\<lparr>m_claims := insert (t_conn t) (m_claims m),
    m_ports := (if holds_port t then insert (t_localPort t) (m_ports m) else m_ports m),
    m_listeners := (if listening t then insert (t_ID t) (m_listeners m) else m_listeners m),
    m_tunnels := m_tunnels m @ [t]\<rparr>)"
  using assms by (simp add: tunnels_ok_def del: set_filter)

lemma ok_edited:
  assumes ok: "tunnels_ok cfg m"
    and keep: "\<And>t. t_ID (f t) = t_ID t \<and> t_conn (f t) = t_conn t \<and> t_Kind (f t) = t_Kind t \<and> t_localPort (f t) = t_localPort t"
  shows "tunnels_ok cfg (edit_tunnel i f m)"
proof -
  let ?g = "\<lambda>t. if t_ID t = i then f t else t"
  have g: "t_ID (?g t) = t_ID t" "t_conn (?g t) = t_conn t" "t_localPort (?g t) = t_localPort t" "holds_port (?g t) = holds_port t"
    "listening (?g t) = listening t" "permitted cfg (?g t) = permitted cfg t" for t
    using keep [of t] by (simp_all add: holds_port_def listening_def permitted_def)
  have maps: "filter holds_port (map ?g ts) = map ?g (filter holds_port ts)" "filter listening (map ?g ts) = map ?g (filter listening ts)"
    "map t_ID (map ?g ts) = map t_ID ts" "map t_conn (map ?g ts) = map t_conn ts" "map t_localPort (map ?g ts) = map t_localPort ts" for ts
    by (simp_all add: filter_map comp_def g del: set_filter)
  have images: "F ` set ts = set (map F ts)" for F and ts :: "Tunnel list" by simp
  have "\<forall>t \<in> set (map ?g (m_tunnels m)). permitted cfg t"
    unfolding list.set_map ball_simps g(6) using ok unfolding tunnels_ok_def by blast
  moreover have "m_tunnels (edit_tunnel i f m) = map ?g (m_tunnels m)" "m_claims (edit_tunnel i f m) = m_claims m"
    "m_listeners (edit_tunnel i f m) = m_listeners m" "m_ports (edit_tunnel i f m) = m_ports m"
    "m_closed (edit_tunnel i f m) = m_closed m" by (simp_all add: edit_tunnel_def)
  ultimately show ?thesis
    using ok unfolding tunnels_ok_def images by (simp only: maps list.map_disc_iff simp_thms) blast
qed

lemma kept_by_edits:
  "t_ID (conn_begins now t) = t_ID t \<and> t_conn (conn_begins now t) = t_conn t \<and> t_Kind (conn_begins now t) = t_Kind t \<and> t_localPort (conn_begins now t) = t_localPort t"
  "t_ID (conn_ends t) = t_ID t \<and> t_conn (conn_ends t) = t_conn t \<and> t_Kind (conn_ends t) = t_Kind t \<and> t_localPort (conn_ends t) = t_localPort t"
  "t_ID (tunnel_touch now t) = t_ID t \<and> t_conn (tunnel_touch now t) = t_conn t \<and> t_Kind (tunnel_touch now t) = t_Kind t \<and> t_localPort (tunnel_touch now t) = t_localPort t"
  "t_ID (tunnel_fail t) = t_ID t \<and> t_conn (tunnel_fail t) = t_conn t \<and> t_Kind (tunnel_fail t) = t_Kind t \<and> t_localPort (tunnel_fail t) = t_localPort t"
  by (simp_all add: conn_begins_def conn_ends_def tunnel_touch_def tunnel_fail_def)

lemma outside_idle: "outside_ok cfg w m \<Longrightarrow> tunnels_ok cfg m \<Longrightarrow> o_id w \<notin> m_listeners m"
  by (auto simp: outside_ok_def tunnels_ok_def)

lemma ok_open_acquired:
  assumes ok: "tunnels_ok cfg m" and out: "outside_ok cfg w m" and checks: "open_checks cfg p w' m' = Inr ()"
  shows "tunnels_ok cfg (fst (open_acquired cfg p w m))"
  using out outside_idle [OF out ok]
proof (cases rule: open_acquired_cases [of cfg w m p])
  case (refused e)
  then show ?thesis using ok by simp
next
  case (raced ports e)
  then show ?thesis using ok by (simp add: tunnels_ok_def)
next
  case (here c q)
  then show ?thesis
    using ok_with [OF ok, of "(new_tunnel p w c)\<lparr>t_listenAddr := JoinHostPort (Bind cfg) (nat q), t_localPort := q\<rparr>"] out
      open_checks_Inr [OF checks]
    by (auto simp: outside_ok_def new_tunnel_def permitted_def holds_port_def listening_def NeedsListener_def)
next
  case (there c a)
  then show ?thesis
    using ok_with [OF ok, of "(new_tunnel p w c)\<lparr>t_listenAddr := a\<rparr>"] out open_checks_Inr [OF checks]
    by (auto simp: outside_ok_def new_tunnel_def permitted_def holds_port_def listening_def ListensRemotely_def)
next
  case (plain c)
  then show ?thesis
    using ok_with [OF ok, of "new_tunnel p w c"] out open_checks_Inr [OF checks]
    by (auto simp: outside_ok_def new_tunnel_def permitted_def holds_port_def listening_def ListensRemotely_def)
qed

lemma ok_Close:
  assumes "tunnels_ok cfg m" and "AllowListeners cfg \<longrightarrow> 0 < PortLow cfg"
  shows "tunnels_ok cfg (fst (tunnel_Close user i m))"
proof (cases "tunnel_Get user i m")
  case (Inr t)
  then have t: "t \<in> set (m_tunnels m)" "t_ID t = i"
    by (auto simp: tunnel_Get_def find_Some_iff split: option.split_asm if_split_asm)
  have "filter (\<lambda>x. f x = f y) xs = [y]" if "distinct (map f xs)" "y \<in> set xs" for f :: "Tunnel \<Rightarrow> string" and y xs
    using that
  proof (induction xs)
    case (Cons x xs)
    then show ?case by (cases "x = y") (auto simp: filter_empty_conv rev_image_eqI)
  qed simp
  with t assms(1) have "filter (\<lambda>x. t_ID x = i) (m_tunnels m) = [t]" by (auto simp: tunnels_ok_def)
  with ok_without [OF assms, of "\<lambda>x. t_ID x = i"] Inr show ?thesis by (simp add: tunnel_Close_def)
qed (use assms(1) in \<open>simp add: tunnel_Close_def\<close>)

lemma tunnel_steps_ok:
  assumes step: "tunnel_step cfg overlap m m'" and low: "AllowListeners cfg \<longrightarrow> 0 < PortLow cfg" and ok: "tunnels_ok cfg m"
  shows "tunnels_ok cfg m'"
  using step
proof cases
  case (t_open w p)
  show ?thesis
  proof (cases "open_checks cfg p w m")
    case (Inl e)
    with ok t_open(1) show ?thesis by (simp add: tunnels_Open_def)
  next
    case (Inr u)
    with ok_open_acquired [OF ok t_open(2), of p w m] t_open(1) show ?thesis by (simp add: tunnels_Open_def)
  qed
next
  case (t_opened p w' m' w)
  with ok_open_acquired [OF ok] show ?thesis by blast
next
  case (t_close user i)
  with ok_Close [OF ok low] show ?thesis by blast
next
  case (t_reap now)
  with ok_without [OF ok low, of "stale cfg now"] ok show ?thesis by (simp add: tunnels_reapOnce_def Let_def)
next
  case t_shutdown
  show ?thesis
  proof (cases "m_closed m")
    case False
    with ok_without [OF ok low, of "\<lambda>_. True"] t_shutdown show ?thesis
      by (simp add: tunnels_Shutdown_def fold_forget tunnels_ok_def)
  qed (use ok t_shutdown in \<open>simp add: tunnels_Shutdown_def\<close>)
qed (use ok in \<open>auto intro!: ok_edited simp: kept_by_edits\<close>)

interpretation tunnels_sound: invariant_of "tunnel_step cfg overlap" "\<lambda>m. (AllowListeners cfg \<longrightarrow> 0 < PortLow cfg) \<and> tunnels_ok cfg m" for cfg overlap
  by unfold_locales (blast intro: tunnel_steps_ok)

text \<open>The quota holds when one \<^verbatim>\<open>Open\<close> ends before the next begins.\<close>

lemma quota_ok_fewer:
  assumes "quota_ok cfg m" and "\<And>u. length (filter (\<lambda>t. t_UserID t = u) (m_tunnels m')) \<le> length (filter (\<lambda>t. t_UserID t = u) (m_tunnels m))"
  shows "quota_ok cfg m'"
  using assms unfolding quota_ok_def by (meson of_nat_mono order_trans)

lemma length_filter_conj: "length (filter (\<lambda>x. Q x \<and> P x) xs) \<le> length (filter P xs)"
  by (induction xs) auto

lemma quota_ok_edited:
  assumes "quota_ok cfg m" and "\<And>t. t_UserID (f t) = t_UserID t"
  shows "quota_ok cfg (edit_tunnel i f m)"
proof -
  have "t_UserID (if t_ID t = i then f t else t) = t_UserID t" for t using assms(2) by simp
  then show ?thesis using assms(1) by (simp add: quota_ok_def edit_tunnel_def filter_map comp_def)
qed

lemma tunnel_steps_quota:
  assumes step: "tunnel_step cfg False m m'" and low: "AllowListeners cfg \<longrightarrow> 0 < PortLow cfg" and ok: "tunnels_ok cfg m" and quota: "quota_ok cfg m"
  shows "quota_ok cfg m'"
  using step
proof cases
  case (t_open w p)
  show ?thesis
  proof (cases "open_checks cfg p w m")
    case (Inr u)
    then have room: "int (length (filter (\<lambda>t. t_UserID t = p_UserID p) (m_tunnels m))) < MaxPerUser cfg"
      and go: "fst (tunnels_Open cfg p w m) = fst (open_acquired cfg p w m)"
      using open_checks_Inr [of cfg p w m] by (simp_all add: tunnels_Open_def)
    from t_open(2) outside_idle [OF t_open(2) ok] show ?thesis unfolding t_open(1) go
      by (cases rule: open_acquired_cases [of cfg w m p]) (use quota room in \<open>auto simp: quota_ok_def new_tunnel_def\<close>)
  qed (use quota t_open in \<open>simp add: tunnels_Open_def\<close>)
next
  case (t_close user i)
  have "quota_ok cfg (fst (tunnel_Close user i m))"
    by (rule quota_ok_fewer [OF quota])
      (auto simp: tunnel_Close_def tunnel_forget_def intro: length_filter_conj split: sum.split)
  with t_close show ?thesis by simp
next
  case (t_reap now)
  have "quota_ok cfg (fst (tunnels_reapOnce cfg now m))"
    by (rule quota_ok_fewer [OF quota])
      (auto simp: tunnels_reapOnce_def Let_def fold_forget intro: length_filter_conj)
  with t_reap show ?thesis by simp
next
  case t_shutdown
  have "quota_ok cfg (tunnels_Shutdown m)"
    by (rule quota_ok_fewer [OF quota]) (simp add: tunnels_Shutdown_def fold_forget)
  with t_shutdown show ?thesis by simp
qed (use quota in \<open>auto intro!: quota_ok_edited simp: conn_begins_def conn_ends_def tunnel_touch_def tunnel_fail_def\<close>)

interpretation tunnels_quota: invariant_of "tunnel_step cfg False" "\<lambda>m. (AllowListeners cfg \<longrightarrow> 0 < PortLow cfg) \<and> tunnels_ok cfg m \<and> quota_ok cfg m" for cfg
  by unfold_locales (blast intro: tunnel_steps_ok tunnel_steps_quota)


definition sample_config :: tunnel_Config where
  "sample_config = \<lparr>AllowListeners = True, AllowRemoteForwards = False, Bind = ''127.0.0.1'', PortLow = 20000, PortHigh = 20009,
     Domain = '''', MaxPerUser = 1, IdleTimeout = hour\<rparr>"

definition sample_open :: tunnel_OpenParams where
  "sample_open = \<lparr>p_UserID = ''ann'', p_Kind = KindSOCKS, p_Host = '''', p_Port = 0, p_RemoteBind = '''', p_RemotePort = 0\<rparr>"

definition sample_outside :: "string \<Rightarrow> nat \<Rightarrow> int \<Rightarrow> outside" where
  "sample_outside i c d = \<lparr>o_now = 0, o_id = i, o_parse_ip = (\<lambda>_. None), o_lookup = (\<lambda>_. None), o_conn = Some c,
     o_draws = (\<lambda>_. [Some d]), o_bindable = (\<lambda>_. True), o_remote_listen = (\<lambda>_ _. None)\<rparr>"

lemma sample_outside_ok:
  "0 \<le> d \<Longrightarrow> d \<le> 9 \<Longrightarrow> i \<notin> t_ID ` set (m_tunnels m) \<Longrightarrow> c \<notin> m_claims m
    \<Longrightarrow> outside_ok sample_config (sample_outside i c d) m"
  by (simp add: outside_ok_def sample_outside_def sample_config_def)

definition sample_one :: tunnel_Manager where
  "sample_one = fst (tunnels_Open sample_config sample_open (sample_outside ''a'' 1 3) tunnel_NewManager)"

lemma sample_one_step: "tunnel_step sample_config overlap tunnel_NewManager sample_one"
  unfolding sample_one_def by (rule t_open) (rule sample_outside_ok; simp add: tunnel_NewManager_def)


text \<open>
  Without that, the quota is only what it was when the checks ran: two \<^verbatim>\<open>Open\<close>s that overlap both
  see an empty list, and the user ends with two tunnels where one is allowed.
\<close>

theorem overlapping_opens_exceed_quota:
  "\<exists>m. (tunnel_step sample_config True)\<^sup>*\<^sup>* tunnel_NewManager m \<and> \<not> quota_ok sample_config m"
proof -
  let ?m = "fst (open_acquired sample_config sample_open (sample_outside ''b'' 2 5) sample_one)"
  have policy: "AllowListeners sample_config" "MaxPerUser sample_config = 1" by (simp_all add: sample_config_def)
  have attempts: "listenAttempts = Suc 7" by (simp add: listenAttempts_def)
  have loop: "listen_loop sample_config (\<lambda>_. [Some d]) (\<lambda>_. True) listenAttempts ports = (insert (20000 + d) ports, Inr (20000 + d))"
    if "20000 + d \<notin> ports" for d ports
    using that unfolding attempts listen_loop.simps by (simp add: allocatePort_def sample_config_def)
  note run = sample_open_def sample_outside_def Validate_kind_def NeedsListener_def ListensRemotely_def checkQuota_def
    open_acquired_def listen_def new_tunnel_def Let_def
  have one: "sample_one = \<lparr>m_tunnels = m_tunnels sample_one, m_ports = {20003}, m_closed = False, m_claims = {1}, m_listeners = {''a''}\<rparr>"
    "map t_ID (m_tunnels sample_one) = [''a'']" "map t_UserID (m_tunnels sample_one) = [''ann'']"
    unfolding sample_one_def tunnels_Open_def open_checks_def tunnel_NewManager_def by (simp_all add: run policy loop)
  have checks: "open_checks sample_config sample_open (sample_outside ''b'' 2 5) tunnel_NewManager = Inr ()"
    by (simp add: run policy open_checks_def tunnel_NewManager_def)
  have "outside_ok sample_config (sample_outside ''b'' 2 5) sample_one"
    using arg_cong [OF one(1), of m_claims] arg_cong [OF one(2), of set] by (intro sample_outside_ok) simp_all
  with checks have "tunnel_step sample_config True sample_one ?m" by (intro t_opened) simp_all
  with sample_one_step have "(tunnel_step sample_config True)\<^sup>*\<^sup>* tunnel_NewManager ?m"
    by (meson converse_rtranclp_into_rtranclp r_into_rtranclp)
  moreover have "map t_UserID (m_tunnels ?m) = [''ann'', ''ann'']"
    using one(3) by (subst one(1)) (simp add: run policy loop)
  then have "filter (\<lambda>t. t_UserID t = ''ann'') (m_tunnels ?m) = m_tunnels ?m" "length (m_tunnels ?m) = 2"
    by (auto simp: map_eq_Cons_conv)
  then have "\<not> quota_ok sample_config ?m" using policy by (auto simp: quota_ok_def intro!: exI [of _ "''ann''"])
  ultimately show ?thesis by blast
qed

subsection \<open>What this server dials for a device\<close>

text \<open>C10 (safety). The only connections this server makes itself for a tunnel are those of a remote
  forward, to the host and port the tunnel was opened with, whatever the device sends; and every
  address that is tried for them, resolved anew each time, is neither loopback nor link-local (so not
  the cloud metadata address) nor multicast nor unspecified, also when it is an IPv4 address written
  in sixteen bytes.\<close>

theorem only_guarded_addresses_dialled:
  assumes "snd (serve_target parse_ip lookup t inp) = Inr (FromHere ips port, rest)"
  shows "t_Kind t = KindRemote \<and> port = t_Port t \<and> rest = inp \<and> ips \<noteq> []
    \<and> (\<exists>reached. dialDestination parse_ip lookup answers (t_Host t) = Inr (fst reached, snd reached)
         \<and> set (fst reached) \<subseteq> set ips \<and> (\<forall>a. snd reached = Some a \<longrightarrow> a \<in> set ips \<and> answers a))
    \<and> (\<forall>a \<in> set ips. case To4 a of
         Some v \<Rightarrow> v ! 0 \<noteq> 127 \<and> \<not> (v ! 0 = 169 \<and> v ! 1 = 254) \<and> v ! 0 AND 0xF0 \<noteq> 0xE0 \<and> v \<noteq> [0, 0, 0, 0]
       | None \<Rightarrow> a \<noteq> replicate 15 0 @ [1] \<and> a \<noteq> replicate 16 0
           \<and> \<not> (length a = 16 \<and> (a ! 0 = 0xFF \<or> a ! 0 = 0xFE \<and> a ! 1 AND 0xC0 = 0x80)))"
proof -
  have here: "t_Kind t = KindRemote" and res: "resolveDestination parse_ip lookup (t_Host t) = Inr ips"
    and rest: "port = t_Port t" "rest = inp"
    using assms by (auto simp: serve_target_def split: if_split_asm sum.split_asm prod.split_asm)
  have "\<exists>reached. dialDestination parse_ip lookup answers (t_Host t) = Inr (fst reached, snd reached)
      \<and> set (fst reached) \<subseteq> set ips \<and> (\<forall>a. snd reached = Some a \<longrightarrow> a \<in> set ips \<and> answers a)"
    using find_Some_iff [of answers ips] 
    by (auto simp: dialDestination_def res dest: set_takeWhileD split: option.split)
  with here rest resolveDestination_Inr [OF res] show ?thesis
    by (auto simp: may_dial_def IsLoopback_def IsLinkLocalUnicast_def IsLinkLocalMulticast_def IsUnspecified_def
        IsMulticast_def split: option.split)
qed

definition sample_remote :: Tunnel where
  "sample_remote = \<lparr>t_ID = ''r'', t_UserID = ''ann'', t_Kind = KindRemote, t_Host = ''db.lan'', t_Port = 5432, t_RemoteBind = '''',
     t_RemotePort = 0, t_OpenedAt = 0, t_conn = 1, t_connections = 0, t_active = 0, t_state = StateOpen, t_lastUsed = 0,
     t_listenAddr = '''', t_localPort = 0\<rparr>"

theorem only_guarded_addresses_dialled_witness:
  "snd (serve_target (\<lambda>_. None) (\<lambda>_. Some [[10, 0, 0, 7], [192, 168, 1, 9]]) sample_remote [1, 2])
     = Inr (FromHere [[10, 0, 0, 7], [192, 168, 1, 9]] 5432, [1, 2])
    \<and> t_Kind sample_remote = KindRemote
    \<and> dialDestination (\<lambda>_. None) (\<lambda>_. Some [[10, 0, 0, 7], [192, 168, 1, 9]]) (\<lambda>a. a ! 0 = 192) (t_Host sample_remote)
        = Inr ([[10, 0, 0, 7], [192, 168, 1, 9]], Some [192, 168, 1, 9])
    \<and> snd (serve_target (\<lambda>_. None) (\<lambda>_. Some [[10, 0, 0, 7], replicate 10 0 @ [0xFF, 0xFF, 127, 0, 0, 1]]) sample_remote [])
        = Inl (Inl ErrDestinationOff)"
proof -
  have "snd (serve_target (\<lambda>_. None) (\<lambda>_. Some [[10, 0, 0, 7], [192, 168, 1, 9]]) sample_remote [1, 2])
      = Inr (FromHere [[10, 0, 0, 7], [192, 168, 1, 9]] 5432, [1, 2])" by code_simp
  moreover note only_guarded_addresses_dialled [OF this]
  moreover have "dialDestination (\<lambda>_. None) (\<lambda>_. Some [[10, 0, 0, 7], [192, 168, 1, 9]]) (\<lambda>a. a ! 0 = 192) (t_Host sample_remote)
        = Inr ([[10, 0, 0, 7], [192, 168, 1, 9]], Some [192, 168, 1, 9])" by code_simp
  moreover have "snd (serve_target (\<lambda>_. None) (\<lambda>_. Some [[10, 0, 0, 7], replicate 10 0 @ [0xFF, 0xFF, 127, 0, 0, 1]]) sample_remote [])
        = Inl (Inl ErrDestinationOff)" by code_simp
  ultimately show ?thesis by blast
qed

subsection \<open>What a SOCKS client gets\<close>

text \<open>What a client that knows the protocol sends to reach a name.\<close>

definition socks_dial :: "byte list \<Rightarrow> string \<Rightarrow> nat \<Rightarrow> byte list" where
  "socks_dial methods name port =
     [socksVersion5, word_of_nat (length methods)] @ methods
     @ [socksVersion5, socksConnect, 0, socksAddrDomain, word_of_nat (length name)] @ bytes_of name
     @ [word_of_nat (port div 256), word_of_nat (port mod 256)]"

text \<open>
  A client that offers no authentication and asks for a name and a port is told once that its
  method was accepted, and the proxy goes exactly there, with nothing lost of what was sent early.
\<close>

theorem socks_goes_where_asked:
  assumes "socksNoAuth \<in> set methods" "length methods < 256" "name \<noteq> ''''" "length name < 256" "0 < port" "port < 65536"
  shows "socksHandshake (socks_dial methods name port @ rest) = ([socksVersion5, socksNoAuth], Inr ((name, port), rest))"
proof -
  have un: "unat (word_of_nat n :: byte) = n" if "n < 256" for n using that by (simp add: unat_of_nat)
  have port: "256 * unat (word_of_nat (port div 256) :: byte) + unat (word_of_nat (port mod 256) :: byte) = port"
    using assms(6) by (simp add: un)
  have "(word_of_nat (length name) :: byte) \<noteq> 0" using un [OF assms(4)] assms(3) by (metis length_0_conv unsigned_0)
  moreover have "length (bytes_of name) = length name" by (simp add: bytes_of_def)
  ultimately show ?thesis
    using assms(1,5) un [OF assms(2)] un [OF assms(4)] port 
    by (simp add: socksHandshake_def socks_dial_def ReadFull_def socks_address_def socks_port_def Let_def
        socksAddrDomain_def socksAddrIPv4_def socksAddrIPv6_def) linarith
qed

end
