(* ===== verification/Auth_Sessions.thy ===== *)
theory Auth_Sessions
  imports Go_Time "HOL-Library.List_Lexorder" "HOL-Library.Char_ord"
begin

section \<open>Browser sessions (\<^verbatim>\<open>internal/auth/session.go\<close>)\<close>

text \<open>
  The table \<^verbatim>\<open>auth_sessions\<close> is a list of rows, in the order they were inserted, with its
  primary key, the unique token hash and the reference to \<^verbatim>\<open>users\<close> (\<open>known\<close>) as conditions of
  the insert. Instants are stored as text that keeps every nanosecond, so a row holds the instant;
  comparisons made by SQL compare the text, and \<open>text_before\<close> is that order. The digest of a token
  is the parameter \<open>digest\<close>; identifiers and tokens are drawn by the caller of \<open>Create\<close>.

  A second model, the \<open>ledger\<close>, has one entry for every login there ever was with the time it was
  last used and nothing that expires; the table refines it.
\<close>

subsection \<open>Data\<close>

definition AuthMethodLocal :: string where "AuthMethodLocal = ''local''"
definition AuthMethodOIDC :: string where "AuthMethodOIDC = ''oidc''"

record auth_session =
  as_ID :: string
  as_UserID :: string
  as_AuthMethod :: string
  as_MFASatisfied :: bool
  as_VaultUnlocked :: bool
  as_UserAgent :: string
  as_IPAddress :: string
  as_CreatedAt :: int
  as_IdleExpiresAt :: int
  as_ExpiresAt :: int
  as_RevokedAt :: "int option"

definition Active :: "auth_session \<Rightarrow> int \<Rightarrow> bool" where
  "Active s now \<longleftrightarrow> as_RevokedAt s = None \<and> now < as_ExpiresAt s \<and> now < as_IdleExpiresAt s"

record SessionConfig =
  IdleTTL :: int
  AbsoluteTTL :: int
  SecureCookies :: bool

definition DefaultSessionConfig :: SessionConfig where
  "DefaultSessionConfig = \<lparr>IdleTTL = 8 * hour, AbsoluteTTL = 7 * 24 * hour, SecureCookies = True\<rparr>"

datatype session_error =
    ErrIdleNotPositive
  | ErrAbsoluteNotPositive
  | ErrIdleExceedsAbsolute
  | ErrSessionNotFound
  | ErrRequiresUser
  | ErrUnknownMethod
  | ErrInsertFailed

definition Validate_sessions :: "SessionConfig \<Rightarrow> (session_error, unit) result" where
  "Validate_sessions c =
     (if IdleTTL c \<le> 0 then Inl ErrIdleNotPositive
      else if AbsoluteTTL c \<le> 0 then Inl ErrAbsoluteNotPositive
      else if IdleTTL c > AbsoluteTTL c then Inl ErrIdleExceedsAbsolute
      else Inr ())"

text \<open>The row as the migrations have it: \<^verbatim>\<open>idle_expires_at\<close> and \<^verbatim>\<open>revoked_at\<close> may be NULL.\<close>

record auth_row =
  r_id :: string
  r_user :: string
  r_hash :: string
  r_agent :: string
  r_ip :: string
  r_unlocked :: bool
  r_mfa :: bool
  r_method :: string
  r_created :: int
  r_idle :: "int option"
  r_expires :: int
  r_revoked :: "int option"

type_synonym auth_table = "auth_row list"

definition scanSession :: "auth_row \<Rightarrow> auth_session" where
  "scanSession r =
     \<lparr>as_ID = r_id r, as_UserID = r_user r, as_AuthMethod = r_method r, as_MFASatisfied = r_mfa r,
      as_VaultUnlocked = r_unlocked r, as_UserAgent = r_agent r, as_IPAddress = r_ip r,
      as_CreatedAt = r_created r,
      as_IdleExpiresAt = (case r_idle r of None \<Rightarrow> r_expires r | Some t \<Rightarrow> t),
      as_ExpiresAt = r_expires r, as_RevokedAt = r_revoked r\<rparr>"

definition truncate_to :: "string \<Rightarrow> nat \<Rightarrow> string" where
  "truncate_to s n = (if length s \<le> n then s else take n s)"

definition text_before :: "int \<Rightarrow> int \<Rightarrow> bool" where
  "text_before t u \<longleftrightarrow> rfc3339_nano t < rfc3339_nano u"

subsection \<open>Operations\<close>

record auth_params =
  cp_UserID :: string
  cp_AuthMethod :: string
  cp_MFASatisfied :: bool
  cp_UserAgent :: string
  cp_IPAddress :: string

definition new_row :: "SessionConfig \<Rightarrow> int \<Rightarrow> string \<Rightarrow> string \<Rightarrow> auth_params \<Rightarrow> auth_row" where
  "new_row cfg now i h p =
     \<lparr>r_id = i, r_user = cp_UserID p, r_hash = h, r_agent = truncate_to (cp_UserAgent p) 512,
      r_ip = truncate_to (cp_IPAddress p) 64, r_unlocked = False, r_mfa = cp_MFASatisfied p,
      r_method = cp_AuthMethod p, r_created = now, r_idle = Some (now + IdleTTL cfg),
      r_expires = now + AbsoluteTTL cfg, r_revoked = None\<rparr>"

definition Create ::
  "(string \<Rightarrow> bool) \<Rightarrow> (string \<Rightarrow> string) \<Rightarrow> SessionConfig \<Rightarrow> int \<Rightarrow> string \<Rightarrow> string \<Rightarrow> auth_params \<Rightarrow> auth_table
     \<Rightarrow> auth_table \<times> (session_error, auth_session \<times> string) result" where
  "Create known digest cfg now i token p db =
     (if cp_UserID p = '''' then (db, Inl ErrRequiresUser)
      else if cp_AuthMethod p \<noteq> AuthMethodLocal \<and> cp_AuthMethod p \<noteq> AuthMethodOIDC then (db, Inl ErrUnknownMethod)
      else let r = new_row cfg now i (digest token) p
           in if i \<in> r_id ` set db \<or> digest token \<in> r_hash ` set db \<or> \<not> known (cp_UserID p)
              then (db, Inl ErrInsertFailed)
              else (db @ [r], Inr (scanSession r, token)))"

definition byTokenHash :: "string \<Rightarrow> auth_table \<Rightarrow> (session_error, auth_session) result" where
  "byTokenHash h db = (case find (\<lambda>r. r_hash r = h) db of None \<Rightarrow> Inl ErrSessionNotFound | Some r \<Rightarrow> Inr (scanSession r))"

definition session_Get :: "string \<Rightarrow> auth_table \<Rightarrow> (session_error, auth_session) result" where
  "session_Get i db = (case find (\<lambda>r. r_id r = i) db of None \<Rightarrow> Inl ErrSessionNotFound | Some r \<Rightarrow> Inr (scanSession r))"

definition deleteByID :: "string \<Rightarrow> auth_table \<Rightarrow> auth_table" where
  "deleteByID i db = filter (\<lambda>r. r_id r \<noteq> i) db"

text \<open>An \<^verbatim>\<open>UPDATE\<close>: the rows it affects, and how.\<close>

definition update_rows :: "(auth_row \<Rightarrow> bool) \<Rightarrow> (auth_row \<Rightarrow> auth_row) \<Rightarrow> auth_table \<Rightarrow> auth_table" where
  "update_rows w f db = map (\<lambda>r. if w r then f r else r) db"

definition Lookup ::
  "(string \<Rightarrow> string) \<Rightarrow> SessionConfig \<Rightarrow> int \<Rightarrow> string \<Rightarrow> auth_table \<Rightarrow> auth_table \<times> (session_error, auth_session) result" where
  "Lookup digest cfg now token db =
     (if token = '''' then (db, Inl ErrSessionNotFound)
      else case byTokenHash (digest token) db of
          Inl e \<Rightarrow> (db, Inl e)
        | Inr s \<Rightarrow>
            if \<not> Active s now
            then (if as_RevokedAt s = None then deleteByID (as_ID s) db else db, Inl ErrSessionNotFound)
            else let newIdle = (if now + IdleTTL cfg > as_ExpiresAt s then as_ExpiresAt s else now + IdleTTL cfg)
                 in (update_rows (\<lambda>r. r_id r = as_ID s) (\<lambda>r. r\<lparr>r_idle := Some newIdle\<rparr>) db,
                     Inr (s\<lparr>as_IdleExpiresAt := newIdle\<rparr>)))"

definition SetVaultUnlocked :: "string \<Rightarrow> bool \<Rightarrow> auth_table \<Rightarrow> auth_table" where
  "SetVaultUnlocked i b = update_rows (\<lambda>r. r_id r = i) (\<lambda>r. r\<lparr>r_unlocked := b\<rparr>)"

definition SetMFASatisfied :: "string \<Rightarrow> auth_table \<Rightarrow> auth_table" where
  "SetMFASatisfied i = update_rows (\<lambda>r. r_id r = i) (\<lambda>r. r\<lparr>r_mfa := True\<rparr>)"

definition revoke_where :: "(auth_row \<Rightarrow> bool) \<Rightarrow> int \<Rightarrow> auth_table \<Rightarrow> auth_table \<times> nat" where
  "revoke_where w now db =
     (update_rows (\<lambda>r. w r \<and> r_revoked r = None) (\<lambda>r. r\<lparr>r_revoked := Some now\<rparr>) db,
      length (filter (\<lambda>r. w r \<and> r_revoked r = None) db))"

definition Revoke :: "int \<Rightarrow> string \<Rightarrow> auth_table \<Rightarrow> auth_table" where
  "Revoke now i db = fst (revoke_where (\<lambda>r. r_id r = i) now db)"

definition RevokeAllForUser :: "int \<Rightarrow> string \<Rightarrow> auth_table \<Rightarrow> auth_table \<times> nat" where
  "RevokeAllForUser now u = revoke_where (\<lambda>r. r_user r = u) now"

definition RevokeAllForUserExcept :: "int \<Rightarrow> string \<Rightarrow> string \<Rightarrow> auth_table \<Rightarrow> auth_table \<times> nat" where
  "RevokeAllForUserExcept now u keep = revoke_where (\<lambda>r. r_user r = u \<and> r_id r \<noteq> keep) now"

definition ListForUser_sessions :: "int \<Rightarrow> string \<Rightarrow> auth_table \<Rightarrow> auth_session list" where
  "ListForUser_sessions now u db =
     filter (\<lambda>s. Active s now)
       (map scanSession (rev (sort_key (\<lambda>r. rfc3339_nano (r_created r)) (filter (\<lambda>r. r_user r = u \<and> r_revoked r = None) db))))"

definition purged :: "int \<Rightarrow> int \<Rightarrow> auth_row \<Rightarrow> bool" where
  "purged now grace r \<longleftrightarrow> text_before (r_expires r) now
     \<or> (case r_revoked r of None \<Rightarrow> False | Some t \<Rightarrow> text_before t (now - grace))"

definition PurgeExpired :: "int \<Rightarrow> int \<Rightarrow> auth_table \<Rightarrow> auth_table \<times> nat" where
  "PurgeExpired now grace db = (filter (\<lambda>r. \<not> purged now grace r) db, length (filter (purged now grace) db))"

subsection \<open>Cookies\<close>

record Cookie =
  ck_Name :: string
  ck_Value :: string
  ck_Path :: string
  ck_HttpOnly :: bool
  ck_Secure :: bool
  ck_SameSiteStrict :: bool
  ck_MaxAge :: int

definition SessionCookieName :: string where "SessionCookieName = ''bkd_session''"

definition SessionCookie :: "SessionConfig \<Rightarrow> string \<Rightarrow> Cookie" where
  "SessionCookie c token =
     \<lparr>ck_Name = SessionCookieName, ck_Value = token, ck_Path = ''/'', ck_HttpOnly = True, ck_Secure = SecureCookies c,
      ck_SameSiteStrict = True, ck_MaxAge = AbsoluteTTL c div second\<rparr>"

definition ClearSessionCookie :: "SessionConfig \<Rightarrow> Cookie" where
  "ClearSessionCookie c = (SessionCookie c '''')\<lparr>ck_MaxAge := -1\<rparr>"

subsection \<open>Histories\<close>

datatype auth_op =
    ACreate string string auth_params
  | AUse string
  | AVault string bool
  | AMFA string
  | ARevoke string
  | ARevokeAll string
  | ARevokeOthers string string
  | APurge int

fun auth_apply :: "(string \<Rightarrow> bool) \<Rightarrow> (string \<Rightarrow> string) \<Rightarrow> SessionConfig \<Rightarrow> auth_table \<Rightarrow> int \<times> auth_op \<Rightarrow> auth_table" where
  "auth_apply known digest cfg db (now, ACreate i t p) = fst (Create known digest cfg now i t p db)"
| "auth_apply known digest cfg db (now, AUse t) = fst (Lookup digest cfg now t db)"
| "auth_apply known digest cfg db (now, AVault i b) = SetVaultUnlocked i b db"
| "auth_apply known digest cfg db (now, AMFA i) = SetMFASatisfied i db"
| "auth_apply known digest cfg db (now, ARevoke i) = Revoke now i db"
| "auth_apply known digest cfg db (now, ARevokeAll u) = fst (RevokeAllForUser now u db)"
| "auth_apply known digest cfg db (now, ARevokeOthers u i) = fst (RevokeAllForUserExcept now u i db)"
| "auth_apply known digest cfg db (now, APurge g) = fst (PurgeExpired now g db)"

text \<open>The ledger: every login, when it was last used, and whether it was ever revoked.\<close>

record login =
  l_id :: string
  l_hash :: string
  l_user :: string
  l_created :: int
  l_used :: int
  l_revoked :: bool

definition usable :: "SessionConfig \<Rightarrow> int \<Rightarrow> login \<Rightarrow> bool" where
  "usable cfg now l \<longleftrightarrow> \<not> l_revoked l \<and> now < l_created l + AbsoluteTTL cfg \<and> now < l_used l + IdleTTL cfg"

fun acceptable :: "(string \<Rightarrow> bool) \<Rightarrow> auth_params \<Rightarrow> bool" where
  "acceptable known p \<longleftrightarrow> cp_UserID p \<noteq> '''' \<and> cp_AuthMethod p \<in> {AuthMethodLocal, AuthMethodOIDC} \<and> known (cp_UserID p)"

definition touch :: "(login \<Rightarrow> bool) \<Rightarrow> (login \<Rightarrow> login) \<Rightarrow> login list \<Rightarrow> login list" where
  "touch w f = map (\<lambda>l. if w l then f l else l)"

fun ledger_apply :: "(string \<Rightarrow> bool) \<Rightarrow> (string \<Rightarrow> string) \<Rightarrow> SessionConfig \<Rightarrow> login list \<Rightarrow> int \<times> auth_op \<Rightarrow> login list" where
  "ledger_apply known digest cfg ls (now, ACreate i t p) =
     (if acceptable known p
      then ls @ [\<lparr>l_id = i, l_hash = digest t, l_user = cp_UserID p, l_created = now, l_used = now, l_revoked = False\<rparr>]
      else ls)"
| "ledger_apply known digest cfg ls (now, AUse t) =
     (if t = '''' then ls else touch (\<lambda>l. l_hash l = digest t \<and> usable cfg now l) (\<lambda>l. l\<lparr>l_used := now\<rparr>) ls)"
| "ledger_apply known digest cfg ls (now, ARevoke i) = touch (\<lambda>l. l_id l = i) (\<lambda>l. l\<lparr>l_revoked := True\<rparr>) ls"
| "ledger_apply known digest cfg ls (now, ARevokeAll u) = touch (\<lambda>l. l_user l = u) (\<lambda>l. l\<lparr>l_revoked := True\<rparr>) ls"
| "ledger_apply known digest cfg ls (now, ARevokeOthers u i) =
     touch (\<lambda>l. l_user l = u \<and> l_id l \<noteq> i) (\<lambda>l. l\<lparr>l_revoked := True\<rparr>) ls"
| "ledger_apply known digest cfg ls (now, _) = ls"

subsection \<open>The table refines the ledger\<close>

definition mirrors :: "SessionConfig \<Rightarrow> login \<Rightarrow> auth_row \<Rightarrow> bool" where
  "mirrors cfg l r \<longleftrightarrow> r_id r = l_id l \<and> r_hash r = l_hash l \<and> r_user r = l_user l \<and> r_created r = l_created l
     \<and> r_expires r = l_created l + AbsoluteTTL cfg
     \<and> r_idle r = Some (min (l_used l + IdleTTL cfg) (l_created l + AbsoluteTTL cfg))
     \<and> (r_revoked r \<noteq> None \<longleftrightarrow> l_revoked l)"

definition refines :: "SessionConfig \<Rightarrow> login list \<Rightarrow> auth_table \<Rightarrow> bool" where
  "refines cfg ls db \<longleftrightarrow> distinct (map l_id ls) \<and> distinct (map l_hash ls) \<and> (\<forall>r \<in> set db. \<exists>l \<in> set ls. mirrors cfg l r)"

definition kept :: "SessionConfig \<Rightarrow> int \<Rightarrow> login list \<Rightarrow> auth_table \<Rightarrow> bool" where
  "kept cfg now ls db \<longleftrightarrow> (\<forall>l \<in> set ls. (\<exists>r \<in> set db. mirrors cfg l r) \<or> \<not> usable cfg now l)"

lemma mirrors_active: "mirrors cfg l r \<Longrightarrow> Active (scanSession r) now \<longleftrightarrow> usable cfg now l"
  by (auto simp: mirrors_def Active_def scanSession_def usable_def)

lemma distinct_map_inj: "distinct (map f xs) \<Longrightarrow> x \<in> set xs \<Longrightarrow> y \<in> set xs \<Longrightarrow> f x = f y \<Longrightarrow> x = y"
  by (auto simp: distinct_map dest: inj_onD)

lemma touch_keys:
  assumes "\<And>l. l_id (f l) = l_id l" and "\<And>l. l_hash (f l) = l_hash l"
  shows "map l_id (touch w f ls) = map l_id ls" and "map l_hash (touch w f ls) = map l_hash ls"
  using assms by (simp_all add: touch_def)

text \<open>A pointwise update of both sides keeps the pairs together.\<close>

lemma refines_update:
  assumes "refines cfg ls db" and "\<And>l. l_id (f l) = l_id l" "\<And>l. l_hash (f l) = l_hash l"
    and pairs: "\<And>l r. l \<in> set ls \<Longrightarrow> r \<in> set db \<Longrightarrow> mirrors cfg l r \<Longrightarrow> mirrors cfg (if w l then f l else l) (if v r then g r else r)"
  shows "refines cfg (touch w f ls) (update_rows v g db)"
    and "kept cfg now ls db \<Longrightarrow> (\<And>l. l \<in> set ls \<Longrightarrow> \<not> usable cfg now l \<Longrightarrow> \<not> usable cfg now (if w l then f l else l))
      \<Longrightarrow> kept cfg now (touch w f ls) (update_rows v g db)"
proof -
  have "\<exists>l' \<in> set (touch w f ls). mirrors cfg l' r'" if r': "r' \<in> set (update_rows v g db)" for r'
  proof -
    from r' obtain r where r: "r \<in> set db" "r' = (if v r then g r else r)" by (auto simp: update_rows_def)
    then obtain l where "l \<in> set ls" "mirrors cfg l r" using assms(1) by (auto simp: refines_def)
    then have "mirrors cfg (if w l then f l else l) r'" "(if w l then f l else l) \<in> set (touch w f ls)"
      using pairs [of l r] r by (simp_all add: touch_def)
    then show ?thesis by blast
  qed
  with assms(1) touch_keys [OF assms(2,3)] show "refines cfg (touch w f ls) (update_rows v g db)"
    by (simp add: refines_def)
  assume k: "kept cfg now ls db" and dead: "\<And>l. l \<in> set ls \<Longrightarrow> \<not> usable cfg now l \<Longrightarrow> \<not> usable cfg now (if w l then f l else l)"
  show "kept cfg now (touch w f ls) (update_rows v g db)"
    unfolding kept_def
  proof
    fix l' assume "l' \<in> set (touch w f ls)"
    then obtain l where l: "l \<in> set ls" "l' = (if w l then f l else l)" by (auto simp: touch_def)
    show "(\<exists>r \<in> set (update_rows v g db). mirrors cfg l' r) \<or> \<not> usable cfg now l'"
    proof (cases "\<exists>r \<in> set db. mirrors cfg l r")
      case True
      then obtain r where "r \<in> set db" "mirrors cfg l r" by blast
      with pairs l have "mirrors cfg l' (if v r then g r else r)" and "(if v r then g r else r) \<in> set (update_rows v g db)"
        by (auto simp: update_rows_def)
      then show ?thesis by blast
    next
      case False
      with k l(1) have "\<not> usable cfg now l" by (auto simp: kept_def)
      with dead [OF l(1)] l(2) show ?thesis by simp
    qed
  qed
qed

lemma touch_id: "touch w (\<lambda>l. l) ls = ls"
  by (simp add: touch_def)

lemma touch_none: "(\<And>l. l \<in> set ls \<Longrightarrow> \<not> w l) \<Longrightarrow> touch w f ls = ls"
  by (simp add: touch_def map_idI)

lemma update_none: "update_rows (\<lambda>_. False) g db = db"
  by (simp add: update_rows_def)

fun fresh :: "(string \<Rightarrow> string) \<Rightarrow> login list \<Rightarrow> auth_op \<Rightarrow> bool" where
  "fresh digest ls (ACreate i t p) \<longleftrightarrow> i \<notin> l_id ` set ls \<and> digest t \<notin> l_hash ` set ls"
| "fresh digest ls _ \<longleftrightarrow> True"

lemma kept_later: "kept cfg now ls db \<Longrightarrow> now \<le> later \<Longrightarrow> kept cfg later ls db"
  by (force simp: kept_def usable_def)

lemma create_refines:
  assumes R: "refines cfg ls db" and "IdleTTL cfg \<le> AbsoluteTTL cfg" and "fresh digest ls (ACreate i t p)"
  shows "refines cfg (ledger_apply known digest cfg ls (now, ACreate i t p)) (fst (Create known digest cfg now i t p db))"
    and "kept cfg now ls db \<Longrightarrow>
      kept cfg now (ledger_apply known digest cfg ls (now, ACreate i t p)) (fst (Create known digest cfg now i t p db))"
proof -
  have new: "i \<notin> r_id ` set db" "digest t \<notin> r_hash ` set db"
    using R assms(3) by (force simp: refines_def mirrors_def)+
  let ?l = "\<lparr>l_id = i, l_hash = digest t, l_user = cp_UserID p, l_created = now, l_used = now, l_revoked = False\<rparr>"
  let ?r = "new_row cfg now i (digest t) p"
  have m: "mirrors cfg ?l ?r" using assms(2) by (simp add: mirrors_def new_row_def)
  have made: "fst (Create known digest cfg now i t p db) = (if acceptable known p then db @ [?r] else db)"
    using new by (auto simp: Create_def Let_def)
  show "refines cfg (ledger_apply known digest cfg ls (now, ACreate i t p)) (fst (Create known digest cfg now i t p db))"
    using R assms(3) m by (auto simp: made refines_def)
  show "kept cfg now (ledger_apply known digest cfg ls (now, ACreate i t p)) (fst (Create known digest cfg now i t p db))"
    if "kept cfg now ls db"
    using that m by (auto simp: made kept_def)
qed

lemma byTokenHash_cases:
  obtains (missing) "byTokenHash h db = Inl ErrSessionNotFound" "h \<notin> r_hash ` set db"
  | (found) r where "byTokenHash h db = Inr (scanSession r)" "r \<in> set db" "r_hash r = h"
proof (cases "find (\<lambda>r. r_hash r = h) db")
  case None
  then have "h \<notin> r_hash ` set db" by (auto simp: find_None_iff)
  with None show thesis by (intro missing) (simp_all add: byTokenHash_def)
next
  case (Some r)
  then have "r \<in> set db" "r_hash r = h" by (auto simp: find_Some_iff)
  with Some show thesis by (intro found [of r]) (simp_all add: byTokenHash_def)
qed

text \<open>
  What a lookup does to the table and a use to the ledger: nothing to any pair, the same touch to
  one pair, or the removal of a row whose login is over.
\<close>

abbreviation used_at :: "(string \<Rightarrow> string) \<Rightarrow> SessionConfig \<Rightarrow> int \<Rightarrow> string \<Rightarrow> login \<Rightarrow> bool" where
  "used_at digest cfg now t l \<equiv> l_hash l = digest t \<and> usable cfg now l"

lemma found_unique:
  assumes "refines cfg ls db" and "l \<in> set ls" "mirrors cfg l r" and "l' \<in> set ls"
  shows "l_hash l' = r_hash r \<Longrightarrow> l' = l" and "mirrors cfg l' r' \<Longrightarrow> r_id r' = r_id r \<Longrightarrow> l' = l"
  using assms distinct_map_inj [of l_hash ls l' l] distinct_map_inj [of l_id ls l' l]
  by (auto simp: refines_def mirrors_def)

lemma lookup_missing:
  assumes R: "refines cfg ls db" and "digest t \<notin> r_hash ` set db"
  shows "refines cfg (touch (used_at digest cfg now t) (\<lambda>l. l\<lparr>l_used := now\<rparr>) ls) db"
    and "kept cfg now ls db \<Longrightarrow> kept cfg now (touch (used_at digest cfg now t) (\<lambda>l. l\<lparr>l_used := now\<rparr>) ls) db"
proof -
  let ?w = "used_at digest cfg now t" and ?f = "\<lambda>l. l\<lparr>l_used := now\<rparr>"
  have "mirrors cfg (if ?w l then ?f l else l) (if False then r else r)" if "r \<in> set db" "mirrors cfg l r" for l r
    using that assms(2) by (force simp: mirrors_def)
  from refines_update [OF R, of ?f ?w "\<lambda>_. False" "\<lambda>r. r", OF _ _ this]
  show "refines cfg (touch ?w ?f ls) db" and "kept cfg now ls db \<Longrightarrow> kept cfg now (touch ?w ?f ls) db"
    by (simp_all add: update_none)
qed

lemma lookup_live:
  assumes R: "refines cfg ls db" and l: "l \<in> set ls" "mirrors cfg l r" and r: "r_hash r = digest t" and live: "usable cfg now l"
    and idle: "x = (if now + IdleTTL cfg > r_expires r then r_expires r else now + IdleTTL cfg)"
  shows "refines cfg (touch (used_at digest cfg now t) (\<lambda>l. l\<lparr>l_used := now\<rparr>) ls)
      (update_rows (\<lambda>r'. r_id r' = r_id r) (\<lambda>r'. r'\<lparr>r_idle := Some x\<rparr>) db)"
    and "kept cfg now ls db \<Longrightarrow> kept cfg now (touch (used_at digest cfg now t) (\<lambda>l. l\<lparr>l_used := now\<rparr>) ls)
      (update_rows (\<lambda>r'. r_id r' = r_id r) (\<lambda>r'. r'\<lparr>r_idle := Some x\<rparr>) db)"
proof -
  let ?w = "used_at digest cfg now t" and ?f = "\<lambda>l. l\<lparr>l_used := now\<rparr>" and ?g = "\<lambda>r'. r'\<lparr>r_idle := Some x\<rparr>"
  have "mirrors cfg (if ?w l' then ?f l' else l') (if r_id r' = r_id r then ?g r' else r')"
    if p: "l' \<in> set ls" "mirrors cfg l' r'" for l' r'
  proof (cases "l' = l")
    case True
    with p l(2) r live idle show ?thesis by (simp add: mirrors_def)
  next
    case False
    with found_unique [OF R l p(1)] p r show ?thesis by auto
  qed
  from refines_update [OF R, of ?f ?w "\<lambda>r'. r_id r' = r_id r" ?g, OF _ _ this]
  show "refines cfg (touch ?w ?f ls) (update_rows (\<lambda>r'. r_id r' = r_id r) ?g db)"
    and "kept cfg now ls db \<Longrightarrow> kept cfg now (touch ?w ?f ls) (update_rows (\<lambda>r'. r_id r' = r_id r) ?g db)"
    by simp_all
qed

lemma lookup_dead:
  assumes R: "refines cfg ls db" and l: "l \<in> set ls" and dead: "\<not> usable cfg now l"
  shows "refines cfg ls (deleteByID (l_id l) db)" and "kept cfg now ls db \<Longrightarrow> kept cfg now ls (deleteByID (l_id l) db)"
proof -
  show "refines cfg ls (deleteByID (l_id l) db)" using R by (auto simp: refines_def deleteByID_def)
  assume k: "kept cfg now ls db"
  have "(\<exists>r\<in>set (deleteByID (l_id l) db). mirrors cfg l' r) \<or> \<not> usable cfg now l'" if l': "l' \<in> set ls" for l'
  proof (cases "l' = l")
    case False
    with l' l R have "l_id l' \<noteq> l_id l" using distinct_map_inj by (metis refines_def)
    with k l' show ?thesis by (force simp: kept_def deleteByID_def mirrors_def)
  qed (simp add: dead)
  then show "kept cfg now ls (deleteByID (l_id l) db)" by (simp add: kept_def)
qed

lemma lookup_refines:
  assumes R: "refines cfg ls db"
  shows "refines cfg (ledger_apply known digest cfg ls (now, AUse t)) (fst (Lookup digest cfg now t db))"
    and "kept cfg now ls db \<Longrightarrow> kept cfg now (ledger_apply known digest cfg ls (now, AUse t)) (fst (Lookup digest cfg now t db))"
proof -
  have "refines cfg (ledger_apply known digest cfg ls (now, AUse t)) (fst (Lookup digest cfg now t db))
    \<and> (kept cfg now ls db \<longrightarrow> kept cfg now (ledger_apply known digest cfg ls (now, AUse t)) (fst (Lookup digest cfg now t db)))"
  proof (cases "t = ''''")
    case False
    show ?thesis
    proof (cases rule: byTokenHash_cases [of "digest t" db])
      case missing
      with lookup_missing [of cfg ls db digest t] R False show ?thesis by (simp add: Lookup_def)
    next
      case (found r)
      from R found(2) obtain l where l: "l \<in> set ls" "mirrors cfg l r" by (auto simp: refines_def)
      have scan: "as_ID (scanSession r) = r_id r" "as_ExpiresAt (scanSession r) = r_expires r"
        "as_RevokedAt (scanSession r) = r_revoked r" by (simp_all add: scanSession_def)
      show ?thesis
      proof (cases "usable cfg now l")
        case True
        define x where "x = (if now + IdleTTL cfg > r_expires r then r_expires r else now + IdleTTL cfg)"
        have "fst (Lookup digest cfg now t db) = update_rows (\<lambda>r'. r_id r' = r_id r) (\<lambda>r'. r'\<lparr>r_idle := Some x\<rparr>) db"
          using True False found(1) mirrors_active [OF l(2)] by (simp add: Lookup_def Let_def scan x_def)
        with lookup_live [of cfg ls db l r digest t, OF R l found(3) True x_def] False show ?thesis by simp
      next
        case dead: False
        have "touch (used_at digest cfg now t) f ls = ls" for f
          using found_unique(1) [OF R l] found(3) dead by (intro touch_none) auto
        moreover have "r_id r = l_id l" using l(2) by (simp add: mirrors_def)
        ultimately show ?thesis
          using lookup_dead [OF R l(1) dead] False found(1) mirrors_active [OF l(2)] dead R by (simp add: Lookup_def scan)
      qed
    qed
  qed (use R in \<open>simp add: Lookup_def\<close>)
  then show "refines cfg (ledger_apply known digest cfg ls (now, AUse t)) (fst (Lookup digest cfg now t db))"
    and "kept cfg now ls db \<Longrightarrow> kept cfg now (ledger_apply known digest cfg ls (now, AUse t)) (fst (Lookup digest cfg now t db))"
    by blast+
qed

lemma revoke_refines:
  assumes "refines cfg ls db" and "\<And>l r. mirrors cfg l r \<Longrightarrow> w l \<longleftrightarrow> v r"
  shows "refines cfg (touch w (\<lambda>l. l\<lparr>l_revoked := True\<rparr>) ls) (fst (revoke_where v now db))"
    and "kept cfg now ls db \<Longrightarrow> kept cfg now (touch w (\<lambda>l. l\<lparr>l_revoked := True\<rparr>) ls) (fst (revoke_where v now db))"
proof -
  have "mirrors cfg (if w l then l\<lparr>l_revoked := True\<rparr> else l) (if v r \<and> r_revoked r = None then r\<lparr>r_revoked := Some now\<rparr> else r)"
    if "mirrors cfg l r" for l r
    using that assms(2) [OF that] by (auto simp: mirrors_def)
  from refines_update [OF assms(1), of "\<lambda>l. l\<lparr>l_revoked := True\<rparr>" w "\<lambda>r. v r \<and> r_revoked r = None" "\<lambda>r. r\<lparr>r_revoked := Some now\<rparr>", OF _ _ this]
  show "refines cfg (touch w (\<lambda>l. l\<lparr>l_revoked := True\<rparr>) ls) (fst (revoke_where v now db))"
    and "kept cfg now ls db \<Longrightarrow> kept cfg now (touch w (\<lambda>l. l\<lparr>l_revoked := True\<rparr>) ls) (fst (revoke_where v now db))"
    by (simp_all add: revoke_where_def usable_def)
qed

lemma flag_refines:
  assumes "refines cfg ls db" and "\<And>l r. mirrors cfg l r \<Longrightarrow> mirrors cfg l (g r)"
  shows "refines cfg ls (update_rows v g db)" and "kept cfg now ls db \<Longrightarrow> kept cfg now ls (update_rows v g db)"
  using refines_update [OF assms(1), of "\<lambda>l. l" "\<lambda>_. True" v g] assms(2) by (simp_all add: touch_id)

lemma auth_step_refines:
  assumes R: "refines cfg ls db" and "IdleTTL cfg \<le> AbsoluteTTL cfg" and "fresh digest ls op"
  shows "refines cfg (ledger_apply known digest cfg ls (now, op)) (auth_apply known digest cfg db (now, op))"
    and "kept cfg now ls db \<Longrightarrow> (\<And>g. op \<noteq> APurge g)
      \<Longrightarrow> kept cfg now (ledger_apply known digest cfg ls (now, op)) (auth_apply known digest cfg db (now, op))"
proof -
  have "refines cfg (ledger_apply known digest cfg ls (now, op)) (auth_apply known digest cfg db (now, op))
    \<and> (kept cfg now ls db \<longrightarrow> (\<forall>g. op \<noteq> APurge g)
       \<longrightarrow> kept cfg now (ledger_apply known digest cfg ls (now, op)) (auth_apply known digest cfg db (now, op)))"
  proof (cases op)
    case (ACreate i t p)
    with create_refines [OF R assms(2), of digest i t p] assms(3) show ?thesis by simp
  next
    case (AUse t)
    with lookup_refines [OF R] show ?thesis by simp
  next
    case (AVault i b)
    with flag_refines [OF R, of "\<lambda>r. r\<lparr>r_unlocked := b\<rparr>"] show ?thesis by (simp add: SetVaultUnlocked_def mirrors_def)
  next
    case (AMFA i)
    with flag_refines [OF R, of "\<lambda>r. r\<lparr>r_mfa := True\<rparr>"] show ?thesis by (simp add: SetMFASatisfied_def mirrors_def)
  next
    case (ARevoke i)
    with revoke_refines [OF R, of "\<lambda>l. l_id l = i" "\<lambda>r. r_id r = i"] show ?thesis by (simp add: Revoke_def mirrors_def)
  next
    case (ARevokeAll u)
    with revoke_refines [OF R, of "\<lambda>l. l_user l = u" "\<lambda>r. r_user r = u"] show ?thesis by (simp add: RevokeAllForUser_def mirrors_def)
  next
    case (ARevokeOthers u i)
    with revoke_refines [OF R, of "\<lambda>l. l_user l = u \<and> l_id l \<noteq> i" "\<lambda>r. r_user r = u \<and> r_id r \<noteq> i"] show ?thesis
      by (simp add: RevokeAllForUserExcept_def mirrors_def)
  next
    case (APurge g)
    with R show ?thesis by (auto simp: PurgeExpired_def refines_def)
  qed
  then show "refines cfg (ledger_apply known digest cfg ls (now, op)) (auth_apply known digest cfg db (now, op))"
    and "kept cfg now ls db \<Longrightarrow> (\<And>g. op \<noteq> APurge g)
      \<Longrightarrow> kept cfg now (ledger_apply known digest cfg ls (now, op)) (auth_apply known digest cfg db (now, op))"
    by blast+
qed

subsection \<open>How long a token is good for\<close>

fun issues :: "int \<times> auth_op \<Rightarrow> (string \<times> string) list" where
  "issues (now, ACreate i t p) = [(i, t)]"
| "issues (now, _) = []"

definition issued :: "(int \<times> auth_op) list \<Rightarrow> (string \<times> string) list" where
  "issued h = concat (map issues h)"

text \<open>Identifiers and token digests are drawn so that none comes twice.\<close>

definition drawn_once :: "(string \<Rightarrow> string) \<Rightarrow> (int \<times> auth_op) list \<Rightarrow> bool" where
  "drawn_once digest h \<longleftrightarrow> distinct (map fst (issued h)) \<and> distinct (map (digest \<circ> snd) (issued h))"

abbreviation table_after :: "(string \<Rightarrow> bool) \<Rightarrow> (string \<Rightarrow> string) \<Rightarrow> SessionConfig \<Rightarrow> (int \<times> auth_op) list \<Rightarrow> auth_table" where
  "table_after known digest cfg h \<equiv> foldl (auth_apply known digest cfg) [] h"

abbreviation ledger_after :: "(string \<Rightarrow> bool) \<Rightarrow> (string \<Rightarrow> string) \<Rightarrow> SessionConfig \<Rightarrow> (int \<times> auth_op) list \<Rightarrow> login list" where
  "ledger_after known digest cfg h \<equiv> foldl (ledger_apply known digest cfg) [] h"

lemma issued_snoc: "issued (h @ [e]) = issued h @ issues e"
  by (simp add: issued_def)

lemma ledger_entries:
  "l \<in> set (ledger_apply known digest cfg ls e) \<Longrightarrow>
     (\<exists>l' \<in> set ls. l_id l = l_id l' \<and> l_hash l = l_hash l' \<and> (l_revoked l' \<longrightarrow> l_revoked l))
     \<or> (\<exists>t. (l_id l, t) \<in> set (issues e) \<and> l_hash l = digest t)"
  by (cases "(known, digest, cfg, ls, e)" rule: ledger_apply.cases) (auto simp: touch_def split: if_splits)

lemma ledger_issued:
  "l \<in> set (ledger_after known digest cfg h) \<Longrightarrow> \<exists>t. (l_id l, t) \<in> set (issued h) \<and> l_hash l = digest t"
proof (induction h arbitrary: l rule: rev_induct)
  case (snoc e h)
  then show ?case
    using ledger_entries [of l known digest cfg "ledger_after known digest cfg h" e] by (fastforce simp: issued_snoc)
qed simp

lemma touch_revokes:
  assumes "l \<in> set (touch (\<lambda>l. l_id l = i) (\<lambda>l. l\<lparr>l_revoked := True\<rparr>) ls)" and "l_id l = i"
  shows "l_revoked l"
proof -
  from assms(1) obtain l0 where "l = (if l_id l0 = i then l0\<lparr>l_revoked := True\<rparr> else l0)"
    by (auto simp only: touch_def set_map)
  with assms(2) show ?thesis by (cases "l_id l0 = i") auto
qed

lemma ledger_stays_revoked:
  assumes "\<forall>l \<in> set ls. l_id l = i \<longrightarrow> l_revoked l" and "i \<notin> fst ` set (issued h)"
  shows "\<forall>l \<in> set (foldl (ledger_apply known digest cfg) ls h). l_id l = i \<longrightarrow> l_revoked l"
  using assms(2)
proof (induction h rule: rev_induct)
  case (snoc e h)
  let ?ls = "foldl (ledger_apply known digest cfg) ls h"
  have IH: "\<forall>l \<in> set ?ls. l_id l = i \<longrightarrow> l_revoked l" using snoc by (simp add: issued_snoc image_Un)
  have "l_revoked l" if "l \<in> set (ledger_apply known digest cfg ?ls e)" "l_id l = i" for l
    using ledger_entries [OF that(1)]
  proof
    assume "\<exists>t. (l_id l, t) \<in> set (issues e) \<and> l_hash l = digest t"
    with that(2) snoc.prems show ?thesis by (force simp: issued_snoc)
  qed (use IH that(2) in auto)
  then show ?case by simp
qed (use assms(1) in simp)

lemma fresh_snoc:
  assumes "drawn_once digest (h @ [(now, op)])"
  shows "fresh digest (ledger_after known digest cfg h) op"
proof (cases op)
  case (ACreate i t p)
  with assms have "i \<notin> fst ` set (issued h)" "digest t \<notin> (digest \<circ> snd) ` set (issued h)"
    by (auto simp: drawn_once_def issued_snoc)
  moreover have "l_id l \<in> fst ` set (issued h) \<and> l_hash l \<in> (digest \<circ> snd) ` set (issued h)"
    if "l \<in> set (ledger_after known digest cfg h)" for l
    using ledger_issued [OF that] by force
  ultimately show ?thesis by (auto simp: ACreate)
qed simp_all

lemma history_refines:
  assumes "IdleTTL cfg \<le> AbsoluteTTL cfg" and "drawn_once digest h"
  shows "refines cfg (ledger_after known digest cfg h) (table_after known digest cfg h)"
  using assms(2)
proof (induction h rule: rev_induct)
  case Nil
  then show ?case by (simp add: refines_def)
next
  case (snoc e h)
  obtain now op where e: "e = (now, op)" by force
  have "drawn_once digest h" using snoc.prems by (simp add: drawn_once_def issued_snoc)
  with snoc.IH auth_step_refines(1) [OF _ assms(1) fresh_snoc] snoc.prems show ?case by (simp add: e)
qed

lemma history_kept:
  assumes "IdleTTL cfg \<le> AbsoluteTTL cfg" and "drawn_once digest h" and "sorted (map fst h @ [now])"
    and "\<forall>(t, op) \<in> set h. \<forall>g. op \<noteq> APurge g"
  shows "kept cfg now (ledger_after known digest cfg h) (table_after known digest cfg h)"
  using assms(2-)
proof (induction h arbitrary: now rule: rev_induct)
  case Nil
  then show ?case by (simp add: kept_def)
next
  case (snoc e h)
  obtain t op where e: "e = (t, op)" by force
  have h: "drawn_once digest h" using snoc.prems by (simp add: drawn_once_def issued_snoc)
  have "kept cfg t (ledger_after known digest cfg h) (table_after known digest cfg h)"
    using snoc.prems by (intro snoc.IH h) (auto simp: e sorted_append)
  with auth_step_refines(2) [OF history_refines [OF assms(1) h] assms(1) fresh_snoc] snoc.prems
  have "kept cfg t (ledger_after known digest cfg (h @ [e])) (table_after known digest cfg (h @ [e]))" by (simp add: e)
  with kept_later show ?case using snoc.prems by (auto simp: e sorted_append)
qed

lemma lookup_result:
  assumes R: "refines cfg ls db" and "token \<noteq> ''''"
  shows "snd (Lookup digest cfg now token db) = Inr s \<Longrightarrow>
      \<exists>l \<in> set ls. l_id l = as_ID s \<and> l_user l = as_UserID s \<and> l_hash l = digest token \<and> usable cfg now l"
    and "kept cfg now ls db \<Longrightarrow> l \<in> set ls \<Longrightarrow> l_hash l = digest token \<Longrightarrow> usable cfg now l
      \<Longrightarrow> \<exists>s. snd (Lookup digest cfg now token db) = Inr s"
proof -
  have "(snd (Lookup digest cfg now token db) = Inr s \<longrightarrow>
      (\<exists>l \<in> set ls. l_id l = as_ID s \<and> l_user l = as_UserID s \<and> l_hash l = digest token \<and> usable cfg now l))
    \<and> (kept cfg now ls db \<longrightarrow> l \<in> set ls \<longrightarrow> l_hash l = digest token \<longrightarrow> usable cfg now l
      \<longrightarrow> (\<exists>s. snd (Lookup digest cfg now token db) = Inr s))"
  proof (cases rule: byTokenHash_cases [of "digest token" db])
    case missing
    then have "\<not> (\<exists>r \<in> set db. mirrors cfg l r)" if "l_hash l = digest token" using that by (force simp: mirrors_def)
    with missing assms(2) show ?thesis by (auto simp: Lookup_def kept_def)
  next
    case (found r)
    from R found(2) obtain l' where l': "l' \<in> set ls" "mirrors cfg l' r" by (auto simp: refines_def)
    have s: "as_ID (scanSession r) = l_id l'" "as_UserID (scanSession r) = l_user l'" "l_hash l' = digest token"
      using l'(2) found(3) by (simp_all add: scanSession_def mirrors_def)
    have same: "l = l'" if "l \<in> set ls" "l_hash l = digest token"
      using found_unique(1) [OF R l' that(1)] that(2) found(3) by simp
    from found(1) assms(2) mirrors_active [OF l'(2)] l'(1) s same show ?thesis
      by (cases "usable cfg now l'") (auto simp: Lookup_def Let_def)
  qed
  then show "snd (Lookup digest cfg now token db) = Inr s \<Longrightarrow>
      \<exists>l \<in> set ls. l_id l = as_ID s \<and> l_user l = as_UserID s \<and> l_hash l = digest token \<and> usable cfg now l"
    and "kept cfg now ls db \<Longrightarrow> l \<in> set ls \<Longrightarrow> l_hash l = digest token \<Longrightarrow> usable cfg now l
      \<Longrightarrow> \<exists>s. snd (Lookup digest cfg now token db) = Inr s"
    by blast+
qed

text \<open>
  C34 (refinement). After any history of logins, requests, logouts and revocations, a token is
  accepted only if it was issued to that user, was never revoked after that, is younger than the
  absolute lifetime, however much it was used, and was used within the idle lifetime. Conversely,
  when the clock did not run backwards and no purge ran, every such token is accepted.
\<close>

theorem token_lifetime:
  assumes "Validate_sessions cfg = Inr ()" and "drawn_once digest h" and "token \<noteq> ''''"
    and "db = table_after known digest cfg h"
  shows "(snd (Lookup digest cfg now token db) = Inr s \<longrightarrow>
       (\<exists>l \<in> set (ledger_after known digest cfg h).
          l_id l = as_ID s \<and> l_user l = as_UserID s \<and> l_hash l = digest token \<and> usable cfg now l)
       \<and> (\<forall>h1 t h2. h = h1 @ (t, ARevoke (as_ID s)) # h2 \<longrightarrow> as_ID s \<in> fst ` set (issued h2)))
    \<and> (sorted (map fst h @ [now]) \<and> (\<forall>(t, op) \<in> set h. \<forall>g. op \<noteq> APurge g) \<longrightarrow>
         ((\<exists>s. snd (Lookup digest cfg now token db) = Inr s)
            \<longleftrightarrow> (\<exists>l \<in> set (ledger_after known digest cfg h). l_hash l = digest token \<and> usable cfg now l)))"
proof -
  have ttl: "IdleTTL cfg \<le> AbsoluteTTL cfg" using assms(1) by (auto simp: Validate_sessions_def split: if_splits)
  note R = history_refines [OF ttl assms(2), of known, folded assms(4)]
  have over: "i \<in> fst ` set (issued h2)"
    if "h = h1 @ (t, ARevoke i) # h2" "l \<in> set (ledger_after known digest cfg h)" "l_id l = i" "usable cfg now l" for h1 t h2 i l
  proof (rule ccontr)
    let ?ls = "ledger_apply known digest cfg (ledger_after known digest cfg h1) (t, ARevoke i)"
    assume "i \<notin> fst ` set (issued h2)"
    moreover have "\<forall>l \<in> set ?ls. l_id l = i \<longrightarrow> l_revoked l" by (simp add: touch_revokes)
    ultimately have "\<forall>l \<in> set (foldl (ledger_apply known digest cfg) ?ls h2). l_id l = i \<longrightarrow> l_revoked l"
      by (rule ledger_stays_revoked [rotated])
    with that show False by (simp add: usable_def)
  qed
  note res = lookup_result [OF R assms(3), where digest = digest and now = now]
  have "\<exists>l \<in> set (ledger_after known digest cfg h). l_hash l = digest token \<and> usable cfg now l"
    if "snd (Lookup digest cfg now token db) = Inr s" for s
    using res(1) [OF that] by blast
  moreover have "\<forall>h1 t h2. h = h1 @ (t, ARevoke (as_ID s)) # h2 \<longrightarrow> as_ID s \<in> fst ` set (issued h2)"
    if "snd (Lookup digest cfg now token db) = Inr s"
    using res(1) [OF that] over by blast
  moreover have "\<exists>s. snd (Lookup digest cfg now token db) = Inr s"
    if "sorted (map fst h @ [now]) \<and> (\<forall>(t, op) \<in> set h. \<forall>g. op \<noteq> APurge g)"
      and "l \<in> set (ledger_after known digest cfg h)" "l_hash l = digest token" "usable cfg now l" for l
    using res(2) that history_kept [OF ttl assms(2), of now known, folded assms(4)] by blast
  ultimately show ?thesis using res(1) by blast
qed

definition demo_logins :: "(int \<times> auth_op) list" where
  "demo_logins =
     [(0, ACreate ''s1'' ''tok1'' \<lparr>cp_UserID = ''u'', cp_AuthMethod = ''local'', cp_MFASatisfied = False, cp_UserAgent = ''b'', cp_IPAddress = ''::1''\<rparr>),
      (0, ACreate ''s2'' ''tok2'' \<lparr>cp_UserID = ''u'', cp_AuthMethod = ''oidc'', cp_MFASatisfied = True, cp_UserAgent = ''b'', cp_IPAddress = ''::1''\<rparr>),
      (hour, AUse ''tok1''), (2 * hour, ARevoke ''s2'')]"

theorem token_lifetime_witness:
  "let db = table_after (\<lambda>_. True) (\<lambda>t. t) DefaultSessionConfig demo_logins in
     (\<exists>s. snd (Lookup (\<lambda>t. t) DefaultSessionConfig (8 * hour) ''tok1'' db) = Inr s)
     \<and> \<not> (\<exists>s. snd (Lookup (\<lambda>t. t) DefaultSessionConfig (9 * hour) ''tok1'' db) = Inr s)
     \<and> \<not> (\<exists>s. snd (Lookup (\<lambda>t. t) DefaultSessionConfig (3 * hour) ''tok2'' db) = Inr s)"
proof -
  have valid: "Validate_sessions DefaultSessionConfig = Inr ()" by (simp add: Validate_sessions_def DefaultSessionConfig_def)
  have once: "drawn_once (\<lambda>t. t) demo_logins" by (simp add: drawn_once_def issued_def demo_logins_def)
  note life = token_lifetime [OF valid once _ refl, where known = "\<lambda>_. True"]
  have ledger: "ledger_after (\<lambda>_. True) (\<lambda>t. t) DefaultSessionConfig demo_logins =
    [\<lparr>l_id = ''s1'', l_hash = ''tok1'', l_user = ''u'', l_created = 0, l_used = hour, l_revoked = False\<rparr>,
     \<lparr>l_id = ''s2'', l_hash = ''tok2'', l_user = ''u'', l_created = 0, l_used = 0, l_revoked = True\<rparr>]"
    by (simp add: demo_logins_def touch_def usable_def DefaultSessionConfig_def AuthMethodLocal_def AuthMethodOIDC_def)
  have quiet: "\<forall>(t, op) \<in> set demo_logins. \<forall>g. op \<noteq> APurge g" by (simp add: demo_logins_def)
  have sorted: "sorted (map fst demo_logins @ [n * hour])" if "3 \<le> n" for n
    using that by (simp add: demo_logins_def)
  have ends: "(\<exists>s. snd (Lookup (\<lambda>t. t) DefaultSessionConfig (n * hour) t (table_after (\<lambda>_. True) (\<lambda>t. t) DefaultSessionConfig demo_logins)) = Inr s)
    \<longleftrightarrow> t = ''tok1'' \<and> n < 9" (is "?found \<longleftrightarrow> _") if "3 \<le> n" "t \<noteq> ''''" for n t
  proof -
    have "?found \<longleftrightarrow> (\<exists>l \<in> set (ledger_after (\<lambda>_. True) (\<lambda>t. t) DefaultSessionConfig demo_logins). l_hash l = t \<and> usable DefaultSessionConfig (n * hour) l)"
      using life [OF that(2), of "n * hour"] sorted [OF that(1)] quiet by blast
    also have "\<dots> \<longleftrightarrow> t = ''tok1'' \<and> n < 9"
      unfolding ledger using that by (auto simp: usable_def DefaultSessionConfig_def)
    finally show ?thesis .
  qed
  show ?thesis
    using ends [of 8 "''tok1''"] ends [of 9 "''tok1''"] ends [of 3 "''tok2''"] by (simp add: Let_def)
qed

end
