(* ===== verification/Users.thy ===== *)
theory Users
  imports Auth_Sessions Vault
begin

section \<open>Accounts (\<^verbatim>\<open>internal/users/users.go\<close>, \<^verbatim>\<open>internal/server/admin.go\<close>)\<close>

text \<open>
  The table \<^verbatim>\<open>users\<close> as a list of rows with its primary key and its two unique indexes. A row
  is the account together with \<^verbatim>\<open>email_normalized\<close>; a NULL identity provider is the empty
  string, as \<^verbatim>\<open>nullable\<close> and \<^verbatim>\<open>scanUser\<close> have it. The wrapped key is kept decoded: its columns
  are JSON and base64 of it. Hashing a password is the parameter \<open>hash\<close>, which fails on some
  passwords. The administrator's commands act on this table and on the table of browser sessions.
\<close>

subsection \<open>Data\<close>

datatype user_error =
    UserNotFound
  | ErrEmailInUse
  | ErrInvalidEmail
  | ErrEmptyPassword
  | ErrHashing
  | ErrUnlockKind
  | ErrOnlyAdministrator

datatype UnlockKind = UnlockUnset | UnlockDerived | UnlockSeparate | UnlockServer

record User =
  u_ID :: string
  u_Email :: string
  u_normalized :: string
  u_DisplayName :: string
  u_PasswordHash :: string
  u_UnlockKind :: UnlockKind
  u_WrappedDEK :: "WrappedKey option"
  u_TOTPEnabled :: bool
  u_IsAdmin :: bool
  u_IsDisabled :: bool
  u_SSOProvider :: string
  u_SSOSubject :: string
  u_SSOTenant :: string
  u_CreatedAt :: int
  u_UpdatedAt :: int
  u_LastLoginAt :: "int option"
  u_VaultResetAt :: "int option"

type_synonym users_table = "User list"

definition HasVault :: "User \<Rightarrow> bool" where
  "HasVault u \<longleftrightarrow> u_UnlockKind u \<noteq> UnlockUnset \<and> u_WrappedDEK u \<noteq> None"

definition IsSSO :: "User \<Rightarrow> bool" where
  "IsSSO u \<longleftrightarrow> u_SSOProvider u \<noteq> ''''"

definition CanSignInLocally :: "User \<Rightarrow> bool" where
  "CanSignInLocally u \<longleftrightarrow> u_PasswordHash u \<noteq> ''''"

definition NormalizeEmail :: "string \<Rightarrow> string" where
  "NormalizeEmail e = to_lower (trim_space e)"

text \<open>\<^verbatim>\<open>strings.Index\<close> of a character: the length of what precedes it.\<close>

definition ValidateEmail :: "string \<Rightarrow> (user_error, unit) result" where
  "ValidateEmail email =
     (let e = NormalizeEmail email; at = length (takeWhile (\<lambda>c. c \<noteq> CHR ''@'') e)
      in if e = '''' then Inl ErrInvalidEmail
         else if length e > 320 then Inl ErrInvalidEmail
         else if at = length e \<or> at = 0 \<or> at = length e - 1 then Inl ErrInvalidEmail
         else if count_list e (CHR ''@'') \<noteq> 1 then Inl ErrInvalidEmail
         else if list_ex (\<lambda>c. c \<in> {CHR '' '', CHR 0x09, CHR 0x0D, CHR 0x0A}) e then Inl ErrInvalidEmail
         else if CHR ''.'' \<notin> set (drop (at + 1) e) then Inl ErrInvalidEmail
         else Inr ())"

subsection \<open>Operations\<close>

record CreateParams =
  up_Email :: string
  up_DisplayName :: string
  up_Password :: string
  up_IsAdmin :: bool
  up_SSOProvider :: string
  up_SSOSubject :: string
  up_SSOTenant :: string

definition new_user :: "string \<Rightarrow> int \<Rightarrow> string \<Rightarrow> CreateParams \<Rightarrow> User" where
  "new_user i now pw p =
     \<lparr>u_ID = i, u_Email = trim_space (up_Email p), u_normalized = NormalizeEmail (up_Email p),
      u_DisplayName = trim_space (up_DisplayName p), u_PasswordHash = pw, u_UnlockKind = UnlockUnset, u_WrappedDEK = None,
      u_TOTPEnabled = False, u_IsAdmin = up_IsAdmin p, u_IsDisabled = False, u_SSOProvider = up_SSOProvider p,
      u_SSOSubject = up_SSOSubject p, u_SSOTenant = up_SSOTenant p, u_CreatedAt = now, u_UpdatedAt = now,
      u_LastLoginAt = None, u_VaultResetAt = None\<rparr>"

text \<open>
  The unique indexes: NULL is unlike every value, so a missing provider or subject clashes with none.
  Any violation is reported as an address in use.
\<close>

definition clashes :: "User \<Rightarrow> User \<Rightarrow> bool" where
  "clashes u v \<longleftrightarrow> u_ID u = u_ID v \<or> u_normalized u = u_normalized v
     \<or> u_SSOProvider u \<noteq> '''' \<and> u_SSOSubject u \<noteq> '''' \<and> u_SSOProvider u = u_SSOProvider v \<and> u_SSOSubject u = u_SSOSubject v"

definition users_Create ::
  "(string \<Rightarrow> string option) \<Rightarrow> string \<Rightarrow> int \<Rightarrow> CreateParams \<Rightarrow> users_table \<Rightarrow> users_table \<times> (user_error, User) result" where
  "users_Create hash i now p db =
     (case ValidateEmail (up_Email p) of
        Inl e \<Rightarrow> (db, Inl e)
      | Inr _ \<Rightarrow>
          (case (if up_Password p = '''' then Some '''' else hash (up_Password p)) of
             None \<Rightarrow> (db, Inl ErrHashing)
           | Some pw \<Rightarrow>
               let u = new_user i now pw p
               in if list_ex (clashes u) db then (db, Inl ErrEmailInUse) else (db @ [u], Inr u)))"

definition user_where :: "(User \<Rightarrow> bool) \<Rightarrow> users_table \<Rightarrow> (user_error, User) result" where
  "user_where w db = (case find w db of None \<Rightarrow> Inl UserNotFound | Some u \<Rightarrow> Inr u)"

definition ByID :: "string \<Rightarrow> users_table \<Rightarrow> (user_error, User) result" where
  "ByID i = user_where (\<lambda>u. u_ID u = i)"

definition ByEmail :: "string \<Rightarrow> users_table \<Rightarrow> (user_error, User) result" where
  "ByEmail email = user_where (\<lambda>u. u_normalized u = NormalizeEmail email)"

text \<open>An SQL comparison with NULL is never true.\<close>

definition BySSO :: "string \<Rightarrow> string \<Rightarrow> users_table \<Rightarrow> (user_error, User) result" where
  "BySSO provider subject =
     user_where (\<lambda>u. u_SSOProvider u \<noteq> '''' \<and> u_SSOSubject u \<noteq> '''' \<and> u_SSOProvider u = provider \<and> u_SSOSubject u = subject)"

definition edit_user :: "string \<Rightarrow> (User \<Rightarrow> User) \<Rightarrow> users_table \<Rightarrow> users_table" where
  "edit_user i f db = map (\<lambda>u. if u_ID u = i then f u else u) db"

definition UpdateLastLogin :: "int \<Rightarrow> string \<Rightarrow> users_table \<Rightarrow> users_table" where
  "UpdateLastLogin now i = edit_user i (\<lambda>u. u\<lparr>u_LastLoginAt := Some now, u_UpdatedAt := now\<rparr>)"

definition UpdateProfile :: "int \<Rightarrow> string \<Rightarrow> string \<Rightarrow> string \<Rightarrow> users_table \<Rightarrow> users_table \<times> (user_error, unit) result" where
  "UpdateProfile now i email name db =
     (if email \<noteq> '''' then
        (case ValidateEmail email of
           Inl e \<Rightarrow> (db, Inl e)
         | Inr _ \<Rightarrow>
             if list_ex (\<lambda>u. u_ID u \<noteq> i \<and> u_normalized u = NormalizeEmail email) db \<and> list_ex (\<lambda>u. u_ID u = i) db
             then (db, Inl ErrEmailInUse)
             else (edit_user i (\<lambda>u. u\<lparr>u_Email := trim_space email, u_normalized := NormalizeEmail email,
                     u_DisplayName := trim_space name, u_UpdatedAt := now\<rparr>) db, Inr ()))
      else (edit_user i (\<lambda>u. u\<lparr>u_DisplayName := trim_space name, u_UpdatedAt := now\<rparr>) db, Inr ()))"

definition SetPassword :: "(string \<Rightarrow> string option) \<Rightarrow> int \<Rightarrow> string \<Rightarrow> string \<Rightarrow> users_table \<Rightarrow> users_table \<times> (user_error, unit) result" where
  "SetPassword hash now i password db =
     (if password = '''' then (db, Inl ErrEmptyPassword)
      else case hash password of
          None \<Rightarrow> (db, Inl ErrHashing)
        | Some pw \<Rightarrow> (edit_user i (\<lambda>u. u\<lparr>u_PasswordHash := pw, u_UpdatedAt := now\<rparr>) db, Inr ()))"

definition SetVault :: "int \<Rightarrow> string \<Rightarrow> UnlockKind \<Rightarrow> WrappedKey \<Rightarrow> users_table \<Rightarrow> users_table \<times> (user_error, unit) result" where
  "SetVault now i kind wk db =
     (if kind = UnlockUnset then (db, Inl ErrUnlockKind)
      else (edit_user i (\<lambda>u. u\<lparr>u_WrappedDEK := Some wk, u_UnlockKind := kind, u_UpdatedAt := now\<rparr>) db, Inr ()))"

text \<open>
  \<^verbatim>\<open>ResetVault\<close> on this table; its transaction also deletes the credentials, the team memberships
  and the one-time password of the user.
\<close>

definition ResetVault :: "int \<Rightarrow> string \<Rightarrow> users_table \<Rightarrow> users_table" where
  "ResetVault now i =
     edit_user i (\<lambda>u. u\<lparr>u_WrappedDEK := None, u_UnlockKind := UnlockUnset, u_TOTPEnabled := False,
       u_VaultResetAt := Some now, u_UpdatedAt := now\<rparr>)"

definition users_SetAdmin :: "int \<Rightarrow> string \<Rightarrow> bool \<Rightarrow> users_table \<Rightarrow> users_table" where
  "users_SetAdmin now i b = edit_user i (\<lambda>u. u\<lparr>u_IsAdmin := b, u_UpdatedAt := now\<rparr>)"

definition users_SetDisabled :: "int \<Rightarrow> string \<Rightarrow> bool \<Rightarrow> users_table \<Rightarrow> users_table" where
  "users_SetDisabled now i b = edit_user i (\<lambda>u. u\<lparr>u_IsDisabled := b, u_UpdatedAt := now\<rparr>)"

definition SetTOTPEnabled :: "int \<Rightarrow> string \<Rightarrow> bool \<Rightarrow> users_table \<Rightarrow> users_table" where
  "SetTOTPEnabled now i b = edit_user i (\<lambda>u. u\<lparr>u_TOTPEnabled := b, u_UpdatedAt := now\<rparr>)"

definition users_List :: "int \<Rightarrow> users_table \<Rightarrow> User list" where
  "users_List limit db =
     take (nat (if limit \<le> 0 \<or> limit > 1000 then 200 else limit)) (sort_key (\<lambda>u. rfc3339_nano (u_CreatedAt u)) db)"

definition CountAdmins :: "users_table \<Rightarrow> nat" where
  "CountAdmins db = length (filter (\<lambda>u. u_IsAdmin u \<and> \<not> u_IsDisabled u) db)"

definition users_Delete :: "string \<Rightarrow> users_table \<Rightarrow> users_table \<times> (user_error, unit) result" where
  "users_Delete i db =
     (if list_ex (\<lambda>u. u_ID u = i) db then (filter (\<lambda>u. u_ID u \<noteq> i) db, Inr ()) else (db, Inl UserNotFound))"

subsection \<open>The administrator's commands\<close>

definition CreateUser ::
  "(string \<Rightarrow> string option) \<Rightarrow> string \<Rightarrow> int \<Rightarrow> string \<Rightarrow> string \<Rightarrow> string \<Rightarrow> bool \<Rightarrow> users_table \<Rightarrow> users_table \<times> (user_error, User) result" where
  "CreateUser hash i now email name password admin db =
     (if password = '''' then (db, Inl ErrEmptyPassword)
      else users_Create hash i now
        \<lparr>up_Email = email, up_DisplayName = name, up_Password = password, up_IsAdmin = admin,
         up_SSOProvider = '''', up_SSOSubject = '''', up_SSOTenant = ''''\<rparr> db)"

definition admin_SetAdmin :: "int \<Rightarrow> string \<Rightarrow> bool \<Rightarrow> users_table \<Rightarrow> users_table \<times> (user_error, unit) result" where
  "admin_SetAdmin now email admin db =
     (case ByEmail email db of
        Inl e \<Rightarrow> (db, Inl e)
      | Inr u \<Rightarrow>
          if \<not> admin \<and> u_IsAdmin u \<and> CountAdmins db \<le> 1 then (db, Inl ErrOnlyAdministrator)
          else (users_SetAdmin now (u_ID u) admin db, Inr ()))"

definition admin_SetDisabled ::
  "int \<Rightarrow> string \<Rightarrow> bool \<Rightarrow> users_table \<times> auth_table \<Rightarrow> (users_table \<times> auth_table) \<times> (user_error, nat) result" where
  "admin_SetDisabled now email disabled s =
     (case s of (db, sessions) \<Rightarrow>
        (case ByEmail email db of
           Inl e \<Rightarrow> (s, Inl e)
         | Inr u \<Rightarrow>
             if disabled \<and> u_IsAdmin u \<and> CountAdmins db \<le> 1 then (s, Inl ErrOnlyAdministrator)
             else let db' = users_SetDisabled now (u_ID u) disabled db
                  in if \<not> disabled then ((db', sessions), Inr 0)
                     else (case RevokeAllForUser now (u_ID u) sessions of (sessions', n) \<Rightarrow> ((db', sessions'), Inr n))))"

definition admin_ResetVault :: "int \<Rightarrow> User \<Rightarrow> users_table \<times> auth_table \<Rightarrow> users_table \<times> auth_table" where
  "admin_ResetVault now u s =
     (case s of (db, sessions) \<Rightarrow> (ResetVault now (u_ID u) db, fst (RevokeAllForUser now (u_ID u) sessions)))"

subsection \<open>What every account looks like\<close>

definition well_formed :: "User \<Rightarrow> bool" where
  "well_formed u \<longleftrightarrow> u_normalized u = NormalizeEmail (u_Email u) \<and> ValidateEmail (u_Email u) = Inr ()
     \<and> (u_UnlockKind u = UnlockUnset \<longleftrightarrow> u_WrappedDEK u = None)"

definition users_ok :: "users_table \<Rightarrow> bool" where
  "users_ok db \<longleftrightarrow> (\<forall>u \<in> set db. well_formed u) \<and> sorted_wrt (\<lambda>u v. \<not> clashes u v) db"

definition administered :: "users_table \<Rightarrow> bool" where
  "administered db \<longleftrightarrow> 1 \<le> CountAdmins db"

text \<open>What the server and the administrator's commands do to the table; \<^verbatim>\<open>Delete\<close> has no caller.\<close>

inductive users_step :: "users_table \<Rightarrow> users_table \<Rightarrow> bool" where
  create: "users_step db (fst (users_Create hash i now p db))"
| create_user: "users_step db (fst (CreateUser hash i now email name pw b db))"
| last_login: "users_step db (UpdateLastLogin now i db)"
| profile: "users_step db (fst (UpdateProfile now i email name db))"
| password: "users_step db (fst (SetPassword hash now i pw db))"
| set_vault: "users_step db (fst (SetVault now i kind wk db))"
| reset_vault: "users_step db (ResetVault now i db)"
| totp: "users_step db (SetTOTPEnabled now i b db)"
| set_admin: "users_step db (fst (admin_SetAdmin now email b db))"
| set_disabled: "users_step db (fst (fst (admin_SetDisabled now email b (db, sessions))))"

lemma NormalizeEmail_trim [simp]: "NormalizeEmail (trim_space e) = NormalizeEmail e"
  by (simp add: NormalizeEmail_def)

lemma ValidateEmail_trim [simp]: "ValidateEmail (trim_space e) = ValidateEmail e"
  by (simp add: ValidateEmail_def)

lemma clashes_sym: "clashes u v \<longleftrightarrow> clashes v u"
  by (auto simp: clashes_def)

lemma users_okD:
  assumes "users_ok db" and "u \<in> set db" "v \<in> set db" and "clashes u v"
  shows "u = v"
  using assms by (induction db) (auto simp: users_ok_def clashes_sym)

lemma map_users_ok:
  assumes "users_ok db" and "\<And>u. u \<in> set db \<Longrightarrow> well_formed (g u)"
    and "\<And>u v. u \<in> set db \<Longrightarrow> v \<in> set db \<Longrightarrow> \<not> clashes u v \<Longrightarrow> \<not> clashes (g u) (g v)"
  shows "users_ok (map g db)"
proof -
  have "sorted_wrt (\<lambda>u v. \<not> clashes u v) db" using assms(1) by (simp add: users_ok_def)
  then have "sorted_wrt (\<lambda>u v. \<not> clashes (g u) (g v)) db"
    by (rule sorted_wrt_mono_rel [rotated]) (rule assms(3))
  with assms(2) show ?thesis by (simp add: users_ok_def sorted_wrt_map)
qed

text \<open>Changing columns no index mentions.\<close>

lemma edit_user_ok:
  assumes "users_ok db" and "\<And>u. well_formed u \<Longrightarrow> well_formed (f u)"
    and "\<And>u v. clashes (f u) v \<longleftrightarrow> clashes u v" "\<And>u v. clashes u (f v) \<longleftrightarrow> clashes u v"
  shows "users_ok (edit_user i f db)"
  unfolding edit_user_def
proof (rule map_users_ok [OF assms(1)])
  fix u v
  show "\<not> clashes u v \<Longrightarrow> \<not> clashes (if u_ID u = i then f u else u) (if u_ID v = i then f v else v)"
    by (cases "u_ID u = i"; cases "u_ID v = i") (simp_all add: assms(3,4))
qed (use assms(1,2) in \<open>simp add: users_ok_def\<close>)

lemma users_Create_ok: "users_ok db \<Longrightarrow> users_ok (fst (users_Create hash i now p db))"
  by (auto simp: users_Create_def Let_def users_ok_def well_formed_def new_user_def sorted_wrt_append clashes_sym list_ex_iff
      split: sum.splits option.splits)

lemma UpdateProfile_ok:
  assumes "users_ok db"
  shows "users_ok (fst (UpdateProfile now i email name db))"
proof (cases "email \<noteq> '''' \<and> ValidateEmail email = Inr () \<and> (\<forall>u \<in> set db. u_ID u \<noteq> i \<longrightarrow> u_normalized u \<noteq> NormalizeEmail email)")
  case True
  let ?f = "\<lambda>u. u\<lparr>u_Email := trim_space email, u_normalized := NormalizeEmail email, u_DisplayName := trim_space name, u_UpdatedAt := now\<rparr>"
  have "\<not> clashes (if u_ID u = i then ?f u else u) (if u_ID v = i then ?f v else v)"
    if "\<not> clashes u v" "u \<in> set db" "v \<in> set db" for u v
    using that True by (auto simp: clashes_def)
  then have "users_ok (edit_user i ?f db)"
    unfolding edit_user_def using assms True by (intro map_users_ok) (auto simp: users_ok_def well_formed_def)
  with True show ?thesis by (auto simp: UpdateProfile_def list_ex_iff split: sum.splits)
next
  case False
  have "users_ok (edit_user i (\<lambda>u. u\<lparr>u_DisplayName := trim_space name, u_UpdatedAt := now\<rparr>) db)"
    using assms by (rule edit_user_ok) (auto simp: well_formed_def clashes_def)
  moreover have "edit_user i f db = db" if "\<forall>u \<in> set db. u_ID u \<noteq> i" for f
    using that by (simp add: edit_user_def map_idI)
  ultimately show ?thesis
    using False assms by (auto simp: UpdateProfile_def list_ex_iff split: sum.splits)
qed

interpretation users: invariant_of users_step users_ok
proof
  fix db db'
  assume "users_step db db'" and ok: "users_ok db"
  then show "users_ok db'"
  proof cases
    case (set_admin now email b)
    with ok show ?thesis
      by (auto simp: admin_SetAdmin_def users_SetAdmin_def well_formed_def clashes_def split: sum.splits intro!: edit_user_ok)
  next
    case (set_disabled now email b sessions)
    with ok show ?thesis
      by (auto simp: admin_SetDisabled_def users_SetDisabled_def well_formed_def clashes_def Let_def
          split: sum.splits prod.splits intro!: edit_user_ok)
  qed (auto simp: users_Create_ok CreateUser_def UpdateProfile_ok UpdateLastLogin_def SetPassword_def SetVault_def ResetVault_def
      SetTOTPEnabled_def well_formed_def clashes_def split: option.splits intro!: edit_user_ok)
qed

lemma users_ok_ids: "users_ok db \<Longrightarrow> distinct (map u_ID db)"
proof -
  have "sorted_wrt (\<lambda>u v. \<not> clashes u v) db \<Longrightarrow> distinct (map u_ID db)"
    by (induction db) (auto simp: clashes_def)
  then show "users_ok db \<Longrightarrow> ?thesis" by (simp add: users_ok_def)
qed

lemma edit_absent: "i \<notin> u_ID ` set db \<Longrightarrow> edit_user i f db = db"
  by (auto simp: edit_user_def intro!: map_idI)

text \<open>Editing one account changes the number of enabled administrators by at most one.\<close>

lemma CountAdmins_edit:
  assumes "distinct (map u_ID db)"
  shows "CountAdmins db \<le> CountAdmins (edit_user i f db) + 1"
    and "(\<And>u. u \<in> set db \<Longrightarrow> u_ID u = i \<Longrightarrow> u_IsAdmin u \<and> \<not> u_IsDisabled u \<Longrightarrow> u_IsAdmin (f u) \<and> \<not> u_IsDisabled (f u))
      \<Longrightarrow> CountAdmins db \<le> CountAdmins (edit_user i f db)"
proof -
  have "CountAdmins db \<le> CountAdmins (edit_user i f db) + 1
    \<and> ((\<forall>u \<in> set db. u_ID u = i \<longrightarrow> u_IsAdmin u \<and> \<not> u_IsDisabled u \<longrightarrow> u_IsAdmin (f u) \<and> \<not> u_IsDisabled (f u))
       \<longrightarrow> CountAdmins db \<le> CountAdmins (edit_user i f db))"
    using assms
  proof (induction db)
    case (Cons u db)
    show ?case
    proof (cases "u_ID u = i")
      case True
      then have "edit_user i f (u # db) = f u # db" using Cons.prems edit_absent [of i db f] by (simp add: edit_user_def)
      then show ?thesis using True by (auto simp: CountAdmins_def)
    next
      case False
      then have "edit_user i f (u # db) = u # edit_user i f db" by (simp add: edit_user_def)
      with Cons show ?thesis by (auto simp: CountAdmins_def)
    qed
  qed (simp add: CountAdmins_def edit_user_def)
  then show "CountAdmins db \<le> CountAdmins (edit_user i f db) + 1"
    and "(\<And>u. u \<in> set db \<Longrightarrow> u_ID u = i \<Longrightarrow> u_IsAdmin u \<and> \<not> u_IsDisabled u \<Longrightarrow> u_IsAdmin (f u) \<and> \<not> u_IsDisabled (f u))
      \<Longrightarrow> CountAdmins db \<le> CountAdmins (edit_user i f db)"
    by blast+
qed

lemma ByEmail_in: "ByEmail email db = Inr u \<Longrightarrow> u \<in> set db"
  by (auto simp: ByEmail_def user_where_def find_Some_iff split: option.splits)

lemma CountAdmins_Create: "CountAdmins db \<le> CountAdmins (fst (users_Create hash i now p db))"
  by (auto simp: users_Create_def CountAdmins_def Let_def split: sum.splits option.splits)

lemma administered_edit:
  assumes "users_ok db" and "administered db"
    and "\<And>u. u \<in> set db \<Longrightarrow> u_ID u = i \<Longrightarrow> u_IsAdmin u \<and> \<not> u_IsDisabled u \<Longrightarrow> u_IsAdmin (f u) \<and> \<not> u_IsDisabled (f u)"
  shows "administered (edit_user i f db)"
  using CountAdmins_edit(2) [OF users_ok_ids [OF assms(1)], of i f] assms(2,3) by (fastforce simp: administered_def)

lemma admin_SetAdmin_keeps:
  assumes "users_ok db" and "administered db"
  shows "administered (fst (admin_SetAdmin now email b db))"
proof (cases "ByEmail email db")
  case (Inr u)
  note ids = users_ok_ids [OF assms(1)]
  let ?f = "\<lambda>u. u\<lparr>u_IsAdmin := b, u_UpdatedAt := now\<rparr>"
  have same: "v = u" if "v \<in> set db" "u_ID v = u_ID u" for v
    using distinct_map_inj [OF ids that(1) ByEmail_in [OF Inr] that(2)] .
  have "administered (edit_user (u_ID u) ?f db)" if "b \<or> \<not> u_IsAdmin u"
    using assms same that by (intro administered_edit) auto
  moreover have "administered (edit_user (u_ID u) ?f db)" if "1 < CountAdmins db"
    using CountAdmins_edit(1) [OF ids, of "u_ID u" ?f] that by (simp add: administered_def)
  ultimately show ?thesis using assms(2) Inr by (auto simp: admin_SetAdmin_def users_SetAdmin_def not_le)
qed (use assms(2) in \<open>simp add: admin_SetAdmin_def\<close>)

lemma admin_SetDisabled_keeps:
  assumes "users_ok db" and "administered db"
  shows "administered (fst (fst (admin_SetDisabled now email b (db, sessions))))"
proof (cases "ByEmail email db")
  case (Inr u)
  note ids = users_ok_ids [OF assms(1)]
  let ?f = "\<lambda>u. u\<lparr>u_IsDisabled := b, u_UpdatedAt := now\<rparr>"
  have same: "v = u" if "v \<in> set db" "u_ID v = u_ID u" for v
    using distinct_map_inj [OF ids that(1) ByEmail_in [OF Inr] that(2)] .
  have "administered (edit_user (u_ID u) ?f db)" if "\<not> b \<or> \<not> u_IsAdmin u"
    using assms same that by (intro administered_edit) auto
  moreover have "administered (edit_user (u_ID u) ?f db)" if "1 < CountAdmins db"
    using CountAdmins_edit(1) [OF ids, of "u_ID u" ?f] that by (simp add: administered_def)
  ultimately show ?thesis
    using assms(2) Inr by (auto simp: admin_SetDisabled_def users_SetDisabled_def Let_def not_le split: prod.splits)
qed (use assms(2) in \<open>simp add: admin_SetDisabled_def\<close>)

interpretation administered_users: invariant_of users_step "\<lambda>db. users_ok db \<and> administered db"
proof
  fix db db'
  assume step: "users_step db db'" and ok: "users_ok db \<and> administered db"
  have "administered db'" using step
  proof cases
    case (create hash i now p)
    with ok CountAdmins_Create [of db hash i now p] show ?thesis by (simp add: administered_def)
  next
    case (create_user hash i now email name pw b)
    with ok show ?thesis
      by (auto simp: administered_def CreateUser_def intro: order_trans [OF _ CountAdmins_Create])
  next
    case (profile now i email name)
    with ok show ?thesis by (auto simp: UpdateProfile_def split: sum.splits intro!: administered_edit)
  qed (use ok in \<open>auto simp: UpdateLastLogin_def SetPassword_def SetVault_def ResetVault_def SetTOTPEnabled_def
      admin_SetAdmin_keeps admin_SetDisabled_keeps split: option.splits intro!: administered_edit\<close>)
  with users.step_inv [OF step] ok show "users_ok db' \<and> administered db'" by simp
qed

text \<open>
  C38 (type). However accounts are created, edited, enrolled, reset and disabled, one operation after another:
  every row has a valid address and its canonical copy, has an unlock kind exactly if it has a wrapped key, and
  then has a vault; no two rows share an identifier, an address up to case and blanks, or an external identity; and
  an installation with an enabled administrator always has one.
\<close>

theorem accounts_well_formed:
  assumes "users_step\<^sup>*\<^sup>* [] db"
  shows "(\<forall>u \<in> set db. u_normalized u = NormalizeEmail (u_Email u) \<and> ValidateEmail (u_Email u) = Inr ()
       \<and> (u_UnlockKind u \<noteq> UnlockUnset \<longleftrightarrow> u_WrappedDEK u \<noteq> None) \<and> (HasVault u \<longleftrightarrow> u_WrappedDEK u \<noteq> None))
    \<and> distinct (map u_ID db) \<and> distinct (map u_normalized db)
    \<and> (\<forall>u \<in> set db. \<forall>v \<in> set db. u_SSOProvider u \<noteq> '''' \<and> u_SSOSubject u \<noteq> ''''
         \<and> u_SSOProvider u = u_SSOProvider v \<and> u_SSOSubject u = u_SSOSubject v \<longrightarrow> u = v)
    \<and> (users_step\<^sup>*\<^sup>* db db' \<and> 1 \<le> CountAdmins db \<longrightarrow> 1 \<le> CountAdmins db')"
proof -
  have ok: "users_ok db" by (rule users.run_inv [OF assms]) (simp add: users_ok_def)
  then have "1 \<le> CountAdmins db'" if "users_step\<^sup>*\<^sup>* db db'" "1 \<le> CountAdmins db"
    using administered_users.run_inv [OF that(1)] that(2) by (simp add: administered_def)
  moreover note users_okD [OF ok]
  moreover have "\<forall>u \<in> set db. well_formed u" using ok by (simp add: users_ok_def)
  moreover have "distinct (map u_normalized db)"
  proof -
    have "sorted_wrt (\<lambda>u v. \<not> clashes u v) db \<Longrightarrow> distinct (map u_normalized db)"
      by (induction db) (auto simp: clashes_def)
    with ok show ?thesis by (simp add: users_ok_def)
  qed
  ultimately show ?thesis using users_ok_ids [OF ok]
    by (auto simp: well_formed_def HasVault_def clashes_def)
qed

theorem accounts_well_formed_witness:
  "\<exists>db. users_step\<^sup>*\<^sup>* [] db \<and> 1 \<le> CountAdmins db \<and> (\<forall>u \<in> set db. u_normalized u = NormalizeEmail (u_Email u))"
proof -
  let ?db = "fst (CreateUser (\<lambda>p. Some ''$'') ''u1'' 0 '' Root@Example.org'' ''Root'' ''pw'' True [])"
  have run: "users_step\<^sup>*\<^sup>* [] ?db" by (intro r_into_rtranclp create_user)
  have "CountAdmins ?db = 1" by code_simp
  with run accounts_well_formed [OF run] show ?thesis by (intro exI [of _ ?db]) auto
qed

end
