(* ===== verification/Vault_Service.thy ===== *)
theory Vault_Service
  imports Users Vault_Cache
begin

section \<open>Opening vaults (\<^verbatim>\<open>internal/users/vaultsvc.go\<close>)\<close>

text \<open>
  The service between the accounts, the key wrapping and the cache of unwrapped keys. Its state is
  the users table, the cache and the next unused address of the heap that the cache's keys live
  in; \<open>alloc\<close> is the memory a fresh key takes. The primitives, the master key and the configured
  costs are the record \<open>VaultService\<close>; the random draws of one call are the record \<open>draws\<close>. An
  operation takes the account as its caller read it, as the code does.
\<close>

subsection \<open>Data\<close>

datatype vaultsvc_error =
    ErrVaultLocked
  | ErrVaultNotSetUp
  | ErrVaultAlreadySetUp
  | ErrSSOUnlockMode
  | PassphraseRequired
  | NewPassphraseEmpty
  | ServerManaged
  | VaultFailed vault_error
  | UsersFailed user_error

type_synonym SSOUnlockMode = string

definition SSOUnlockPassphrase :: SSOUnlockMode where "SSOUnlockPassphrase = ''passphrase''"
definition SSOUnlockServerManaged :: SSOUnlockMode where "SSOUnlockServerManaged = ''server_managed''"

definition Validate_mode :: "SSOUnlockMode \<Rightarrow> (vaultsvc_error, unit) result" where
  "Validate_mode m = check (m = SSOUnlockPassphrase \<or> m = SSOUnlockServerManaged) ErrSSOUnlockMode"

definition WeakensSecurity :: "SSOUnlockMode \<Rightarrow> bool" where
  "WeakensSecurity m \<longleftrightarrow> m = SSOUnlockServerManaged"

definition vaultCacheKey :: "string \<Rightarrow> string \<Rightarrow> string" where
  "vaultCacheKey user session = user @ CHR 0x00 # session"

definition vaultCacheKeyIsOwnedBy :: "string \<Rightarrow> string \<Rightarrow> bool" where
  "vaultCacheKeyIsOwnedBy k user \<longleftrightarrow> take (Suc (length user)) k = user @ [CHR 0x00]"

record VaultService =
  svc_argon :: argon2id
  svc_seal :: seal_fn
  svc_unseal :: open_fn
  svc_master :: key
  Argon2Time :: "32 word"
  Argon2MemoryKB :: "32 word"
  Argon2Threads :: byte
  svc_ssoUnlock :: SSOUnlockMode

record draws =
  d_salt :: "byte list option"
  d_dek :: "byte list option"
  d_nonce :: "byte list option"

record vault_state =
  vs_users :: users_table
  vs_cache :: Cache
  vs_next :: addr

definition svc_kdf :: "VaultService \<Rightarrow> byte list option \<Rightarrow> (vault_error, KDFParams) result" where
  "svc_kdf v salt = NewKDFParams salt (Argon2Time v) (Argon2MemoryKB v) (Argon2Threads v)"

definition NewVaultService :: "byte list option \<Rightarrow> VaultService \<Rightarrow> (vaultsvc_error, VaultService) result" where
  "NewVaultService salt v =
     bindr (Validate_mode (svc_ssoUnlock v)) (\<lambda>_.
     case svc_kdf v salt of Inl e \<Rightarrow> Inl (VaultFailed e) | Inr _ \<Rightarrow> Inr v)"

subsection \<open>Operations\<close>

definition RequiresPassphrase :: "VaultService \<Rightarrow> User \<Rightarrow> bool" where
  "RequiresPassphrase v u \<longleftrightarrow> \<not> (IsSSO u \<and> svc_ssoUnlock v = SSOUnlockServerManaged)"

definition kindFor :: "VaultService \<Rightarrow> User \<Rightarrow> UnlockKind" where
  "kindFor v u =
     (if IsSSO u then if svc_ssoUnlock v = SSOUnlockServerManaged then UnlockServer else UnlockSeparate
      else if CanSignInLocally u then UnlockDerived
      else UnlockSeparate)"

text \<open>The memory of a new key, and the end of a key that is not handed to the cache.\<close>

definition alloc :: "key \<Rightarrow> vault_state \<Rightarrow> vault_state \<times> addr" where
  "alloc k st = (st\<lparr>vs_cache := (vs_cache st)\<lparr>heap := (heap (vs_cache st))(vs_next st := k)\<rparr>, vs_next := Suc (vs_next st)\<rparr>, vs_next st)"

definition discard :: "addr \<Rightarrow> vault_state \<Rightarrow> vault_state" where
  "discard a st = st\<lparr>vs_cache := (vs_cache st)\<lparr>heap := zero_at a (heap (vs_cache st))\<rparr>\<rparr>"

definition cache_put :: "int \<Rightarrow> string \<Rightarrow> string \<Rightarrow> addr \<Rightarrow> vault_state \<Rightarrow> vault_state" where
  "cache_put now user session a st = st\<lparr>vs_cache := Put (vs_cache st) now (vaultCacheKey user session) a\<rparr>"

text \<open>Storing a wrapped key and caching the key it wraps, the tail both ways of enrolling share.\<close>

definition store_and_cache ::
  "int \<Rightarrow> User \<Rightarrow> string \<Rightarrow> UnlockKind \<Rightarrow> key \<Rightarrow> WrappedKey \<Rightarrow> vault_state \<Rightarrow> vault_state \<times> (vaultsvc_error, unit) result" where
  "store_and_cache now u session kind dek wk st =
     (case alloc dek st of (st, a) \<Rightarrow>
        (case SetVault now (u_ID u) kind wk (vs_users st) of
           (db, Inl e) \<Rightarrow> (discard a st, Inl (UsersFailed e))
         | (db, Inr _) \<Rightarrow> (cache_put now (u_ID u) session a (st\<lparr>vs_users := db\<rparr>), Inr ())))"

definition enrolServerManaged ::
  "VaultService \<Rightarrow> draws \<Rightarrow> int \<Rightarrow> User \<Rightarrow> string \<Rightarrow> vault_state \<Rightarrow> vault_state \<times> (vaultsvc_error, unit) result" where
  "enrolServerManaged v dr now u session st =
     (case bindr (NewKey (d_dek dr)) (\<lambda>dek.
           bindr (SealKeyUnder (svc_seal v) (d_nonce dr) (svc_master v) (MasterAAD (u_ID u) ''user-dek'') dek) (\<lambda>env.
           bindr (svc_kdf v (d_salt dr)) (\<lambda>params. Inr (dek, \<lparr>KDF = params, wk_Envelope = env\<rparr>)))) of
        Inl e \<Rightarrow> (st, Inl (VaultFailed e))
      | Inr (dek, wk) \<Rightarrow> store_and_cache now u session UnlockServer dek wk st)"

definition Enrol ::
  "VaultService \<Rightarrow> draws \<Rightarrow> int \<Rightarrow> User \<Rightarrow> string \<Rightarrow> string \<Rightarrow> vault_state \<Rightarrow> vault_state \<times> (vaultsvc_error, UnlockKind) result" where
  "Enrol v dr now u session passphrase st =
     (if HasVault u then (st, Inl ErrVaultAlreadySetUp)
      else let kind = kindFor v u in
        if kind = UnlockServer then apsnd (\<lambda>r. bindr r (\<lambda>_. Inr kind)) (enrolServerManaged v dr now u session st)
        else if passphrase = '''' then (st, Inl PassphraseRequired)
        else case bindr (svc_kdf v (d_salt dr)) (\<lambda>params.
                  NewUserKey (svc_argon v) (svc_seal v) (d_dek dr) (d_nonce dr) (u_ID u) (bytes_of passphrase) params) of
               Inl e \<Rightarrow> (st, Inl (VaultFailed e))
             | Inr (dek, wk) \<Rightarrow> apsnd (\<lambda>r. bindr r (\<lambda>_. Inr kind)) (store_and_cache now u session kind dek wk st))"

text \<open>The key \<^verbatim>\<open>Unlock\<close> gets out of the stored record.\<close>

definition unlock_key :: "VaultService \<Rightarrow> User \<Rightarrow> string \<Rightarrow> (vault_error, key) result" where
  "unlock_key v u passphrase =
     (if u_UnlockKind u = UnlockServer
      then OpenKeyFrom (svc_unseal v) (svc_master v) (MasterAAD (u_ID u) ''user-dek'') (wk_Envelope (the (u_WrappedDEK u)))
      else if passphrase = '''' then Inl ErrWrongPassphrase
      else UnwrapUserKey (svc_argon v) (svc_unseal v) (u_ID u) (bytes_of passphrase) (the (u_WrappedDEK u)))"

definition Unlock ::
  "VaultService \<Rightarrow> int \<Rightarrow> User \<Rightarrow> string \<Rightarrow> string \<Rightarrow> vault_state \<Rightarrow> vault_state \<times> (vaultsvc_error, unit) result" where
  "Unlock v now u session passphrase st =
     (if \<not> HasVault u then (st, Inl ErrVaultNotSetUp)
      else case unlock_key v u passphrase of
             Inl e \<Rightarrow> (st, Inl (VaultFailed e))
           | Inr dek \<Rightarrow> (case alloc dek st of (st, a) \<Rightarrow> (cache_put now (u_ID u) session a st, Inr ())))"

definition vault_Key :: "int \<Rightarrow> string \<Rightarrow> string \<Rightarrow> vault_state \<Rightarrow> vault_state \<times> (vaultsvc_error, addr) result" where
  "vault_Key now user session st =
     (case cache_Get (vs_cache st) now (vaultCacheKey user session) of
        (c, Inl _) \<Rightarrow> (st\<lparr>vs_cache := c\<rparr>, Inl ErrVaultLocked)
      | (c, Inr a) \<Rightarrow> (st\<lparr>vs_cache := c\<rparr>, Inr a))"

definition Lock :: "string \<Rightarrow> string \<Rightarrow> vault_state \<Rightarrow> vault_state" where
  "Lock user session st = st\<lparr>vs_cache := cache_Forget (vs_cache st) (vaultCacheKey user session)\<rparr>"

definition LockAllForUser :: "string \<Rightarrow> vault_state \<Rightarrow> vault_state \<times> nat" where
  "LockAllForUser user st =
     (case ForgetFunc (vs_cache st) (\<lambda>k. vaultCacheKeyIsOwnedBy k user) of (c, n) \<Rightarrow> (st\<lparr>vs_cache := c\<rparr>, n))"

text \<open>The rewrapping of \<^verbatim>\<open>ChangePassphrase\<close>, while the old key is held at address \<open>a\<close>.\<close>

definition rewrap ::
  "VaultService \<Rightarrow> draws \<Rightarrow> int \<Rightarrow> User \<Rightarrow> string \<Rightarrow> string \<Rightarrow> key \<Rightarrow> vault_state \<Rightarrow> vault_state \<times> (vaultsvc_error, unit) result" where
  "rewrap v dr now u session new_pass dek st =
     (case bindr (svc_kdf v (d_salt dr)) (\<lambda>params.
           RewrapUserKey (svc_argon v) (svc_seal v) (d_nonce dr) (u_ID u) dek (bytes_of new_pass) params) of
        Inl e \<Rightarrow> (st, Inl (VaultFailed e))
      | Inr wk \<Rightarrow>
          (case SetVault now (u_ID u) (u_UnlockKind u) wk (vs_users st) of
             (db, Inl e) \<Rightarrow> (st, Inl (UsersFailed e))
           | (db, Inr _) \<Rightarrow>
               (let st = st\<lparr>vs_users := db\<rparr> in
                case UnwrapUserKey (svc_argon v) (svc_unseal v) (u_ID u) (bytes_of new_pass) wk of
                  Inl e \<Rightarrow> (st, Inl (VaultFailed e))
                | Inr again \<Rightarrow> (case alloc again st of (st, a) \<Rightarrow> (cache_put now (u_ID u) session a st, Inr ())))))"

definition ChangePassphrase ::
  "VaultService \<Rightarrow> draws \<Rightarrow> int \<Rightarrow> User \<Rightarrow> string \<Rightarrow> string \<Rightarrow> string \<Rightarrow> vault_state \<Rightarrow> vault_state \<times> (vaultsvc_error, unit) result" where
  "ChangePassphrase v dr now u session current new_pass st =
     (if \<not> HasVault u then (st, Inl ErrVaultNotSetUp)
      else if new_pass = '''' then (st, Inl NewPassphraseEmpty)
      else if u_UnlockKind u = UnlockServer then (st, Inl ServerManaged)
      else case UnwrapUserKey (svc_argon v) (svc_unseal v) (u_ID u) (bytes_of current) (the (u_WrappedDEK u)) of
             Inl e \<Rightarrow> (st, Inl (VaultFailed e))
           | Inr dek \<Rightarrow> (case alloc dek st of (st, a) \<Rightarrow> apfst (discard a) (rewrap v dr now u session new_pass dek st)))"

definition Reset :: "int \<Rightarrow> User \<Rightarrow> vault_state \<Rightarrow> vault_state" where
  "Reset now u st = fst (LockAllForUser (u_ID u) (st\<lparr>vs_users := ResetVault now (u_ID u) (vs_users st)\<rparr>))"

subsection \<open>Whose key is in the cache\<close>

lemma owned_iff:
  assumes "CHR 0x00 \<notin> set user" and "CHR 0x00 \<notin> set user'"
  shows "vaultCacheKeyIsOwnedBy (vaultCacheKey user' session) user \<longleftrightarrow> user' = user"
proof
  assume "vaultCacheKeyIsOwnedBy (vaultCacheKey user' session) user"
  then have t: "take (Suc (length user)) (user' @ CHR 0x00 # session) = user @ [CHR 0x00]"
    by (simp add: vaultCacheKeyIsOwnedBy_def vaultCacheKey_def)
  then have "user' @ CHR 0x00 # session = (user @ [CHR 0x00]) @ drop (Suc (length user)) (user' @ CHR 0x00 # session)"
    by (metis append_take_drop_id)
  then have "takeWhile (\<lambda>c. c \<noteq> CHR 0x00) (user' @ CHR 0x00 # session)
      = takeWhile (\<lambda>c. c \<noteq> CHR 0x00) (user @ CHR 0x00 # drop (Suc (length user)) (user' @ CHR 0x00 # session))"
    by simp
  with assms show "user' = user" by (simp add: takeWhile_append takeWhile_eq_all_conv split: if_splits)
qed (simp add: vaultCacheKeyIsOwnedBy_def vaultCacheKey_def)

lemma vaultCacheKey_inj:
  assumes "CHR 0x00 \<notin> set user" and "CHR 0x00 \<notin> set user'" and "vaultCacheKey user session = vaultCacheKey user' session'"
  shows "user = user' \<and> session = session'"
proof -
  have "user = user'"
    using owned_iff [OF assms(2,1), of session] owned_iff [OF assms(2,2), of session'] assms(3) by simp
  with assms(3) show ?thesis by (simp add: vaultCacheKey_def)
qed

lemma UnwrapUserKey_Inr_iff:
  "UnwrapUserKey argon unseal i p wk = Inr d \<longleftrightarrow>
     (\<exists>kek. DeriveKEK argon p (KDF wk) = Inr kek \<and> Open unseal kek (wrapAAD i) (wk_Envelope wk) = Inr d \<and> length d = KeyLen)"
proof -
  have "(case r of Inl _ \<Rightarrow> Inl ErrWrongPassphrase | Inr dek \<Rightarrow> if length dek \<noteq> KeyLen then Inl ErrWrongPassphrase else Inr dek) = Inr d
      \<longleftrightarrow> r = Inr d \<and> length d = KeyLen" for r :: "(vault_error, key) result"
    by (cases r) auto
  then show ?thesis by (simp add: UnwrapUserKey_def bindr_Inr_iff)
qed

text \<open>
  The AEAD authenticates: what was sealed under one key opens under no other. Under it a stored
  record has one content, whatever passphrase opens it.
\<close>

definition authentic :: "seal_fn \<Rightarrow> open_fn \<Rightarrow> bool" where
  "authentic seal unseal \<longleftrightarrow> (\<forall>k k' n a p q. unseal k' n a (seal k n a p) = Some q \<longrightarrow> k' = k)"

definition opens_as :: "VaultService \<Rightarrow> string \<Rightarrow> UnlockKind \<Rightarrow> WrappedKey \<Rightarrow> string \<Rightarrow> key \<Rightarrow> bool" where
  "opens_as v i kind wk p d \<longleftrightarrow>
     (if kind = UnlockServer then OpenKeyFrom (svc_unseal v) (svc_master v) (MasterAAD i ''user-dek'') (wk_Envelope wk) = Inr d
      else p \<noteq> '''' \<and> UnwrapUserKey (svc_argon v) (svc_unseal v) i (bytes_of p) wk = Inr d
        \<and> (\<forall>p' d'. UnwrapUserKey (svc_argon v) (svc_unseal v) i p' wk = Inr d' \<longrightarrow> d' = d))"

lemma Open_unseals:
  assumes "Open f k a env = Inr p"
  shows "f k (Nonce env) (the (aad_bytes a)) (Ciphertext env) = Some p"
  using assms by (cases "f k (Nonce env) (the (aad_bytes a)) (Ciphertext env)")
    (auto simp: Open_def bindr_Inr_iff split: if_split_asm)

lemma Seal_env: "Seal f (Some n) k a p = Inr env \<Longrightarrow> Nonce env = n \<and> Ciphertext env = f k n (the (aad_bytes a)) p"
  by (auto simp: Seal_def bindr_Inr_iff)

lemma sealed_opens_as:
  assumes "aead (svc_seal v) (svc_unseal v)" "authentic (svc_seal v) (svc_unseal v)"
    and kek: "DeriveKEK (svc_argon v) (bytes_of p) (KDF wk) = Inr kek"
    and seal: "Seal (svc_seal v) (Some n) kek (wrapAAD i) d = Inr (wk_Envelope wk)"
    and "length n = NonceSize" "length d = KeyLen" "p \<noteq> ''''" "kind \<noteq> UnlockServer"
  shows "opens_as v i kind wk p d"
proof -
  have uniq: "d' = d" if "UnwrapUserKey (svc_argon v) (svc_unseal v) i p' wk = Inr d'" for p' d'
  proof -
    from that obtain kek' where op: "Open (svc_unseal v) kek' (wrapAAD i) (wk_Envelope wk) = Inr d'"
      by (auto simp: UnwrapUserKey_Inr_iff)
    have u: "svc_unseal v kek' n (the (aad_bytes (wrapAAD i))) (svc_seal v kek n (the (aad_bytes (wrapAAD i))) d) = Some d'"
      using Open_unseals [OF op] by (simp only: Seal_env [OF seal])
    with assms(2) have "kek' = kek" unfolding authentic_def by blast
    with u assms(1) show ?thesis unfolding aead_def by (metis option.inject)
  qed
  have "UnwrapUserKey (svc_argon v) (svc_unseal v) i (bytes_of p) wk = Inr d"
    using UnwrapUserKey_sealed [OF assms(1) kek seal assms(5,6), of i] by simp
  with assms(7) show ?thesis
    unfolding opens_as_def if_not_P [OF assms(8)] by (intro conjI allI impI) (assumption | erule uniq)+
qed

lemma opens_as_unlock:
  assumes "opens_as v (u_ID u) (u_UnlockKind u) wk p d" and "u_WrappedDEK u = Some wk" "HasVault u"
  shows "Unlock v now u session p st = (case alloc d st of (st, a) \<Rightarrow> (cache_put now (u_ID u) session a st, Inr ()))"
  using assms by (auto simp: Unlock_def unlock_key_def opens_as_def)

lemma opens_as_unique:
  assumes "opens_as v (u_ID u) (u_UnlockKind u) wk p d" and "u_WrappedDEK u = Some wk" and "unlock_key v u p' = Inr d'"
  shows "d' = d"
proof (cases "u_UnlockKind u = UnlockServer")
  case True
  with assms show ?thesis by (simp add: opens_as_def unlock_key_def)
next
  case False
  with assms(2,3) have "UnwrapUserKey (svc_argon v) (svc_unseal v) (u_ID u) (bytes_of p') wk = Inr d'"
    by (simp add: unlock_key_def split: if_split_asm)
  moreover from False assms(1) have "\<forall>p' d'. UnwrapUserKey (svc_argon v) (svc_unseal v) (u_ID u) p' wk = Inr d' \<longrightarrow> d' = d"
    unfolding opens_as_def by presburger
  ultimately show ?thesis by blast
qed

text \<open>What every way to an unlocked vault caches.\<close>

lemma Unlock_ok:
  assumes "opens_as v (u_ID u) (u_UnlockKind u) wk p d" and "u_WrappedDEK u = Some wk" "snd (Unlock v now u session p' st) = Inr x"
  shows "fst (Unlock v now u session p' st) = (case alloc d st of (st, a) \<Rightarrow> cache_put now (u_ID u) session a st)"
proof (cases "unlock_key v u p'")
  case (Inl e)
  with assms(3) show ?thesis by (simp add: Unlock_def split: if_split_asm)
next
  case (Inr d')
  then have "d' = d" by (rule opens_as_unique [OF assms(1,2)])
  with Inr assms(3) show ?thesis by (simp add: Unlock_def case_prod_beta split: if_split_asm)
qed

text \<open>
  The promise of the service: each user has at most one passphrase and key; and the keys that an
  administrator's reset left in the cache. The steps of the server on the left are labelled with
  what they do to these on the right. An operation acts on the account as it stands in the table:
  requests follow one another. \<open>reset\<close> is the method of the service, which locks the user out of
  every session and which nothing calls; \<open>admin_reset\<close> is what administrators run, on the
  accounts alone, as another process with no access to the cache. Identifiers of users are UUIDs and
  contain no NUL; random draws have the length asked for.
\<close>

type_synonym promise = "string \<rightharpoonup> string \<times> key"
type_synonym remnants = "string \<Rightarrow> key set"

definition vault_of :: "users_table \<Rightarrow> string \<Rightarrow> (UnlockKind \<times> WrappedKey) option" where
  "vault_of db i =
     (case find (\<lambda>u. u_ID u = i) db of
        Some u \<Rightarrow> (if HasVault u then Some (u_UnlockKind u, the (u_WrappedDEK u)) else None)
      | None \<Rightarrow> None)"

definition nul_free :: "users_table \<Rightarrow> bool" where
  "nul_free db \<longleftrightarrow> (\<forall>u \<in> set db. CHR 0x00 \<notin> set (u_ID u))"

definition draws_ok :: "draws \<Rightarrow> bool" where
  "draws_ok dr \<longleftrightarrow> (\<forall>k. d_dek dr = Some k \<longrightarrow> length k = KeyLen) \<and> (\<forall>n. d_nonce dr = Some n \<longrightarrow> length n = NonceSize)"

inductive vault_step ::
  "VaultService \<Rightarrow> vault_state \<times> promise \<times> remnants \<Rightarrow> vault_state \<times> promise \<times> remnants \<Rightarrow> bool" for v where
  account: "users_step (vs_users st) db \<Longrightarrow> vault_of db = vault_of (vs_users st) \<Longrightarrow> nul_free db
     \<Longrightarrow> vault_step v (st, sp, old) (st\<lparr>vs_users := db\<rparr>, sp, old)"
| enrol: "u \<in> set (vs_users st) \<Longrightarrow> draws_ok dr \<Longrightarrow> Enrol v dr now u s p st = (st', r)
     \<Longrightarrow> vault_step v (st, sp, old) (st', if is_ok r then sp(u_ID u \<mapsto> (p, the (d_dek dr))) else sp, old)"
| unlock: "u \<in> set (vs_users st) \<Longrightarrow> vault_step v (st, sp, old) (fst (Unlock v now u s p st), sp, old)"
| key: "vault_step v (st, sp, old) (fst (vault_Key now i s st), sp, old)"
| lock: "vault_step v (st, sp, old) (Lock i s st, sp, old)"
| lock_all: "u \<in> set (vs_users st) \<Longrightarrow> vault_step v (st, sp, old) (fst (LockAllForUser (u_ID u) st), sp, old(u_ID u := {}))"
| change: "u \<in> set (vs_users st) \<Longrightarrow> draws_ok dr \<Longrightarrow> ChangePassphrase v dr now u s p q st = (st', r)
     \<Longrightarrow> vault_step v (st, sp, old) (st', if is_ok r then sp(u_ID u \<mapsto> (q, snd (the (sp (u_ID u))))) else sp, old)"
| reset: "u \<in> set (vs_users st) \<Longrightarrow> vault_step v (st, sp, old) (Reset now u st, sp(u_ID u := None), old(u_ID u := {}))"
| admin_reset: "u \<in> set (vs_users st) \<Longrightarrow> vault_step v (st, sp, old)
     (st\<lparr>vs_users := fst (admin_ResetVault now u (vs_users st, sessions))\<rparr>, sp(u_ID u := None),
      old(u_ID u := old (u_ID u) \<union> snd ` set_option (sp (u_ID u))))"
| evict: "vault_step v (st, sp, old) (st\<lparr>vs_cache := fst (EvictExpired (vs_cache st) now)\<rparr>, sp, old)"

text \<open>Every cached key is one of its user's; the addresses in \<open>F\<close> are not the cache's.\<close>

definition keys_of :: "promise \<Rightarrow> remnants \<Rightarrow> string \<Rightarrow> key \<Rightarrow> bool" where
  "keys_of sp old i d \<longleftrightarrow> (\<exists>p. sp i = Some (p, d)) \<or> d \<in> old i"

definition cached_ok :: "addr set \<Rightarrow> (string \<Rightarrow> key \<Rightarrow> bool) \<Rightarrow> Cache \<Rightarrow> bool" where
  "cached_ok F K c \<longleftrightarrow> (\<exists>given. cache_ok \<lparr>cache = c, given = given\<rparr> \<and> (\<forall>a \<in> F. given a = None)
     \<and> (\<forall>(k, e) \<in> set (entries c). \<exists>i s d. CHR 0x00 \<notin> set i \<and> k = vaultCacheKey i s \<and> K i d
          \<and> given (e_key e) = Some d))"

lemma cached_okI:
  assumes "cache_ok \<lparr>cache = c, given = g\<rparr>" and "\<And>a. a \<in> F \<Longrightarrow> g a = None"
    and "\<And>k e. (k, e) \<in> set (entries c) \<Longrightarrow>
      \<exists>i s d. CHR 0x00 \<notin> set i \<and> k = vaultCacheKey i s \<and> K i d \<and> g (e_key e) = Some d"
  shows "cached_ok F K c"
  unfolding cached_ok_def using assms by (intro exI [of _ g]) blast

lemma cached_okE:
  assumes "cached_ok F K c"
  obtains g where "cache_ok \<lparr>cache = c, given = g\<rparr>" and "\<And>a. a \<in> F \<Longrightarrow> g a = None"
    and "\<And>k e. (k, e) \<in> set (entries c) \<Longrightarrow>
      \<exists>i s d. CHR 0x00 \<notin> set i \<and> k = vaultCacheKey i s \<and> K i d \<and> g (e_key e) = Some d"
  using assms unfolding cached_ok_def by blast

lemma cached_weaken:
  assumes "cached_ok F K c" and "G \<subseteq> F" and "\<And>i d. K i d \<Longrightarrow> K' i d"
  shows "cached_ok G K' c"
  using assms(1)
proof (rule cached_okE)
  fix g
  assume g: "cache_ok \<lparr>cache = c, given = g\<rparr>" "\<And>a. a \<in> F \<Longrightarrow> g a = None"
    "\<And>k e. (k, e) \<in> set (entries c) \<Longrightarrow>
      \<exists>i s d. CHR 0x00 \<notin> set i \<and> k = vaultCacheKey i s \<and> K i d \<and> g (e_key e) = Some d"
  then show ?thesis
  proof (intro cached_okI [OF g(1)])
    fix k e
    assume "(k, e) \<in> set (entries c)"
    from g(3) [OF this] obtain i s d where "CHR 0x00 \<notin> set i" "k = vaultCacheKey i s" "K i d" "g (e_key e) = Some d"
      by blast
    moreover from this(3) have "K' i d" using assms(3) by blast
    ultimately show "\<exists>i s d. CHR 0x00 \<notin> set i \<and> k = vaultCacheKey i s \<and> K' i d \<and> g (e_key e) = Some d"
      by blast
  qed (use assms(2) in blast)
qed

lemma cached_heap:
  assumes "cached_ok F K c" and "a \<in> F"
  shows "cached_ok F K (c\<lparr>heap := (heap c)(a := x)\<rparr>)"
  using assms(1)
proof (rule cached_okE)
  fix g
  assume g: "cache_ok \<lparr>cache = c, given = g\<rparr>" "\<And>a. a \<in> F \<Longrightarrow> g a = None"
    "\<And>k e. (k, e) \<in> set (entries c) \<Longrightarrow>
      \<exists>i s d. CHR 0x00 \<notin> set i \<and> k = vaultCacheKey i s \<and> K i d \<and> g (e_key e) = Some d"
  have "cache_ok \<lparr>cache = c\<lparr>heap := (heap c)(a := x)\<rparr>, given = g\<rparr>"
    using g(1) g(2) [OF assms(2)] by (auto simp: cache_ok_def)
  then show ?thesis by (rule cached_okI) (use g(2,3) in simp_all)
qed

lemma cached_put:
  assumes "cached_ok F K c" and "a \<in> F" and "K i d" "CHR 0x00 \<notin> set i" "heap c a = d"
  shows "cached_ok (F - {a}) K (Put c now (vaultCacheKey i s) a)"
  using assms(1)
proof (rule cached_okE)
  fix g
  assume g: "cache_ok \<lparr>cache = c, given = g\<rparr>" "\<And>a. a \<in> F \<Longrightarrow> g a = None"
    "\<And>k e. (k, e) \<in> set (entries c) \<Longrightarrow>
      \<exists>i s d. CHR 0x00 \<notin> set i \<and> k = vaultCacheKey i s \<and> K i d \<and> g (e_key e) = Some d"
  have "c\<lparr>heap := (heap c)(a := d)\<rparr> = c" using assms(5) by (cases c) (simp add: fun_upd_idem)
  then have ok: "cache_ok \<lparr>cache = Put c now (vaultCacheKey i s) a, given = g(a \<mapsto> d)\<rparr>"
    using put_ok [OF g(1), of a d now "vaultCacheKey i s"] g(2) [OF assms(2)] by simp
  have old: "e_key e \<noteq> a" if "(k, e) \<in> set (entries c)" for k e
    using g(3) [OF that] g(2) [OF assms(2)] by auto
  have "set (entries (Put c now (vaultCacheKey i s) a))
      \<subseteq> insert (vaultCacheKey i s, \<lparr>e_key = a, expiresAt = now + ttl c\<rparr>) (set (entries c))"
    by (auto simp: Put_def without_def)
  note rows = this
  show ?thesis using ok
  proof (rule cached_okI)
    fix k e
    assume "(k, e) \<in> set (entries (Put c now (vaultCacheKey i s) a))"
    with rows consider "k = vaultCacheKey i s" "e_key e = a" | "(k, e) \<in> set (entries c)" by auto
    then show "\<exists>i s da. CHR 0x00 \<notin> set i \<and> k = vaultCacheKey i s \<and> K i da \<and> (g(a \<mapsto> d)) (e_key e) = Some da"
    proof cases
      case 1
      with assms(3,4) show ?thesis by auto
    next
      case 2
      with g(3) [OF 2] old [OF 2] show ?thesis by simp
    qed
  qed (use g(2) in simp)
qed

lemma cached_sweep:
  assumes "cached_ok F K c"
    and "\<And>i s d. CHR 0x00 \<notin> set i \<Longrightarrow> K i d \<Longrightarrow> (\<exists>e. \<not> P (vaultCacheKey i s, e)) \<Longrightarrow> K' i d"
  shows "cached_ok F K' (fst (sweep_entries P c))"
  using assms(1)
proof (rule cached_okE)
  fix g
  assume g: "cache_ok \<lparr>cache = c, given = g\<rparr>" "\<And>a. a \<in> F \<Longrightarrow> g a = None"
    "\<And>k e. (k, e) \<in> set (entries c) \<Longrightarrow>
      \<exists>i s d. CHR 0x00 \<notin> set i \<and> k = vaultCacheKey i s \<and> K i d \<and> g (e_key e) = Some d"
  have "cache_ok \<lparr>cache = fst (sweep_entries P c), given = g\<rparr>" using sweep_ok [OF g(1), of P] by simp
  then show ?thesis
  proof (rule cached_okI)
    fix k e
    assume "(k, e) \<in> set (entries (fst (sweep_entries P c)))"
    then have e: "(k, e) \<in> set (entries c)" "\<not> P (k, e)" by (auto simp: sweep_entries_def)
    from g(3) [OF e(1)] obtain i s d where i: "CHR 0x00 \<notin> set i" "k = vaultCacheKey i s" "K i d" "g (e_key e) = Some d"
      by blast
    with assms(2) [OF i(1,3)] e(2) have "K' i d" by blast
    with i show "\<exists>i s d. CHR 0x00 \<notin> set i \<and> k = vaultCacheKey i s \<and> K' i d \<and> g (e_key e) = Some d"
      by blast
  qed (use g(2) in simp)
qed

lemma cached_distinct: "cached_ok F K c \<Longrightarrow> distinct (map fst (entries c))"
  by (auto simp: cached_ok_def cache_ok_def)

lemma cached_forget: "cached_ok F K c \<Longrightarrow> cached_ok F K (cache_Forget c k)"
  using cached_sweep [of F K c "\<lambda>x. fst x = k" K] by (simp add: forget_is_sweep cached_distinct)

lemma cached_get:
  assumes "cached_ok F K c"
  shows "cached_ok F K (fst (cache_Get c now k))"
  using assms
proof (rule cached_okE)
  fix g
  assume g: "cache_ok \<lparr>cache = c, given = g\<rparr>" "\<And>a. a \<in> F \<Longrightarrow> g a = None"
    "\<And>k e. (k, e) \<in> set (entries c) \<Longrightarrow>
      \<exists>i s d. CHR 0x00 \<notin> set i \<and> k = vaultCacheKey i s \<and> K i d \<and> g (e_key e) = Some d"
  have "cache_ok \<lparr>cache = fst (cache_Get c now k), given = g\<rparr>" using get_ok [OF g(1), of now k] by simp
  moreover have "\<exists>e'. (k', e') \<in> set (entries c) \<and> e_key e' = e_key e" if "(k', e) \<in> set (entries (fst (cache_Get c now k)))" for k' e
    using that by (auto simp: cache_Get_def without_def dest!: map_of_SomeD split: option.splits if_splits)
  ultimately show ?thesis using g(2,3) by (intro cached_okI) (assumption, simp, metis)
qed

lemma find_edit:
  assumes "\<And>u. u_ID (f u) = u_ID u"
  shows "find (\<lambda>u. u_ID u = i) (edit_user j f db) = map_option (\<lambda>u. if i = j then f u else u) (find (\<lambda>u. u_ID u = i) db)"
  using assms by (induction db) (auto simp: edit_user_def)

lemma find_row:
  assumes "users_ok db" and "u \<in> set db"
  shows "find (\<lambda>x. u_ID x = u_ID u) db = Some u"
proof -
  have "distinct (map u_ID db) \<Longrightarrow> ?thesis" using assms(2) by (induction db) auto
  then show ?thesis using users_ok_ids [OF assms(1)] .
qed

lemma vault_of_row:
  assumes "users_ok db" and "u \<in> set db"
  shows "vault_of db (u_ID u) = (if HasVault u then Some (u_UnlockKind u, the (u_WrappedDEK u)) else None)"
  using find_row [OF assms] by (simp add: vault_of_def)

lemma vault_of_SetVault:
  assumes "users_ok db" and "u \<in> set db" and "kind \<noteq> UnlockUnset"
  shows "vault_of (fst (SetVault now (u_ID u) kind wk db)) = (vault_of db)(u_ID u \<mapsto> (kind, wk))"
  using find_row [OF assms(1,2)] assms(3)
  by (auto simp: vault_of_def SetVault_def find_edit HasVault_def fun_eq_iff split: option.split)

lemma vault_of_ResetVault: "vault_of (ResetVault now i db) = (vault_of db)(i := None)"
  by (auto simp: vault_of_def ResetVault_def find_edit HasVault_def fun_eq_iff split: option.split)

lemma SetVault_snd: "kind \<noteq> UnlockUnset \<Longrightarrow> snd (SetVault now i kind wk db) = Inr ()"
  by (simp add: SetVault_def)

lemma nul_free_edit: "(\<And>u. u_ID (f u) = u_ID u) \<Longrightarrow> nul_free db \<Longrightarrow> nul_free (edit_user i f db)"
  by (auto simp: nul_free_def edit_user_def)

lemma nul_free_SetVault: "nul_free db \<Longrightarrow> nul_free (fst (SetVault now i kind wk db))"
  by (simp add: SetVault_def nul_free_edit)

text \<open>The table agrees with the promise.\<close>

definition stored_ok :: "VaultService \<Rightarrow> promise \<Rightarrow> users_table \<Rightarrow> bool" where
  "stored_ok v sp db \<longleftrightarrow> users_ok db \<and> nul_free db
     \<and> (\<forall>i. vault_of db i = None \<longrightarrow> sp i = None)
     \<and> (\<forall>i kind wk. vault_of db i = Some (kind, wk) \<longrightarrow> (\<exists>p d. sp i = Some (p, d) \<and> opens_as v i kind wk p d))"

definition vault_inv :: "VaultService \<Rightarrow> int \<Rightarrow> vault_state \<times> promise \<times> remnants \<Rightarrow> bool" where
  "vault_inv v t s \<longleftrightarrow> (case s of (st, sp, old) \<Rightarrow> stored_ok v sp (vs_users st) \<and> ttl (vs_cache st) = t
     \<and> cached_ok {vs_next st..} (keys_of sp old) (vs_cache st))"

lemma stored_set:
  assumes "stored_ok v sp db" and "u \<in> set db" and "kind \<noteq> UnlockUnset" and "opens_as v (u_ID u) kind wk p d"
  shows "stored_ok v (sp(u_ID u \<mapsto> (p, d))) (fst (SetVault now (u_ID u) kind wk db))"
proof -
  have ok: "users_ok db" and nul: "nul_free db" using assms(1) by (simp_all add: stored_ok_def)
  note vo = vault_of_SetVault [OF ok assms(2,3), of now wk]
  have "users_ok (fst (SetVault now (u_ID u) kind wk db))" using users.step_inv [OF users_step.set_vault ok] .
  then show ?thesis
    unfolding stored_ok_def vo using assms(1,4) nul_free_SetVault [OF nul] by (simp add: stored_ok_def)
qed

lemma stored_reset:
  assumes "stored_ok v sp db"
  shows "stored_ok v (sp(i := None)) (ResetVault now i db)"
proof -
  have ok: "users_ok db" and nul: "nul_free db" using assms(1) by (simp_all add: stored_ok_def)
  have "users_ok (ResetVault now i db)" using users.step_inv [OF users_step.reset_vault ok] .
  moreover have "nul_free (ResetVault now i db)" using nul by (simp add: ResetVault_def nul_free_edit)
  ultimately show ?thesis unfolding stored_ok_def vault_of_ResetVault using assms(1) by (simp add: stored_ok_def)
qed

lemma stored_vault:
  assumes "stored_ok v sp db" and "u \<in> set db"
  shows "\<not> HasVault u \<Longrightarrow> sp (u_ID u) = None"
    and "HasVault u \<Longrightarrow> \<exists>p d wk. u_WrappedDEK u = Some wk \<and> sp (u_ID u) = Some (p, d) \<and> opens_as v (u_ID u) (u_UnlockKind u) wk p d"
proof -
  have ok: "users_ok db" using assms(1) by (simp add: stored_ok_def)
  note vo = vault_of_row [OF ok assms(2)]
  show "sp (u_ID u) = None" if "\<not> HasVault u" using that vo assms(1) by (simp add: stored_ok_def)
  assume has: "HasVault u"
  then obtain wk where wk: "u_WrappedDEK u = Some wk" by (auto simp: HasVault_def)
  with vo has have "vault_of db (u_ID u) = Some (u_UnlockKind u, wk)" by simp
  with assms(1) wk show "\<exists>p d wk. u_WrappedDEK u = Some wk \<and> sp (u_ID u) = Some (p, d) \<and> opens_as v (u_ID u) (u_UnlockKind u) wk p d"
    by (auto simp: stored_ok_def)
qed

definition cache_key :: "int \<Rightarrow> string \<Rightarrow> string \<Rightarrow> key \<Rightarrow> vault_state \<Rightarrow> vault_state" where
  "cache_key now i s d st = (case alloc d st of (st, a) \<Rightarrow> cache_put now i s a st)"

lemma cache_key_users [simp]: "vs_users (cache_key now i s d st) = vs_users st"
  by (simp add: cache_key_def alloc_def cache_put_def)

lemma cached_key:
  assumes "cached_ok F K (vs_cache st)" and "vs_next st \<in> F" and "K i d" "CHR 0x00 \<notin> set i"
  shows "cached_ok (F - {vs_next st}) K (vs_cache (cache_key now i s d st))"
  using cached_put [OF cached_heap [OF assms(1,2), of d] assms(2-4)]
  by (simp add: cache_key_def alloc_def cache_put_def)

lemma cache_key_ttl [simp]: "ttl (vs_cache (cache_key now i s d st)) = ttl (vs_cache st)"
  "vs_next (cache_key now i s d st) = Suc (vs_next st)"
  by (simp_all add: cache_key_def alloc_def cache_put_def Put_def)

lemma inv_cache_key:
  assumes "vault_inv v t (st, sp, old)" and "sp i = Some (p, d)" "CHR 0x00 \<notin> set i"
  shows "vault_inv v t (cache_key now i s d st, sp, old)"
proof -
  have "cached_ok ({vs_next st..} - {vs_next st}) (keys_of sp old) (vs_cache (cache_key now i s d st))"
    using assms by (intro cached_key) (auto simp: vault_inv_def keys_of_def)
  then have "cached_ok {Suc (vs_next st)..} (keys_of sp old) (vs_cache (cache_key now i s d st))"
    by (rule cached_weaken) auto
  with assms(1) show ?thesis by (simp add: vault_inv_def)
qed

text \<open>A new wrapping of the promised key, or of the first one.\<close>

lemma inv_stored:
  assumes "vault_inv v t (st, sp, old)" and "u \<in> set (vs_users st)" and "kind \<noteq> UnlockUnset"
    and "opens_as v (u_ID u) kind wk p d" and "sp (u_ID u) = None \<or> (\<exists>q. sp (u_ID u) = Some (q, d))"
  shows "vault_inv v t (st\<lparr>vs_users := fst (SetVault now (u_ID u) kind wk (vs_users st))\<rparr>, sp(u_ID u \<mapsto> (p, d)), old)"
proof -
  have "stored_ok v (sp(u_ID u \<mapsto> (p, d))) (fst (SetVault now (u_ID u) kind wk (vs_users st)))"
    using assms(1-4) by (intro stored_set) (simp_all add: vault_inv_def)
  moreover have "cached_ok {vs_next st..} (keys_of (sp(u_ID u \<mapsto> (p, d))) old) (vs_cache st)"
  proof (rule cached_weaken)
    show "cached_ok {vs_next st..} (keys_of sp old) (vs_cache st)" using assms(1) by (simp add: vault_inv_def)
  qed (use assms(5) in \<open>auto simp: keys_of_def\<close>)
  ultimately show ?thesis using assms(1) by (simp add: vault_inv_def)
qed

lemma inv_nul: "vault_inv v t (st, sp, old) \<Longrightarrow> u \<in> set (vs_users st) \<Longrightarrow> CHR 0x00 \<notin> set (u_ID u)"
  by (simp add: vault_inv_def stored_ok_def nul_free_def)

lemma store_and_cache_ok:
  assumes "kind \<noteq> UnlockUnset"
  shows "store_and_cache now u s kind d wk st
    = (cache_key now (u_ID u) s d (st\<lparr>vs_users := fst (SetVault now (u_ID u) kind wk (vs_users st))\<rparr>), Inr ())"
  using assms by (simp add: store_and_cache_def SetVault_def alloc_def cache_put_def cache_key_def)

lemma inv_store_and_cache:
  assumes "vault_inv v t (st, sp, old)" and "u \<in> set (vs_users st)" and "kind \<noteq> UnlockUnset"
    and "opens_as v (u_ID u) kind wk p d" and "sp (u_ID u) = None"
  shows "vault_inv v t (fst (store_and_cache now u s kind d wk st), sp(u_ID u \<mapsto> (p, d)), old)"
  using inv_cache_key [OF inv_stored [OF assms(1-4) disjI1 [OF assms(5)]], of "u_ID u"] inv_nul [OF assms(1,2)]
  by (simp add: store_and_cache_ok [OF assms(3)])

lemma kindFor_set [simp]: "kindFor v u \<noteq> UnlockUnset"
  by (simp add: kindFor_def)

lemma NewUserKey_opens:
  assumes "aead (svc_seal v) (svc_unseal v)" "authentic (svc_seal v) (svc_unseal v)" and "draws_ok dr"
    and "NewUserKey (svc_argon v) (svc_seal v) (d_dek dr) (d_nonce dr) i (bytes_of p) params = Inr (d, wk)"
    and "p \<noteq> ''''" "kind \<noteq> UnlockServer"
  shows "d_dek dr = Some d \<and> opens_as v i kind wk p d"
proof -
  from assms(4) obtain kek where kek: "DeriveKEK (svc_argon v) (bytes_of p) (KDF wk) = Inr kek"
    and seal: "Seal (svc_seal v) (d_nonce dr) kek (wrapAAD i) d = Inr (wk_Envelope wk)" and d: "NewKey (d_dek dr) = Inr d"
    by (auto simp: NewUserKey_def bindr_Inr_iff)
  obtain n where n: "d_nonce dr = Some n" using seal by (cases "d_nonce dr") (auto simp: Seal_def bindr_Inr_iff)
  have dek: "d_dek dr = Some d" using d by (simp add: NewKey_def split: option.split_asm)
  have "opens_as v i kind wk p d"
    using assms(3) dek n seal by (intro sealed_opens_as [OF assms(1,2) kek _ _ _ assms(5,6), of n]) (simp_all add: draws_ok_def)
  with dek show ?thesis by simp
qed

lemma Rewrap_opens:
  assumes "aead (svc_seal v) (svc_unseal v)" "authentic (svc_seal v) (svc_unseal v)" and "draws_ok dr"
    and "RewrapUserKey (svc_argon v) (svc_seal v) (d_nonce dr) i d (bytes_of p) params = Inr wk"
    and "p \<noteq> ''''" "kind \<noteq> UnlockServer"
  shows "opens_as v i kind wk p d"
proof -
  from assms(4) obtain kek where kek: "DeriveKEK (svc_argon v) (bytes_of p) (KDF wk) = Inr kek"
    and seal: "Seal (svc_seal v) (d_nonce dr) kek (wrapAAD i) d = Inr (wk_Envelope wk)" and len: "length d = KeyLen"
    by (auto simp: RewrapUserKey_def bindr_Inr_iff validate_def split: if_splits)
  obtain n where n: "d_nonce dr = Some n" using seal by (cases "d_nonce dr") (auto simp: Seal_def bindr_Inr_iff)
  show ?thesis
    using assms(3) n seal len by (intro sealed_opens_as [OF assms(1,2) kek _ _ _ assms(5,6), of n]) (simp_all add: draws_ok_def)
qed

lemma SealKeyUnder_opens:
  assumes "aead (svc_seal v) (svc_unseal v)" and "draws_ok dr"
    and "SealKeyUnder (svc_seal v) (d_nonce dr) (svc_master v) (MasterAAD i ''user-dek'') d = Inr (wk_Envelope wk)"
  shows "opens_as v i UnlockServer wk p d"
proof -
  from assms(3) have seal: "Seal (svc_seal v) (d_nonce dr) (svc_master v) (MasterAAD i ''user-dek'') d = Inr (wk_Envelope wk)"
    and d: "validate d = Inr ()" by (simp_all add: SealKeyUnder_def bindr_Inr_iff)
  obtain n where n: "d_nonce dr = Some n" using seal by (cases "d_nonce dr") (auto simp: Seal_def bindr_Inr_iff)
  with assms(2) have "length n = NonceSize" by (simp add: draws_ok_def)
  from Open_sealed [OF assms(1) seal [unfolded n] this] d show ?thesis
    by (simp add: opens_as_def OpenKeyFrom_def)
qed

lemma Enrol_inv:
  assumes "aead (svc_seal v) (svc_unseal v)" "authentic (svc_seal v) (svc_unseal v)"
    and inv: "vault_inv v t (st, sp, old)" and u: "u \<in> set (vs_users st)" and "draws_ok dr" and "Enrol v dr now u s p st = (st', r)"
  shows "vault_inv v t (st', if is_ok r then sp(u_ID u \<mapsto> (p, the (d_dek dr))) else sp, old)"
proof (cases "HasVault u")
  case True
  with assms(6) inv show ?thesis by (auto simp: Enrol_def)
next
  case False
  have "stored_ok v sp (vs_users st)" using inv by (simp add: vault_inv_def)
  then have none: "sp (u_ID u) = None" by (rule stored_vault(1) [OF _ u False])
  let ?wrap = "if kindFor v u = UnlockServer then
      bindr (NewKey (d_dek dr)) (\<lambda>dek.
      bindr (SealKeyUnder (svc_seal v) (d_nonce dr) (svc_master v) (MasterAAD (u_ID u) ''user-dek'') dek) (\<lambda>env.
      bindr (svc_kdf v (d_salt dr)) (\<lambda>params. Inr (dek, \<lparr>KDF = params, wk_Envelope = env\<rparr>))))
    else bindr (svc_kdf v (d_salt dr)) (\<lambda>params.
      NewUserKey (svc_argon v) (svc_seal v) (d_dek dr) (d_nonce dr) (u_ID u) (bytes_of p) params)"
  have enrol: "Enrol v dr now u s p st =
      (if kindFor v u \<noteq> UnlockServer \<and> p = '''' then (st, Inl PassphraseRequired)
       else case ?wrap of Inl e \<Rightarrow> (st, Inl (VaultFailed e))
            | Inr (d, wk) \<Rightarrow> (fst (store_and_cache now u s (kindFor v u) d wk st), Inr (kindFor v u)))"
    using False by (simp add: Enrol_def enrolServerManaged_def Let_def store_and_cache_ok split: sum.split prod.split)
  show ?thesis
  proof (cases ?wrap)
    case (Inl e)
    with assms(6) inv show ?thesis unfolding enrol by (auto split: if_split_asm)
  next
    case (Inr x)
    obtain d wk where x: "x = (d, wk)" by (cases x)
    show ?thesis
    proof (cases "kindFor v u \<noteq> UnlockServer \<and> p = ''''")
      case True
      with assms(6) inv show ?thesis unfolding enrol by auto
    next
      case ok: False
      have "d_dek dr = Some d \<and> opens_as v (u_ID u) (kindFor v u) wk p d"
      proof (cases "kindFor v u = UnlockServer")
        case True
        with Inr x have "NewKey (d_dek dr) = Inr d"
          and "SealKeyUnder (svc_seal v) (d_nonce dr) (svc_master v) (MasterAAD (u_ID u) ''user-dek'') d = Inr (wk_Envelope wk)"
          by (auto simp: bindr_Inr_iff)
        with SealKeyUnder_opens [OF assms(1,5), of "u_ID u" d wk p] True show ?thesis
          by (simp add: NewKey_def split: option.split_asm)
      next
        case False
        with Inr x obtain params where
          "NewUserKey (svc_argon v) (svc_seal v) (d_dek dr) (d_nonce dr) (u_ID u) (bytes_of p) params = Inr (d, wk)"
          by (auto simp: bindr_Inr_iff)
        with False ok show ?thesis by (intro NewUserKey_opens [OF assms(1,2,5)]) simp_all
      qed
      with inv_store_and_cache [OF inv u, of "kindFor v u" wk p d now s] none assms(6) Inr x ok show ?thesis
        unfolding enrol by auto
    qed
  qed
qed

lemma Unlock_inv:
  assumes inv: "vault_inv v t (st, sp, old)" and u: "u \<in> set (vs_users st)"
  shows "vault_inv v t (fst (Unlock v now u s p' st), sp, old)"
proof (cases "HasVault u \<and> is_ok (snd (Unlock v now u s p' st))")
  case True
  from inv have st: "stored_ok v sp (vs_users st)" by (simp add: vault_inv_def)
  from stored_vault(2) [OF st u] True obtain p d wk where wk: "u_WrappedDEK u = Some wk" "sp (u_ID u) = Some (p, d)"
    "opens_as v (u_ID u) (u_UnlockKind u) wk p d" by blast
  from True obtain x where "snd (Unlock v now u s p' st) = Inr x" by (auto simp: is_ok_iff)
  from Unlock_ok [OF wk(3,1) this] inv_cache_key [OF inv wk(2) inv_nul [OF inv u]] show ?thesis
    by (simp add: cache_key_def)
next
  case False
  then have "fst (Unlock v now u s p' st) = st" by (auto simp: Unlock_def is_ok_iff alloc_def split: sum.split)
  with inv show ?thesis by simp
qed

lemma discard_inv:
  assumes "stored_ok v sp (vs_users st)" and "ttl (vs_cache st) = t" and "cached_ok F (keys_of sp old) (vs_cache st)"
    and "a \<in> F" and "{vs_next st..} \<subseteq> F"
  shows "vault_inv v t (discard a st, sp, old)"
proof -
  have "cached_ok F (keys_of sp old) (vs_cache (discard a st))"
    using cached_heap [OF assms(3,4)] by (simp add: discard_def zero_at_def)
  then have "cached_ok {vs_next st..} (keys_of sp old) (vs_cache (discard a st))" using assms(5) by (rule cached_weaken) simp
  with assms(1,2) show ?thesis by (simp add: vault_inv_def discard_def)
qed

lemma rewrap_ok:
  assumes "aead (svc_seal v) (svc_unseal v)" "authentic (svc_seal v) (svc_unseal v)" and "draws_ok dr"
    and "q \<noteq> ''''" "u_UnlockKind u \<noteq> UnlockServer" "u_UnlockKind u \<noteq> UnlockUnset"
  shows "(\<exists>e. rewrap v dr now u s q d st = (st, Inl e))
    \<or> (\<exists>wk. opens_as v (u_ID u) (u_UnlockKind u) wk q d \<and> rewrap v dr now u s q d st
        = (cache_key now (u_ID u) s d (st\<lparr>vs_users := fst (SetVault now (u_ID u) (u_UnlockKind u) wk (vs_users st))\<rparr>), Inr ()))"
proof (cases "bindr (svc_kdf v (d_salt dr)) (\<lambda>params.
     RewrapUserKey (svc_argon v) (svc_seal v) (d_nonce dr) (u_ID u) d (bytes_of q) params)")
  case (Inr wk)
  then obtain params where "RewrapUserKey (svc_argon v) (svc_seal v) (d_nonce dr) (u_ID u) d (bytes_of q) params = Inr wk"
    by (auto simp: bindr_Inr_iff)
  from Rewrap_opens [OF assms(1-3) this assms(4,5)]
  have op: "opens_as v (u_ID u) (u_UnlockKind u) wk q d" .
  then have "UnwrapUserKey (svc_argon v) (svc_unseal v) (u_ID u) (bytes_of q) wk = Inr d"
    unfolding opens_as_def if_not_P [OF assms(5)] by blast
  with Inr assms(6) have "rewrap v dr now u s q d st
      = (cache_key now (u_ID u) s d (st\<lparr>vs_users := fst (SetVault now (u_ID u) (u_UnlockKind u) wk (vs_users st))\<rparr>), Inr ())"
    by (simp add: rewrap_def SetVault_def cache_key_def case_prod_beta Let_def)
  with op show ?thesis by blast
qed (simp add: rewrap_def)

lemma Change_inv:
  assumes ideal: "aead (svc_seal v) (svc_unseal v)" "authentic (svc_seal v) (svc_unseal v)"
    and inv: "vault_inv v t (st, sp, old)" and u: "u \<in> set (vs_users st)" and dr: "draws_ok dr"
    and change: "ChangePassphrase v dr now u s p q st = (st', r)"
  shows "vault_inv v t (st', if is_ok r then sp(u_ID u \<mapsto> (q, snd (the (sp (u_ID u))))) else sp, old)"
proof (cases "HasVault u \<and> q \<noteq> '''' \<and> u_UnlockKind u \<noteq> UnlockServer
    \<and> is_ok (UnwrapUserKey (svc_argon v) (svc_unseal v) (u_ID u) (bytes_of p) (the (u_WrappedDEK u)))")
  case False
  then have "st' = st \<and> \<not> is_ok r" using change by (auto simp: ChangePassphrase_def is_ok_iff split: sum.splits if_splits)
  with inv show ?thesis by simp
next
  case True
  from inv have st: "stored_ok v sp (vs_users st)" and t: "ttl (vs_cache st) = t" by (simp_all add: vault_inv_def)
  from stored_vault(2) [OF st u] True obtain p0 d wk where wk: "u_WrappedDEK u = Some wk" "sp (u_ID u) = Some (p0, d)"
    "opens_as v (u_ID u) (u_UnlockKind u) wk p0 d" by blast
  from True wk(1) obtain d' where d': "UnwrapUserKey (svc_argon v) (svc_unseal v) (u_ID u) (bytes_of p) wk = Inr d'"
    by (auto simp: is_ok_iff)
  moreover have "\<forall>p' d'. UnwrapUserKey (svc_argon v) (svc_unseal v) (u_ID u) p' wk = Inr d' \<longrightarrow> d' = d"
    using wk(3) True unfolding opens_as_def by presburger
  ultimately have "d' = d" by blast
  obtain st1 where st1: "alloc d st = (st1, vs_next st)" by (simp add: alloc_def)
  then have next1: "vs_next st1 = Suc (vs_next st)" "vs_users st1 = vs_users st" "ttl (vs_cache st1) = t"
    and c1: "cached_ok {vs_next st..} (keys_of sp old) (vs_cache st1)"
    using inv cached_heap [of "{vs_next st..}" "keys_of sp old" "vs_cache st" "vs_next st" d] by (auto simp: alloc_def vault_inv_def)
  have eq: "(st', r) = apfst (discard (vs_next st)) (rewrap v dr now u s q d st1)"
    using change True wk(1) d' \<open>d' = d\<close> st1 by (simp add: ChangePassphrase_def)
  have kind: "u_UnlockKind u \<noteq> UnlockServer" "u_UnlockKind u \<noteq> UnlockUnset" "q \<noteq> ''''" using True by (simp_all add: HasVault_def)
  from rewrap_ok [OF ideal dr kind(3,1,2), of now s d st1] show ?thesis
  proof (elim disjE exE conjE)
    fix e
    assume "rewrap v dr now u s q d st1 = (st1, Inl e)"
    with eq discard_inv [OF _ next1(3) c1, of v "vs_next st"] st next1 show ?thesis by (auto simp: is_ok_iff)
  next
    fix wk'
    let ?st2 = "st1\<lparr>vs_users := fst (SetVault now (u_ID u) (u_UnlockKind u) wk' (vs_users st1))\<rparr>"
    assume op: "opens_as v (u_ID u) (u_UnlockKind u) wk' q d"
      and re: "rewrap v dr now u s q d st1 = (cache_key now (u_ID u) s d ?st2, Inr ())"
    let ?sp = "sp(u_ID u \<mapsto> (q, d))"
    have s2: "stored_ok v ?sp (vs_users ?st2)" using stored_set [OF st u kind(2) op] next1(2) by simp
    have "cached_ok {vs_next st..} (keys_of ?sp old) (vs_cache st1)"
      by (rule cached_weaken [OF c1]) (use wk(2) in \<open>auto simp: keys_of_def\<close>)
    then have "cached_ok {vs_next st..} (keys_of ?sp old) (vs_cache ?st2)" by simp
    then have "cached_ok ({vs_next st..} - {vs_next ?st2}) (keys_of ?sp old) (vs_cache (cache_key now (u_ID u) s d ?st2))"
      by (rule cached_key) (use next1 inv_nul [OF inv u] in \<open>auto simp: keys_of_def\<close>)
    with s2 next1 have "vault_inv v t (discard (vs_next st) (cache_key now (u_ID u) s d ?st2), ?sp, old)"
      by (intro discard_inv) auto
    with eq re wk(2) show ?thesis by (simp add: is_ok_iff)
  qed
qed

lemma LockAll_inv:
  assumes inv: "vault_inv v t (st, sp, old)" and u: "u \<in> set (vs_users st)"
  shows "vault_inv v t (fst (LockAllForUser (u_ID u) st), sp, old(u_ID u := {}))"
    and "vault_inv v t (Reset now u st, sp(u_ID u := None), old(u_ID u := {}))"
proof -
  have swept: "cached_ok {vs_next st..} K (fst (sweep_entries (\<lambda>x. vaultCacheKeyIsOwnedBy (fst x) (u_ID u)) (vs_cache st)))"
    if K: "\<And>i d. keys_of sp old i d \<Longrightarrow> i \<noteq> u_ID u \<Longrightarrow> K i d" for K
  proof (rule cached_sweep)
    show "cached_ok {vs_next st..} (keys_of sp old) (vs_cache st)" using inv by (simp add: vault_inv_def)
  next
    fix i s d
    assume i: "CHR 0x00 \<notin> set i" "keys_of sp old i d" "\<exists>e :: entry. \<not> vaultCacheKeyIsOwnedBy (fst (vaultCacheKey i s, e)) (u_ID u)"
    with owned_iff [OF inv_nul [OF inv u] i(1)] K show "K i d" by simp
  qed
  have "cached_ok {vs_next st..} (keys_of sp (old(u_ID u := {})))
      (fst (sweep_entries (\<lambda>x. vaultCacheKeyIsOwnedBy (fst x) (u_ID u)) (vs_cache st)))"
    by (rule swept) (auto simp: keys_of_def)
  then show "vault_inv v t (fst (LockAllForUser (u_ID u) st), sp, old(u_ID u := {}))"
    using inv by (simp add: vault_inv_def LockAllForUser_def ForgetFunc_def case_prod_beta sweep_entries_def)
  have "cached_ok {vs_next st..} (keys_of (sp(u_ID u := None)) (old(u_ID u := {})))
      (fst (sweep_entries (\<lambda>x. vaultCacheKeyIsOwnedBy (fst x) (u_ID u)) (vs_cache st)))"
    by (rule swept) (auto simp: keys_of_def)
  moreover have "stored_ok v (sp(u_ID u := None)) (ResetVault now (u_ID u) (vs_users st))"
    using inv by (intro stored_reset) (simp add: vault_inv_def)
  ultimately show "vault_inv v t (Reset now u st, sp(u_ID u := None), old(u_ID u := {}))"
    using inv by (simp add: vault_inv_def Reset_def LockAllForUser_def ForgetFunc_def case_prod_beta sweep_entries_def)
qed

text \<open>An administrator's reset leaves the cache as it is.\<close>

lemma admin_reset_inv:
  assumes inv: "vault_inv v t (st, sp, old)"
  shows "vault_inv v t (st\<lparr>vs_users := fst (admin_ResetVault now u (vs_users st, sessions))\<rparr>, sp(u_ID u := None),
      old(u_ID u := old (u_ID u) \<union> snd ` set_option (sp (u_ID u))))"
proof -
  have "cached_ok {vs_next st..} (keys_of (sp(u_ID u := None)) (old(u_ID u := old (u_ID u) \<union> snd ` set_option (sp (u_ID u))))) (vs_cache st)"
  proof (rule cached_weaken)
    show "cached_ok {vs_next st..} (keys_of sp old) (vs_cache st)" using inv by (simp add: vault_inv_def)
    fix i d
    assume "keys_of sp old i d"
    then show "keys_of (sp(u_ID u := None)) (old(u_ID u := old (u_ID u) \<union> snd ` set_option (sp (u_ID u)))) i d"
      by (cases "i = u_ID u") (force simp: keys_of_def)+
  qed simp
  moreover have "stored_ok v (sp(u_ID u := None)) (ResetVault now (u_ID u) (vs_users st))"
    using inv by (intro stored_reset) (simp add: vault_inv_def)
  ultimately show ?thesis using inv by (simp add: vault_inv_def admin_ResetVault_def)
qed

lemma inv_cache:
  assumes "vault_inv v t (st, sp, old)" and "\<And>F. cached_ok F (keys_of sp old) (vs_cache st) \<Longrightarrow> cached_ok F (keys_of sp old) c" and "ttl c = ttl (vs_cache st)"
  shows "vault_inv v t (st\<lparr>vs_cache := c\<rparr>, sp, old)"
  using assms by (simp add: vault_inv_def)

lemma sweep_ttl [simp]: "ttl (fst (sweep_entries P c)) = ttl c"
  by (simp add: sweep_entries_def)

lemma cache_ttl [simp]: "ttl (cache_Forget c k) = ttl c" "ttl (fst (cache_Get c now k)) = ttl c"
  by (simp_all add: cache_Forget_def cache_Get_def split: option.split)

lemma Key_fst: "fst (vault_Key now i s st) = st\<lparr>vs_cache := fst (cache_Get (vs_cache st) now (vaultCacheKey i s))\<rparr>"
  by (simp add: vault_Key_def split: prod.split sum.split)

lemma vault_step_inv:
  assumes "aead (svc_seal v) (svc_unseal v)" "authentic (svc_seal v) (svc_unseal v)"
    and "vault_step v x y" and "vault_inv v t x"
  shows "vault_inv v t y"
  using assms(3,4)
proof (induction rule: vault_step.induct)
  case (account st db sp old)
  have "users_ok db" using users.step_inv [OF account(1)] account(4) by (simp add: vault_inv_def stored_ok_def)
  with account(2-4) show ?case by (simp add: vault_inv_def stored_ok_def)
next
  case (enrol u st dr now s p st' r sp old)
  then show ?case using Enrol_inv [OF assms(1,2)] by blast
next
  case (change u st dr now s p q st' r sp old)
  then show ?case using Change_inv [OF assms(1,2)] by blast
next
  case (key st sp old now i s)
  then show ?case by (simp add: Key_fst inv_cache cached_get)
next
  case (evict st sp old now)
  then show ?case by (simp add: EvictExpired_def inv_cache cached_sweep)
qed (auto simp: Lock_def intro: Unlock_inv LockAll_inv inv_cache cached_forget admin_reset_inv)

interpretation vault_service:
  invariant_of "vault_step v" "\<lambda>s. aead (svc_seal v) (svc_unseal v) \<and> authentic (svc_seal v) (svc_unseal v) \<and> vault_inv v t s" for v t
  by unfold_locales (blast intro: vault_step_inv)

text \<open>A key handed out is the promised one.\<close>

lemma Key_promised:
  assumes "vault_inv v t (st, sp, old)" and "CHR 0x00 \<notin> set i" and "snd (vault_Key now i s st) = Inr a"
  shows "keys_of sp old i (heap (vs_cache (fst (vault_Key now i s st))) a)"
proof -
  let ?c = "vs_cache st" and ?k = "vaultCacheKey i s"
  obtain e where e: "map_of (entries ?c) ?k = Some e" "\<not> now > expiresAt e" and a: "a = e_key e"
    using assms(3) by (auto simp: vault_Key_def cache_Get_def split: option.split_asm if_split_asm)
  then have heap: "heap (vs_cache (fst (vault_Key now i s st))) = heap ?c" by (simp add: Key_fst cache_Get_def)
  have "cached_ok {vs_next st..} (keys_of sp old) ?c" using assms(1) by (simp add: vault_inv_def)
  then show ?thesis
  proof (rule cached_okE)
    fix g
    assume g: "cache_ok \<lparr>cache = ?c, given = g\<rparr>" and rows: "\<And>k e. (k, e) \<in> set (entries ?c) \<Longrightarrow>
      \<exists>i s d. CHR 0x00 \<notin> set i \<and> k = vaultCacheKey i s \<and> keys_of sp old i d \<and> g (e_key e) = Some d"
    from rows [OF map_of_SomeD [OF e(1)]] obtain i' s' d where i': "CHR 0x00 \<notin> set i'" "?k = vaultCacheKey i' s'"
      "keys_of sp old i' d" "g (e_key e) = Some d" by blast
    from vaultCacheKey_inj [OF assms(2) i'(1,2)] have "i' = i" by simp
    moreover have "e_key e \<in> live (entries ?c)" using map_of_SomeD [OF e(1)] by (force simp: live_def)
    ultimately show ?thesis using g i' by (auto simp: cache_ok_def heap a)
  qed
qed

lemma Key_after_cache:
  assumes "0 \<le> ttl (vs_cache st)" and "cached_ok {vs_next st..} K (vs_cache st)"
  shows "\<exists>a. snd (vault_Key now i s (cache_key now i s d st)) = Inr a
    \<and> heap (vs_cache (fst (vault_Key now i s (cache_key now i s d st)))) a = d"
proof -
  have fresh: "e_key e \<noteq> vs_next st" if "map_of (entries (vs_cache st)) k = Some e" for k e
    using assms(2)
  proof (rule cached_okE)
    fix g
    assume "\<And>a. a \<in> {vs_next st..} \<Longrightarrow> g a = None" and "\<And>k e. (k, e) \<in> set (entries (vs_cache st)) \<Longrightarrow>
      \<exists>i s d. CHR 0x00 \<notin> set i \<and> k = vaultCacheKey i s \<and> K i d \<and> g (e_key e) = Some d"
    with map_of_SomeD [OF that] show ?thesis by fastforce
  qed
  show ?thesis
    using assms(1) by (cases "map_of (entries (vs_cache st)) (vaultCacheKey i s)")
      (auto simp: vault_Key_def cache_key_def alloc_def cache_put_def Put_def cache_Get_def zero_at_def dest: fresh)
qed

text \<open>
  C39 (refinement). One operation after another, the vaults implement a map from users to one
  passphrase and one key, in which enrolling enters a passphrase and a fresh key, changing the
  passphrase replaces the passphrase only, resetting removes the pair and nothing else changes it.
  An account has a vault exactly if the map has its pair, and unlocking with the passphrase of the
  map succeeds. A key handed to a request is its user's key, or one that an administrator's reset has
  left in the cache, which stays there until it ages out or the user is locked out of every session;
  after unlocking it is the user's key. Requests that overlap are outside this
  (\<open>racing_enrolments_both_succeed\<close>).
\<close>

theorem vault_opens_to_one_key:
  assumes "aead (svc_seal v) (svc_unseal v)" "authentic (svc_seal v) (svc_unseal v)" and "0 \<le> t"
    and run: "(vault_step v)\<^sup>*\<^sup>* (\<lparr>vs_users = [], vs_cache = newCache t mem, vs_next = 0\<rparr>, \<lambda>_. None, \<lambda>_. {}) (st, sp, old)"
  shows "(CHR 0x00 \<notin> set i \<and> snd (vault_Key now i s st) = Inr a \<longrightarrow>
        (let d = heap (vs_cache (fst (vault_Key now i s st))) a in (\<exists>p. sp i = Some (p, d)) \<or> d \<in> old i))
    \<and> (u \<in> set (vs_users st) \<longrightarrow> (HasVault u \<longleftrightarrow> sp (u_ID u) \<noteq> None))
    \<and> (u \<in> set (vs_users st) \<and> sp (u_ID u) = Some (p, d) \<longrightarrow>
        snd (Unlock v now u s p st) = Inr ()
        \<and> (\<exists>a. snd (vault_Key now (u_ID u) s (fst (Unlock v now u s p st))) = Inr a
             \<and> heap (vs_cache (fst (vault_Key now (u_ID u) s (fst (Unlock v now u s p st))))) a = d))"
proof -
  have "vault_inv v t (\<lparr>vs_users = [], vs_cache = newCache t mem, vs_next = 0\<rparr>, \<lambda>_. None, \<lambda>_. {})"
    by (auto simp: vault_inv_def stored_ok_def users_ok_def nul_free_def vault_of_def newCache_def cache_ok_def live_def
        intro!: cached_okI [of _ "\<lambda>_. None"])
  with assms(1,2) vault_service.run_inv [OF run, of t] have inv: "vault_inv v t (st, sp, old)" by simp
  then have st: "stored_ok v sp (vs_users st)" by (simp add: vault_inv_def)
  have "snd (Unlock v now u s p st) = Inr ()
      \<and> (\<exists>a. snd (vault_Key now (u_ID u) s (fst (Unlock v now u s p st))) = Inr a
           \<and> heap (vs_cache (fst (vault_Key now (u_ID u) s (fst (Unlock v now u s p st))))) a = d)"
    if u: "u \<in> set (vs_users st)" and pd: "sp (u_ID u) = Some (p, d)"
  proof -
    have has: "HasVault u" using stored_vault(1) [OF st u] pd by auto
    from stored_vault(2) [OF st u has] pd obtain wk where wk: "u_WrappedDEK u = Some wk" "opens_as v (u_ID u) (u_UnlockKind u) wk p d"
      by auto
    have eq: "Unlock v now u s p st = (cache_key now (u_ID u) s d st, Inr ())"
      using opens_as_unlock [OF wk(2,1) has] by (simp add: cache_key_def case_prod_beta)
    have "0 \<le> ttl (vs_cache st)" using inv assms(3) by (simp add: vault_inv_def)
    moreover have "cached_ok {vs_next st..} (keys_of sp old) (vs_cache st)" using inv by (simp add: vault_inv_def)
    ultimately show ?thesis using Key_after_cache unfolding eq by simp
  qed
  moreover have "HasVault u \<longleftrightarrow> sp (u_ID u) \<noteq> None" if "u \<in> set (vs_users st)"
    using stored_vault [OF st that] by (cases "HasVault u") auto
  ultimately show ?thesis using Key_promised [OF inv, of i now s a] unfolding keys_of_def Let_def by blast
qed

text \<open>An ideal AEAD that puts its key in front as well, and a service on it.\<close>

definition keyed_seal :: seal_fn where
  "keyed_seal k n a p = demo_seal [] [] k (demo_seal [] [] a p)"

definition keyed_open :: open_fn where
  "keyed_open k n a c = (case demo_open [] [] k c of None \<Rightarrow> None | Some r \<Rightarrow> demo_open [] [] a r)"

lemma keyed_ideal: "aead keyed_seal keyed_open" "authentic keyed_seal keyed_open"
proof -
  have same: "demo_open k n a (demo_seal k n a p) = Some p" for k n a p using demo_aead by (simp add: aead_def)
  have "b = a" if "demo_open k n b (demo_seal k n a p) = Some q" for k n a b p q
    using demo_aead that unfolding aead_def by blast
  then show "aead keyed_seal keyed_open" "authentic keyed_seal keyed_open"
    unfolding aead_def authentic_def by (auto simp: keyed_seal_def keyed_open_def same split: option.split_asm)
qed

definition demo_service :: VaultService where
  "demo_service = \<lparr>svc_argon = demo_argon, svc_seal = keyed_seal, svc_unseal = keyed_open, svc_master = demo_key,
     Argon2Time = 3, Argon2MemoryKB = 65536, Argon2Threads = 4, svc_ssoUnlock = SSOUnlockPassphrase\<rparr>"

definition demo_draws :: draws where
  "demo_draws = \<lparr>d_salt = Some (replicate 16 5), d_dek = Some demo_key, d_nonce = Some (replicate 12 9)\<rparr>"

definition demo_create :: CreateParams where
  "demo_create = \<lparr>up_Email = ''a@b.c'', up_DisplayName = ''A'', up_Password = ''pw'', up_IsAdmin = False,
     up_SSOProvider = '''', up_SSOSubject = '''', up_SSOTenant = ''''\<rparr>"

definition demo_user :: User where
  "demo_user = new_user ''alice'' 0 ''$'' demo_create"

lemma demo_created: "fst (users_Create (\<lambda>_. Some ''$'') ''alice'' 0 demo_create []) = [demo_user]"
proof -
  have "ValidateEmail ''a@b.c'' = Inr ()" by code_simp
  then show ?thesis by (simp add: users_Create_def demo_create_def demo_user_def Let_def)
qed

lemma demo_enrolled: "\<exists>wk. Enrol demo_service demo_draws 1 demo_user ''tab'' ''sesame'' st
    = (cache_key 1 ''alice'' ''tab'' demo_key (st\<lparr>vs_users := fst (SetVault 1 ''alice'' UnlockDerived wk (vs_users st))\<rparr>), Inr UnlockDerived)"
proof -
  have u: "u_ID demo_user = ''alice''" "\<not> HasVault demo_user" "kindFor demo_service demo_user = UnlockDerived"
    by (simp_all add: demo_user_def demo_create_def new_user_def HasVault_def kindFor_def IsSSO_def CanSignInLocally_def)
  have kdf: "svc_kdf demo_service (d_salt demo_draws) = Inr demo_params"
    using demo_params_valid by (simp add: svc_kdf_def demo_service_def demo_draws_def NewKDFParams_def NewSalt_def demo_params_def Let_def)
  obtain b bs where sesame: "bytes_of ''sesame'' = b # bs" "b \<noteq> 0" by (simp add: bytes_of_def)
  obtain kek where "DeriveKEK demo_argon (bytes_of ''sesame'') demo_params = Inr kek" "validate kek = Inr ()"
    using demo_kek [OF sesame(2), of bs] sesame(1) by auto
  then obtain wk where "NewUserKey demo_argon keyed_seal (Some demo_key) (Some (replicate 12 9)) ''alice'' (bytes_of ''sesame'') demo_params
      = Inr (demo_key, wk)"
    by (simp add: NewUserKey_def NewKey_def Seal_def demo_params_valid demo_wrap_valid del: replicate.simps)
  then have "bindr (svc_kdf demo_service (d_salt demo_draws)) (\<lambda>params. NewUserKey (svc_argon demo_service) (svc_seal demo_service)
      (d_dek demo_draws) (d_nonce demo_draws) (u_ID demo_user) (bytes_of ''sesame'') params) = Inr (demo_key, wk)"
    unfolding kdf u(1) by (simp add: demo_service_def demo_draws_def)
  then show ?thesis using u by (auto simp: Enrol_def Let_def store_and_cache_ok)
qed

theorem vault_opens_to_one_key_witness:
  "\<exists>st u a. (vault_step demo_service)\<^sup>*\<^sup>* (\<lparr>vs_users = [], vs_cache = newCache 60 (\<lambda>_. []), vs_next = 0\<rparr>, \<lambda>_. None, \<lambda>_. {})
       (st, [''alice'' \<mapsto> (''sesame'', demo_key)], \<lambda>_. {}) \<and> u \<in> set (vs_users st) \<and> u_ID u = ''alice''
     \<and> snd (vault_Key 5 ''alice'' ''tab'' (fst (Unlock demo_service 5 u ''tab'' ''sesame'' st))) = Inr a
     \<and> heap (vs_cache (fst (vault_Key 5 ''alice'' ''tab'' (fst (Unlock demo_service 5 u ''tab'' ''sesame'' st))))) a = demo_key"
proof -
  let ?s0 = "\<lparr>vs_users = [], vs_cache = newCache 60 (\<lambda>_. []), vs_next = 0\<rparr>"
  let ?s1 = "?s0\<lparr>vs_users := [demo_user]\<rparr>"
  have id: "u_ID demo_user = ''alice''" and "\<not> HasVault demo_user"
    by (simp_all add: demo_user_def demo_create_def new_user_def HasVault_def)
  then have "vault_of [demo_user] = vault_of []" "nul_free [demo_user]"
    by (auto simp: vault_of_def nul_free_def)
  moreover have "users_step [] [demo_user]"
    using users_step.create [of "[]" "\<lambda>_. Some ''$''" "''alice''" 0 demo_create] demo_created by simp
  ultimately have one: "vault_step demo_service (?s0, \<lambda>_. None, \<lambda>_. {}) (?s1, \<lambda>_. None, \<lambda>_. {})"
    using vault_step.account [of ?s0 "[demo_user]" demo_service "\<lambda>_. None" "\<lambda>_. {}"] by simp
  obtain wk where en: "Enrol demo_service demo_draws 1 demo_user ''tab'' ''sesame'' ?s1
      = (cache_key 1 ''alice'' ''tab'' demo_key (?s1\<lparr>vs_users := fst (SetVault 1 ''alice'' UnlockDerived wk (vs_users ?s1))\<rparr>), Inr UnlockDerived)"
    using demo_enrolled by blast
  let ?s2 = "cache_key 1 ''alice'' ''tab'' demo_key (?s1\<lparr>vs_users := fst (SetVault 1 ''alice'' UnlockDerived wk (vs_users ?s1))\<rparr>)"
  have "draws_ok demo_draws" by (simp add: draws_ok_def demo_draws_def demo_key_def KeyLen_def NonceSize_def)
  from vault_step.enrol [OF _ this en, of "\<lambda>_. None" "\<lambda>_. {}"] id
  have "vault_step demo_service (?s1, \<lambda>_. None, \<lambda>_. {}) (?s2, [''alice'' \<mapsto> (''sesame'', demo_key)], \<lambda>_. {})"
    by (simp add: demo_draws_def)
  with one have run: "(vault_step demo_service)\<^sup>*\<^sup>* (?s0, \<lambda>_. None, \<lambda>_. {}) (?s2, [''alice'' \<mapsto> (''sesame'', demo_key)], \<lambda>_. {})"
    by (meson converse_rtranclp_into_rtranclp r_into_rtranclp)
  obtain u where u: "u \<in> set (vs_users ?s2)" "u_ID u = ''alice''"
    using id by (simp add: SetVault_def edit_user_def)
  have "aead (svc_seal demo_service) (svc_unseal demo_service)" "authentic (svc_seal demo_service) (svc_unseal demo_service)"
    using keyed_ideal by (simp_all add: demo_service_def)
  from vault_opens_to_one_key [OF this _ run, of "''alice''" 5 "''tab''" _ u "''sesame''" demo_key] u
  have "\<exists>a. snd (vault_Key 5 ''alice'' ''tab'' (fst (Unlock demo_service 5 u ''tab'' ''sesame'' ?s2))) = Inr a
     \<and> heap (vs_cache (fst (vault_Key 5 ''alice'' ''tab'' (fst (Unlock demo_service 5 u ''tab'' ''sesame'' ?s2))))) a = demo_key"
    by (simp del: cache_key_users)
  with run u show ?thesis by blast
qed

text \<open>
  \<^verbatim>\<open>Enrol\<close> decides by the account its caller read. Two requests that both read it before either
  writes both succeed, and the second replaces the wrapped key of the first.
\<close>

lemma racing_enrolments_both_succeed:
  assumes "snd (Enrol v dr now u s p st) = Inr kind" and "u \<in> set (vs_users st)" "users_ok (vs_users st)"
  shows "snd (Enrol v dr now u s p st') = Inr kind"
    and "\<exists>wk. vault_of (vs_users (fst (Enrol v dr now u s p st))) (u_ID u) = Some (kind, wk)"
proof -
  show "snd (Enrol v dr now u s p st') = Inr kind"
    using assms(1) by (auto simp: Enrol_def enrolServerManaged_def Let_def store_and_cache_ok split: if_split_asm sum.split_asm)
  show "\<exists>wk. vault_of (vs_users (fst (Enrol v dr now u s p st))) (u_ID u) = Some (kind, wk)"
    using assms(1) by (auto simp: Enrol_def enrolServerManaged_def Let_def store_and_cache_ok vault_of_SetVault [OF assms(3,2)]
        split: if_split_asm sum.split_asm)
qed

end
