(* ===== verification/Credential_Store.thy ===== *)
theory Credential_Store
  imports Vault_Service
begin

section \<open>Stored credentials (\<^verbatim>\<open>internal/credentials\<close>)\<close>

text \<open>
  The table of credentials with its sealed columns, and every operation of the store; the kinds of
  keys, their generation and their import. A sealed column is \<open>None\<close> for \<^verbatim>\<open>NULL\<close>; otherwise it is
  the envelope its text decodes to, or \<open>Garbled\<close> where the base64 or the JSON does not decode.
  Instants are stored as text that keeps every nanosecond, so a row holds the instant, and listings
  sort by the text. What \<^verbatim>\<open>golang.org/x/crypto/ssh\<close> makes of a private key is the record \<open>ssh_keys\<close>
  of parameters.
\<close>

subsection \<open>Rows (\<^verbatim>\<open>store.go\<close>)\<close>

datatype cred_kind = KindSSHKey | KindPassword | KindPassphrase | KindEnableSecret | CredentialKind string

datatype cred_error =
    CredNotFound | ErrNoSecret | OwnerRequired | CredNameRequired | UnknownKind
  | EncryptField vault_error | DecodeField | DecryptField vault_error
  | UnsupportedKeyType | KeyGenFailed | ErrKeyEncrypted | ErrKeyPassphrase | ErrNotAPrivateKey | ReencodeFailed

definition Validate_cred_kind :: "cred_kind \<Rightarrow> (cred_error, unit) result" where
  "Validate_cred_kind k = (case k of CredentialKind _ \<Rightarrow> Inl UnknownKind | _ \<Rightarrow> Inr ())"

definition fieldSecret :: string where "fieldSecret = ''secret''"
definition fieldExtra :: string where "fieldExtra = ''secret_extra''"

datatype sealed_text = Garbled | SealedText Envelope

record cred_row =
  c_ID :: string
  c_user_id :: "string option"
  c_team_id :: "string option"
  c_Name :: string
  c_Kind :: cred_kind
  c_Username :: string
  c_secret_enc :: "sealed_text option"
  c_secret_extra_enc :: "sealed_text option"
  c_PublicKey :: string
  c_Fingerprint :: string
  c_KeyType :: string
  c_server_unlockable :: bool
  c_CreatedAt :: int
  c_UpdatedAt :: int
  c_LastUsedAt :: "int option"

type_synonym cred_table = "cred_row list"

text \<open>What the store hands out: the row without its sealed columns.\<close>

record Credential =
  cr_ID :: string
  cr_OwnerID :: string
  cr_IsTeam :: bool
  cr_Name :: string
  cr_Kind :: cred_kind
  cr_Username :: string
  cr_PublicKey :: string
  cr_Fingerprint :: string
  cr_KeyType :: string
  cr_ServerUnlockable :: bool
  cr_CreatedAt :: int
  cr_UpdatedAt :: int
  cr_LastUsedAt :: "int option"

record CredentialParams =
  cp_OwnerID :: string
  cp_IsTeam :: bool
  cp_Name :: string
  cp_Kind :: cred_kind
  cp_Username :: string
  cp_Secret :: string
  cp_Extra :: string
  cp_PublicKey :: string
  cp_Fingerprint :: string
  cp_KeyType :: string

record Secret =
  se_Value :: string
  se_Extra :: string

text \<open>The owner of a row: its team if it has one that is not empty, otherwise its user.\<close>

definition is_team_row :: "cred_row \<Rightarrow> bool" where
  "is_team_row r \<longleftrightarrow> (case c_team_id r of None \<Rightarrow> False | Some t \<Rightarrow> t \<noteq> '''')"

definition row_owner :: "cred_row \<Rightarrow> string" where
  "row_owner r =
     (if is_team_row r then the (c_team_id r) else case c_user_id r of None \<Rightarrow> '''' | Some u \<Rightarrow> u)"

definition scanCredential :: "cred_row \<Rightarrow> Credential" where
  "scanCredential r =
     \<lparr>cr_ID = c_ID r, cr_OwnerID = row_owner r, cr_IsTeam = is_team_row r, cr_Name = c_Name r, cr_Kind = c_Kind r,
      cr_Username = c_Username r, cr_PublicKey = c_PublicKey r, cr_Fingerprint = c_Fingerprint r, cr_KeyType = c_KeyType r,
      cr_ServerUnlockable = c_server_unlockable r, cr_CreatedAt = c_CreatedAt r, cr_UpdatedAt = c_UpdatedAt r,
      cr_LastUsedAt = c_LastUsedAt r\<rparr>"

text \<open>One field into its column and back; \<open>nonce\<close> is the draw that sealing makes.\<close>

definition sealField ::
  "seal_fn \<Rightarrow> byte list option \<Rightarrow> key \<Rightarrow> string \<Rightarrow> string \<Rightarrow> string \<Rightarrow> string \<Rightarrow> (cred_error, sealed_text option) result" where
  "sealField seal nonce k owner i field plaintext =
     (if plaintext = '''' then Inr None
      else case Seal seal nonce k (CredentialAAD owner i field) (bytes_of plaintext) of
             Inl e \<Rightarrow> Inl (EncryptField e)
           | Inr env \<Rightarrow> Inr (Some (SealedText env)))"

definition openField ::
  "open_fn \<Rightarrow> key \<Rightarrow> string \<Rightarrow> string \<Rightarrow> string \<Rightarrow> sealed_text option \<Rightarrow> (cred_error, string) result" where
  "openField unseal k owner i field stored =
     (case stored of
        None \<Rightarrow> Inr ''''
      | Some Garbled \<Rightarrow> Inl DecodeField
      | Some (SealedText env) \<Rightarrow>
          (case Open unseal k (CredentialAAD owner i field) env of
             Inl e \<Rightarrow> Inl (DecryptField e)
           | Inr pt \<Rightarrow> Inr (text_of pt)))"

definition find_cred :: "cred_table \<Rightarrow> string \<Rightarrow> cred_row option" where
  "find_cred db i = find (\<lambda>r. c_ID r = i) db"

definition cred_Create ::
  "seal_fn \<Rightarrow> byte list option \<Rightarrow> byte list option \<Rightarrow> string \<Rightarrow> int \<Rightarrow> key \<Rightarrow> CredentialParams \<Rightarrow> cred_table
     \<Rightarrow> cred_table \<times> (cred_error, Credential) result" where
  "cred_Create seal nonce1 nonce2 i now k p db =
     (if cp_OwnerID p = '''' then (db, Inl OwnerRequired)
      else if trim_space (cp_Name p) = '''' then (db, Inl CredNameRequired)
      else case bindr (Validate_cred_kind (cp_Kind p)) (\<lambda>_.
                bindr (sealField seal nonce1 k (cp_OwnerID p) i fieldSecret (cp_Secret p)) (\<lambda>secret.
                bindr (sealField seal nonce2 k (cp_OwnerID p) i fieldExtra (cp_Extra p)) (\<lambda>extra.
                Inr (secret, extra)))) of
             Inl e \<Rightarrow> (db, Inl e)
           | Inr (secret, extra) \<Rightarrow>
               let row = \<lparr>c_ID = i, c_user_id = (if cp_IsTeam p then None else Some (cp_OwnerID p)),
                   c_team_id = (if cp_IsTeam p then Some (cp_OwnerID p) else None), c_Name = trim_space (cp_Name p),
                   c_Kind = cp_Kind p, c_Username = trim_space (cp_Username p), c_secret_enc = secret, c_secret_extra_enc = extra,
                   c_PublicKey = cp_PublicKey p, c_Fingerprint = cp_Fingerprint p, c_KeyType = cp_KeyType p,
                   c_server_unlockable = False, c_CreatedAt = now, c_UpdatedAt = now, c_LastUsedAt = None\<rparr>
               in (db @ [row], Inr (scanCredential row)))"

definition cred_Get :: "string \<Rightarrow> string \<Rightarrow> cred_table \<Rightarrow> (cred_error, Credential) result" where
  "cred_Get owner i db =
     (case find_cred db i of
        None \<Rightarrow> Inl CredNotFound
      | Some r \<Rightarrow> if cr_OwnerID (scanCredential r) \<noteq> owner then Inl CredNotFound else Inr (scanCredential r))"

definition Reveal :: "open_fn \<Rightarrow> key \<Rightarrow> string \<Rightarrow> string \<Rightarrow> cred_table \<Rightarrow> (cred_error, Secret) result" where
  "Reveal unseal k owner i db =
     (case find_cred db i of
        None \<Rightarrow> Inl CredNotFound
      | Some r \<Rightarrow>
          if row_owner r \<noteq> owner then Inl CredNotFound
          else bindr (openField unseal k (row_owner r) i fieldSecret (c_secret_enc r)) (\<lambda>value.
               bindr (openField unseal k (row_owner r) i fieldExtra (c_secret_extra_enc r)) (\<lambda>extra.
               if value = '''' \<and> extra = '''' then Inl ErrNoSecret
               else Inr \<lparr>se_Value = value, se_Extra = extra\<rparr>)))"

definition Zero_secret :: "Secret \<Rightarrow> Secret" where
  "Zero_secret s = s\<lparr>se_Value := '''', se_Extra := ''''\<rparr>"

definition cred_List :: "string \<Rightarrow> bool \<Rightarrow> cred_table \<Rightarrow> Credential list" where
  "cred_List owner isTeam db =
     map scanCredential (rev (sort_key (\<lambda>r. rfc3339_nano (c_CreatedAt r))
       (filter (\<lambda>r. (if isTeam then c_team_id r else c_user_id r) = Some owner) db)))"

definition edit_cred :: "string \<Rightarrow> (cred_row \<Rightarrow> cred_row) \<Rightarrow> cred_table \<Rightarrow> cred_table" where
  "edit_cred i f db = map (\<lambda>r. if c_ID r = i then f r else r) db"

definition cred_Update ::
  "int \<Rightarrow> string \<Rightarrow> string \<Rightarrow> string option \<Rightarrow> string option \<Rightarrow> cred_table \<Rightarrow> cred_table \<times> (cred_error, Credential) result" where
  "cred_Update now owner i pname puser db =
     (case cred_Get owner i db of
        Inl e \<Rightarrow> (db, Inl e)
      | Inr existing \<Rightarrow>
          (case (case pname of
                   None \<Rightarrow> Inr (cr_Name existing)
                 | Some n \<Rightarrow> if trim_space n = '''' then Inl CredNameRequired else Inr (trim_space n)) of
             Inl e \<Rightarrow> (db, Inl e)
           | Inr name \<Rightarrow>
               let username = (case puser of None \<Rightarrow> cr_Username existing | Some u \<Rightarrow> trim_space u)
               in (edit_cred i (\<lambda>r. r\<lparr>c_Name := name, c_Username := username, c_UpdatedAt := now\<rparr>) db,
                   Inr (existing\<lparr>cr_Name := name, cr_Username := username, cr_UpdatedAt := now\<rparr>))))"

definition cred_Delete :: "string \<Rightarrow> string \<Rightarrow> cred_table \<Rightarrow> cred_table \<times> (cred_error, unit) result" where
  "cred_Delete owner i db =
     (case cred_Get owner i db of
        Inl e \<Rightarrow> (db, Inl e)
      | Inr _ \<Rightarrow> (filter (\<lambda>r. c_ID r \<noteq> i) db, Inr ()))"

definition cred_MarkUsed :: "int \<Rightarrow> string \<Rightarrow> cred_table \<Rightarrow> cred_table" where
  "cred_MarkUsed now i db = edit_cred i (\<lambda>r. r\<lparr>c_LastUsedAt := Some now\<rparr>) db"

text \<open>The row of \<^verbatim>\<open>users.Store.ResetVault\<close> that concerns this table.\<close>

definition forget_credentials :: "string \<Rightarrow> cred_table \<Rightarrow> cred_table" where
  "forget_credentials user db = filter (\<lambda>r. c_user_id r \<noteq> Some user) db"

subsection \<open>Keys (\<^verbatim>\<open>sshkey.go\<close>)\<close>

datatype KeyType = KeyEd25519 | KeyRSA4096 | KeyECDSA256 | KeyECDSA384 | KeyTypeText string

definition SupportedKeyTypes :: "KeyType list" where
  "SupportedKeyTypes = [KeyEd25519, KeyRSA4096, KeyECDSA256, KeyECDSA384]"

definition Validate_key_type :: "KeyType \<Rightarrow> (cred_error, unit) result" where
  "Validate_key_type k = (if k \<in> set SupportedKeyTypes then Inr () else Inl UnsupportedKeyType)"

text \<open>
  What the key libraries make of a key: parsing gives the key, says that a passphrase is missing,
  or fails; \<open>'k\<close> is a private key.
\<close>

datatype 'k parsed = ParsedKey 'k | PassphraseMissing | NotParsed

record 'k ssh_keys =
  ssh_generate :: "KeyType \<Rightarrow> 'k option"
  ssh_parse :: "string \<Rightarrow> 'k parsed"
  ssh_parse_with :: "string \<Rightarrow> string \<Rightarrow> 'k option"
  ssh_marshal :: "'k \<Rightarrow> string \<Rightarrow> string option"
  ssh_authorized :: "'k \<Rightarrow> string"
  ssh_fingerprint :: "'k \<Rightarrow> string"
  ssh_algorithm :: "'k \<Rightarrow> string"
  ssh_rsa_bits :: "'k \<Rightarrow> nat"

record GeneratedKey =
  gk_PrivateKeyPEM :: string
  gk_PublicKey :: string
  gk_Fingerprint :: string
  gk_KeyType :: KeyType

definition GenerateKey :: "'k ssh_keys \<Rightarrow> KeyType \<Rightarrow> string \<Rightarrow> (cred_error, GeneratedKey) result" where
  "GenerateKey lib kt comment =
     bindr (Validate_key_type kt) (\<lambda>_.
     case ssh_generate lib kt of
       None \<Rightarrow> Inl KeyGenFailed
     | Some priv \<Rightarrow>
         (case ssh_marshal lib priv comment of
            None \<Rightarrow> Inl KeyGenFailed
          | Some pem \<Rightarrow>
              let pub = trim_space (ssh_authorized lib priv)
              in Inr \<lparr>gk_PrivateKeyPEM = pem, gk_PublicKey = (if comment \<noteq> '''' then pub @ '' '' @ comment else pub),
                      gk_Fingerprint = ssh_fingerprint lib priv, gk_KeyType = kt\<rparr>))"

record ImportedKey =
  ik_PrivateKeyPEM :: string
  ik_PublicKey :: string
  ik_Fingerprint :: string
  ik_KeyType :: KeyType
  ik_WasEncrypted :: bool

definition classifyPublicKey :: "'k ssh_keys \<Rightarrow> 'k \<Rightarrow> KeyType" where
  "classifyPublicKey lib priv =
     (let t = ssh_algorithm lib priv in
      if t = ''ssh-ed25519'' then KeyEd25519
      else if t = ''ecdsa-sha2-nistp256'' then KeyECDSA256
      else if t = ''ecdsa-sha2-nistp384'' then KeyECDSA384
      else if t = ''ecdsa-sha2-nistp521'' then KeyTypeText ''ecdsa-p521''
      else if t \<in> {''ssh-rsa'', ''rsa-sha2-256'', ''rsa-sha2-512''}
      then (if ssh_rsa_bits lib priv = 4096 then KeyRSA4096
            else if ssh_rsa_bits lib priv > 0 then KeyTypeText (''rsa-'' @ decimal_of (ssh_rsa_bits lib priv))
            else KeyTypeText ''rsa'')
      else KeyTypeText t)"

text \<open>Stripping a key of its passphrase parses it once more.\<close>

definition reencodeUnencrypted :: "'k ssh_keys \<Rightarrow> string \<Rightarrow> string \<Rightarrow> (cred_error, string) result" where
  "reencodeUnencrypted lib pem pass =
     (case ssh_parse_with lib pem pass of
        None \<Rightarrow> Inl ErrKeyPassphrase
      | Some raw \<Rightarrow> (case ssh_marshal lib raw '''' of None \<Rightarrow> Inl ReencodeFailed | Some s \<Rightarrow> Inr s))"

definition parse_imported :: "'k ssh_keys \<Rightarrow> string \<Rightarrow> string \<Rightarrow> (cred_error, 'k \<times> bool) result" where
  "parse_imported lib pem pass =
     (if pass \<noteq> ''''
      then (case ssh_parse_with lib pem pass of
              Some priv \<Rightarrow> Inr (priv, True)
            | None \<Rightarrow> (case ssh_parse lib pem of ParsedKey priv \<Rightarrow> Inr (priv, False) | _ \<Rightarrow> Inl ErrKeyPassphrase))
      else (case ssh_parse lib pem of
              ParsedKey priv \<Rightarrow> Inr (priv, False)
            | PassphraseMissing \<Rightarrow> Inl ErrKeyEncrypted
            | NotParsed \<Rightarrow> Inl ErrNotAPrivateKey))"

definition ImportKey :: "'k ssh_keys \<Rightarrow> string \<Rightarrow> string \<Rightarrow> (cred_error, ImportedKey) result" where
  "ImportKey lib pem pass =
     (if pem = '''' then Inl ErrNotAPrivateKey
      else bindr (parse_imported lib pem pass) (\<lambda>(priv, wasEncrypted).
           bindr (if wasEncrypted then reencodeUnencrypted lib pem pass else Inr pem) (\<lambda>stored.
           Inr \<lparr>ik_PrivateKeyPEM = stored, ik_PublicKey = trim_space (ssh_authorized lib priv),
                ik_Fingerprint = ssh_fingerprint lib priv, ik_KeyType = classifyPublicKey lib priv,
                ik_WasEncrypted = wasEncrypted\<rparr>)))"

text \<open>
  What was imported says truly what was given: the name of the key is that of the key that was
  parsed, and what is stored is the text itself or that key without its passphrase.
\<close>

lemma ImportKey_faithful:
  assumes "ImportKey lib pem pass = Inr ik"
  obtains priv where "ik_Fingerprint ik = ssh_fingerprint lib priv" "ik_PublicKey ik = trim_space (ssh_authorized lib priv)"
    "if ik_WasEncrypted ik then ssh_parse_with lib pem pass = Some priv \<and> ssh_marshal lib priv '''' = Some (ik_PrivateKeyPEM ik)
     else ssh_parse lib pem = ParsedKey priv \<and> ik_PrivateKeyPEM ik = pem"
  using assms
  by (auto simp: ImportKey_def parse_imported_def reencodeUnencrypted_def bindr_Inr_iff
      split: if_split_asm option.split_asm parsed.split_asm)

text \<open>
  A text that is no key at all is told apart from a key only when no passphrase came with it: with
  one, it is reported as a wrong passphrase.
\<close>

lemma not_a_key_reported_as_passphrase:
  assumes "pem \<noteq> ''''" "ssh_parse lib pem = NotParsed" "ssh_parse_with lib pem pass = None"
  shows "ImportKey lib pem pass = Inl (if pass = '''' then ErrNotAPrivateKey else ErrKeyPassphrase)"
  using assms by (simp add: ImportKey_def parse_imported_def)

fun key_type_text :: "KeyType \<Rightarrow> string" where
  "key_type_text KeyEd25519 = ''ed25519''"
| "key_type_text KeyRSA4096 = ''rsa-4096''"
| "key_type_text KeyECDSA256 = ''ecdsa-p256''"
| "key_type_text KeyECDSA384 = ''ecdsa-p384''"
| "key_type_text (KeyTypeText t) = t"

subsection \<open>What the table stands for\<close>

text \<open>
  Each identifier stands for an owner, who is a user or a team, and two secrets. Every owner has one
  vault key at a time; resetting a vault replaces it.
\<close>

record kept =
  k_team :: bool
  k_owner :: string
  k_value :: string
  k_extra :: string

record cred_state =
  cs_key :: "bool \<Rightarrow> string \<Rightarrow> key"
  cs_table :: cred_table
  cs_kept :: "string \<rightharpoonup> kept"

inductive cred_step :: "seal_fn \<Rightarrow> cred_state \<Rightarrow> cred_state \<Rightarrow> bool" for seal where
  created: "i \<notin> c_ID ` set (cs_table s) \<Longrightarrow> length n1 = NonceSize \<Longrightarrow> length n2 = NonceSize
     \<Longrightarrow> cred_Create seal (Some n1) (Some n2) i now (cs_key s (cp_IsTeam p) (cp_OwnerID p)) p (cs_table s) = (db, Inr c)
     \<Longrightarrow> cred_step seal s (s\<lparr>cs_table := db, cs_kept := (cs_kept s)(i \<mapsto>
           \<lparr>k_team = cp_IsTeam p, k_owner = cp_OwnerID p, k_value = cp_Secret p, k_extra = cp_Extra p\<rparr>)\<rparr>)"
| updated: "cred_step seal s (s\<lparr>cs_table := fst (cred_Update now owner i pn pu (cs_table s))\<rparr>)"
| deleted: "cred_Delete owner i (cs_table s) = (db, Inr ()) \<Longrightarrow> cred_step seal s (s\<lparr>cs_table := db, cs_kept := (cs_kept s)(i := None)\<rparr>)"
| used: "cred_step seal s (s\<lparr>cs_table := cred_MarkUsed now i (cs_table s)\<rparr>)"
| vault_reset: "cred_step seal s (s\<lparr>cs_key := (\<lambda>t o'. if \<not> t \<and> o' = u then k else cs_key s t o'),
     cs_table := forget_credentials u (cs_table s),
     cs_kept := (\<lambda>i. case cs_kept s i of None \<Rightarrow> None | Some x \<Rightarrow> if \<not> k_team x \<and> k_owner x = u then None else Some x)\<rparr>)"

definition cred_start :: "(bool \<Rightarrow> string \<Rightarrow> key) \<Rightarrow> cred_state" where
  "cred_start kf = \<lparr>cs_key = kf, cs_table = [], cs_kept = Map.empty\<rparr>"

text \<open>A column holds a text sealed for its place, or nothing for the empty text.\<close>

definition holds_text :: "seal_fn \<Rightarrow> key \<Rightarrow> string \<Rightarrow> string \<Rightarrow> string \<Rightarrow> string \<Rightarrow> sealed_text option \<Rightarrow> bool" where
  "holds_text seal k owner i field text cell \<longleftrightarrow>
     (if text = '''' then cell = None
      else \<exists>n env. length n = NonceSize \<and> Seal seal (Some n) k (CredentialAAD owner i field) (bytes_of text) = Inr env
             \<and> cell = Some (SealedText env))"

definition cred_row_ok :: "seal_fn \<Rightarrow> cred_state \<Rightarrow> cred_row \<Rightarrow> bool" where
  "cred_row_ok seal s r \<longleftrightarrow> (\<exists>x. cs_kept s (c_ID r) = Some x \<and> row_owner r = k_owner x \<and> is_team_row r = k_team x \<and> k_owner x \<noteq> ''''
     \<and> c_user_id r = (if k_team x then None else Some (k_owner x)) \<and> c_team_id r = (if k_team x then Some (k_owner x) else None)
     \<and> holds_text seal (cs_key s (k_team x) (k_owner x)) (k_owner x) (c_ID r) fieldSecret (k_value x) (c_secret_enc r)
     \<and> holds_text seal (cs_key s (k_team x) (k_owner x)) (k_owner x) (c_ID r) fieldExtra (k_extra x) (c_secret_extra_enc r))"

definition creds_ok :: "seal_fn \<Rightarrow> cred_state \<Rightarrow> bool" where
  "creds_ok seal s \<longleftrightarrow> distinct (map c_ID (cs_table s)) \<and> dom (cs_kept s) = c_ID ` set (cs_table s)
     \<and> (\<forall>r \<in> set (cs_table s). cred_row_ok seal s r)"

lemma sealField_holds:
  assumes "sealField seal (Some n) k owner i field text = Inr cell" and "length n = NonceSize"
  shows "holds_text seal k owner i field text cell"
  using assms by (auto simp: sealField_def holds_text_def split: if_split_asm sum.split_asm)

lemma openField_holds:
  assumes "aead seal unseal" and "holds_text seal k owner i field text cell"
  shows "openField unseal k owner i field cell = Inr text"
  using assms Open_sealed [OF assms(1)]
  by (cases "text = ''''") (auto simp: holds_text_def openField_def)

text \<open>With another key, or in another place, nothing opens.\<close>

lemma openField_elsewhere:
  assumes "aead seal unseal" and "authentic seal unseal" and "holds_text seal k owner i field text cell" and "text \<noteq> ''''"
    and other: "k' = k \<longleftrightarrow> (owner', i', field') \<noteq> (owner, i, field)"
  shows "\<exists>e. openField unseal k' owner' i' field' cell = Inl (DecryptField e)"
proof -
  from assms(3,4) obtain n env where env: "Seal seal (Some n) k (CredentialAAD owner i field) (bytes_of text) = Inr env"
    and cell: "cell = Some (SealedText env)" by (auto simp: holds_text_def)
  have "Open unseal k' (CredentialAAD owner' i' field') env \<noteq> Inr q" for q
  proof
    assume opened: "Open unseal k' (CredentialAAD owner' i' field') env = Inr q"
    have "CredentialAAD owner' i' field' \<noteq> CredentialAAD owner i field \<or> k' \<noteq> k"
      using other by (auto simp: CredentialAAD_def)
    moreover have "k' = k" if "CredentialAAD owner' i' field' = CredentialAAD owner i field"
      using Open_unseals [OF opened] Seal_env [OF env] assms(2) unfolding that authentic_def by metis
    ultimately show False using Open_sealed_iff [OF assms(1) env] opened other by (auto simp: CredentialAAD_def)
  qed
  then show ?thesis by (cases "Open unseal k' (CredentialAAD owner' i' field') env") (auto simp: openField_def cell)
qed

lemma find_cred_Some: "distinct (map c_ID db) \<Longrightarrow> find_cred db i = Some r \<longleftrightarrow> r \<in> set db \<and> c_ID r = i"
  by (induction db) (auto simp: find_cred_def)

lemma find_cred_None: "find_cred db i = None \<longleftrightarrow> i \<notin> c_ID ` set db"
  by (auto simp: find_cred_def find_None_iff)

lemma edit_cred_ids [simp]: "(\<And>r. c_ID (f r) = c_ID r) \<Longrightarrow> map c_ID (edit_cred i f db) = map c_ID db"
  by (simp add: edit_cred_def)

lemma creds_ok_edit:
  assumes "creds_ok seal s" and "\<And>r. c_ID (f r) = c_ID r \<and> c_user_id (f r) = c_user_id r \<and> c_team_id (f r) = c_team_id r
      \<and> c_secret_enc (f r) = c_secret_enc r \<and> c_secret_extra_enc (f r) = c_secret_extra_enc r"
  shows "creds_ok seal (s\<lparr>cs_table := edit_cred i f (cs_table s)\<rparr>)"
proof -
  have row: "cred_row_ok seal (s\<lparr>cs_table := db\<rparr>) (if c_ID r = i then f r else r) \<longleftrightarrow> cred_row_ok seal s r" for db r
    using assms(2) [of r] by (simp add: cred_row_ok_def row_owner_def is_team_row_def)
  have ids: "map c_ID (edit_cred i f (cs_table s)) = map c_ID (cs_table s)" using assms(2) by simp
  then have "c_ID ` set (edit_cred i f (cs_table s)) = c_ID ` set (cs_table s)" by (metis set_map)
  moreover have "\<forall>r \<in> set (edit_cred i f (cs_table s)). cred_row_ok seal (s\<lparr>cs_table := edit_cred i f (cs_table s)\<rparr>) r"
    using assms(1) unfolding edit_cred_def list.set_map ball_simps row creds_ok_def by blast
  ultimately show ?thesis using assms(1) ids by (simp add: creds_ok_def)
qed

lemma creds_ok_without:
  assumes "creds_ok seal s" and "cs_table s' = filter P (cs_table s)"
    and "\<And>r x. r \<in> set (cs_table s) \<Longrightarrow> cs_kept s (c_ID r) = Some x \<Longrightarrow> cred_row_ok seal s r \<Longrightarrow> P r
           \<Longrightarrow> cs_kept s' (c_ID r) = Some x \<and> cs_key s' (k_team x) (k_owner x) = cs_key s (k_team x) (k_owner x)"
    and "\<And>r x. r \<in> set (cs_table s) \<Longrightarrow> cred_row_ok seal s r \<Longrightarrow> \<not> P r \<Longrightarrow> cs_kept s' (c_ID r) = None"
    and "dom (cs_kept s') \<subseteq> dom (cs_kept s)"
  shows "creds_ok seal s'"
proof -
  from assms(1) have d: "distinct (map c_ID (cs_table s))" and dom: "dom (cs_kept s) = c_ID ` set (cs_table s)"
    and rows: "\<And>r. r \<in> set (cs_table s) \<Longrightarrow> cred_row_ok seal s r" by (auto simp: creds_ok_def)
  have "cred_row_ok seal s' r" if "r \<in> set (cs_table s)" "P r" for r
    using rows [OF that(1)] assms(3) [OF that(1) _ rows [OF that(1)] that(2)] by (auto simp: cred_row_ok_def)
  moreover have "dom (cs_kept s') = c_ID ` set (cs_table s')"
  proof
    show "dom (cs_kept s') \<subseteq> c_ID ` set (cs_table s')"
    proof
      fix i assume i: "i \<in> dom (cs_kept s')"
      with assms(5) dom obtain r where "r \<in> set (cs_table s)" "c_ID r = i" by auto
      with i assms(2) assms(4) [of r] rows show "i \<in> c_ID ` set (cs_table s')" by (cases "P r") auto
    qed
    show "c_ID ` set (cs_table s') \<subseteq> dom (cs_kept s')"
      using assms(2,3) rows dom by (fastforce simp: cred_row_ok_def)
  qed
  ultimately show ?thesis using assms(2) d by (simp add: creds_ok_def distinct_map_filter)
qed

lemma creds_ok_created:
  assumes ok: "creds_ok seal s" and new: "i \<notin> c_ID ` set (cs_table s)" and n: "length n1 = NonceSize" "length n2 = NonceSize"
    and create: "cred_Create seal (Some n1) (Some n2) i now (cs_key s (cp_IsTeam p) (cp_OwnerID p)) p (cs_table s) = (db, Inr c)"
  shows "creds_ok seal (s\<lparr>cs_table := db, cs_kept := (cs_kept s)(i \<mapsto>
    \<lparr>k_team = cp_IsTeam p, k_owner = cp_OwnerID p, k_value = cp_Secret p, k_extra = cp_Extra p\<rparr>)\<rparr>)"
    (is "creds_ok seal ?s")
proof -
  let ?k = "cs_key s (cp_IsTeam p) (cp_OwnerID p)"
  from create obtain a b where a: "sealField seal (Some n1) ?k (cp_OwnerID p) i fieldSecret (cp_Secret p) = Inr a"
    and b: "sealField seal (Some n2) ?k (cp_OwnerID p) i fieldExtra (cp_Extra p) = Inr b" and owner: "cp_OwnerID p \<noteq> ''''"
    and db: "\<exists>r. db = cs_table s @ [r] \<and> c_ID r = i \<and> c_user_id r = (if cp_IsTeam p then None else Some (cp_OwnerID p))
      \<and> c_team_id r = (if cp_IsTeam p then Some (cp_OwnerID p) else None) \<and> c_secret_enc r = a \<and> c_secret_extra_enc r = b"
    by (auto simp: cred_Create_def bindr_Inr_iff Let_def split: if_split_asm sum.split_asm)
  from db obtain r where r: "db = cs_table s @ [r]" "c_ID r = i" "c_secret_enc r = a" "c_secret_extra_enc r = b"
    "c_user_id r = (if cp_IsTeam p then None else Some (cp_OwnerID p))" "c_team_id r = (if cp_IsTeam p then Some (cp_OwnerID p) else None)"
    by blast
  have "cred_row_ok seal ?s r"
    using r owner sealField_holds [OF a n(1)] sealField_holds [OF b n(2)]
    by (simp add: cred_row_ok_def row_owner_def is_team_row_def)
  moreover have "cred_row_ok seal ?s q" if "q \<in> set (cs_table s)" for q
  proof -
    from that new have "c_ID q \<noteq> i" by blast
    moreover from ok that have "cred_row_ok seal s q" by (simp add: creds_ok_def)
    ultimately show ?thesis by (simp add: cred_row_ok_def)
  qed
  ultimately show ?thesis using ok new r by (auto simp: creds_ok_def)
qed

interpretation credentials: invariant_of "cred_step seal" "creds_ok seal" for seal
proof
  fix s s'
  assume "cred_step seal s s'" and ok: "creds_ok seal s"
  then show "creds_ok seal s'"
  proof cases
    case (created i n1 n2 now p db c)
    with creds_ok_created [OF ok] show ?thesis by blast
  next
    case (updated now owner i pn pu)
    have "\<exists>f. fst (cred_Update now owner i pn pu (cs_table s)) = edit_cred i f (cs_table s)
        \<and> (\<forall>r. c_ID (f r) = c_ID r \<and> c_user_id (f r) = c_user_id r \<and> c_team_id (f r) = c_team_id r
            \<and> c_secret_enc (f r) = c_secret_enc r \<and> c_secret_extra_enc (f r) = c_secret_extra_enc r)"
      if "fst (cred_Update now owner i pn pu (cs_table s)) \<noteq> cs_table s"
      using that unfolding cred_Update_def Let_def
      by (auto intro!: exI split: sum.split_asm sum.split option.split if_split_asm)
    with creds_ok_edit [OF ok] ok updated show ?thesis
      by (cases "fst (cred_Update now owner i pn pu (cs_table s)) = cs_table s") force+
  next
    case (deleted owner i db)
    then have db: "db = filter (\<lambda>r. c_ID r \<noteq> i) (cs_table s)" by (auto simp: cred_Delete_def split: sum.split_asm)
    show ?thesis unfolding deleted(1) by (rule creds_ok_without [OF ok, where P = "\<lambda>r. c_ID r \<noteq> i"]) (auto simp: db)
  next
    case (used now i)
    with creds_ok_edit [OF ok] show ?thesis by (simp add: cred_MarkUsed_def)
  next
    case (vault_reset u k)
    show ?thesis unfolding vault_reset
      by (rule creds_ok_without [OF ok, where P = "\<lambda>r. c_user_id r \<noteq> Some u"])
        (auto simp: forget_credentials_def cred_row_ok_def split: option.split_asm if_split_asm)
  qed
qed

lemma creds_ok_start: "creds_ok seal (cred_start kf)"
  by (simp add: creds_ok_def cred_start_def)

lemma kept_row:
  assumes ok: "creds_ok seal s" and x: "cs_kept s i = Some x"
  obtains r where "r \<in> set (cs_table s)" "c_ID r = i" "find_cred (cs_table s) i = Some r" "row_owner r = k_owner x" "is_team_row r = k_team x"
    "holds_text seal (cs_key s (k_team x) (k_owner x)) (k_owner x) i fieldSecret (k_value x) (c_secret_enc r)"
    "holds_text seal (cs_key s (k_team x) (k_owner x)) (k_owner x) i fieldExtra (k_extra x) (c_secret_extra_enc r)"
proof -
  from ok x have "i \<in> c_ID ` set (cs_table s)" unfolding creds_ok_def by (metis domI)
  then obtain r where r: "r \<in> set (cs_table s)" "c_ID r = i" by blast
  with ok have "cred_row_ok seal s r" "find_cred (cs_table s) i = Some r" by (simp_all add: creds_ok_def find_cred_Some)
  with r x that show ?thesis by (auto simp: cred_row_ok_def)
qed

lemma fields_differ [simp]: "fieldSecret \<noteq> fieldExtra" "fieldExtra \<noteq> fieldSecret"
  by (simp_all add: fieldSecret_def fieldExtra_def)

lemma Reveal_other_key:
  assumes "aead seal unseal" and "authentic seal unseal" and ok: "creds_ok seal s" and x: "cs_kept s i = Some x"
    and "k_value x \<noteq> '''' \<or> k_extra x \<noteq> ''''" and k: "k \<noteq> cs_key s (k_team x) (k_owner x)"
  shows "\<exists>e. Reveal unseal k (k_owner x) i (cs_table s) = Inl (DecryptField e)"
proof (rule kept_row [OF ok x])
  fix r
  assume r: "find_cred (cs_table s) i = Some r" "row_owner r = k_owner x"
    and secret: "holds_text seal (cs_key s (k_team x) (k_owner x)) (k_owner x) i fieldSecret (k_value x) (c_secret_enc r)"
    and extra: "holds_text seal (cs_key s (k_team x) (k_owner x)) (k_owner x) i fieldExtra (k_extra x) (c_secret_extra_enc r)"
  show ?thesis
  proof (cases "k_value x = ''''")
    case False
    from openField_elsewhere [OF assms(1,2) secret False, of k "k_owner x" i fieldSecret] k r
    show ?thesis by (auto simp: Reveal_def)
  next
    case True
    with assms(5) have "k_extra x \<noteq> ''''" by simp
    from openField_elsewhere [OF assms(1,2) extra this, of k "k_owner x" i fieldExtra] k r True secret
    show ?thesis by (auto simp: Reveal_def holds_text_def openField_def)
  qed
qed

lemma cred_List_ids:
  assumes ok: "creds_ok seal s"
  shows "cr_ID ` set (cred_List owner team (cs_table s)) = {i. \<exists>x. cs_kept s i = Some x \<and> k_team x = team \<and> k_owner x = owner}"
proof -
  have "cr_ID ` set (cred_List owner team (cs_table s))
      = c_ID ` {r \<in> set (cs_table s). (if team then c_team_id r else c_user_id r) = Some owner}"
    by (auto simp: cred_List_def scanCredential_def image_image)
  also have "\<dots> = {i. \<exists>x. cs_kept s i = Some x \<and> k_team x = team \<and> k_owner x = owner}"
  proof (intro set_eqI iffI)
    fix i assume "i \<in> c_ID ` {r \<in> set (cs_table s). (if team then c_team_id r else c_user_id r) = Some owner}"
    with ok show "i \<in> {i. \<exists>x. cs_kept s i = Some x \<and> k_team x = team \<and> k_owner x = owner}"
      by (auto simp: creds_ok_def cred_row_ok_def split: if_split_asm)
  next
    fix i assume "i \<in> {i. \<exists>x. cs_kept s i = Some x \<and> k_team x = team \<and> k_owner x = owner}"
    then obtain x where x: "cs_kept s i = Some x" "k_team x = team" "k_owner x = owner" by blast
    from ok x(1) obtain r where "r \<in> set (cs_table s)" "c_ID r = i" by (rule kept_row)
    moreover from this ok have "cred_row_ok seal s r" by (simp add: creds_ok_def)
    ultimately
    show "i \<in> c_ID ` {r \<in> set (cs_table s). (if team then c_team_id r else c_user_id r) = Some owner}"
      using x by (auto simp: cred_row_ok_def)
  qed
  finally show ?thesis .
qed

text \<open>C22 (refinement). The store implements a map from identifiers to an owner and two secrets: whatever
  is created, renamed, deleted, used and whatever vaults are reset, revealing an identifier gives
  its owner, under the owner's key, exactly the secrets it was created with; anybody else is told it
  does not exist; another key opens nothing; and a sealed column put into another field, another row
  or another owner's row does not open there with the key it was sealed under. A listing shows
  exactly the owner's credentials.\<close>

theorem credentials_revealed_to_owner:
  assumes run: "(cred_step seal)\<^sup>*\<^sup>* (cred_start kf) s" and aead: "aead seal unseal" and auth: "authentic seal unseal"
  shows "(case cs_kept s i of
       None \<Rightarrow> Reveal unseal k owner i (cs_table s) = Inl CredNotFound
     | Some x \<Rightarrow>
         (if k_owner x \<noteq> owner then Reveal unseal k owner i (cs_table s) = Inl CredNotFound
          else if k_value x = '''' \<and> k_extra x = '''' then Reveal unseal k owner i (cs_table s) = Inl ErrNoSecret
          else if k = cs_key s (k_team x) owner
          then Reveal unseal k owner i (cs_table s) = Inr \<lparr>se_Value = k_value x, se_Extra = k_extra x\<rparr>
          else \<exists>e. Reveal unseal k owner i (cs_table s) = Inl (DecryptField e)))
    \<and> (\<forall>r \<in> set (cs_table s). \<forall>(field, cell) \<in> {(fieldSecret, c_secret_enc r), (fieldExtra, c_secret_extra_enc r)}.
         cell \<noteq> None \<longrightarrow> (owner', i', field') \<noteq> (row_owner r, c_ID r, field)
           \<longrightarrow> (\<exists>e. openField unseal (cs_key s (is_team_row r) (row_owner r)) owner' i' field' cell = Inl (DecryptField e)))
    \<and> cr_ID ` set (cred_List owner team (cs_table s)) = {i. \<exists>x. cs_kept s i = Some x \<and> k_team x = team \<and> k_owner x = owner}"
    (is "?reveal \<and> ?moved \<and> ?list")
proof (intro conjI)
  have ok: "creds_ok seal s" using credentials.run_inv [OF run] creds_ok_start by blast
  show ?list by (rule cred_List_ids [OF ok])
  show ?reveal
  proof (cases "cs_kept s i")
    case None
    with ok have "find_cred (cs_table s) i = None" unfolding find_cred_None creds_ok_def by blast
    with None show ?thesis by (simp add: Reveal_def)
  next
    case (Some x)
    from ok Some obtain r where r: "find_cred (cs_table s) i = Some r" "row_owner r = k_owner x"
      and holds: "holds_text seal (cs_key s (k_team x) (k_owner x)) (k_owner x) i fieldSecret (k_value x) (c_secret_enc r)"
        "holds_text seal (cs_key s (k_team x) (k_owner x)) (k_owner x) i fieldExtra (k_extra x) (c_secret_extra_enc r)"
      by (rule kept_row)
    have opens: "Reveal unseal k (k_owner x) i (cs_table s)
        = (if k_value x = '''' \<and> k_extra x = '''' then Inl ErrNoSecret else Inr \<lparr>se_Value = k_value x, se_Extra = k_extra x\<rparr>)"
      if "k = cs_key s (k_team x) (k_owner x) \<or> k_value x = '''' \<and> k_extra x = ''''"
      using that r holds openField_holds [OF aead holds(1)] openField_holds [OF aead holds(2)]
      by (auto simp: Reveal_def holds_text_def openField_def)
    show ?thesis
      using Some r opens Reveal_other_key [OF aead auth ok Some, of k] by (auto simp: Reveal_def)
  qed
  show ?moved
  proof (rule ballI, rule ballI, unfold split_beta, intro impI)
    fix r fc
    assume r: "r \<in> set (cs_table s)" and fc: "fc \<in> {(fieldSecret, c_secret_enc r), (fieldExtra, c_secret_extra_enc r)}"
      and there: "snd fc \<noteq> None" and other: "(owner', i', field') \<noteq> (row_owner r, c_ID r, fst fc)"
    from ok r obtain pt where "holds_text seal (cs_key s (is_team_row r) (row_owner r)) (row_owner r) (c_ID r) (fst fc) pt (snd fc)"
      using fc by (auto simp: creds_ok_def cred_row_ok_def)
    moreover from this there have "pt \<noteq> ''''" by (auto simp: holds_text_def)
    ultimately show "\<exists>e. openField unseal (cs_key s (is_team_row r) (row_owner r)) owner' i' field' (snd fc) = Inl (DecryptField e)"
      using openField_elsewhere [OF aead auth] other by blast
  qed
qed

definition sample_cred :: CredentialParams where
  "sample_cred = \<lparr>cp_OwnerID = ''ann'', cp_IsTeam = False, cp_Name = ''core'', cp_Kind = KindPassword, cp_Username = ''root'',
     cp_Secret = ''hunter2'', cp_Extra = '''', cp_PublicKey = '''', cp_Fingerprint = '''', cp_KeyType = ''''\<rparr>"

definition sample_creds :: cred_state where
  "sample_creds =
     (let s = cred_start (\<lambda>_ _. demo_key);
          db = fst (cred_Create keyed_seal (Some (replicate 12 3)) (Some (replicate 12 4)) ''c1'' 0 demo_key sample_cred (cs_table s))
      in s\<lparr>cs_table := db, cs_kept := (cs_kept s)(''c1'' \<mapsto> \<lparr>k_team = False, k_owner = ''ann'', k_value = ''hunter2'', k_extra = ''''\<rparr>)\<rparr>)"

theorem credentials_revealed_to_owner_witness:
  "Reveal keyed_open demo_key ''ann'' ''c1'' (cs_table sample_creds) = Inr \<lparr>se_Value = ''hunter2'', se_Extra = ''''\<rparr>
    \<and> Reveal keyed_open demo_key ''bob'' ''c1'' (cs_table sample_creds) = Inl CredNotFound
    \<and> (\<exists>e. Reveal keyed_open (replicate 32 9) ''ann'' ''c1'' (cs_table sample_creds) = Inl (DecryptField e))
    \<and> cr_ID ` set (cred_List ''ann'' False (cs_table sample_creds)) = {''c1''}"
proof -
  let ?s = "cred_start (\<lambda>_ _. demo_key)"
  have aad: "Validate_aad (CredentialAAD ''ann'' ''c1'' f) = Inr ()" if "length f \<le> 1024" for f
    using that by (simp add: Validate_aad_def CredentialAAD_def aad_parts_def MaxAADComponent_def)
  then have ok: "\<exists>c. snd (cred_Create keyed_seal (Some (replicate 12 3)) (Some (replicate 12 4)) ''c1'' 0 demo_key sample_cred (cs_table ?s)) = Inr c"
    by (simp add: cred_Create_def sample_cred_def trim_space_def Validate_cred_kind_def sealField_def Seal_def demo_key_valid
        fieldSecret_def Let_def is_space_def)
  then obtain db c where c: "cred_Create keyed_seal (Some (replicate 12 3)) (Some (replicate 12 4)) ''c1'' 0 demo_key sample_cred (cs_table ?s) = (db, Inr c)"
    by (metis prod.collapse)
  have "cred_step keyed_seal ?s sample_creds"
    using created [of "''c1''" ?s "replicate 12 3" "replicate 12 4" keyed_seal 0 sample_cred db c] c
    by (simp add: sample_creds_def cred_start_def NonceSize_def sample_cred_def)
  then have "(cred_step keyed_seal)\<^sup>*\<^sup>* ?s sample_creds" by (rule r_into_rtranclp)
  note revealed = credentials_revealed_to_owner [OF this keyed_ideal]
  have kept: "cs_kept sample_creds = [''c1'' \<mapsto> \<lparr>k_team = False, k_owner = ''ann'', k_value = ''hunter2'', k_extra = ''''\<rparr>]"
    "cs_key sample_creds = (\<lambda>_ _. demo_key)" by (simp_all add: sample_creds_def cred_start_def Let_def)
  show ?thesis
    using revealed [where i = "''c1''" and k = demo_key and owner = "''ann''" and team = False]
      revealed [where i = "''c1''" and k = demo_key and owner = "''bob''"]
      revealed [where i = "''c1''" and k = "replicate 32 9" and owner = "''ann''"]
    by (simp add: kept demo_key_def split: if_split_asm)
qed

end
