(* ===== verification/Auth_Throttle.thy ===== *)
theory Auth_Throttle
  imports Auth_Sessions
begin

section \<open>Throttling of guesses (\<^verbatim>\<open>internal/auth/ratelimit.go\<close>)\<close>

text \<open>
  Failed attempts are counted per account and per address, in a table that outlives the process and
  in a cache in front of it. Every caller has the same shape: check each counter, verify a secret,
  and record the outcome on each counter. Requests run side by side and verifying takes long, so the
  checks (\<open>first_refusal\<close>) and the recording (\<open>finish_attempt\<close>) are separate steps between which
  other attempts come; \<open>attempt\<close> is the two with nothing between. The verdict on the secret is an
  argument: right, wrong, or neither when the verification could not be made. The handlers ignore
  errors from recording, and the database always answers here.
  The table is queried by the text of a time, see \<open>text_before\<close>.
\<close>

subsection \<open>Limits and counters\<close>

record ThrottleConfig =
  MaxPerAccount :: int
  MaxPerAddress :: int
  Window :: int
  LockoutDuration :: int

definition DefaultThrottleConfig :: ThrottleConfig where
  "DefaultThrottleConfig = \<lparr>MaxPerAccount = 5, MaxPerAddress = 30, Window = 15 * minute, LockoutDuration = 15 * minute\<rparr>"

datatype throttle_error = AccountBelowOne | AddressBelowAccount | WindowNotPositive | LockoutNotPositive

text \<open>\<^verbatim>\<open>errors.Join\<close> of no error is no error.\<close>

definition Validate_throttle :: "ThrottleConfig \<Rightarrow> throttle_error list" where
  "Validate_throttle c =
     (if MaxPerAccount c < 1 then [AccountBelowOne] else [])
     @ (if MaxPerAddress c < MaxPerAccount c then [AddressBelowAccount] else [])
     @ (if Window c \<le> 0 then [WindowNotPositive] else [])
     @ (if LockoutDuration c \<le> 0 then [LockoutNotPositive] else [])"

datatype AttemptKind = AttemptAccount | AttemptAddress

fun kind_text :: "AttemptKind \<Rightarrow> string" where
  "kind_text AttemptAccount = ''account''"
| "kind_text AttemptAddress = ''ip''"

record login_attempt =
  la_identifier :: string
  la_kind :: AttemptKind
  la_at :: int
  la_failure :: bool

record Throttle =
  recent :: "string \<rightharpoonup> int list"
  login_attempts :: "login_attempt list"

definition NewThrottle :: "login_attempt list \<Rightarrow> Throttle" where
  "NewThrottle rows = \<lparr>recent = Map.empty, login_attempts = rows\<rparr>"

definition cacheKey :: "AttemptKind \<Rightarrow> string \<Rightarrow> string" where
  "cacheKey kind ident = kind_text kind @ CHR 0x00 # ident"

definition limit_of :: "ThrottleConfig \<Rightarrow> AttemptKind \<Rightarrow> int" where
  "limit_of cfg kind = (if kind = AttemptAddress then MaxPerAddress cfg else MaxPerAccount cfg)"

text \<open>The zero value of \<^verbatim>\<open>time.Time\<close>, and the loop that counts a cached list.\<close>

definition zero_time :: int where "zero_time = - 62135596800 * second"

fun count_cached :: "int \<Rightarrow> int list \<Rightarrow> int \<times> int \<Rightarrow> int \<times> int" where
  "count_cached cutoff [] acc = acc"
| "count_cached cutoff (at # ats) (n, oldest) =
     count_cached cutoff ats
       (if at > cutoff then (n + 1, if oldest = zero_time \<or> at < oldest then at else oldest) else (n, oldest))"

definition count_stored :: "int \<Rightarrow> AttemptKind \<Rightarrow> string \<Rightarrow> login_attempt list \<Rightarrow> int \<times> int" where
  "count_stored cutoff kind ident rows =
     (let ts = sort_key rfc3339_nano
            (map la_at (filter (\<lambda>r. la_identifier r = ident \<and> la_kind r = kind \<and> la_failure r \<and> text_before cutoff (la_at r)) rows))
      in case ts of [] \<Rightarrow> (0, zero_time) | oldest # _ \<Rightarrow> (int (length ts), oldest))"

definition countFailures :: "ThrottleConfig \<Rightarrow> int \<Rightarrow> AttemptKind \<Rightarrow> string \<Rightarrow> Throttle \<Rightarrow> int \<times> int" where
  "countFailures cfg now kind ident t =
     (let cutoff = now - Window cfg;
          cached = (case recent t (cacheKey kind ident) of None \<Rightarrow> (0, zero_time) | Some ats \<Rightarrow> count_cached cutoff ats (0, zero_time))
      in if fst cached > 0 then cached else count_stored cutoff kind ident (login_attempts t))"

record ErrRateLimited =
  RetryAfter :: int
  Scope :: AttemptKind

definition throttle_Check :: "ThrottleConfig \<Rightarrow> int \<Rightarrow> AttemptKind \<Rightarrow> string \<Rightarrow> Throttle \<Rightarrow> (ErrRateLimited, unit) result" where
  "throttle_Check cfg now kind ident t =
     (if ident = '''' then Inr ()
      else let (failures, oldest) = countFailures cfg now kind ident t
           in if failures < limit_of cfg kind then Inr ()
              else let retry = oldest + LockoutDuration cfg - now
                   in if retry \<le> 0 then Inr () else Inl \<lparr>RetryAfter = retry, Scope = kind\<rparr>)"

definition RecordFailure :: "int \<Rightarrow> AttemptKind \<Rightarrow> string \<Rightarrow> Throttle \<Rightarrow> Throttle" where
  "RecordFailure now kind ident t =
     (if ident = '''' then t
      else let key = cacheKey kind ident
           in t\<lparr>recent := (recent t)(key \<mapsto> (case recent t key of None \<Rightarrow> [] | Some ats \<Rightarrow> ats) @ [now]),
                login_attempts := login_attempts t @ [\<lparr>la_identifier = ident, la_kind = kind, la_at = now, la_failure = True\<rparr>]\<rparr>)"

definition RecordSuccess :: "int \<Rightarrow> AttemptKind \<Rightarrow> string \<Rightarrow> Throttle \<Rightarrow> Throttle" where
  "RecordSuccess now kind ident t =
     (if ident = '''' then t
      else t\<lparr>recent := (recent t)(cacheKey kind ident := None),
             login_attempts := filter (\<lambda>r. \<not> (la_identifier r = ident \<and> la_kind r = kind \<and> la_failure r)) (login_attempts t)
               @ [\<lparr>la_identifier = ident, la_kind = kind, la_at = now, la_failure = False\<rparr>]\<rparr>)"

definition throttle_Purge :: "int \<Rightarrow> int \<Rightarrow> Throttle \<Rightarrow> Throttle \<times> nat" where
  "throttle_Purge now retain t =
     (let cutoff = now - retain;
          old = (\<lambda>r. text_before (la_at r) cutoff)
      in (t\<lparr>recent := (\<lambda>k. case recent t k of None \<Rightarrow> None
                          | Some ats \<Rightarrow> let kept = filter (\<lambda>at. at > cutoff) ats in if kept = [] then None else Some kept),
            login_attempts := filter (\<lambda>r. \<not> old r) (login_attempts t)\<rparr>,
          length (filter old (login_attempts t))))"

subsection \<open>An attempt\<close>

datatype outcome = Refused ErrRateLimited | Passed | Failed | Unverified

fun first_refusal :: "ThrottleConfig \<Rightarrow> int \<Rightarrow> (AttemptKind \<times> string) list \<Rightarrow> Throttle \<Rightarrow> ErrRateLimited option" where
  "first_refusal cfg now [] t = None"
| "first_refusal cfg now ((kind, ident) # ks) t =
     (case throttle_Check cfg now kind ident t of Inl e \<Rightarrow> Some e | Inr _ \<Rightarrow> first_refusal cfg now ks t)"

definition record_all :: "(AttemptKind \<Rightarrow> string \<Rightarrow> Throttle \<Rightarrow> Throttle) \<Rightarrow> (AttemptKind \<times> string) list \<Rightarrow> Throttle \<Rightarrow> Throttle" where
  "record_all f ks t = foldl (\<lambda>t (kind, ident). f kind ident t) t ks"

definition finish_attempt :: "int \<Rightarrow> (AttemptKind \<times> string) list \<Rightarrow> bool option \<Rightarrow> Throttle \<Rightarrow> Throttle \<times> outcome" where
  "finish_attempt now ks verdict t =
     (case verdict of
        Some True \<Rightarrow> (record_all (RecordSuccess now) ks t, Passed)
      | Some False \<Rightarrow> (record_all (RecordFailure now) ks t, Failed)
      | None \<Rightarrow> (t, Unverified))"

definition attempt :: "ThrottleConfig \<Rightarrow> int \<Rightarrow> (AttemptKind \<times> string) list \<Rightarrow> bool option \<Rightarrow> Throttle \<Rightarrow> Throttle \<times> outcome" where
  "attempt cfg now ks verdict t =
     (case first_refusal cfg now ks t of Some e \<Rightarrow> (t, Refused e) | None \<Rightarrow> finish_attempt now ks verdict t)"

text \<open>Who is counted: a sign-in by address and account, the other secrets by account.\<close>

definition login_counters :: "string \<Rightarrow> string \<Rightarrow> (AttemptKind \<times> string) list" where
  "login_counters ip email = [(AttemptAddress, ip), (AttemptAccount, email)]"

definition secret_counters :: "string \<Rightarrow> string \<Rightarrow> (AttemptKind \<times> string) list" where
  "secret_counters what user = [(AttemptAccount, what @ '':'' @ user)]"

datatype throttle_op = TLogin string string "bool option" | TSecret string string "bool option" | TPurge int

fun throttle_step :: "ThrottleConfig \<Rightarrow> Throttle \<Rightarrow> int \<times> throttle_op \<Rightarrow> Throttle \<times> outcome option" where
  "throttle_step cfg t (now, TLogin ip email good) = map_prod id Some (attempt cfg now (login_counters ip email) good t)"
| "throttle_step cfg t (now, TSecret what user good) = map_prod id Some (attempt cfg now (secret_counters what user) good t)"
| "throttle_step cfg t (now, TPurge retain) = (fst (throttle_Purge now retain t), None)"

fun counters :: "throttle_op \<Rightarrow> (AttemptKind \<times> string) list" where
  "counters (TLogin ip email good) = login_counters ip email"
| "counters (TSecret what user good) = secret_counters what user"
| "counters (TPurge retain) = []"

fun verdict_of :: "throttle_op \<Rightarrow> bool option" where
  "verdict_of (TLogin ip email v) = v"
| "verdict_of (TSecret what user v) = v"
| "verdict_of (TPurge retain) = None"

text \<open>A run of attempts one after another, with the guesses that reached the secret and were wrong, the latest first.\<close>

fun throttle_run :: "ThrottleConfig \<Rightarrow> Throttle \<times> (int \<times> throttle_op) list \<Rightarrow> (int \<times> throttle_op) list \<Rightarrow> Throttle \<times> (int \<times> throttle_op) list" where
  "throttle_run cfg s [] = s"
| "throttle_run cfg (t, log) (e # h) =
     (case throttle_step cfg t e of (t', out) \<Rightarrow> throttle_run cfg (t', if out = Some Failed then e # log else log) h)"

text \<open>
  Attempts side by side: the ones that passed the checks and are not recorded yet, and the guesses
  that were verified and wrong, by the time they were recorded, the earliest first.
\<close>

record guessing =
  gs_throttle :: Throttle
  gs_open :: "throttle_op list"
  gs_wrong :: "(int \<times> throttle_op) list"

datatype throttle_event = Begins throttle_op | Ends nat | Purges int

fun guess_step :: "ThrottleConfig \<Rightarrow> guessing \<Rightarrow> int \<times> throttle_event \<Rightarrow> guessing" where
  "guess_step cfg g (now, Begins op) =
     (if first_refusal cfg now (counters op) (gs_throttle g) = None then g\<lparr>gs_open := gs_open g @ [op]\<rparr> else g)"
| "guess_step cfg g (now, Ends i) =
     (if i < length (gs_open g)
      then let op = gs_open g ! i in
        case finish_attempt now (counters op) (verdict_of op) (gs_throttle g) of (t, out) \<Rightarrow>
          \<lparr>gs_throttle = t, gs_open = take i (gs_open g) @ drop (Suc i) (gs_open g),
           gs_wrong = (if out = Failed then gs_wrong g @ [(now, op)] else gs_wrong g)\<rparr>
      else g)"
| "guess_step cfg g (now, Purges retain) = g\<lparr>gs_throttle := fst (throttle_Purge now retain (gs_throttle g))\<rparr>"

definition guess_run :: "ThrottleConfig \<Rightarrow> login_attempt list \<Rightarrow> (int \<times> throttle_event) list \<Rightarrow> guessing" where
  "guess_run cfg rows h = foldl (guess_step cfg) \<lparr>gs_throttle = NewThrottle rows, gs_open = [], gs_wrong = []\<rparr> h"

definition open_on :: "AttemptKind \<Rightarrow> string \<Rightarrow> guessing \<Rightarrow> nat" where
  "open_on kind ident g = length (filter (\<lambda>op. (kind, ident) \<in> set (counters op)) (gs_open g))"

definition guesses_at :: "AttemptKind \<Rightarrow> string \<Rightarrow> (int \<times> throttle_op) list \<Rightarrow> int list" where
  "guesses_at kind ident log = map fst (filter (\<lambda>(_, op). (kind, ident) \<in> set (counters op)) log)"

subsection \<open>A sliding window\<close>

text \<open>
  Times at which something was recorded, in the order of recording, each with the number of
  recordings there were when it was admitted; and the same numbers for what is admitted and not
  recorded yet. Each was admitted at a moment with fewer than \<open>n\<close> recordings in the window before
  it, and there were never more than \<open>m\<close> admitted at once. Then no window of that length holds
  \<open>n + m\<close> recordings: of those in it take the one admitted last; the others were recorded before its
  admission, fewer than \<open>n\<close>, or admitted together with it.
\<close>

definition admitted :: "int \<Rightarrow> int \<Rightarrow> int list \<Rightarrow> int \<Rightarrow> nat \<Rightarrow> bool" where
  "admitted w n gs r k \<longleftrightarrow> k \<le> length gs \<and> (\<exists>b \<le> r. int (length (filter (\<lambda>x. b - w < x) (take k gs))) < n)"

definition overlapping :: "int \<Rightarrow> int \<Rightarrow> nat \<Rightarrow> int \<Rightarrow> (int \<times> nat) list \<Rightarrow> nat list \<Rightarrow> bool" where
  "overlapping w n m now ts os \<longleftrightarrow>
     (\<forall>(r, k) \<in> set ts. admitted w n (map fst ts) r k) \<and> (\<forall>k \<in> set os. admitted w n (map fst ts) now k)
     \<and> (\<forall>k \<le> length ts. length (filter (\<lambda>(_, j). j \<le> k) (drop k ts)) + length (filter (\<lambda>j. j \<le> k) os) \<le> m)"

lemma length_filter_impl: "(\<And>x. x \<in> set xs \<Longrightarrow> P x \<Longrightarrow> Q x) \<Longrightarrow> length (filter P xs) \<le> length (filter Q xs)"
  by (induction xs) (auto simp: le_SucI)

lemma admitted_later: "admitted w n gs r k \<Longrightarrow> r \<le> r' \<Longrightarrow> admitted w n (gs @ hs) r' k"
  using order_trans by (fastforce simp: admitted_def)

lemma overlapping_begin:
  assumes "overlapping w n m now ts os" and "length os < m"
    and "int (length (filter (\<lambda>x. now - w < x) (map fst ts))) < n"
  shows "overlapping w n m now ts (os @ [length ts])"
proof -
  have new: "admitted w n (map fst ts) now (length ts)"
    using assms(3) by (auto simp: admitted_def intro!: exI [of _ now])
  have "length (filter (\<lambda>(_, j). j \<le> k) (drop k ts)) + length (filter (\<lambda>j. j \<le> k) (os @ [length ts])) \<le> m"
    if "k \<le> length ts" for k
  proof (cases "k = length ts")
    case True
    have "length (filter (\<lambda>j. j \<le> k) os) < m" using le_less_trans [OF length_filter_le assms(2)] .
    with True show ?thesis by simp
  qed (use that assms(1) in \<open>auto simp: overlapping_def\<close>)
  with new assms(1) show ?thesis by (simp add: overlapping_def)
qed

lemma overlapping_end:
  assumes "overlapping w n m now ts (k # os)" and "length os \<le> m"
  shows "overlapping w n m now (ts @ [(now, k)]) os" and "overlapping w n m now ts os"
proof -
  have "length (filter (\<lambda>(_, j). j \<le> i) (drop i (ts @ [(now, k)]))) + length (filter (\<lambda>j. j \<le> i) os) \<le> m"
    if "i \<le> Suc (length ts)" for i
  proof (cases "i = Suc (length ts)")
    case True
    with le_trans [OF length_filter_le assms(2), of "\<lambda>j. j \<le> i"] show ?thesis by simp
  next
    case False
    with that have "i \<le> length ts" by simp
    with assms(1) have "length (filter (\<lambda>(_, j). j \<le> i) (drop i ts)) + length (filter (\<lambda>j. j \<le> i) (k # os)) \<le> m"
      by (simp only: overlapping_def)
    with \<open>i \<le> length ts\<close> show ?thesis by (auto split: if_splits)
  qed
  moreover have "admitted w n (map fst ts @ [now]) r j" if "(r, j) \<in> set (ts @ [(now, k)])" for r j
    using that assms(1) by (auto simp: overlapping_def intro: admitted_later)
  moreover have "admitted w n (map fst ts @ [now]) now j" if "j \<in> set os" for j
    using that assms(1) by (auto simp: overlapping_def intro: admitted_later)
  ultimately show "overlapping w n m now (ts @ [(now, k)]) os" unfolding overlapping_def by auto
  have "length (filter (\<lambda>j. j \<le> i) os) \<le> length (filter (\<lambda>j. j \<le> i) (k # os))" for i by simp
  then show "overlapping w n m now ts os" using assms(1) unfolding overlapping_def
    by (meson add_left_mono le_trans list.set_intros(2))
qed

lemma overlapping_later: "overlapping w n m now ts os \<Longrightarrow> now \<le> later \<Longrightarrow> overlapping w n m later ts os"
  using admitted_later [of w n "map fst ts" now _ later "[]"] by (auto simp: overlapping_def)

lemma overlapping_window:
  assumes "overlapping w n m now ts os" and "1 \<le> n"
  shows "int (length (filter (\<lambda>t. a < t \<and> t \<le> a + w) (map fst ts))) \<le> n - 1 + int m"
proof -
  let ?W = "\<lambda>(t, _). a < t \<and> t \<le> a + w"
  let ?S = "filter ?W ts"
  show ?thesis
  proof (cases "?S = []")
    case True
    then have "filter (\<lambda>t. a < t \<and> t \<le> a + w) (map fst ts) = []" by (auto simp: filter_empty_conv)
    with assms(2) show ?thesis by simp
  next
    case False
    define k where "k = Max (snd ` set ?S)"
    have "k \<in> snd ` set ?S" unfolding k_def
      by (rule Max_in) (use False in \<open>simp_all only: finite_imageI finite_set image_is_empty set_empty not_False_eq_True\<close>)
    then obtain x where "x \<in> set ?S" "k = snd x" by blast
    then have "(fst x, k) \<in> set ts \<and> fst x \<le> a + w" unfolding set_filter by (cases x) simp
    then obtain r where r: "(r, k) \<in> set ts" "r \<le> a + w" by blast
    have last: "j \<le> k" if "(t, j) \<in> set ?S" for t j
      unfolding k_def using that by (intro Max_ge) force+
    from assms(1) r(1) have "admitted w n (map fst ts) r k" by (auto simp: overlapping_def)
    then obtain b where b: "b \<le> r" "int (length (filter (\<lambda>x. b - w < x) (take k (map fst ts)))) < n" and k: "k \<le> length ts"
      by (auto simp: admitted_def)
    have "length (filter ?W (take k ts)) \<le> length (filter (\<lambda>x. b - w < x) (take k (map fst ts)))"
      unfolding take_map filter_map length_map using b(1) r(2) by (intro length_filter_impl) auto
    moreover have "length (filter ?W (drop k ts)) \<le> length (filter (\<lambda>(_, j). j \<le> k) (drop k ts))"
      using last in_set_dropD [of _ k ts] by (intro length_filter_impl) fastforce
    moreover have "length (filter (\<lambda>(_, j). j \<le> k) (drop k ts)) \<le> m"
      using assms(1) k unfolding overlapping_def by (meson add_leD1)
    moreover have "length ?S = length (filter ?W (take k ts)) + length (filter ?W (drop k ts))"
      by (metis append_take_drop_id filter_append length_append)
    moreover have "length (filter (\<lambda>t. a < t \<and> t \<le> a + w) (map fst ts)) = length ?S"
      by (simp add: filter_map comp_def case_prod_unfold)
    ultimately show ?thesis using b(2) by linarith
  qed
qed

subsection \<open>What the cache knows\<close>

definition cached_times :: "Throttle \<Rightarrow> AttemptKind \<Rightarrow> string \<Rightarrow> int list" where
  "cached_times t kind ident = (case recent t (cacheKey kind ident) of None \<Rightarrow> [] | Some ats \<Rightarrow> ats)"

lemma cacheKey_inj: "cacheKey kind ident = cacheKey kind' ident' \<longleftrightarrow> kind = kind' \<and> ident = ident'"
  by (cases kind; cases kind') (auto simp: cacheKey_def)

lemma count_cached_count:
  "fst (count_cached c ats (n, old)) = n + int (length (filter (\<lambda>at. c < at) ats))"
  by (induction ats arbitrary: n old) auto

lemma count_cached_oldest:
  assumes "0 \<le> n" and "n = 0 \<or> c < old" and "n + int (length (filter (\<lambda>at. c < at) ats)) > 0"
    and "n = 0 \<Longrightarrow> old = zero_time"
  shows "c < snd (count_cached c ats (n, old))"
  using assms
proof (induction ats arbitrary: n old)
  case (Cons at ats)
  show ?case
  proof (cases "c < at")
    case True
    have "c < snd (count_cached c ats (n + 1, if old = zero_time \<or> at < old then at else old))"
      using True Cons.prems by (intro Cons.IH) auto
    with True show ?thesis by simp
  qed (use Cons in auto)
qed simp

text \<open>While the cache knows of a failure in the window, the answer is made from the cache alone.\<close>

lemma check_from_cache:
  assumes "ident \<noteq> ''''" and fs: "fs = filter (\<lambda>at. now - Window cfg < at) (cached_times t kind ident)" and "fs \<noteq> []"
  shows "countFailures cfg now kind ident t = count_cached (now - Window cfg) (cached_times t kind ident) (0, zero_time)"
    and "fst (countFailures cfg now kind ident t) = int (length fs)"
    and "now - Window cfg < snd (countFailures cfg now kind ident t)"
proof -
  have some: "recent t (cacheKey kind ident) = Some (cached_times t kind ident)"
    using assms(3) by (auto simp: fs cached_times_def split: option.splits)
  have pos: "0 < fst (count_cached (now - Window cfg) (cached_times t kind ident) (0, zero_time))"
    using assms(3) by (simp add: count_cached_count flip: fs)
  show c: "countFailures cfg now kind ident t = count_cached (now - Window cfg) (cached_times t kind ident) (0, zero_time)"
    using some pos by (simp add: countFailures_def Let_def)
  show "fst (countFailures cfg now kind ident t) = int (length fs)" by (simp add: c count_cached_count fs)
  show "now - Window cfg < snd (countFailures cfg now kind ident t)"
    using assms(3) unfolding c fs by (intro count_cached_oldest) auto
qed

text \<open>With a lockout no shorter than the window, an attempt is let through only below the limit.\<close>

lemma check_admits:
  assumes "throttle_Check cfg now kind ident t = Inr ()" and "ident \<noteq> ''''" and "Window cfg \<le> LockoutDuration cfg" and "1 \<le> limit_of cfg kind"
  shows "int (length (filter (\<lambda>at. now - Window cfg < at) (cached_times t kind ident))) < limit_of cfg kind"
proof (cases "filter (\<lambda>at. now - Window cfg < at) (cached_times t kind ident)")
  case Nil
  with assms(4) show ?thesis by simp
next
  case (Cons x xs)
  then have ne: "filter (\<lambda>at. now - Window cfg < at) (cached_times t kind ident) \<noteq> []" by simp
  note c = check_from_cache(2,3) [OF assms(2) refl ne]
  from assms(1,2) have "fst (countFailures cfg now kind ident t) < limit_of cfg kind
      \<or> snd (countFailures cfg now kind ident t) + LockoutDuration cfg - now \<le> 0"
    by (auto simp: throttle_Check_def Let_def split: prod.splits if_splits)
  with c assms(3) show ?thesis by linarith
qed

lemma cached_record:
  assumes "ident \<noteq> ''''"
  shows "cached_times (RecordFailure now k i t) kind ident = cached_times t kind ident @ (if k = kind \<and> i = ident then [now] else [])"
    and "cached_times (RecordSuccess now k i t) kind ident = (if k = kind \<and> i = ident then [] else cached_times t kind ident)"
  using assms by (auto simp: cached_times_def RecordFailure_def RecordSuccess_def Let_def cacheKey_inj)

lemma cached_purge:
  "cached_times (fst (throttle_Purge now retain t)) kind ident = filter (\<lambda>at. now - retain < at) (cached_times t kind ident)"
  by (auto simp: cached_times_def throttle_Purge_def Let_def split: option.splits)

text \<open>An event that neither guesses the secret of a counter right nor forgets its recent failures.\<close>

fun guesses_only :: "ThrottleConfig \<Rightarrow> AttemptKind \<Rightarrow> string \<Rightarrow> throttle_event \<Rightarrow> bool" where
  "guesses_only cfg kind ident (Begins op) \<longleftrightarrow> ((kind, ident) \<in> set (counters op) \<longrightarrow> verdict_of op \<noteq> Some True)"
| "guesses_only cfg kind ident (Ends i) \<longleftrightarrow> True"
| "guesses_only cfg kind ident (Purges retain) \<longleftrightarrow> Window cfg \<le> retain"

text \<open>The cache holds the recent failures of the counter, and the admissions overlap as above.\<close>

definition cache_knows :: "ThrottleConfig \<Rightarrow> AttemptKind \<Rightarrow> string \<Rightarrow> int \<Rightarrow> Throttle \<Rightarrow> int list \<Rightarrow> bool" where
  "cache_knows cfg kind ident now t gs \<longleftrightarrow>
     (\<forall>c \<ge> now - Window cfg. length (filter (\<lambda>x. c < x) (cached_times t kind ident)) = length (filter (\<lambda>x. c < x) gs))"

definition tracked :: "ThrottleConfig \<Rightarrow> AttemptKind \<Rightarrow> string \<Rightarrow> nat \<Rightarrow> int \<Rightarrow> guessing \<Rightarrow> bool" where
  "tracked cfg kind ident m now g \<longleftrightarrow>
     cache_knows cfg kind ident now (gs_throttle g) (guesses_at kind ident (gs_wrong g))
     \<and> (\<forall>op \<in> set (gs_open g). guesses_only cfg kind ident (Begins op))
     \<and> (\<exists>ts os. map fst ts = guesses_at kind ident (gs_wrong g) \<and> length os = open_on kind ident g
          \<and> overlapping (Window cfg) (limit_of cfg kind) m now ts os)"

lemma trackedI:
  assumes "cache_knows cfg kind ident now (gs_throttle g) (guesses_at kind ident (gs_wrong g))"
    and "\<forall>op \<in> set (gs_open g). guesses_only cfg kind ident (Begins op)"
    and "map fst ts = guesses_at kind ident (gs_wrong g)" and "length os = open_on kind ident g"
    and "overlapping (Window cfg) (limit_of cfg kind) m now ts os"
  shows "tracked cfg kind ident m now g"
  using assms unfolding tracked_def by blast

lemma tracked_later: "tracked cfg kind ident m now g \<Longrightarrow> now \<le> later \<Longrightarrow> tracked cfg kind ident m later g"
  unfolding tracked_def cache_knows_def using overlapping_later by (meson diff_right_mono dual_order.trans)

lemma first_refusal_None:
  "first_refusal cfg now ks t = None \<longleftrightarrow> (\<forall>(kind, ident) \<in> set ks. throttle_Check cfg now kind ident t = Inr ())"
  by (induction ks) (auto split: sum.splits)

lemma distinct_counters: "distinct (counters op)"
  by (cases op) (simp_all add: login_counters_def secret_counters_def)

lemma cached_record_all:
  assumes "ident \<noteq> ''''"
  shows "distinct ks \<Longrightarrow> cached_times (record_all (RecordFailure now) ks t) kind ident
      = cached_times t kind ident @ (if (kind, ident) \<in> set ks then [now] else [])"
    and "(kind, ident) \<notin> set ks \<Longrightarrow> cached_times (record_all (RecordSuccess now) ks t) kind ident = cached_times t kind ident"
  unfolding record_all_def by (induction ks arbitrary: t) (auto simp: cached_record [OF assms] split: if_splits)

lemma tracked_begin:
  assumes T: "tracked cfg kind ident m now g" and cfg: "Window cfg \<le> LockoutDuration cfg" "1 \<le> limit_of cfg kind"
    and ident: "ident \<noteq> ''''" and op: "guesses_only cfg kind ident (Begins op)"
    and room: "open_on kind ident (guess_step cfg g (now, Begins op)) \<le> m"
  shows "tracked cfg kind ident m now (guess_step cfg g (now, Begins op))"
proof (cases "first_refusal cfg now (counters op) (gs_throttle g) = None")
  case False
  then have "guess_step cfg g (now, Begins op) = g" by simp
  with T show ?thesis by (simp only:)
next
  case ok: True
  from T obtain ts os where ts: "map fst ts = guesses_at kind ident (gs_wrong g)" "length os = open_on kind ident g"
    "overlapping (Window cfg) (limit_of cfg kind) m now ts os" by (auto simp: tracked_def)
  show ?thesis
  proof (cases "(kind, ident) \<in> set (counters op)")
    case False
    with T ok op ts show ?thesis
      by (intro trackedI [where ts = ts and os = os]) (auto simp: tracked_def open_on_def)
  next
    case mem: True
    then have "throttle_Check cfg now kind ident (gs_throttle g) = Inr ()" using ok by (auto simp: first_refusal_None)
    from check_admits [OF this ident cfg] T have "int (length (filter (\<lambda>x. now - Window cfg < x) (map fst ts))) < limit_of cfg kind"
      by (simp add: tracked_def cache_knows_def ts(1))
    moreover have "length os < m" using room ok mem ts(2) by (simp add: open_on_def)
    ultimately have "overlapping (Window cfg) (limit_of cfg kind) m now ts (os @ [length ts])"
      by (intro overlapping_begin [OF ts(3)])
    moreover have "length (os @ [length ts]) = open_on kind ident (g\<lparr>gs_open := gs_open g @ [op]\<rparr>)"
      using ts(2) mem by (simp add: open_on_def)
    ultimately show ?thesis using T ok op ts(1)
      by (intro trackedI [where ts = ts and os = "os @ [length ts]"]) (auto simp: tracked_def)
  qed
qed

lemma tracked_end:
  assumes T: "tracked cfg kind ident m now g" and ident: "ident \<noteq> ''''" and room: "open_on kind ident g \<le> m"
  shows "tracked cfg kind ident m now (guess_step cfg g (now, Ends i))"
proof (cases "i < length (gs_open g)")
  case False
  with T show ?thesis by simp
next
  case i: True
  let ?op = "gs_open g ! i" and ?open = "take i (gs_open g) @ drop (Suc i) (gs_open g)"
  let ?ks = "counters ?op" and ?k = "(kind, ident)" and ?gs = "guesses_at kind ident (gs_wrong g)"
  have split: "gs_open g = take i (gs_open g) @ ?op # drop (Suc i) (gs_open g)" using i by (rule id_take_nth_drop)
  have rest: "set ?open \<subseteq> set (gs_open g)" using set_take_subset set_drop_subset by fastforce
  have only: "?k \<in> set ?ks \<longrightarrow> verdict_of ?op \<noteq> Some True" using T i by (auto simp: tracked_def)
  from T obtain ts os where ts: "map fst ts = ?gs" "length os = open_on kind ident g"
    "overlapping (Window cfg) (limit_of cfg kind) m now ts os" by (auto simp: tracked_def)
  obtain t out where fin: "finish_attempt now ?ks (verdict_of ?op) (gs_throttle g) = (t, out)" by fastforce
  define g' where "g' = guess_step cfg g (now, Ends i)"
  have g': "g' = \<lparr>gs_throttle = t, gs_open = ?open, gs_wrong = (if out = Failed then gs_wrong g @ [(now, ?op)] else gs_wrong g)\<rparr>"
    using i fin by (simp add: g'_def Let_def)
  have opens: "open_on kind ident g = open_on kind ident g' + (if ?k \<in> set ?ks then 1 else 0)"
    unfolding open_on_def g' by (subst split) simp
  have gs: "guesses_at kind ident (gs_wrong g') = ?gs @ (if out = Failed \<and> ?k \<in> set ?ks then [now] else [])"
    by (simp add: g' guesses_at_def)
  have failed: "out = Failed \<longleftrightarrow> verdict_of ?op = Some False" using fin by (auto simp: finish_attempt_def split: option.splits bool.splits)
  have times: "cached_times t kind ident = cached_times (gs_throttle g) kind ident @ (if out = Failed \<and> ?k \<in> set ?ks then [now] else [])"
  proof (cases "verdict_of ?op")
    case None
    with fin show ?thesis by (auto simp: finish_attempt_def)
  next
    case (Some v)
    with fin only show ?thesis
      by (cases v) (auto simp: finish_attempt_def cached_record_all [OF ident] distinct_counters)
  qed
  have knows: "cache_knows cfg kind ident now t (guesses_at kind ident (gs_wrong g'))"
    using T unfolding gs by (simp add: tracked_def cache_knows_def times)
  have "\<exists>ts os. map fst ts = guesses_at kind ident (gs_wrong g') \<and> length os = open_on kind ident g'
      \<and> overlapping (Window cfg) (limit_of cfg kind) m now ts os"
  proof (cases "?k \<in> set ?ks")
    case False
    with ts opens gs show ?thesis by auto
  next
    case mem: True
    then obtain k os' where os: "os = k # os'" "length os' = open_on kind ident g'"
      using ts(2) opens by (cases os) auto
    with room opens mem have "length os' \<le> m" by simp
    note ends = overlapping_end [OF ts(3) [unfolded os(1)] this]
    show ?thesis
    proof (cases "out = Failed")
      case True
      with ends(1) ts(1) gs mem os(2) show ?thesis by (intro exI [of _ "ts @ [(now, k)]"] exI [of _ os']) simp
    next
      case False
      with ends(2) ts(1) gs os(2) show ?thesis by (intro exI [of _ ts] exI [of _ os']) simp
    qed
  qed
  moreover have "\<forall>op \<in> set ?open. guesses_only cfg kind ident (Begins op)" using T rest unfolding tracked_def by blast
  ultimately show ?thesis using knows unfolding g'_def [symmetric] tracked_def by (simp add: g')
qed

lemma tracked_purge:
  assumes "tracked cfg kind ident m now g" and "Window cfg \<le> retain"
  shows "tracked cfg kind ident m now (guess_step cfg g (now, Purges retain))"
proof -
  have "filter (\<lambda>x. c < x) (filter (\<lambda>x. now - retain < x) xs) = filter (\<lambda>x. c < x) xs" if "now - Window cfg \<le> c" for c xs
    using that assms(2) by (auto intro!: filter_cong)
  with assms(1) show ?thesis by (simp add: tracked_def cache_knows_def cached_purge open_on_def)
qed

lemma guess_run_tracked:
  assumes "tracked cfg kind ident m now g" and "Window cfg \<le> LockoutDuration cfg" "1 \<le> limit_of cfg kind" and "ident \<noteq> ''''"
    and "sorted (now # map fst h)" and "\<forall>(_, e) \<in> set h. guesses_only cfg kind ident e"
    and "\<forall>k \<le> length h. open_on kind ident (foldl (guess_step cfg) g (take k h)) \<le> m"
  shows "\<exists>later. tracked cfg kind ident m later (foldl (guess_step cfg) g h)"
  using assms(1,5-)
proof (induction h arbitrary: now g)
  case (Cons e h)
  obtain at ev where e: "e = (at, ev)" by force
  have "tracked cfg kind ident m at g" using Cons.prems by (intro tracked_later [OF Cons.prems(1)]) (simp add: e)
  moreover have "open_on kind ident g \<le> m" "open_on kind ident (guess_step cfg g e) \<le> m"
    using Cons.prems(4) [rule_format, of 0] Cons.prems(4) [rule_format, of 1] by simp_all
  ultimately have "tracked cfg kind ident m at (guess_step cfg g e)"
    using Cons.prems(3) assms(2-4) unfolding e
    by (cases ev) (auto intro: tracked_begin tracked_end tracked_purge simp del: guess_step.simps)
  moreover have "\<forall>k \<le> length h. open_on kind ident (foldl (guess_step cfg) (guess_step cfg g e) (take k h)) \<le> m"
    using Cons.prems(4) by (metis Suc_le_mono foldl_Cons length_Cons take_Suc_Cons)
  ultimately show ?case using Cons.IH [of at "guess_step cfg g e"] Cons.prems(2,3) by (simp add: e del: guess_step.simps)
qed auto

subsection \<open>How many guesses there are\<close>

text \<open>
  C35 (bounds). With a lockout no shorter than the window, as in the defaults, whatever was stored
  before the server started, however attempts mingle, those on the same account included, and
  whenever records older than the window are purged: as long as no guess is right, the wrong guesses
  on one account, or from one address, recorded within any span of the window's length are fewer than
  the limit plus the number of attempts on it that are ever between their check and their record at
  once. When they follow one another that is the limit; each further one at a time may add one.
\<close>

theorem guesses_per_window_bounded:
  assumes "Validate_throttle cfg = []" and "Window cfg \<le> LockoutDuration cfg" and "ident \<noteq> ''''"
    and "sorted (map fst h)" and "\<forall>(_, e) \<in> set h. guesses_only cfg kind ident e"
    and "\<forall>k \<le> length h. open_on kind ident (guess_run cfg rows (take k h)) \<le> m"
  shows "int (length (filter (\<lambda>at. a < at \<and> at \<le> a + Window cfg) (guesses_at kind ident (gs_wrong (guess_run cfg rows h)))))
     \<le> limit_of cfg kind - 1 + int m"
proof -
  have limit: "1 \<le> limit_of cfg kind" using assms(1) by (auto simp: Validate_throttle_def limit_of_def split: if_splits)
  define start where "start = (if h = [] then 0 else fst (hd h))"
  have "overlapping w n m now [] []" for w n now by (simp add: overlapping_def)
  then have "tracked cfg kind ident m start \<lparr>gs_throttle = NewThrottle rows, gs_open = [], gs_wrong = []\<rparr>"
    by (simp add: tracked_def cache_knows_def NewThrottle_def cached_times_def guesses_at_def open_on_def)
  moreover have "sorted (start # map fst h)" using assms(4) by (cases h) (simp_all add: start_def)
  ultimately obtain later where "tracked cfg kind ident m later (guess_run cfg rows h)"
    using guess_run_tracked [OF _ assms(2) limit assms(3) _ assms(5)] assms(6) unfolding guess_run_def by blast
  then obtain ts os where "map fst ts = guesses_at kind ident (gs_wrong (guess_run cfg rows h))"
    "overlapping (Window cfg) (limit_of cfg kind) m later ts os" unfolding tracked_def by blast
  with overlapping_window [OF _ limit] show ?thesis by metis
qed

text \<open>Attempts that follow one another are never open together.\<close>

lemma one_after_another:
  assumes "gs_open g = []"
  shows "open_on kind ident (foldl (guess_step cfg) g
      (take k (concat (map (\<lambda>x. [(at x, Begins (op x)), (done x, Ends 0)]) xs)))) \<le> 1"
proof -
  have "length (gs_open (foldl (guess_step cfg) g
      (take k (concat (map (\<lambda>x. [(at x, Begins (op x)), (done x, Ends 0)]) xs))))) \<le> 1"
    using assms
  proof (induction xs arbitrary: g k)
    case (Cons x xs)
    let ?g1 = "guess_step cfg g (at x, Begins (op x))" and ?g2 = "guess_step cfg (guess_step cfg g (at x, Begins (op x))) (done x, Ends 0)"
    have one: "length (gs_open ?g1) \<le> 1" using Cons.prems by simp
    have two: "gs_open ?g2 = []" using Cons.prems by (simp add: Let_def split: prod.split)
    consider "k = 0" | "k = 1" | k' where "k = Suc (Suc k')" by (metis One_nat_def not0_implies_Suc)
    then show ?case
      by cases (use Cons.prems one Cons.IH [OF two] in \<open>simp_all del: guess_step.simps\<close>)
  qed simp
  then show ?thesis unfolding open_on_def by (rule le_trans [OF length_filter_le])
qed

definition demo_guesses :: "(int \<times> throttle_event) list" where
  "demo_guesses = concat (map (\<lambda>n. [(int n * minute, Begins (TSecret ''vault'' ''alice'' (Some False))), (int n * minute, Ends 0)]) [0 ..< 7])"

theorem guesses_per_window_bounded_witness:
  "int (length (filter (\<lambda>at. -1 < at \<and> at \<le> -1 + 15 * minute)
      (guesses_at AttemptAccount ''vault:alice'' (gs_wrong (guess_run DefaultThrottleConfig [] demo_guesses))))) \<le> 5"
proof -
  have "Validate_throttle DefaultThrottleConfig = []" by (simp add: Validate_throttle_def DefaultThrottleConfig_def)
  moreover have "sorted (map fst demo_guesses)" by (simp add: demo_guesses_def upt_rec)
  moreover have "\<forall>(_, e) \<in> set demo_guesses. guesses_only DefaultThrottleConfig AttemptAccount ''vault:alice'' e"
    by (simp add: demo_guesses_def)
  moreover have "\<forall>k \<le> length demo_guesses. open_on AttemptAccount ''vault:alice'' (guess_run DefaultThrottleConfig [] (take k demo_guesses)) \<le> 1"
    unfolding guess_run_def demo_guesses_def by (intro allI impI one_after_another) simp
  ultimately have "int (length (filter (\<lambda>at. -1 < at \<and> at \<le> -1 + Window DefaultThrottleConfig)
      (guesses_at AttemptAccount ''vault:alice'' (gs_wrong (guess_run DefaultThrottleConfig [] demo_guesses)))))
      \<le> limit_of DefaultThrottleConfig AttemptAccount - 1 + int 1"
    by (intro guesses_per_window_bounded) (simp_all add: DefaultThrottleConfig_def)
  then show ?thesis by (simp add: DefaultThrottleConfig_def limit_of_def)
qed

subsection \<open>Where the bound ends\<close>

text \<open>
  The check looks at what has been recorded, and nothing is recorded before the secret has been
  verified: with an empty table any number of guesses made at once is let through.
\<close>

lemma begins_at_once:
  assumes "first_refusal cfg now (counters op) (gs_throttle g) = None"
  shows "foldl (guess_step cfg) g (replicate k (now, Begins op)) = g\<lparr>gs_open := gs_open g @ replicate k op\<rparr>"
  using assms by (induction k arbitrary: g) simp_all

lemma ends_at_once:
  assumes "gs_open g = replicate k op" and "verdict_of op = Some False"
  shows "map snd (gs_wrong (foldl (guess_step cfg) g (replicate k (now, Ends 0)))) = map snd (gs_wrong g) @ replicate k op"
  using assms
proof (induction k arbitrary: g)
  case (Suc k)
  have "gs_open (guess_step cfg g (now, Ends 0)) = replicate k op"
    "gs_wrong (guess_step cfg g (now, Ends 0)) = gs_wrong g @ [(now, op)]"
    using Suc.prems by (simp_all add: finish_attempt_def Let_def)
  with Suc.IH [of "guess_step cfg g (now, Ends 0)"] Suc.prems(2) show ?case by (simp del: guess_step.simps)
qed simp

lemma concurrent_guesses_pass:
  assumes "1 \<le> MaxPerAccount cfg"
  shows "map snd (gs_wrong (guess_run cfg [] (replicate k (now, Begins (TSecret what user (Some False))) @ replicate k (now, Ends 0))))
     = replicate k (TSecret what user (Some False))"
proof -
  let ?op = "TSecret what user (Some False)" and ?g = "\<lparr>gs_throttle = NewThrottle [], gs_open = [], gs_wrong = []\<rparr>"
  have "first_refusal cfg now (counters ?op) (gs_throttle ?g) = None"
    using assms by (simp add: secret_counters_def throttle_Check_def countFailures_def NewThrottle_def count_stored_def limit_of_def Let_def)
  then have "foldl (guess_step cfg) ?g (replicate k (now, Begins ?op)) = ?g\<lparr>gs_open := replicate k ?op\<rparr>"
    using begins_at_once [of cfg now ?op ?g k] by simp
  then show ?thesis using ends_at_once [of "?g\<lparr>gs_open := replicate k ?op\<rparr>" k ?op cfg now] by (simp add: guess_run_def)
qed

text \<open>
  A lockout shorter than the window is accepted by \<^verbatim>\<open>Validate\<close>. It is counted from the oldest
  failure in the window, so once it is over the check passes although the limit is exceeded, and goes
  on passing until that failure leaves the window: any number of guesses is let through.
\<close>

lemma count_cached_zero:
  assumes "c < 0" and "\<forall>at \<in> set ats. 0 \<le> at" and "old = zero_time \<or> 0 \<le> old" and "0 \<in> set ats \<or> old = 0"
  shows "snd (count_cached c ats (n, old)) = 0"
  using assms(2-)
proof (induction ats arbitrary: n old)
  case (Cons at ats)
  have "zero_time < 0" by (simp add: zero_time_def)
  then have "snd (count_cached c ats (n + 1, if old = zero_time \<or> at < old then at else old)) = 0"
    using Cons.prems by (intro Cons.IH) auto
  with Cons.prems assms(1) show ?case by simp
qed (auto simp: zero_time_def)

lemma lockout_over_passes:
  assumes "LockoutDuration cfg < Window cfg" and "0 < LockoutDuration cfg" and "ident \<noteq> ''''"
    and "0 \<in> set (cached_times t kind ident)" and "\<forall>at \<in> set (cached_times t kind ident). 0 \<le> at"
  shows "throttle_Check cfg (LockoutDuration cfg) kind ident t = Inr ()"
proof -
  have ne: "filter (\<lambda>at. LockoutDuration cfg - Window cfg < at) (cached_times t kind ident) \<noteq> []"
    using assms(1,4) by (auto simp: filter_empty_conv intro!: bexI [of _ 0])
  have "snd (countFailures cfg (LockoutDuration cfg) kind ident t) = 0"
    unfolding check_from_cache(1) [OF assms(3) refl ne] using assms by (intro count_cached_zero) auto
  then show ?thesis by (auto simp: throttle_Check_def Let_def split: prod.splits)
qed

theorem short_lockout_is_no_limit:
  assumes "LockoutDuration cfg < Window cfg" and "0 < LockoutDuration cfg" and "user \<noteq> ''''"
    and "0 \<in> set (cached_times t AttemptAccount (what @ '':'' @ user))"
    and "\<forall>at \<in> set (cached_times t AttemptAccount (what @ '':'' @ user)). 0 \<le> at"
  shows "\<exists>t'. throttle_run cfg (t, log) (replicate m (LockoutDuration cfg, TSecret what user (Some False)))
     = (t', replicate m (LockoutDuration cfg, TSecret what user (Some False)) @ log)"
  using assms(4,5)
proof (induction m arbitrary: t log)
  case (Suc m)
  let ?id = "what @ '':'' @ user" and ?e = "(LockoutDuration cfg, TSecret what user (Some False))"
  have ok: "throttle_Check cfg (LockoutDuration cfg) AttemptAccount ?id t = Inr ()"
    using Suc.prems assms(1,2) by (intro lockout_over_passes) auto
  define t1 where "t1 = RecordFailure (LockoutDuration cfg) AttemptAccount ?id t"
  have step: "throttle_step cfg t ?e = (t1, Some Failed)"
    using ok by (simp add: attempt_def finish_attempt_def secret_counters_def record_all_def t1_def)
  have "cached_times t1 AttemptAccount ?id = cached_times t AttemptAccount ?id @ [LockoutDuration cfg]"
    by (simp add: t1_def cached_record)
  with Suc.IH [of t1 "?e # log"] Suc.prems assms(2) show ?case
    by (auto simp: step replicate_app_Cons_same simp del: throttle_step.simps)
qed simp

text \<open>
  After a restart the stored failures count only until the first new one: from then on the cache
  answers alone. However many failures short of the limit were stored a moment ago, as many guesses
  as the limit allows are let through again at once.
\<close>

theorem restart_forgets_failures:
  assumes "0 < Window cfg" and "fst (count_stored (now - Window cfg) AttemptAccount (what @ '':'' @ user) rows) < MaxPerAccount cfg"
    and "int m \<le> MaxPerAccount cfg"
  shows "\<exists>t. throttle_run cfg (NewThrottle rows, log) (replicate m (now, TSecret what user (Some False)))
     = (t, replicate m (now, TSecret what user (Some False)) @ log)"
proof -
  let ?id = "what @ '':'' @ user" and ?e = "(now, TSecret what user (Some False))"
  have "\<exists>t'. throttle_run cfg (t, log) (replicate k ?e) = (t', replicate k ?e @ log)"
    if "cached_times t AttemptAccount ?id = replicate j now" "int (j + k) \<le> MaxPerAccount cfg"
      "j = 0 \<longrightarrow> t = NewThrottle rows" for j k t log
    using that
  proof (induction k arbitrary: j t log)
    case (Suc k)
    have count: "fst (countFailures cfg now AttemptAccount ?id t) < MaxPerAccount cfg"
    proof (cases "j = 0")
      case True
      with Suc.prems assms(2) show ?thesis by (simp add: countFailures_def NewThrottle_def Let_def)
    next
      case False
      have "filter (\<lambda>at. now - Window cfg < at) (replicate j now) = replicate j now" using assms(1) by simp
      with check_from_cache(2) [of ?id "replicate j now" now cfg t AttemptAccount] False Suc.prems show ?thesis by simp
    qed
    then have ok: "throttle_Check cfg now AttemptAccount ?id t = Inr ()"
      by (simp add: throttle_Check_def limit_of_def Let_def case_prod_beta)
    define t1 where "t1 = RecordFailure now AttemptAccount ?id t"
    have step: "throttle_step cfg t ?e = (t1, Some Failed)"
      using ok by (simp add: attempt_def finish_attempt_def secret_counters_def record_all_def t1_def)
    have "cached_times t1 AttemptAccount ?id = replicate (Suc j) now"
      using Suc.prems(1) by (simp add: t1_def cached_record replicate_append_same)
    with Suc.IH [of t1 "Suc j" "?e # log"] Suc.prems show ?case
      by (auto simp: step replicate_app_Cons_same simp del: throttle_step.simps)
  qed simp
  from this [of "NewThrottle rows" 0 m log] assms(3) show ?thesis by (simp add: cached_times_def NewThrottle_def)
qed

end
