(* ===== verification/Auth_MFA.thy ===== *)
theory Auth_MFA
  imports Auth_Throttle
begin

section \<open>Second factors (\<^verbatim>\<open>internal/auth/totp.go\<close>, \<^verbatim>\<open>recovery.go\<close>, \<^verbatim>\<open>api/mfa_handlers.go\<close>)\<close>

unbundle bit_operations_syntax

text \<open>
  One-time passwords after RFC 6238 and recovery codes. HMAC and the password hash are parameters,
  base32 and the truncation are written out. Time steps are natural numbers: seconds divided by
  thirty stay far below the 64 bits the code gives them. The handlers read the stored record, verify,
  and write it back in a second statement, so a request is two steps and other requests may come
  between them.
\<close>

subsection \<open>Base32\<close>

definition base32_alphabet :: string where
  "base32_alphabet = ''ABCDEFGHIJKLMNOPQRSTUVWXYZ234567''"

fun index_of :: "char \<Rightarrow> string \<Rightarrow> nat option" where
  "index_of c [] = None"
| "index_of c (d # s) = (if c = d then Some 0 else map_option Suc (index_of c s))"

definition unbase32 :: "char \<Rightarrow> byte option" where
  "unbase32 c = map_option word_of_nat (index_of c base32_alphabet)"

text \<open>
  The bytes of one quantum of at most eight digits; a trailing quantum of one, three or six digits
  gives none, as the library's decoder without padding has it.
\<close>

fun quantum :: "byte list \<Rightarrow> byte list" where
  "quantum [a, b] = [push_bit 3 a OR drop_bit 2 b]"
| "quantum [a, b, c, d] = [push_bit 3 a OR drop_bit 2 b, push_bit 6 b OR push_bit 1 c OR drop_bit 4 d]"
| "quantum [a, b, c, d, e] = quantum [a, b, c, d] @ [push_bit 4 d OR drop_bit 1 e]"
| "quantum [a, b, c, d, e, f, g] = quantum [a, b, c, d, e] @ [push_bit 7 e OR push_bit 2 f OR drop_bit 3 g]"
| "quantum [a, b, c, d, e, f, g, h] = quantum [a, b, c, d, e, f, g] @ [push_bit 5 g OR h]"
| "quantum _ = []"

fun quanta :: "byte list \<Rightarrow> byte list" where
  "quanta (a # b # c # d # e # f # g # h # ds) = quantum [a, b, c, d, e, f, g, h] @ quanta ds"
| "quanta ds = quantum ds"

definition base32_decode :: "string \<Rightarrow> byte list option" where
  "base32_decode s =
     (let ds = map unbase32 (filter (\<lambda>c. c \<noteq> CHR 0x0A \<and> c \<noteq> CHR 0x0D) s)
      in if None \<in> set ds then None else Some (quanta (map the ds)))"

text \<open>The encoder, for whole groups of five bytes, which is what a secret of twenty bytes has.\<close>

definition b32 :: "byte \<Rightarrow> char" where
  "b32 d = base32_alphabet ! unat (d AND 31)"

fun base32_encode :: "byte list \<Rightarrow> string" where
  "base32_encode (a # b # c # d # e # bs) =
     map b32 [drop_bit 3 a, push_bit 2 a OR drop_bit 6 b, drop_bit 1 b, push_bit 4 b OR drop_bit 4 c,
       push_bit 1 c OR drop_bit 7 d, drop_bit 2 d, push_bit 3 d OR drop_bit 5 e, e] @ base32_encode bs"
| "base32_encode _ = []"

subsection \<open>Codes\<close>

definition TOTPDigits :: nat where "TOTPDigits = 6"
definition TOTPPeriod :: int where "TOTPPeriod = 30 * second"
definition TOTPSecretLen :: nat where "TOTPSecretLen = 20"
definition totpSkew :: nat where "totpSkew = 1"

datatype totp_error = ErrTOTPInvalid | ErrTOTPReplayed | ErrTOTPBadSecret | ErrTOTPAlgorithm | ErrTOTPDigits

datatype TOTPAlgorithm = TOTPSHA1 | TOTPSHA256 | TOTPSHA512 | TOTPOther string

definition NewTOTPSecret :: "byte list \<Rightarrow> string" where
  "NewTOTPSecret raw = base32_encode raw"

definition decodeTOTPSecret :: "string \<Rightarrow> (totp_error, byte list) result" where
  "decodeTOTPSecret secret =
     (let cleaned = to_upper (filter (\<lambda>c. c \<noteq> CHR '' '' \<and> c \<noteq> CHR ''-'') secret)
      in if cleaned = '''' then Inl ErrTOTPBadSecret
         else case base32_decode (rev (dropWhile (\<lambda>c. c = CHR ''='') (rev cleaned))) of
             None \<Rightarrow> Inl ErrTOTPBadSecret
           | Some raw \<Rightarrow> if length raw < 10 then Inl ErrTOTPBadSecret else Inr raw)"

definition be64 :: "nat \<Rightarrow> byte list" where
  "be64 n = map (\<lambda>i. word_of_nat (n div 256 ^ i)) [7, 6, 5, 4, 3, 2, 1, 0]"

definition be32 :: "byte list \<Rightarrow> 32 word" where
  "be32 bs = foldl (\<lambda>v b. push_bit 8 v OR ucast b) 0 bs"

text \<open>
  \<open>hmac\<close> is the keyed hash by algorithm. The modulus is multiplied up in 32 bits and wraps there.
\<close>

definition TOTPCodeAt ::
  "(TOTPAlgorithm \<Rightarrow> byte list \<Rightarrow> byte list \<Rightarrow> byte list) \<Rightarrow> string \<Rightarrow> nat \<Rightarrow> TOTPAlgorithm \<Rightarrow> nat \<Rightarrow> (totp_error, string) result" where
  "TOTPCodeAt hmac secret counter alg digits =
     (case decodeTOTPSecret secret of
        Inl e \<Rightarrow> Inl e
      | Inr raw \<Rightarrow>
          if (case alg of TOTPOther a \<Rightarrow> a \<noteq> '''' | _ \<Rightarrow> False) then Inl ErrTOTPAlgorithm
          else if digits < 6 \<or> digits > 10 then Inl ErrTOTPDigits
          else let sum = hmac (case alg of TOTPOther _ \<Rightarrow> TOTPSHA1 | _ \<Rightarrow> alg) raw (be64 counter);
                   offset = unat (last sum AND 0x0F);
                   value = be32 (take 4 (drop offset sum)) AND 0x7FFFFFFF
               in Inr (digits_of digits (unat (value mod 10 ^ digits))))"

definition totpCounter :: "int \<Rightarrow> nat" where
  "totpCounter at = nat (unix_seconds at) div 30"

text \<open>The steps that are tried, and what has been found while trying them.\<close>

definition candidates :: "nat \<Rightarrow> nat list" where
  "candidates current = (if totpSkew > current then [] else [current - totpSkew]) @ [current, current + totpSkew]"

fun try_steps ::
  "(nat \<Rightarrow> (totp_error, string) result) \<Rightarrow> string \<Rightarrow> nat \<Rightarrow> nat list \<Rightarrow> nat option \<times> bool \<Rightarrow> (totp_error, nat option \<times> bool) result" where
  "try_steps code_at code lastStep [] acc = Inr acc"
| "try_steps code_at code lastStep (s # ss) (matched, replayed) =
     (case code_at s of
        Inl e \<Rightarrow> Inl e
      | Inr candidate \<Rightarrow>
          try_steps code_at code lastStep ss
            (if candidate = code then (if s > lastStep then (Some s, replayed) else (matched, True)) else (matched, replayed)))"

definition clean_code :: "string \<Rightarrow> string" where
  "clean_code code = trim_space (filter (\<lambda>c. c \<noteq> CHR '' '') code)"

definition VerifyTOTP ::
  "(TOTPAlgorithm \<Rightarrow> byte list \<Rightarrow> byte list \<Rightarrow> byte list) \<Rightarrow> string \<Rightarrow> string \<Rightarrow> int \<Rightarrow> nat \<Rightarrow> (totp_error, nat) result" where
  "VerifyTOTP hmac secret code at lastStep =
     (if length (clean_code code) \<noteq> TOTPDigits then Inl ErrTOTPInvalid
      else case decodeTOTPSecret secret of
          Inl e \<Rightarrow> Inl e
        | Inr _ \<Rightarrow>
            (case try_steps (\<lambda>s. TOTPCodeAt hmac secret s TOTPSHA1 TOTPDigits) (clean_code code) lastStep
                    (candidates (totpCounter at)) (None, False) of
               Inl e \<Rightarrow> Inl e
             | Inr (Some s, _) \<Rightarrow> Inr s
             | Inr (None, True) \<Rightarrow> Inl ErrTOTPReplayed
             | Inr (None, False) \<Rightarrow> Inl ErrTOTPInvalid))"

subsection \<open>Recovery codes\<close>

definition RecoveryCodeCount :: nat where "RecoveryCodeCount = 10"
definition recoveryGroups :: nat where "recoveryGroups = 4"
definition recoveryGroupLen :: nat where "recoveryGroupLen = 5"
definition recoveryAlphabet :: string where "recoveryAlphabet = ''BCDFGHJKMNPQRSTVWXYZ23456789''"

text \<open>A code from its twenty draws, each below the length of the alphabet.\<close>

definition newRecoveryCode :: "nat list \<Rightarrow> string" where
  "newRecoveryCode ns =
     join_with ''-'' (map (\<lambda>g. map (\<lambda>i. recoveryAlphabet ! (ns ! (g * recoveryGroupLen + i))) [0 ..< recoveryGroupLen]) [0 ..< recoveryGroups])"

definition NormalizeRecoveryCode :: "string \<Rightarrow> string" where
  "NormalizeRecoveryCode code = filter (\<lambda>c. in_range 65 90 c \<or> in_range 48 57 c) (to_upper code)"

record StoredRecoveryCode =
  rc_ID :: string
  rc_Hash :: string
  rc_Used :: bool

text \<open>\<open>hash\<close> takes the salt that was drawn; \<open>verify\<close> says whether \<^verbatim>\<open>VerifyPassword\<close> returns nil.\<close>

definition GenerateRecoveryCodes :: "(string \<Rightarrow> string \<Rightarrow> string) \<Rightarrow> (nat list \<times> string) list \<Rightarrow> string list \<times> string list" where
  "GenerateRecoveryCodes hash draws =
     (map (\<lambda>(ns, salt). newRecoveryCode ns) draws, map (\<lambda>(ns, salt). hash salt (NormalizeRecoveryCode (newRecoveryCode ns))) draws)"

fun match_codes :: "(string \<Rightarrow> string \<Rightarrow> bool) \<Rightarrow> string \<Rightarrow> StoredRecoveryCode list \<Rightarrow> string \<Rightarrow> string" where
  "match_codes verify code [] matched = matched"
| "match_codes verify code (sc # scs) matched =
     match_codes verify code scs (if \<not> rc_Used sc \<and> verify code (rc_Hash sc) \<and> matched = '''' then rc_ID sc else matched)"

definition VerifyRecoveryCode :: "(string \<Rightarrow> string \<Rightarrow> bool) \<Rightarrow> string \<Rightarrow> StoredRecoveryCode list \<Rightarrow> string option" where
  "VerifyRecoveryCode verify submitted stored =
     (let code = NormalizeRecoveryCode submitted
      in if code = '''' then None
         else let m = match_codes verify code stored '''' in if m = '''' then None else Some m)"

subsection \<open>Requests\<close>

text \<open>
  What the tables \<^verbatim>\<open>mfa_totp\<close> and \<^verbatim>\<open>mfa_recovery_codes\<close> hold for one user, the secret
  as the vault opens it. A request reads and verifies, and then commits.
\<close>

record mfa_rows =
  totp_row :: "(string \<times> nat) option"
  recovery_rows :: "StoredRecoveryCode list"

definition totp_read ::
  "(TOTPAlgorithm \<Rightarrow> byte list \<Rightarrow> byte list \<Rightarrow> byte list) \<Rightarrow> int \<Rightarrow> string \<Rightarrow> mfa_rows \<Rightarrow> nat option" where
  "totp_read hmac now code m =
     (case totp_row m of
        None \<Rightarrow> None
      | Some (secret, lastStep) \<Rightarrow> (case VerifyTOTP hmac secret code now lastStep of Inl _ \<Rightarrow> None | Inr s \<Rightarrow> Some s))"

definition totp_commit :: "nat \<Rightarrow> mfa_rows \<Rightarrow> mfa_rows" where
  "totp_commit s m = m\<lparr>totp_row := map_option (\<lambda>(secret, _). (secret, s)) (totp_row m)\<rparr>"

definition recovery_read :: "(string \<Rightarrow> string \<Rightarrow> bool) \<Rightarrow> string \<Rightarrow> mfa_rows \<Rightarrow> string option" where
  "recovery_read verify code m = VerifyRecoveryCode verify code (recovery_rows m)"

definition recovery_commit :: "string \<Rightarrow> mfa_rows \<Rightarrow> mfa_rows" where
  "recovery_commit i m = m\<lparr>recovery_rows := map (\<lambda>c. if rc_ID c = i \<and> \<not> rc_Used c then c\<lparr>rc_Used := True\<rparr> else c) (recovery_rows m)\<rparr>"

definition countUnusedRecoveryCodes :: "mfa_rows \<Rightarrow> nat" where
  "countUnusedRecoveryCodes m = length (filter (\<lambda>c. \<not> rc_Used c) (recovery_rows m))"

text \<open>Setting up, confirming and removing the second factor.\<close>

definition mfa_enrol :: "string \<Rightarrow> mfa_rows \<Rightarrow> mfa_rows" where
  "mfa_enrol secret m = m\<lparr>totp_row := Some (secret, 0)\<rparr>"

definition mfa_confirm :: "nat \<Rightarrow> (string \<times> string) list \<Rightarrow> mfa_rows \<Rightarrow> mfa_rows" where
  "mfa_confirm s codes m =
     (totp_commit s m)\<lparr>recovery_rows := map (\<lambda>(i, h). \<lparr>rc_ID = i, rc_Hash = h, rc_Used = False\<rparr>) codes\<rparr>"

definition mfa_disable :: "mfa_rows \<Rightarrow> mfa_rows" where
  "mfa_disable m = m\<lparr>totp_row := None, recovery_rows := []\<rparr>"

text \<open>Requests one after the other: the steps that were accepted, with the request.\<close>

fun totp_run ::
  "(TOTPAlgorithm \<Rightarrow> byte list \<Rightarrow> byte list \<Rightarrow> byte list) \<Rightarrow> mfa_rows \<Rightarrow> (int \<times> string) list \<Rightarrow> (nat \<times> int \<times> string) list" where
  "totp_run hmac m [] = []"
| "totp_run hmac m ((now, code) # h) =
     (case totp_read hmac now code m of
        None \<Rightarrow> totp_run hmac m h
      | Some s \<Rightarrow> (s, now, code) # totp_run hmac (totp_commit s m) h)"

fun recovery_run :: "(string \<Rightarrow> string \<Rightarrow> bool) \<Rightarrow> mfa_rows \<Rightarrow> string list \<Rightarrow> bool list" where
  "recovery_run verify m [] = []"
| "recovery_run verify m (code # h) =
     (case recovery_read verify code m of
        None \<Rightarrow> False # recovery_run verify m h
      | Some i \<Rightarrow> True # recovery_run verify (recovery_commit i m) h)"

subsection \<open>A code is good once\<close>

lemma try_steps_matched:
  assumes "try_steps code_at code lastStep ss (m, r) = Inr (Some s, r')"
    and "\<And>x. m = Some x \<Longrightarrow> x > lastStep \<and> code_at x = Inr code \<and> x \<in> S" and "set ss \<subseteq> S"
  shows "lastStep < s \<and> code_at s = Inr code \<and> s \<in> S"
  using assms
proof (induction ss arbitrary: m r)
  case (Cons x ss)
  then obtain c where c: "code_at x = Inr c" by (cases "code_at x") auto
  let ?acc = "if c = code then (if x > lastStep then (Some x, r) else (m, True)) else (m, r)"
  obtain m' r1 where acc: "?acc = (m', r1)" by force
  then have run: "try_steps code_at code lastStep ss (m', r1) = Inr (Some s, r')" using Cons.prems(1) c by simp
  have "y > lastStep \<and> code_at y = Inr code \<and> y \<in> S" if "m' = Some y" for y
    using that acc c Cons.prems(2,3) by (auto split: if_splits)
  from Cons.IH [OF run this] Cons.prems(3) show ?case by simp
qed auto

lemma try_steps_finds:
  assumes "\<And>x. x \<in> set ss \<Longrightarrow> \<exists>c. code_at x = Inr c"
    and "m \<noteq> None \<or> (\<exists>x \<in> set ss. x > lastStep \<and> code_at x = Inr code)"
  shows "\<exists>s r'. try_steps code_at code lastStep ss (m, r) = Inr (Some s, r')"
  using assms
proof (induction ss arbitrary: m r)
  case (Cons x ss)
  obtain c where c: "code_at x = Inr c" using Cons.prems(1) by auto
  let ?acc = "if c = code then (if x > lastStep then (Some x, r) else (m, True)) else (m, r)"
  obtain m' r1 where acc: "?acc = (m', r1)" by force
  have "m' \<noteq> None \<or> (\<exists>x \<in> set ss. x > lastStep \<and> code_at x = Inr code)"
    using Cons.prems(2) acc c by (auto split: if_splits)
  from Cons.IH [OF _ this] Cons.prems(1) acc c show ?case by simp
qed auto

lemma verify_accepts:
  assumes "VerifyTOTP hmac secret code now lastStep = Inr s"
  shows "lastStep < s \<and> s \<in> set (candidates (totpCounter now)) \<and> TOTPCodeAt hmac secret s TOTPSHA1 TOTPDigits = Inr (clean_code code)"
proof -
  from assms obtain r where "try_steps (\<lambda>s. TOTPCodeAt hmac secret s TOTPSHA1 TOTPDigits) (clean_code code) lastStep
      (candidates (totpCounter now)) (None, False) = Inr (Some s, r)"
    by (auto simp: VerifyTOTP_def split: if_splits sum.splits option.splits bool.splits)
  from try_steps_matched [OF this, of "set (candidates (totpCounter now))"] show ?thesis by auto
qed

lemma code_at_defined:
  "decodeTOTPSecret secret = Inr raw \<Longrightarrow> \<exists>c. TOTPCodeAt hmac secret n TOTPSHA1 TOTPDigits = Inr c"
  by (simp add: TOTPCodeAt_def TOTPDigits_def Let_def)

lemma code_length: "TOTPCodeAt hmac secret n alg d = Inr c \<Longrightarrow> length c = d"
  by (auto simp: TOTPCodeAt_def Let_def split: sum.splits if_splits)

lemma verify_current:
  assumes "TOTPCodeAt hmac secret (totpCounter now) TOTPSHA1 TOTPDigits = Inr (clean_code code)" and "lastStep < totpCounter now"
  shows "\<exists>s. VerifyTOTP hmac secret code now lastStep = Inr s"
proof -
  obtain raw where raw: "decodeTOTPSecret secret = Inr raw" using assms(1) by (auto simp: TOTPCodeAt_def split: sum.splits)
  have "\<exists>s r. try_steps (\<lambda>s. TOTPCodeAt hmac secret s TOTPSHA1 TOTPDigits) (clean_code code) lastStep
      (candidates (totpCounter now)) (None, False) = Inr (Some s, r)"
    using code_at_defined [OF raw] assms by (intro try_steps_finds) (auto simp: candidates_def)
  then show ?thesis using raw code_length [OF assms(1)] by (auto simp: VerifyTOTP_def)
qed

lemma totp_run_row:
  assumes "totp_row m = Some (secret, prev)" and "(s, now, code) \<in> set (totp_run hmac m h)"
  shows "prev < s \<and> s \<in> set (candidates (totpCounter now)) \<and> TOTPCodeAt hmac secret s TOTPSHA1 TOTPDigits = Inr (clean_code code)"
  using assms
proof (induction hmac m h arbitrary: prev rule: totp_run.induct)
  case (2 hmac m now' code' h)
  show ?case
  proof (cases "totp_read hmac now' code' m")
    case None
    with 2 show ?thesis by simp
  next
    case (Some s')
    then have s': "VerifyTOTP hmac secret code' now' prev = Inr s'" using 2(3) by (simp add: totp_read_def split: sum.splits)
    have "totp_row (totp_commit s' m) = Some (secret, s')" using 2(3) by (simp add: totp_commit_def)
    from 2(2) [OF Some this] 2(4) Some verify_accepts [OF s'] show ?thesis by auto
  qed
qed simp

lemma totp_run_increasing:
  "totp_row m = Some (secret, prev) \<Longrightarrow> sorted_wrt (<) (map fst (totp_run hmac m h))"
proof (induction hmac m h arbitrary: prev rule: totp_run.induct)
  case (2 hmac m now code h)
  show ?case
  proof (cases "totp_read hmac now code m")
    case (Some s)
    have row: "totp_row (totp_commit s m) = Some (secret, s)" using 2(3) by (simp add: totp_commit_def)
    have "s < s'" if "(s', e) \<in> set (totp_run hmac (totp_commit s m) h)" for s' e
      using totp_run_row [OF row] that by (cases e) blast
    with 2(2) [OF Some row] Some show ?thesis by auto
  qed (use 2 in simp)
qed simp

text \<open>
  C36 (safety). Requests with a one-time password that follow one another accept strictly
  increasing time steps, so a code that was accepted, or one before it, never is again; each
  accepted code is the one of its step, which is at most one step away from the clock. And the code
  the authenticator shows is accepted as long as none of this step or a later one was.
\<close>

theorem totp_code_good_once:
  assumes "totp_row m = Some (secret, prev)"
  shows "sorted_wrt (<) (map fst (totp_run hmac m h))
    \<and> (\<forall>(s, now, code) \<in> set (totp_run hmac m h).
         prev < s \<and> totpCounter now \<le> s + 1 \<and> s \<le> totpCounter now + 1
         \<and> TOTPCodeAt hmac secret s TOTPSHA1 TOTPDigits = Inr (clean_code code))
    \<and> (TOTPCodeAt hmac secret (totpCounter t) TOTPSHA1 TOTPDigits = Inr (clean_code typed) \<and> prev < totpCounter t
         \<longrightarrow> totp_read hmac t typed m \<noteq> None)"
proof -
  have "prev < s \<and> totpCounter now \<le> s + 1 \<and> s \<le> totpCounter now + 1 \<and> TOTPCodeAt hmac secret s TOTPSHA1 TOTPDigits = Inr (clean_code code)"
    if "(s, now, code) \<in> set (totp_run hmac m h)" for s now code
    using totp_run_row [OF assms that] by (auto simp: candidates_def totpSkew_def split: if_splits)
  moreover have "totp_read hmac t typed m \<noteq> None"
    if "TOTPCodeAt hmac secret (totpCounter t) TOTPSHA1 TOTPDigits = Inr (clean_code typed)" "prev < totpCounter t"
    using verify_current [OF that] assms by (auto simp: totp_read_def)
  ultimately show ?thesis using totp_run_increasing [OF assms] by auto
qed

definition demo_hmac :: "TOTPAlgorithm \<Rightarrow> byte list \<Rightarrow> byte list \<Rightarrow> byte list" where
  "demo_hmac alg key msg = replicate 20 0"

definition demo_factor :: mfa_rows where
  "demo_factor = \<lparr>totp_row = Some (''GEZDGNBVGY3TQOJQ'', 0), recovery_rows = []\<rparr>"

theorem totp_code_good_once_witness:
  "totp_read demo_hmac (59 * second) ''000 000'' demo_factor \<noteq> None
   \<and> sorted_wrt (<) (map fst (totp_run demo_hmac demo_factor [(59 * second, ''000000''), (61 * second, ''000 000'')]))"
proof -
  have "\<exists>raw. decodeTOTPSecret ''GEZDGNBVGY3TQOJQ'' = Inr raw"
    by (simp add: decodeTOTPSecret_def base32_decode_def to_upper_def upper_char_def unbase32_def base32_alphabet_def Let_def)
  then obtain raw where "decodeTOTPSecret ''GEZDGNBVGY3TQOJQ'' = Inr raw" by blast
  moreover have "digits_of 6 0 = ''000000''" by code_simp
  moreover have "be32 (replicate 4 0) = 0" by (simp add: be32_def eval_nat_numeral)
  ultimately have "TOTPCodeAt demo_hmac ''GEZDGNBVGY3TQOJQ'' n TOTPSHA1 TOTPDigits = Inr ''000000''" for n
    by (simp add: TOTPCodeAt_def TOTPDigits_def demo_hmac_def Let_def)
  moreover have "clean_code ''000 000'' = ''000000''" "totpCounter (59 * second) = 1" by code_simp+
  ultimately show ?thesis
    using totp_code_good_once [of demo_factor "''GEZDGNBVGY3TQOJQ''" 0 demo_hmac
        "[(59 * second, ''000000''), (61 * second, ''000 000'')]" "59 * second" "''000 000''"]
    by (simp add: demo_factor_def)
qed

subsection \<open>A recovery code is good once\<close>

text \<open>
  What a set of recovery codes promises: each is taken once, however it is typed. Of a typed text the
  letters, large or small, and the digits count, and nothing else does.
\<close>

definition large_letters :: string where "large_letters = ''ABCDEFGHIJKLMNOPQRSTUVWXYZ''"
definition small_letters :: string where "small_letters = ''abcdefghijklmnopqrstuvwxyz''"
definition digit_signs :: string where "digit_signs = ''0123456789''"

definition keyed :: "string \<Rightarrow> string" where
  "keyed s = concat (map (\<lambda>c. if c \<in> set large_letters \<union> set digit_signs then [c]
     else (case map_of (zip small_letters large_letters) c of Some k \<Rightarrow> [k] | None \<Rightarrow> [])) s)"

fun redeem_run :: "string set \<Rightarrow> string list \<Rightarrow> bool list" where
  "redeem_run left [] = []"
| "redeem_run left (code # h) = (keyed code \<in> left) # redeem_run (left - {keyed code}) h"

lemma letter_ranges:
  "set large_letters = {c. in_range 65 90 c}" "set small_letters = {c. in_range 97 122 c}" "set digit_signs = {c. in_range 48 57 c}"
proof -
  have range: "{c. in_range lo hi c} = char_of ` set [lo ..< Suc hi]" if "hi < 256" for lo hi
  proof (rule set_eqI)
    fix c :: char
    show "c \<in> {c. in_range lo hi c} \<longleftrightarrow> c \<in> char_of ` set [lo ..< Suc hi]"
    proof
      assume "c \<in> {c. in_range lo hi c}"
      then have "of_char c \<in> set [lo ..< Suc hi]" by (auto simp: in_range_def)
      then show "c \<in> char_of ` set [lo ..< Suc hi]" by (intro image_eqI [of c char_of "of_char c"]) simp_all
    next
      assume "c \<in> char_of ` set [lo ..< Suc hi]"
      then obtain n where n: "c = char_of n" "lo \<le> n" "n \<le> hi" by auto
      then have "of_char c = n" using that by simp
      with n show "c \<in> {c. in_range lo hi c}" by (simp add: in_range_def)
    qed
  qed
  have spelt: "map char_of [65 ..< Suc 90 :: nat] = large_letters" "map char_of [97 ..< Suc 122 :: nat] = small_letters"
    "map char_of [48 ..< Suc 57 :: nat] = digit_signs"
    by code_simp+
  show "set large_letters = {c. in_range 65 90 c}" unfolding spelt(1) [symmetric] set_map by (rule range [symmetric]) simp
  show "set small_letters = {c. in_range 97 122 c}" unfolding spelt(2) [symmetric] set_map by (rule range [symmetric]) simp
  show "set digit_signs = {c. in_range 48 57 c}" unfolding spelt(3) [symmetric] set_map by (rule range [symmetric]) simp
qed

lemma small_made_large: "\<forall>c \<in> set small_letters. map_of (zip small_letters large_letters) c = Some (upper_char c) \<and> upper_char c \<in> set large_letters"
  by code_simp

lemma normal_char: "NormalizeRecoveryCode [c] = keyed [c]"
proof (cases "c \<in> set small_letters")
  case True
  then have "in_range 97 122 c" by (simp add: letter_ranges)
  then have "c \<notin> set large_letters \<union> set digit_signs" by (auto simp: letter_ranges in_range_def)
  moreover have "upper_char c \<in> set large_letters" "map_of (zip small_letters large_letters) c = Some (upper_char c)"
    using True small_made_large by blast+
  ultimately show ?thesis by (simp add: NormalizeRecoveryCode_def to_upper_def keyed_def) (simp add: letter_ranges)
next
  case False
  then have "upper_char c = c" by (auto simp: letter_ranges in_range_def upper_char_def Let_def)
  moreover have "map_of (zip small_letters large_letters) c = None"
    using False by (simp add: map_of_eq_None_iff small_letters_def large_letters_def)
  ultimately show ?thesis by (simp add: NormalizeRecoveryCode_def to_upper_def keyed_def letter_ranges)
qed

lemma keyed_normal: "NormalizeRecoveryCode s = keyed s"
proof (induction s)
  case (Cons c s)
  have "NormalizeRecoveryCode (c # s) = NormalizeRecoveryCode [c] @ NormalizeRecoveryCode s"
    by (simp add: NormalizeRecoveryCode_def to_upper_def)
  moreover have "keyed (c # s) = keyed [c] @ keyed s" by (simp add: keyed_def)
  ultimately show ?case using Cons normal_char by simp
qed (simp add: NormalizeRecoveryCode_def to_upper_def keyed_def)

definition stored_for :: "(string \<Rightarrow> string \<Rightarrow> bool) \<Rightarrow> (string \<times> string) list \<Rightarrow> StoredRecoveryCode list \<Rightarrow> bool" where
  "stored_for verify codes rows \<longleftrightarrow> distinct (map fst codes) \<and> distinct (map rc_ID rows) \<and> length rows = length codes
     \<and> (\<forall>k < length codes. rc_ID (rows ! k) = snd (codes ! k) \<and> snd (codes ! k) \<noteq> ''''
          \<and> (\<forall>p. verify p (rc_Hash (rows ! k)) \<longleftrightarrow> p = fst (codes ! k)))"

definition unused_codes :: "(string \<times> string) list \<Rightarrow> StoredRecoveryCode list \<Rightarrow> string set" where
  "unused_codes codes rows = {fst (codes ! k) | k. k < length codes \<and> \<not> rc_Used (rows ! k)}"

lemma match_codes_nth:
  assumes "\<forall>c \<in> set rows. rc_ID c \<noteq> ''''"
  shows "match_codes verify p rows m =
     (if m \<noteq> '''' then m else case find (\<lambda>c. \<not> rc_Used c \<and> verify p (rc_Hash c)) rows of None \<Rightarrow> '''' | Some c \<Rightarrow> rc_ID c)"
  using assms by (induction verify p rows m rule: match_codes.induct) auto

lemma stored_forD:
  assumes "stored_for verify codes rows" and "k < length codes"
  shows "rc_ID (rows ! k) = snd (codes ! k)" and "snd (codes ! k) \<noteq> ''''"
    and "verify p (rc_Hash (rows ! k)) \<longleftrightarrow> p = fst (codes ! k)" and "length rows = length codes"
  using assms by (auto simp: stored_for_def)

lemma recovery_read_iff:
  assumes S: "stored_for verify codes (recovery_rows m)" and "'''' \<notin> fst ` set codes"
  shows "recovery_read verify code m = Some i \<longleftrightarrow>
    (\<exists>k < length codes. \<not> rc_Used (recovery_rows m ! k) \<and> fst (codes ! k) = NormalizeRecoveryCode code \<and> i = snd (codes ! k))"
proof -
  let ?p = "NormalizeRecoveryCode code" and ?rows = "recovery_rows m"
  note D = stored_forD [OF S]
  have len: "length ?rows = length codes" using S by (simp add: stored_for_def)
  have ids: "\<forall>c \<in> set ?rows. rc_ID c \<noteq> ''''"
    using S by (auto simp: stored_for_def in_set_conv_nth)
  have unique: "k = j" if "k < length codes" "j < length codes" "fst (codes ! k) = fst (codes ! j)" for k j
    using S that by (simp add: stored_for_def distinct_conv_nth) (metis (no_types, lifting) length_map nth_map)
  show ?thesis
  proof (cases "find (\<lambda>c. \<not> rc_Used c \<and> verify ?p (rc_Hash c)) ?rows")
    case None
    have no: "\<not> (\<not> rc_Used (?rows ! k) \<and> fst (codes ! k) = ?p)" if "k < length codes" for k
    proof -
      have "?rows ! k \<in> set ?rows" using that len by simp
      with None have "\<not> (\<not> rc_Used (?rows ! k) \<and> verify ?p (rc_Hash (?rows ! k)))" unfolding find_None_iff by blast
      then show ?thesis using D(3) [OF that, of ?p] by auto
    qed
    have "recovery_read verify code m = None"
      using None by (simp add: recovery_read_def VerifyRecoveryCode_def Let_def match_codes_nth [OF ids])
    with no show ?thesis by auto
  next
    case (Some c)
    then obtain k where "k < length ?rows" "c = ?rows ! k" "\<not> rc_Used (?rows ! k)" "verify ?p (rc_Hash (?rows ! k))"
      by (auto simp: find_Some_iff)
    then have k: "k < length codes" "c = ?rows ! k" "\<not> rc_Used (?rows ! k)" "fst (codes ! k) = ?p"
      using D(3) [of k ?p] len by simp_all
    have "fst (codes ! k) \<in> fst ` set codes" using k(1) by simp
    then have "?p \<noteq> ''''" using assms(2) k(4) by metis
    moreover have "rc_ID c = snd (codes ! k)" "snd (codes ! k) \<noteq> ''''" using D(1,2) k by auto
    ultimately have r: "recovery_read verify code m = Some (snd (codes ! k))"
      using Some by (simp add: recovery_read_def VerifyRecoveryCode_def Let_def match_codes_nth [OF ids])
    have one: "j = k" if "j < length codes" "fst (codes ! j) = ?p" for j
      using unique [OF that(1) k(1)] that(2) k(4) by simp
    show ?thesis
    proof
      assume "recovery_read verify code m = Some i"
      with r have "i = snd (codes ! k)" by simp
      with k show "\<exists>k < length codes. \<not> rc_Used (?rows ! k) \<and> fst (codes ! k) = ?p \<and> i = snd (codes ! k)" by blast
    next
      assume "\<exists>k < length codes. \<not> rc_Used (?rows ! k) \<and> fst (codes ! k) = ?p \<and> i = snd (codes ! k)"
      then obtain j where "j < length codes" "fst (codes ! j) = ?p" "i = snd (codes ! j)" by blast
      with one r show "recovery_read verify code m = Some i" by simp
    qed
  qed
qed

lemma recovery_commit_stored:
  assumes S: "stored_for verify codes (recovery_rows m)" and k: "k < length codes"
  shows "stored_for verify codes (recovery_rows (recovery_commit (snd (codes ! k)) m))"
    and "unused_codes codes (recovery_rows (recovery_commit (snd (codes ! k)) m)) = unused_codes codes (recovery_rows m) - {fst (codes ! k)}"
proof -
  let ?rows = "recovery_rows m" and ?rows' = "recovery_rows (recovery_commit (snd (codes ! k)) m)"
  note D = stored_forD [OF S]
  have len: "length ?rows' = length codes" using D(4) k by (simp add: recovery_commit_def)
  have kept: "rc_ID (?rows' ! j) = rc_ID (?rows ! j)" "rc_Hash (?rows' ! j) = rc_Hash (?rows ! j)" if "j < length codes" for j
    using that D(4) k by (simp_all add: recovery_commit_def)
  have ids: "map rc_ID ?rows' = map rc_ID ?rows"
    using kept(1) len D(4) [OF k] by (intro nth_equalityI) auto
  show "stored_for verify codes ?rows'"
    using S kept len ids by (simp add: stored_for_def)
  have same: "rc_ID (?rows ! j) = snd (codes ! k) \<longleftrightarrow> j = k" if "j < length codes" for j
    using S that D(1,4) [OF k] k nth_eq_iff_index_eq [of "map rc_ID ?rows" j k] by (simp add: stored_for_def)
  have codes: "fst (codes ! j) = fst (codes ! k) \<longleftrightarrow> j = k" if "j < length codes" for j
    using S that k nth_eq_iff_index_eq [of "map fst codes" j k] by (simp add: stored_for_def)
  have used: "rc_Used (?rows' ! j) \<longleftrightarrow> rc_Used (?rows ! j) \<or> j = k" if "j < length codes" for j
    using that same [OF that] D(4) [OF k] by (cases "j = k") (simp_all add: recovery_commit_def)
  show "unused_codes codes ?rows' = unused_codes codes ?rows - {fst (codes ! k)}"
  proof (rule set_eqI)
    fix x
    have "x \<in> unused_codes codes ?rows' \<longleftrightarrow> (\<exists>j < length codes. x = fst (codes ! j) \<and> \<not> rc_Used (?rows ! j) \<and> j \<noteq> k)"
      unfolding unused_codes_def using used by auto
    also have "\<dots> \<longleftrightarrow> x \<in> unused_codes codes ?rows - {fst (codes ! k)}"
      unfolding unused_codes_def using codes by auto
    finally show "x \<in> unused_codes codes ?rows' \<longleftrightarrow> x \<in> unused_codes codes ?rows - {fst (codes ! k)}" .
  qed
qed

lemma recovery_run_redeems:
  assumes "stored_for verify codes (recovery_rows m)" and "'''' \<notin> fst ` set codes"
  shows "recovery_run verify m h = redeem_run (unused_codes codes (recovery_rows m)) h"
  using assms(1)
proof (induction h arbitrary: m)
  case (Cons code h)
  note iff = recovery_read_iff [OF Cons.prems assms(2), of code]
  let ?left = "unused_codes codes (recovery_rows m)"
  show ?case
  proof (cases "recovery_read verify code m")
    case None
    have "rc_Used (recovery_rows m ! k)" if "k < length codes" "fst (codes ! k) = NormalizeRecoveryCode code" for k
      using iff [of "snd (codes ! k)"] None that by auto
    then have "NormalizeRecoveryCode code \<notin> ?left" by (auto simp: unused_codes_def)
    with None Cons show ?thesis by (simp add: keyed_normal)
  next
    case (Some i)
    then obtain k where k: "k < length codes" "\<not> rc_Used (recovery_rows m ! k)" "fst (codes ! k) = NormalizeRecoveryCode code" "i = snd (codes ! k)"
      using iff by blast
    then have "NormalizeRecoveryCode code \<in> ?left" by (force simp: unused_codes_def)
    with Some Cons.IH [OF recovery_commit_stored(1) [OF Cons.prems k(1)]] recovery_commit_stored(2) [OF Cons.prems k(1)] k show ?thesis
      by (simp add: keyed_normal)
  qed
qed simp

text \<open>A displayed code survives retyping: its normal form is the twenty letters without the hyphens.\<close>

lemma alphabet_normal:
  assumes "n < length recoveryAlphabet"
  shows "NormalizeRecoveryCode [recoveryAlphabet ! n] = [recoveryAlphabet ! n]"
proof -
  have "\<forall>c \<in> set recoveryAlphabet. NormalizeRecoveryCode [c] = [c]"
    by (simp add: recoveryAlphabet_def NormalizeRecoveryCode_def to_upper_def upper_char_def in_range_def Let_def)
  then show ?thesis using assms nth_mem by blast
qed

lemma normalize_append: "NormalizeRecoveryCode (s @ t) = NormalizeRecoveryCode s @ NormalizeRecoveryCode t"
  by (simp add: NormalizeRecoveryCode_def to_upper_def)

lemma normalize_letters:
  "\<forall>n \<in> set ns. n < length recoveryAlphabet \<Longrightarrow> NormalizeRecoveryCode (map (\<lambda>n. recoveryAlphabet ! n) ns) = map (\<lambda>n. recoveryAlphabet ! n) ns"
proof (induction ns)
  case (Cons n ns)
  then show ?case using normalize_append [of "[recoveryAlphabet ! n]"] by (simp add: alphabet_normal)
qed (simp add: NormalizeRecoveryCode_def to_upper_def)

lemma recovery_code_normal:
  assumes "length ns = 20" and "\<forall>n \<in> set ns. n < length recoveryAlphabet"
  shows "NormalizeRecoveryCode (newRecoveryCode ns) = map (\<lambda>n. recoveryAlphabet ! n) ns"
proof -
  let ?l = "\<lambda>n. recoveryAlphabet ! n"
  define a b c d where abcd: "a = take 5 ns" "b = take 5 (drop 5 ns)" "c = take 5 (drop 10 ns)" "d = take 5 (drop 15 ns)"
  have ns: "ns = a @ b @ c @ d"
    unfolding abcd
    using assms(1) append_take_drop_id [of 5 ns] append_take_drop_id [of 5 "drop 5 ns"] append_take_drop_id [of 5 "drop 10 ns"] by simp
  have hyphen: "NormalizeRecoveryCode (CHR ''-'' # s) = NormalizeRecoveryCode s" for s
    by (simp add: NormalizeRecoveryCode_def to_upper_def upper_char_def in_range_def)
  have group: "map (\<lambda>i. ?l (ns ! (g * 5 + i))) [0 ..< 5] = map ?l (take 5 (drop (g * 5) ns))" if "g * 5 + 5 \<le> length ns" for g
    using that by (intro nth_equalityI) auto
  have four: "[0 ..< recoveryGroups] = [0, 1, 2, 3]" by code_simp
  have fits: "(0::nat) * 5 + 5 \<le> length ns" "(1::nat) * 5 + 5 \<le> length ns" "(2::nat) * 5 + 5 \<le> length ns" "(3::nat) * 5 + 5 \<le> length ns"
    using assms(1) by simp_all
  have "newRecoveryCode ns = map ?l (take 5 (drop (0 * 5) ns)) @ ''-'' @ map ?l (take 5 (drop (1 * 5) ns))
      @ ''-'' @ map ?l (take 5 (drop (2 * 5) ns)) @ ''-'' @ map ?l (take 5 (drop (3 * 5) ns))"
    by (simp only: newRecoveryCode_def recoveryGroupLen_def four list.map group [OF fits(1)] group [OF fits(2)]
        group [OF fits(3)] group [OF fits(4)] join_with.simps)
  then have "newRecoveryCode ns = map ?l a @ ''-'' @ map ?l b @ ''-'' @ map ?l c @ ''-'' @ map ?l d"
    by (simp add: abcd)
  moreover have "\<forall>n \<in> set a \<union> set b \<union> set c \<union> set d. n < length recoveryAlphabet"
    using assms(2) ns by (metis set_append UnCI UnE)
  ultimately show ?thesis
    by (subst (2) ns) (simp add: normalize_append hyphen normalize_letters)
qed

text \<open>The rows that confirming an enrolment stores, for draws with their salts and identifiers.\<close>

definition enrolled :: "(string \<Rightarrow> string \<Rightarrow> string) \<Rightarrow> (nat list \<times> string) list \<Rightarrow> string list \<Rightarrow> mfa_rows" where
  "enrolled hash draws ids = mfa_confirm 1 (zip ids (snd (GenerateRecoveryCodes hash draws))) \<lparr>totp_row = None, recovery_rows = []\<rparr>"

definition letters_of :: "nat list \<Rightarrow> string" where
  "letters_of ns = map (\<lambda>n. recoveryAlphabet ! n) ns"

text \<open>
  C37 (refinement). The codes handed out when a second factor is confirmed behave, for requests that
  follow one another, like a set from which each use removes one: a typed text is accepted exactly
  if its letters, large or small, and its digits are those of a code on the sheet that was not used
  yet, whatever blanks, hyphens and other signs stand between them. This rests on the password hash
  telling texts apart and on drawing different codes.
\<close>

theorem recovery_codes_redeem_once:
  assumes "\<And>p q salt. verify p (hash salt q) \<longleftrightarrow> p = q"
    and "\<forall>(ns, salt) \<in> set draws. length ns = 20 \<and> (\<forall>n \<in> set ns. n < length recoveryAlphabet)"
    and "distinct (map (\<lambda>d. letters_of (fst d)) draws)"
    and "length ids = length draws" and "distinct ids" and "'''' \<notin> set ids"
  shows "recovery_run verify (enrolled hash draws ids) typed = redeem_run (keyed ` set (fst (GenerateRecoveryCodes hash draws))) typed
    \<and> (\<forall>d \<in> set draws. keyed (newRecoveryCode (fst d)) = map (\<lambda>n. ''BCDFGHJKMNPQRSTVWXYZ23456789'' ! n) (fst d))"
proof -
  let ?rows = "recovery_rows (enrolled hash draws ids)" and ?codes = "zip (map (\<lambda>d. letters_of (fst d)) draws) ids"
  have normal: "NormalizeRecoveryCode (newRecoveryCode (fst d)) = letters_of (fst d)" if "d \<in> set draws" for d
    using recovery_code_normal [of "fst d"] assms(2) that by (cases d) (auto simp: letters_of_def)
  have rows: "?rows = map (\<lambda>(i, h). \<lparr>rc_ID = i, rc_Hash = h, rc_Used = False\<rparr>) (zip ids (snd (GenerateRecoveryCodes hash draws)))"
    by (simp add: enrolled_def mfa_confirm_def)
  have nth: "?rows ! k = \<lparr>rc_ID = ids ! k, rc_Hash = hash (snd (draws ! k)) (letters_of (fst (draws ! k))), rc_Used = False\<rparr>"
    if "k < length draws" for k
    using that assms(4) normal [of "draws ! k"] by (simp add: rows GenerateRecoveryCodes_def case_prod_beta)
  have len: "length ?rows = length draws" using assms(4) by (simp add: rows GenerateRecoveryCodes_def)
  have ids: "map rc_ID ?rows = ids" using len nth assms(4) by (intro nth_equalityI) auto
  have "snd (?codes ! k) \<noteq> ''''" if "k < length draws" for k
  proof -
    have "ids ! k \<in> set ids" using that assms(4) by simp
    then have "ids ! k \<noteq> ''''" using assms(6) by metis
    then show ?thesis using that assms(4) by simp
  qed
  then have S: "stored_for verify ?codes ?rows"
    using assms(1,3,4,5) len nth ids by (simp add: stored_for_def)
  have "letters_of (fst d) \<noteq> ''''" if "d \<in> set draws" for d
    using assms(2) that by (auto simp: letters_of_def)
  moreover have "fst ` set ?codes = set (map (\<lambda>d. letters_of (fst d)) draws)"
    using assms(4) by (metis length_map list.set_map map_fst_zip)
  ultimately have ne: "'''' \<notin> fst ` set ?codes" by (metis (mono_tags, lifting) image_iff list.set_map)
  have "unused_codes ?codes ?rows = (\<lambda>d. letters_of (fst d)) ` set draws"
    using nth assms(4) by (force simp: unused_codes_def in_set_conv_nth)
  moreover have "keyed ` set (fst (GenerateRecoveryCodes hash draws)) = (\<lambda>d. letters_of (fst d)) ` set draws"
  proof -
    have "keyed ` set (fst (GenerateRecoveryCodes hash draws)) = (\<lambda>d. NormalizeRecoveryCode (newRecoveryCode (fst d))) ` set draws"
      unfolding keyed_normal by (simp add: GenerateRecoveryCodes_def image_image case_prod_beta)
    with normal show ?thesis by simp
  qed
  moreover have "keyed (newRecoveryCode (fst d)) = map (\<lambda>n. ''BCDFGHJKMNPQRSTVWXYZ23456789'' ! n) (fst d)" if "d \<in> set draws" for d
    using normal [OF that] unfolding keyed_normal letters_of_def recoveryAlphabet_def .
  ultimately show ?thesis using recovery_run_redeems [OF S ne] by simp
qed

definition demo_draws :: "(nat list \<times> string) list" where
  "demo_draws = [(replicate 20 0, ''salt''), (replicate 20 1, ''pepper'')]"

theorem recovery_codes_redeem_once_witness:
  "recovery_run (=) (enrolled (\<lambda>salt q. q) demo_draws [''c1'', ''c2''])
     [''bbbbb bbbbb bbbbb bbbbb'', ''BBBBB-BBBBB-BBBBB-BBBBB'', ''CCCCC-CCCCC-CCCCC-CCCCC'', ''wrong''] = [True, False, True, False]"
proof -
  have letters: "map (\<lambda>n. ''BCDFGHJKMNPQRSTVWXYZ23456789'' ! n) (replicate 20 0) = ''BBBBBBBBBBBBBBBBBBBB''"
    "map (\<lambda>n. ''BCDFGHJKMNPQRSTVWXYZ23456789'' ! n) (replicate 20 (Suc 0)) = ''CCCCCCCCCCCCCCCCCCCC''"
    by (simp_all add: eval_nat_numeral)
  have typed: "map upper_char ''bBC -wrong'' = ''BBC -WRONG''" "list_all (in_range 65 90) ''BCWRONG''" "\<not> in_range 65 90 (CHR '' '')"
    "\<not> in_range 65 90 (CHR ''-'')" "\<not> in_range 48 57 (CHR '' '')" "\<not> in_range 48 57 (CHR ''-'')"
    by code_simp+
  note typed = typed [simplified]
  have keys: "keyed ''bbbbb bbbbb bbbbb bbbbb'' = ''BBBBBBBBBBBBBBBBBBBB''" "keyed ''BBBBB-BBBBB-BBBBB-BBBBB'' = ''BBBBBBBBBBBBBBBBBBBB''"
    "keyed ''CCCCC-CCCCC-CCCCC-CCCCC'' = ''CCCCCCCCCCCCCCCCCCCC''" "keyed ''wrong'' = ''WRONG''"
    by (simp_all add: keyed_normal [symmetric] NormalizeRecoveryCode_def to_upper_def typed)
  have drawn: "\<forall>(ns, salt) \<in> set demo_draws. length ns = 20 \<and> (\<forall>n \<in> set ns. n < length recoveryAlphabet)"
    by (simp add: demo_draws_def recoveryAlphabet_def)
  have differ: "distinct (map (\<lambda>d. letters_of (fst d)) demo_draws)"
    using letters by (simp add: demo_draws_def letters_of_def recoveryAlphabet_def)
  let ?typed = "[''bbbbb bbbbb bbbbb bbbbb'', ''BBBBB-BBBBB-BBBBB-BBBBB'', ''CCCCC-CCCCC-CCCCC-CCCCC'', ''wrong'']"
  have run: "recovery_run (=) (enrolled (\<lambda>salt q. q) demo_draws [''c1'', ''c2'']) ?typed
      = redeem_run (keyed ` set (fst (GenerateRecoveryCodes (\<lambda>salt q. q) demo_draws))) ?typed"
    and codes: "\<forall>d \<in> set demo_draws. keyed (newRecoveryCode (fst d)) = map (\<lambda>n. ''BCDFGHJKMNPQRSTVWXYZ23456789'' ! n) (fst d)"
    using recovery_codes_redeem_once [of "(=)" "\<lambda>salt q. q", OF _ drawn differ, of "[''c1'', ''c2'']" ?typed]
    by (simp_all del: recovery_run.simps redeem_run.simps add: demo_draws_def)
  from codes letters have "keyed (newRecoveryCode (replicate 20 0)) = ''BBBBBBBBBBBBBBBBBBBB''"
    "keyed (newRecoveryCode (replicate 20 1)) = ''CCCCCCCCCCCCCCCCCCCC''" by (simp_all add: demo_draws_def)
  then have "keyed ` set (fst (GenerateRecoveryCodes (\<lambda>salt q. q) demo_draws)) = {''BBBBBBBBBBBBBBBBBBBB'', ''CCCCCCCCCCCCCCCCCCCC''}"
    by (simp add: GenerateRecoveryCodes_def demo_draws_def)
  with run show ?thesis by (simp del: recovery_run.simps add: keys)
qed

subsection \<open>Requests at the same time\<close>

text \<open>
  Two requests that both read before either commits are both accepted, with the same code: the
  second commit writes what is there already, and neither handler looks at how many rows it changed.
\<close>

theorem racing_code_accepted_twice:
  assumes "recovery_read verify code m = Some i" and "totp_read hmac now otp m = Some s"
  shows "\<exists>i1 i2 s1 s2. recovery_read verify code m = Some i1 \<and> recovery_read verify code m = Some i2
    \<and> recovery_rows (recovery_commit i2 (recovery_commit i1 m)) = recovery_rows (recovery_commit i1 m)
    \<and> totp_read hmac now otp m = Some s1 \<and> totp_read hmac now otp m = Some s2
    \<and> totp_commit s2 (totp_commit s1 m) = totp_commit s1 m"
proof -
  have "recovery_rows (recovery_commit i (recovery_commit i m)) = recovery_rows (recovery_commit i m)"
    by (simp add: recovery_commit_def)
  moreover have "totp_commit s (totp_commit s m) = totp_commit s m"
    by (cases "totp_row m") (auto simp: totp_commit_def)
  ultimately show ?thesis using assms by blast
qed

text \<open>Ten digits are allowed, but the modulus is multiplied up in 32 bits and is not ten to the tenth.\<close>

theorem ten_digit_code_wraps:
  assumes "decodeTOTPSecret secret = Inr raw"
  shows "TOTPCodeAt (\<lambda>_ _ _. [0x54, 0x0B, 0xE4, 0x00] @ replicate 16 0) secret n TOTPSHA1 10 = Inr ''0000000000''
    \<and> be32 [0x54, 0x0B, 0xE4, 0x00] = 1410065408"
proof -
  have "be32 [0x54, 0x0B, 0xE4, 0x00] = 1410065408" by (simp add: be32_def)
  moreover have "digits_of 10 0 = ''0000000000''" by code_simp
  ultimately show ?thesis using assms by (simp add: TOTPCodeAt_def Let_def)
qed

end
