(* ===== verification/Audit_Log.thy ===== *)
theory Audit_Log
  imports Go_Time "HOL-Library.List_Lexorder" "HOL-Library.Char_ord" "HOL-Library.Sublist" "HOL-Library.Multiset"
begin

section \<open>The audit log (\<^verbatim>\<open>internal/audit/audit.go\<close>)\<close>

text \<open>
  Events, what the recorder makes of them and how they are listed. Actions, severities and outcomes
  are Go strings and the empty string means that the caller left them out. The detail map is an
  association list and is stored decoded: its column is the JSON of it. Identifiers and the clock
  are arguments; the table is the list of rows in order of insertion.
\<close>

subsection \<open>Data\<close>

definition ActionLoginSucceeded :: string where "ActionLoginSucceeded = ''auth.login.succeeded''"
definition ActionLoginFailed :: string where "ActionLoginFailed = ''auth.login.failed''"
definition ActionLoginThrottled :: string where "ActionLoginThrottled = ''auth.login.throttled''"
definition ActionLogout :: string where "ActionLogout = ''auth.logout''"
definition ActionSessionRevoked :: string where "ActionSessionRevoked = ''auth.session.revoked''"
definition ActionSSOSignIn :: string where "ActionSSOSignIn = ''auth.sso.signin''"
definition ActionSSOFailed :: string where "ActionSSOFailed = ''auth.sso.failed''"
definition ActionSSOProvisioned :: string where "ActionSSOProvisioned = ''auth.sso.provisioned''"
definition ActionMFAEnrolled :: string where "ActionMFAEnrolled = ''auth.mfa.enrolled''"
definition ActionMFAVerified :: string where "ActionMFAVerified = ''auth.mfa.verified''"
definition ActionMFAFailed :: string where "ActionMFAFailed = ''auth.mfa.failed''"
definition ActionMFADisabled :: string where "ActionMFADisabled = ''auth.mfa.disabled''"
definition ActionRecoveryCodeUsed :: string where "ActionRecoveryCodeUsed = ''auth.mfa.recovery_used''"
definition ActionVaultUnlocked :: string where "ActionVaultUnlocked = ''vault.unlocked''"
definition ActionVaultUnlockFailed :: string where "ActionVaultUnlockFailed = ''vault.unlock.failed''"
definition ActionVaultLocked :: string where "ActionVaultLocked = ''vault.locked''"
definition ActionVaultPassphraseSet :: string where "ActionVaultPassphraseSet = ''vault.passphrase.set''"
definition ActionVaultPassphraseChanged :: string where "ActionVaultPassphraseChanged = ''vault.passphrase.changed''"
definition ActionVaultReset :: string where "ActionVaultReset = ''vault.reset''"
definition ActionExported :: string where "ActionExported = ''portability.exported''"
definition ActionExportedPlaintext :: string where "ActionExportedPlaintext = ''portability.exported_plaintext''"
definition ActionTunnelListener :: string where "ActionTunnelListener = ''tunnel.listener.opened''"
definition ActionTunnelRemote :: string where "ActionTunnelRemote = ''tunnel.remote.opened''"
definition ActionAgentForwarded :: string where "ActionAgentForwarded = ''agent.forwarded''"
definition ActionSessionRecorded :: string where "ActionSessionRecorded = ''session.recorded''"
definition ActionBroadcastStarted :: string where "ActionBroadcastStarted = ''terminal.broadcast.started''"
definition ActionFileDownloaded :: string where "ActionFileDownloaded = ''files.download''"
definition ActionFileTreeDeleted :: string where "ActionFileTreeDeleted = ''files.delete.recursive''"
definition ActionUserDisabled :: string where "ActionUserDisabled = ''admin.user.disabled''"
definition ActionUserDeleted :: string where "ActionUserDeleted = ''admin.user.deleted''"
definition ActionRoleChanged :: string where "ActionRoleChanged = ''admin.role.changed''"
definition ActionPolicyChanged :: string where "ActionPolicyChanged = ''admin.policy.changed''"

definition SeverityInfo :: string where "SeverityInfo = ''info''"
definition SeverityNotice :: string where "SeverityNotice = ''notice''"
definition SeverityWarning :: string where "SeverityWarning = ''warning''"
definition SeverityCritical :: string where "SeverityCritical = ''critical''"

definition OutcomeSuccess :: string where "OutcomeSuccess = ''success''"
definition OutcomeFailure :: string where "OutcomeFailure = ''failure''"
definition OutcomeDenied :: string where "OutcomeDenied = ''denied''"

definition minimumSeverity :: "(string \<times> string) list" where
  "minimumSeverity =
     [(ActionExportedPlaintext, SeverityCritical), (ActionVaultReset, SeverityCritical), (ActionUserDeleted, SeverityWarning),
      (ActionRoleChanged, SeverityWarning), (ActionPolicyChanged, SeverityWarning), (ActionUserDisabled, SeverityNotice),
      (ActionExported, SeverityNotice), (ActionRecoveryCodeUsed, SeverityNotice), (ActionMFADisabled, SeverityNotice),
      (ActionLoginThrottled, SeverityNotice), (ActionSSOFailed, SeverityNotice), (ActionFileDownloaded, SeverityNotice),
      (ActionFileTreeDeleted, SeverityNotice), (ActionTunnelListener, SeverityNotice), (ActionTunnelRemote, SeverityNotice),
      (ActionAgentForwarded, SeverityNotice), (ActionSessionRecorded, SeverityNotice), (ActionBroadcastStarted, SeverityNotice)]"

text \<open>Indexing the rank map with a severity it does not have gives zero.\<close>

definition severityRank :: "string \<Rightarrow> nat" where
  "severityRank s =
     (if s = SeverityNotice then 1 else if s = SeverityWarning then 2 else if s = SeverityCritical then 3 else 0)"

definition forbiddenDetailKeys :: "string list" where
  "forbiddenDetailKeys =
     [''password'', ''passphrase'', ''secret'', ''private_key'', ''privatekey'', ''token'', ''credential_secret'',
      ''totp_secret'', ''recovery_code'', ''client_secret'', ''master_key'', ''dek'', ''kek'', ''api_key'', ''apikey'']"

datatype audit_error = NoAction | SecretDetail string | AuditInsertFailed

record Event =
  ev_ID :: string
  ev_OccurredAt :: "int option"
  ev_ActorID :: string
  ev_ActorEmail :: string
  ev_IPAddress :: string
  ev_Action :: string
  ev_Severity :: string
  ev_TargetType :: string
  ev_TargetID :: string
  ev_TargetLabel :: string
  ev_Outcome :: string
  ev_Detail :: "(string \<times> string) list"

type_synonym audit_events = "Event list"

subsection \<open>Recording\<close>

definition secret_key :: "string \<Rightarrow> bool" where
  "secret_key key \<longleftrightarrow> list_ex (\<lambda>forbidden. contains_sub (to_lower key) forbidden) forbiddenDetailKeys"

definition encodeDetail :: "(string \<times> string) list \<Rightarrow> (audit_error, (string \<times> string) list) result" where
  "encodeDetail detail =
     (case find (\<lambda>(key, _). secret_key key) detail of
        Some (key, _) \<Rightarrow> Inl (SecretDetail key)
      | None \<Rightarrow> Inr detail)"

text \<open>Defaults and the severity floor of \<^verbatim>\<open>record\<close>.\<close>

definition complete_event :: "string \<Rightarrow> int \<Rightarrow> Event \<Rightarrow> Event" where
  "complete_event i now e =
     (let e = (if ev_ID e = '''' then e\<lparr>ev_ID := i\<rparr> else e);
          e = (if ev_OccurredAt e = None then e\<lparr>ev_OccurredAt := Some now\<rparr> else e);
          e = (if ev_Severity e = '''' then e\<lparr>ev_Severity := SeverityInfo\<rparr> else e);
          e = (if ev_Outcome e = '''' then e\<lparr>ev_Outcome := OutcomeSuccess\<rparr> else e)
      in case map_of minimumSeverity (ev_Action e) of
           Some floor \<Rightarrow> (if severityRank (ev_Severity e) < severityRank floor then e\<lparr>ev_Severity := floor\<rparr> else e)
         | None \<Rightarrow> e)"

definition RecordErr :: "string \<Rightarrow> int \<Rightarrow> Event \<Rightarrow> audit_events \<Rightarrow> audit_events \<times> (audit_error, unit) result" where
  "RecordErr i now e db =
     (if ev_Action e = '''' then (db, Inl NoAction)
      else let e = complete_event i now e in
        case encodeDetail (ev_Detail e) of
          Inl err \<Rightarrow> (db, Inl err)
        | Inr d \<Rightarrow> if ev_ID e \<in> ev_ID ` set db then (db, Inl AuditInsertFailed) else (db @ [e], Inr ()))"

definition audit_Record :: "string \<Rightarrow> int \<Rightarrow> Event \<Rightarrow> audit_events \<Rightarrow> audit_events" where
  "audit_Record i now e db = fst (RecordErr i now e db)"

subsection \<open>Listing\<close>

record Query =
  q_ActorID :: string
  q_Action :: string
  q_Since :: "int option"
  q_Until :: "int option"
  q_Limit :: int

definition text_at_most :: "int \<Rightarrow> int \<Rightarrow> bool" where
  "text_at_most t u \<longleftrightarrow> rfc3339_nano t \<le> rfc3339_nano u"

definition occurred :: "Event \<Rightarrow> int" where
  "occurred e = (case ev_OccurredAt e of Some t \<Rightarrow> t | None \<Rightarrow> 0)"

definition query_matches :: "Query \<Rightarrow> Event \<Rightarrow> bool" where
  "query_matches q e \<longleftrightarrow> (q_ActorID q \<noteq> '''' \<longrightarrow> ev_ActorID e = q_ActorID q) \<and> (q_Action q \<noteq> '''' \<longrightarrow> ev_Action e = q_Action q)
     \<and> (case q_Since q of None \<Rightarrow> True | Some t \<Rightarrow> text_at_most t (occurred e))
     \<and> (case q_Until q of None \<Rightarrow> True | Some t \<Rightarrow> text_at_most (occurred e) t)"

definition query_limit :: "Query \<Rightarrow> nat" where
  "query_limit q = (if q_Limit q \<le> 0 \<or> q_Limit q > 1000 then 100 else nat (q_Limit q))"

definition audit_List :: "Query \<Rightarrow> audit_events \<Rightarrow> Event list" where
  "audit_List q db =
     take (query_limit q) (rev (sort_key (\<lambda>e. rfc3339_nano (occurred e)) (filter (query_matches q) db)))"

definition Actions :: "audit_events \<Rightarrow> string list" where
  "Actions db = sort (remdups (map ev_Action db))"

subsection \<open>What the log keeps\<close>

definition row_ok :: "Event \<Rightarrow> bool" where
  "row_ok e \<longleftrightarrow> ev_ID e \<noteq> '''' \<and> ev_OccurredAt e \<noteq> None \<and> ev_Action e \<noteq> '''' \<and> ev_Severity e \<noteq> '''' \<and> ev_Outcome e \<noteq> ''''
     \<and> (\<forall>floor. map_of minimumSeverity (ev_Action e) = Some floor \<longrightarrow> severityRank floor \<le> severityRank (ev_Severity e))
     \<and> (\<forall>(key, _) \<in> set (ev_Detail e). \<not> secret_key key)"

definition log_ok :: "audit_events \<Rightarrow> bool" where
  "log_ok db \<longleftrightarrow> list_all row_ok db \<and> distinct (map ev_ID db)"

inductive audit_step :: "audit_events \<Rightarrow> audit_events \<Rightarrow> bool" where
  record_event: "i \<noteq> '''' \<Longrightarrow> audit_step db (fst (RecordErr i now e db))"

inductive_cases audit_stepE: "audit_step db db'"

lemma floor_nonempty: "map_of minimumSeverity a = Some floor \<Longrightarrow> floor \<noteq> ''''"
  by (auto simp: minimumSeverity_def SeverityCritical_def SeverityWarning_def SeverityNotice_def split: if_split_asm dest: map_of_SomeD)

lemma complete_event_fields:
  "ev_ActorID (complete_event i now e) = ev_ActorID e" "ev_ActorEmail (complete_event i now e) = ev_ActorEmail e"
  "ev_Action (complete_event i now e) = ev_Action e" "ev_Detail (complete_event i now e) = ev_Detail e"
  "ev_ID (complete_event i now e) = (if ev_ID e = '''' then i else ev_ID e)"
  "ev_OccurredAt (complete_event i now e) = (if ev_OccurredAt e = None then Some now else ev_OccurredAt e)"
  "ev_Outcome (complete_event i now e) = (if ev_Outcome e = '''' then OutcomeSuccess else ev_Outcome e)"
  by (simp_all add: complete_event_def Let_def split: option.split)

lemma complete_event_severity:
  "ev_Severity (complete_event i now e) =
     (let s = (if ev_Severity e = '''' then SeverityInfo else ev_Severity e) in
      case map_of minimumSeverity (ev_Action e) of
        Some floor \<Rightarrow> if severityRank s < severityRank floor then floor else s
      | None \<Rightarrow> s)"
  by (auto simp: complete_event_def Let_def split: option.split)

lemma encodeDetail_Inr: "encodeDetail d = Inr d' \<longleftrightarrow> d' = d \<and> (\<forall>(key, _) \<in> set d. \<not> secret_key key)"
  by (auto simp: encodeDetail_def find_None_iff find_Some_iff split: option.splits) (metis case_prod_conv in_set_conv_nth nth_mem)+

lemma complete_row_ok:
  assumes "i \<noteq> ''''" and "ev_Action e \<noteq> ''''" and "\<forall>(key, _) \<in> set (ev_Detail e). \<not> secret_key key"
  shows "row_ok (complete_event i now e)"
proof -
  have "ev_Severity (complete_event i now e) \<noteq> ''''
    \<and> (\<forall>floor. map_of minimumSeverity (ev_Action e) = Some floor \<longrightarrow> severityRank floor \<le> severityRank (ev_Severity (complete_event i now e)))"
    by (auto simp: complete_event_severity Let_def SeverityInfo_def dest: floor_nonempty split: option.split)
  with assms show ?thesis by (simp add: row_ok_def complete_event_fields OutcomeSuccess_def)
qed

lemma RecordErr_cases:
  "fst (RecordErr i now e db) = db \<and> \<not> is_ok (snd (RecordErr i now e db))
   \<or> fst (RecordErr i now e db) = db @ [complete_event i now e] \<and> is_ok (snd (RecordErr i now e db))
     \<and> ev_Action e \<noteq> '''' \<and> (\<forall>(key, _) \<in> set (ev_Detail e). \<not> secret_key key)
     \<and> ev_ID (complete_event i now e) \<notin> ev_ID ` set db"
proof (cases "encodeDetail (ev_Detail e)")
  case (Inl err)
  then show ?thesis by (simp add: RecordErr_def Let_def complete_event_fields)
next
  case (Inr d)
  then have "\<forall>(key, _) \<in> set (ev_Detail e). \<not> secret_key key" by (simp add: encodeDetail_Inr)
  with Inr show ?thesis by (simp add: RecordErr_def Let_def complete_event_fields(1-4))
qed

interpretation audit_log: invariant_of audit_step log_ok
proof
  fix db db'
  assume "audit_step db db'" and ok: "log_ok db"
  then show "log_ok db'"
  proof cases
    case (record_event i now e)
    with ok RecordErr_cases [of i now e db] complete_row_ok [of i e now] show ?thesis by (auto simp: log_ok_def)
  qed
qed

lemma audit_prefix: "audit_step\<^sup>*\<^sup>* db db' \<Longrightarrow> prefix db db'"
proof (induction rule: rtranclp_induct)
  case (step x y)
  from step(2) have "prefix x y" by cases (use RecordErr_cases in \<open>metis prefix_def prefix_order.refl\<close>)
  with step(3) show ?case by (rule prefix_order.trans)
qed simp

lemma list_sorted:
  "sorted_wrt (\<lambda>x y. rfc3339_nano (occurred y) \<le> rfc3339_nano (occurred x)) (audit_List q db)"
proof -
  have "sorted (map (\<lambda>e. rfc3339_nano (occurred e)) (sort_key (\<lambda>e. rfc3339_nano (occurred e)) (filter (query_matches q) db)))"
    by simp
  then show ?thesis by (simp add: audit_List_def sorted_wrt_take sorted_wrt_rev sorted_wrt_map)
qed

text \<open>A search takes the first rows of the matching ones in descending order and leaves the others out.\<close>

lemma list_exact:
  "\<exists>rest. mset (audit_List q db @ rest) = mset (filter (query_matches q) db)
     \<and> (\<forall>x \<in> set (audit_List q db). \<forall>y \<in> set rest. rfc3339_nano (occurred y) \<le> rfc3339_nano (occurred x))"
proof -
  let ?all = "rev (sort_key (\<lambda>e. rfc3339_nano (occurred e)) (filter (query_matches q) db))"
  let ?rest = "drop (query_limit q) ?all"
  have split: "audit_List q db @ ?rest = ?all" by (simp add: audit_List_def)
  have "sorted (map (\<lambda>e. rfc3339_nano (occurred e)) (sort_key (\<lambda>e. rfc3339_nano (occurred e)) (filter (query_matches q) db)))"
    by simp
  then have "sorted_wrt (\<lambda>x y. rfc3339_nano (occurred y) \<le> rfc3339_nano (occurred x)) (audit_List q db @ ?rest)"
    unfolding split by (simp add: sorted_wrt_rev sorted_wrt_map)
  then have "\<forall>x \<in> set (audit_List q db). \<forall>y \<in> set ?rest. rfc3339_nano (occurred y) \<le> rfc3339_nano (occurred x)"
    by (simp only: sorted_wrt_append) blast
  moreover have "mset (audit_List q db @ ?rest) = mset (filter (query_matches q) db)" unfolding split by simp
  ultimately show ?thesis by blast
qed

text \<open>An event as it is stored: what was left out filled in, the severity raised to the floor of the action and never lowered.\<close>

definition stored_as :: "string \<Rightarrow> int \<Rightarrow> Event \<Rightarrow> Event" where
  "stored_as i now e = e
     \<lparr>ev_ID := (if ev_ID e = '''' then i else ev_ID e),
      ev_OccurredAt := Some (case ev_OccurredAt e of Some t \<Rightarrow> t | None \<Rightarrow> now),
      ev_Severity :=
        (let s = (if ev_Severity e = '''' then ''info'' else ev_Severity e)
         in case map_of minimumSeverity (ev_Action e) of
              Some floor \<Rightarrow> if severityRank s < severityRank floor then floor else s
            | None \<Rightarrow> s),
      ev_Outcome := (if ev_Outcome e = '''' then ''success'' else ev_Outcome e)\<rparr>"

lemma complete_event_stored: "complete_event i now e = stored_as i now e"
  by (rule Event.equality)
    (simp_all add: complete_event_fields complete_event_severity stored_as_def SeverityInfo_def OutcomeSuccess_def Let_def
      split: option.split, simp_all add: complete_event_def Let_def split: option.split)

text \<open>
  C40 (invariant). Whatever is recorded in whatever order: rows are only ever appended; every row
  has an identifier of its own, a time, an action, a severity no lower than the floor of its
  action, an outcome, and no detail whose name looks like a secret. An event with an action,
  such details and a fresh identifier is stored with everything it came with, the severity raised to the
  floor where it was lower and what was left out filled in; any other event stores nothing. A search
  gives exactly the matching rows that come first in descending order of the text of their times,
  as many as were asked for, and a hundred if not between one and a thousand were.
\<close>

theorem audit_append_only:
  assumes "audit_step\<^sup>*\<^sup>* [] db"
  shows "(\<forall>e \<in> set db. row_ok e) \<and> distinct (map ev_ID db)
    \<and> (audit_step\<^sup>*\<^sup>* db db' \<longrightarrow> prefix db db')
    \<and> (if ev_Action e \<noteq> '''' \<and> (\<forall>(key, _) \<in> set (ev_Detail e). \<not> secret_key key) \<and> ev_ID (stored_as i now e) \<notin> ev_ID ` set db
        then RecordErr i now e db = (db @ [stored_as i now e], Inr ())
        else fst (RecordErr i now e db) = db \<and> \<not> is_ok (snd (RecordErr i now e db)))
    \<and> (\<exists>rest. mset (audit_List q db @ rest) =
          mset (filter (\<lambda>e. (q_ActorID q = '''' \<or> ev_ActorID e = q_ActorID q) \<and> (q_Action q = '''' \<or> ev_Action e = q_Action q)
            \<and> (\<forall>t. q_Since q = Some t \<longrightarrow> rfc3339_nano t \<le> rfc3339_nano (occurred e))
            \<and> (\<forall>t. q_Until q = Some t \<longrightarrow> rfc3339_nano (occurred e) \<le> rfc3339_nano t)) db)
         \<and> length (audit_List q db) = min (if 1 \<le> q_Limit q \<and> q_Limit q \<le> 1000 then nat (q_Limit q) else 100) (length (audit_List q db @ rest))
         \<and> (\<forall>x \<in> set (audit_List q db). \<forall>y \<in> set rest. rfc3339_nano (occurred y) \<le> rfc3339_nano (occurred x)))
    \<and> sorted_wrt (\<lambda>x y. rfc3339_nano (occurred y) \<le> rfc3339_nano (occurred x)) (audit_List q db)"
proof -
  have ok: "log_ok db" by (rule audit_log.run_inv [OF assms]) (simp add: log_ok_def)
  let ?m = "\<lambda>e. (q_ActorID q = '''' \<or> ev_ActorID e = q_ActorID q) \<and> (q_Action q = '''' \<or> ev_Action e = q_Action q)
            \<and> (\<forall>t. q_Since q = Some t \<longrightarrow> rfc3339_nano t \<le> rfc3339_nano (occurred e))
            \<and> (\<forall>t. q_Until q = Some t \<longrightarrow> rfc3339_nano (occurred e) \<le> rfc3339_nano t)"
  have matches: "query_matches q = ?m" by (auto simp: query_matches_def text_at_most_def fun_eq_iff split: option.split)
  obtain rest where rest: "mset (audit_List q db @ rest) = mset (filter ?m db)"
    "\<forall>x \<in> set (audit_List q db). \<forall>y \<in> set rest. rfc3339_nano (occurred y) \<le> rfc3339_nano (occurred x)"
    using list_exact [of q db] unfolding matches by blast
  from arg_cong [OF rest(1), of size] have "length (audit_List q db @ rest) = length (filter (query_matches q) db)"
    unfolding matches by (simp only: size_mset)
  moreover have "length (audit_List q db) = min (query_limit q) (length (filter (query_matches q) db))" by (simp add: audit_List_def)
  moreover have "query_limit q = (if 1 \<le> q_Limit q \<and> q_Limit q \<le> 1000 then nat (q_Limit q) else 100)"
    by (auto simp: query_limit_def)
  ultimately have len: "length (audit_List q db) = min (if 1 \<le> q_Limit q \<and> q_Limit q \<le> 1000 then nat (q_Limit q) else 100) (length (audit_List q db @ rest))"
    by simp
  have stored: "if ev_Action e \<noteq> '''' \<and> (\<forall>(key, _) \<in> set (ev_Detail e). \<not> secret_key key) \<and> ev_ID (stored_as i now e) \<notin> ev_ID ` set db
        then RecordErr i now e db = (db @ [stored_as i now e], Inr ())
        else fst (RecordErr i now e db) = db \<and> \<not> is_ok (snd (RecordErr i now e db))"
  proof (cases "ev_Action e \<noteq> '''' \<and> (\<forall>(key, _) \<in> set (ev_Detail e). \<not> secret_key key) \<and> ev_ID (stored_as i now e) \<notin> ev_ID ` set db")
    case True
    then have "encodeDetail (ev_Detail e) = Inr (ev_Detail e)" by (simp add: encodeDetail_Inr)
    with True show ?thesis by (simp add: RecordErr_def Let_def complete_event_fields(4) flip: complete_event_stored)
  next
    case False
    then show ?thesis using RecordErr_cases [of i now e db] unfolding complete_event_stored by metis
  qed
  show ?thesis using ok stored rest len list_sorted [of q db] audit_prefix [of db db'] unfolding log_ok_def list_all_iff by blast
qed

theorem audit_append_only_witness:
  "\<exists>db. audit_step\<^sup>*\<^sup>* [] db \<and> map ev_Severity db = [SeverityCritical] \<and> (\<forall>e \<in> set db. row_ok e)"
proof -
  let ?e = "\<lparr>ev_ID = '''', ev_OccurredAt = None, ev_ActorID = ''u1'', ev_ActorEmail = '''', ev_IPAddress = '''',
    ev_Action = ActionVaultReset, ev_Severity = '''', ev_TargetType = '''', ev_TargetID = '''', ev_TargetLabel = '''',
    ev_Outcome = '''', ev_Detail = [(''count'', ''3'')]\<rparr>"
  let ?db = "fst (RecordErr ''i1'' 7 ?e [])"
  have run: "audit_step\<^sup>*\<^sup>* [] ?db" by (intro r_into_rtranclp record_event) simp
  have "map ev_Severity ?db = [SeverityCritical]" by code_simp
  with run audit_append_only [OF run] show ?thesis by (intro exI [of _ ?db]) auto
qed

end
