(* ===== verification/Sign_In.thy ===== *)
theory Sign_In
  imports Auth_MFA Vault_Service Audit_Log
begin

section \<open>Signing in (\<^verbatim>\<open>internal/api\<close>: authentication, second factor, vault and session handlers)\<close>

text \<open>
  The handlers of \<^verbatim>\<open>auth_handlers.go\<close>, \<^verbatim>\<open>mfa_handlers.go\<close>, \<^verbatim>\<open>vault_handlers.go\<close> and
  \<^verbatim>\<open>session_handlers.go\<close> over one record of the server's state, and the middleware and routes of
  \<^verbatim>\<open>middleware.go\<close> and \<^verbatim>\<open>api.go\<close> that decide which of them a request reaches. A handler takes
  the state and returns it with its answer: an error code on the left, a reply on the right; the
  wording, the status and the JSON of both are left out, and so are cookies other than the session
  token. What a request brings besides its arguments, the clock and the random draws are the record
  \<open>request\<close>. The check of forged requests lies in front of all routes and is not part of this model.
\<close>

subsection \<open>Data\<close>

datatype ErrorCode =
    CodeBadRequest | CodeUnauthorized | CodeForbidden | CodeNotFound | CodeConflict | CodeRateLimited | CodeInternal
  | CodeVaultLocked | CodeVaultNotSetUp | CodeMFARequired | CodeInvalidCode | CodeSSODisabled | CodePasswordAuthOff

definition MFAOff :: string where "MFAOff = ''off''"
definition MFAOptional :: string where "MFAOptional = ''optional''"
definition MFARequired :: string where "MFARequired = ''required''"

record api_config =
  cfg_Session :: SessionConfig
  MFAPolicy :: string
  RequireMFAForAdmins :: bool
  AllowPasswordAuth :: bool
  OIDCAutoProvision :: bool
  cfg_Throttle :: ThrottleConfig
  cfg_vaults :: VaultService
  cfg_digest :: "string \<Rightarrow> string"
  cfg_hmac :: "TOTPAlgorithm \<Rightarrow> byte list \<Rightarrow> byte list \<Rightarrow> byte list"
  cfg_verify_password :: "string \<Rightarrow> string \<Rightarrow> bool"
  cfg_hash_code :: "string \<Rightarrow> string \<Rightarrow> string"
  cfg_verify_code :: "string \<Rightarrow> string \<Rightarrow> bool"

record request =
  rq_now :: int
  rq_ip :: string
  rq_agent :: string
  rq_event :: string
  rq_session :: string
  rq_token :: string
  rq_user :: string
  rq_draws :: draws
  rq_secret :: "byte list"
  rq_codes :: "(nat list \<times> string) list"
  rq_code_ids :: "string list"

record staged =
  st_token :: string
  st_userID :: string
  st_expiresAt :: int

record server =
  sv_vaults :: vault_state
  sv_sessions :: auth_table
  sv_throttle :: Throttle
  sv_totp :: "string \<Rightarrow> (Envelope \<times> int) option"
  sv_recovery :: "string \<Rightarrow> StoredRecoveryCode list"
  sv_staging :: "staged list"
  sv_audit :: audit_events

datatype api_reply =
    SignedIn string
  | SignedOut
  | Whoami User auth_session bool bool bool bool
  | VaultStatus bool bool UnlockKind bool
  | Enrolled UnlockKind
  | Unlocked bool
  | Changed nat
  | TOTPSetup string
  | RecoveryCodes "string list"
  | MFASatisfied
  | CodesRemaining nat
  | MFADisabled
  | SessionList "(auth_session \<times> bool) list"
  | Revoked nat
  | Served

type_synonym response = "(ErrorCode, api_reply) result"
type_synonym handler = "auth_session \<Rightarrow> User \<Rightarrow> server \<Rightarrow> server \<times> response"

record Claims =
  cl_Subject :: string
  cl_TenantID :: string
  cl_Email :: string
  cl_Name :: string
  cl_MFASatisfied :: bool

abbreviation sv_users :: "server \<Rightarrow> users_table" where
  "sv_users s \<equiv> vs_users (sv_vaults s)"

definition set_users :: "users_table \<Rightarrow> server \<Rightarrow> server" where
  "set_users db s = s\<lparr>sv_vaults := (sv_vaults s)\<lparr>vs_users := db\<rparr>\<rparr>"

text \<open>\<^verbatim>\<open>a.audit.Record\<close> with the fields the handlers here fill in.\<close>

definition audited ::
  "request \<Rightarrow> string \<Rightarrow> string \<Rightarrow> string \<Rightarrow> string \<Rightarrow> string \<Rightarrow> string \<times> string \<Rightarrow> (string \<times> string) list \<Rightarrow> server \<Rightarrow> server" where
  "audited rq actor email action outcome severity target detail s =
     s\<lparr>sv_audit := audit_Record (rq_event rq) (rq_now rq)
        \<lparr>ev_ID = '''', ev_OccurredAt = None, ev_ActorID = actor, ev_ActorEmail = email, ev_IPAddress = rq_ip rq, ev_Action = action,
         ev_Severity = severity, ev_TargetType = fst target, ev_TargetID = snd target, ev_TargetLabel = '''', ev_Outcome = outcome,
         ev_Detail = detail\<rparr> (sv_audit s)\<rparr>"

subsection \<open>Staged imports\<close>

definition stagingTTL :: int where "stagingTTL = 15 * 60 * second"
definition maxStagedPerUser :: nat where "maxStagedPerUser = 4"

definition sweepLocked :: "int \<Rightarrow> staged list \<Rightarrow> staged list" where
  "sweepLocked now items = filter (\<lambda>x. \<not> now > st_expiresAt x) items"

definition staging_put :: "int \<Rightarrow> string \<Rightarrow> string \<Rightarrow> staged list \<Rightarrow> staged list \<times> string option" where
  "staging_put now token user items =
     (let items = sweepLocked now items in
      if length (filter (\<lambda>x. st_userID x = user) items) \<ge> maxStagedPerUser then (items, None)
      else (\<lparr>st_token = token, st_userID = user, st_expiresAt = now + stagingTTL\<rparr> # filter (\<lambda>x. st_token x \<noteq> token) items, Some token))"

definition staging_take :: "int \<Rightarrow> string \<Rightarrow> string \<Rightarrow> staged list \<Rightarrow> staged list \<times> bool" where
  "staging_take now user token items =
     (let items = sweepLocked now items in
      case find (\<lambda>x. st_token x = token) items of
        None \<Rightarrow> (items, False)
      | Some x \<Rightarrow> if st_userID x \<noteq> user then (items, False) else (filter (\<lambda>x. st_token x \<noteq> token) items, True))"

definition staging_forget :: "string \<Rightarrow> staged list \<Rightarrow> staged list" where
  "staging_forget user items = filter (\<lambda>x. st_userID x \<noteq> user) items"

subsection \<open>Helpers of the handlers\<close>

definition no_target :: "string \<times> string" where "no_target = ('''', '''')"

definition bool_text :: "bool \<Rightarrow> string" where
  "bool_text b = (if b then ''true'' else ''false'')"

definition mfaRequiredFor :: "api_config \<Rightarrow> User \<Rightarrow> bool" where
  "mfaRequiredFor cfg u =
     (if MFAPolicy cfg = MFARequired then True
      else if MFAPolicy cfg = MFAOff then False
      else RequireMFAForAdmins cfg \<and> u_IsAdmin u)"

function count_runes :: "string \<Rightarrow> nat" where
  "count_runes [] = 0"
| "count_runes (c # s) = Suc (count_runes (drop (rune_width (c # s)) (c # s)))"
  by pat_completeness auto

termination
  by (relation "measure length") (auto simp: Suc_le_eq)

definition minPassphraseLength :: nat where "minPassphraseLength = 12"

definition checkPassphrase :: "string \<Rightarrow> bool" where
  "checkPassphrase p \<longleftrightarrow> p \<noteq> '''' \<and> \<not> count_runes p < minPassphraseLength \<and> \<not> length p > 1024"

text \<open>The key of the session, as the bytes behind the address the cache hands out.\<close>

definition vault_key :: "request \<Rightarrow> auth_session \<Rightarrow> User \<Rightarrow> server \<Rightarrow> server \<times> key option" where
  "vault_key rq sess u s =
     (case vault_Key (rq_now rq) (u_ID u) (as_ID sess) (sv_vaults s) of
        (v, Inl _) \<Rightarrow> (s\<lparr>sv_vaults := v\<rparr>, None)
      | (v, Inr a) \<Rightarrow> (s\<lparr>sv_vaults := v\<rparr>, Some (heap (vs_cache v) a)))"

definition requireVaultKey :: "request \<Rightarrow> auth_session \<Rightarrow> User \<Rightarrow> (key \<Rightarrow> server \<Rightarrow> server \<times> response) \<Rightarrow> server \<Rightarrow> server \<times> response" where
  "requireVaultKey rq sess u k s =
     (case vault_key rq sess u s of
        (s, None) \<Rightarrow> (s, Inl CodeVaultLocked)
      | (s, Some key) \<Rightarrow> k key s)"

text \<open>The throttle in front of a secret, and the two ways of recording how it went.\<close>

definition throttled :: "api_config \<Rightarrow> request \<Rightarrow> (AttemptKind \<times> string) list \<Rightarrow> (server \<Rightarrow> server \<times> response) \<Rightarrow> server \<Rightarrow> server \<times> response" where
  "throttled cfg rq ks k s =
     (case first_refusal (cfg_Throttle cfg) (rq_now rq) ks (sv_throttle s) of
        Some _ \<Rightarrow> (s, Inl CodeRateLimited)
      | None \<Rightarrow> k s)"

definition failures :: "request \<Rightarrow> (AttemptKind \<times> string) list \<Rightarrow> server \<Rightarrow> server" where
  "failures rq ks s = s\<lparr>sv_throttle := record_all (RecordFailure (rq_now rq)) ks (sv_throttle s)\<rparr>"

definition successes :: "request \<Rightarrow> (AttemptKind \<times> string) list \<Rightarrow> server \<Rightarrow> server" where
  "successes rq ks s = s\<lparr>sv_throttle := record_all (RecordSuccess (rq_now rq)) ks (sv_throttle s)\<rparr>"

definition sealTOTPSecret :: "api_config \<Rightarrow> request \<Rightarrow> key \<Rightarrow> string \<Rightarrow> string \<Rightarrow> (vault_error, Envelope) result" where
  "sealTOTPSecret cfg rq key user secret =
     Seal (svc_seal (cfg_vaults cfg)) (d_nonce (rq_draws rq)) key (CredentialAAD user ''totp'' ''secret'') (bytes_of secret)"

datatype totp_load_error = NoTOTPRow | TOTPUnreadable vault_error | TOTPCorrupt

definition loadTOTPSecret :: "api_config \<Rightarrow> key \<Rightarrow> string \<Rightarrow> server \<Rightarrow> (totp_load_error, string \<times> nat) result" where
  "loadTOTPSecret cfg key user s =
     (case sv_totp s user of
        None \<Rightarrow> Inl NoTOTPRow
      | Some (env, lastStep) \<Rightarrow>
          (case Open (svc_unseal (cfg_vaults cfg)) key (CredentialAAD user ''totp'' ''secret'') env of
             Inl e \<Rightarrow> Inl (TOTPUnreadable e)
           | Inr plaintext \<Rightarrow> if lastStep < 0 then Inl TOTPCorrupt else Inr (text_of plaintext, nat lastStep)))"

subsection \<open>Authentication handlers\<close>

definition issueSession ::
  "api_config \<Rightarrow> request \<Rightarrow> string \<Rightarrow> string \<Rightarrow> bool \<Rightarrow> server \<Rightarrow> server \<times> (session_error, auth_session \<times> string) result" where
  "issueSession cfg rq user method mfa s =
     (case Create (\<lambda>i. i \<in> u_ID ` set (sv_users s)) (cfg_digest cfg) (cfg_Session cfg) (rq_now rq) (rq_session rq) (rq_token rq)
             \<lparr>cp_UserID = user, cp_AuthMethod = method, cp_MFASatisfied = mfa, cp_UserAgent = rq_agent rq, cp_IPAddress = rq_ip rq\<rparr>
             (sv_sessions s) of
        (db, r) \<Rightarrow> (s\<lparr>sv_sessions := db\<rparr>, r))"

definition writeWhoami :: "api_config \<Rightarrow> request \<Rightarrow> handler" where
  "writeWhoami cfg rq sess u s =
     (case vault_key rq sess u s of (s, key) \<Rightarrow>
        let needsMFA = (mfaRequiredFor cfg u \<and> \<not> as_MFASatisfied sess);
            needsVaultEnrolment = (\<not> HasVault u);
            needsPassphrase = (\<not> needsVaultEnrolment \<and> key = None \<and> RequiresPassphrase (cfg_vaults cfg) u)
        in (s, Inr (Whoami u sess (key \<noteq> None) needsMFA needsVaultEnrolment needsPassphrase)))"

text \<open>
  Whom a sign-in authenticates. A missing, disabled or external account costs a throwaway
  verification, which has no other effect.
\<close>

definition authenticate :: "api_config \<Rightarrow> string \<Rightarrow> string \<Rightarrow> users_table \<Rightarrow> User option" where
  "authenticate cfg email password db =
     (case ByEmail email db of
        Inl _ \<Rightarrow> None
      | Inr u \<Rightarrow>
          if u_IsDisabled u then None
          else if \<not> CanSignInLocally u then None
          else if cfg_verify_password cfg password (u_PasswordHash u) then Some u
          else None)"

text \<open>\<^verbatim>\<open>writeWhoami\<close> at the end of a sign-in also looks the key of the new session up.\<close>

definition handleLocalLogin :: "api_config \<Rightarrow> request \<Rightarrow> string \<Rightarrow> string \<Rightarrow> server \<Rightarrow> server \<times> response" where
  "handleLocalLogin cfg rq email password s =
     (if \<not> AllowPasswordAuth cfg then (s, Inl CodePasswordAuthOff)
      else let normalized = NormalizeEmail email; ks = login_counters (rq_ip rq) normalized in
        case first_refusal (cfg_Throttle cfg) (rq_now rq) ks (sv_throttle s) of
          Some _ \<Rightarrow> (audited rq '''' normalized ActionLoginThrottled OutcomeDenied '''' no_target [] s, Inl CodeRateLimited)
        | None \<Rightarrow>
            (case authenticate cfg email password (sv_users s) of
               None \<Rightarrow>
                 (audited rq '''' normalized ActionLoginFailed OutcomeFailure SeverityNotice no_target [] (failures rq ks s),
                  Inl CodeUnauthorized)
             | Some u \<Rightarrow>
                 (case issueSession cfg rq (u_ID u) AuthMethodLocal False (successes rq ks s) of
                    (s, Inl _) \<Rightarrow> (s, Inl CodeInternal)
                  | (s, Inr (sess, token)) \<Rightarrow>
                      (fst (writeWhoami cfg rq sess u
                        (audited rq (u_ID u) (u_Email u) ActionLoginSucceeded '''' '''' no_target [(''method'', ''local'')]
                          (set_users (UpdateLastLogin (rq_now rq) (u_ID u) (sv_users s)) s))),
                       Inr (SignedIn token)))))"

datatype sso_error = SSONotProvisioned | SSODisabled | SSOUserError user_error

definition resolveSSOUser :: "api_config \<Rightarrow> request \<Rightarrow> Claims \<Rightarrow> server \<Rightarrow> server \<times> (sso_error, User \<times> bool) result" where
  "resolveSSOUser cfg rq c s =
     (case BySSO ''entra'' (cl_Subject c) (sv_users s) of
        Inr u \<Rightarrow>
          if u_IsDisabled u then (s, Inl SSODisabled)
          else if cl_Email c \<noteq> '''' \<and> (cl_Email c \<noteq> u_Email u \<or> cl_Name c \<noteq> u_DisplayName u)
          then (case UpdateProfile (rq_now rq) (u_ID u) (cl_Email c) (cl_Name c) (sv_users s) of
                  (db, Inl _) \<Rightarrow> (set_users db s, Inr (u, False))
                | (db, Inr _) \<Rightarrow> (set_users db s, Inr (u\<lparr>u_Email := cl_Email c, u_DisplayName := cl_Name c\<rparr>, False)))
          else (s, Inr (u, False))
      | Inl _ \<Rightarrow>
          if \<not> OIDCAutoProvision cfg then (s, Inl SSONotProvisioned)
          else (case users_Create (\<lambda>_. None) (rq_user rq) (rq_now rq)
                       \<lparr>up_Email = cl_Email c, up_DisplayName = cl_Name c, up_Password = '''', up_IsAdmin = False,
                        up_SSOProvider = ''entra'', up_SSOSubject = cl_Subject c, up_SSOTenant = cl_TenantID c\<rparr> (sv_users s) of
                  (db, Inl e) \<Rightarrow> (set_users db s, Inl (SSOUserError e))
                | (db, Inr u) \<Rightarrow> (set_users db s, Inr (u, True))))"

text \<open>
  The callback of the provider: \<open>None\<close> when single sign-on is off, otherwise what the provider's
  client made of the redirect, its claims with the page to return to. A failure is a page with
  status 401.
\<close>

definition handleSSOCallback ::
  "api_config \<Rightarrow> request \<Rightarrow> (string, Claims \<times> string) result option \<Rightarrow> server \<Rightarrow> server \<times> response" where
  "handleSSOCallback cfg rq callback s =
     (case callback of
        None \<Rightarrow> (s, Inl CodeUnauthorized)
      | Some (Inl reason) \<Rightarrow> (audited rq '''' '''' ActionSSOFailed OutcomeFailure '''' no_target [(''reason'', reason)] s, Inl CodeUnauthorized)
      | Some (Inr (c, return_to)) \<Rightarrow>
          (case resolveSSOUser cfg rq c s of
             (s, Inl (SSOUserError _)) \<Rightarrow> (s, Inl CodeInternal)
           | (s, Inl _) \<Rightarrow> (s, Inl CodeUnauthorized)
           | (s, Inr (u, provisioned)) \<Rightarrow>
               (case issueSession cfg rq (u_ID u) AuthMethodOIDC (cl_MFASatisfied c) s of
                  (s, Inl _) \<Rightarrow> (s, Inl CodeInternal)
                | (s, Inr (sess, token)) \<Rightarrow>
                    (audited rq (u_ID u) (u_Email u) (if provisioned then ActionSSOProvisioned else ActionSSOSignIn) '''' '''' no_target
                       [(''tenant'', cl_TenantID c), (''mfa_satisfied'', bool_text (cl_MFASatisfied c)), (''provisioned'', bool_text provisioned)]
                       (set_users (UpdateLastLogin (rq_now rq) (u_ID u) (sv_users s)) s),
                     Inr (SignedIn token)))))"

definition handleLogout :: "request \<Rightarrow> handler" where
  "handleLogout rq sess u s =
     (let s = s\<lparr>sv_vaults := Lock (u_ID u) (as_ID sess) (sv_vaults s)\<rparr>;
          s = s\<lparr>sv_sessions := Revoke (rq_now rq) (as_ID sess) (sv_sessions s)\<rparr>
      in (audited rq (u_ID u) (u_Email u) ActionLogout '''' '''' (''session'', as_ID sess) [] s, Inr SignedOut))"

subsection \<open>Second-factor handlers\<close>

definition set_totp :: "string \<Rightarrow> (Envelope \<times> int) option \<Rightarrow> server \<Rightarrow> server" where
  "set_totp user row s = s\<lparr>sv_totp := (sv_totp s)(user := row)\<rparr>"

definition set_last_step :: "string \<Rightarrow> nat \<Rightarrow> server \<Rightarrow> server" where
  "set_last_step user n s = set_totp user (map_option (\<lambda>(env, _). (env, int n)) (sv_totp s user)) s"

definition set_recovery :: "string \<Rightarrow> StoredRecoveryCode list \<Rightarrow> server \<Rightarrow> server" where
  "set_recovery user codes s = s\<lparr>sv_recovery := (sv_recovery s)(user := codes)\<rparr>"

definition grant_mfa :: "auth_session \<Rightarrow> server \<Rightarrow> server" where
  "grant_mfa sess s = s\<lparr>sv_sessions := SetMFASatisfied (as_ID sess) (sv_sessions s)\<rparr>"

text \<open>The provisioning URI that goes with the secret is left out.\<close>

definition handleMFAEnrol :: "api_config \<Rightarrow> request \<Rightarrow> handler" where
  "handleMFAEnrol cfg rq sess u =
     requireVaultKey rq sess u (\<lambda>key s.
       if u_TOTPEnabled u then (s, Inl CodeConflict)
       else let secret = NewTOTPSecret (rq_secret rq) in
         case sealTOTPSecret cfg rq key (u_ID u) secret of
           Inl _ \<Rightarrow> (s, Inl CodeInternal)
         | Inr sealed \<Rightarrow> (set_totp (u_ID u) (Some (sealed, 0)) s, Inr (TOTPSetup secret)))"

definition handleMFAConfirm :: "api_config \<Rightarrow> request \<Rightarrow> string \<Rightarrow> handler" where
  "handleMFAConfirm cfg rq code sess u =
     requireVaultKey rq sess u (\<lambda>key s.
       case loadTOTPSecret cfg key (u_ID u) s of
         Inl NoTOTPRow \<Rightarrow> (s, Inl CodeConflict)
       | Inl _ \<Rightarrow> (s, Inl CodeInternal)
       | Inr (secret, lastStep) \<Rightarrow>
           (case VerifyTOTP (cfg_hmac cfg) secret code (rq_now rq) lastStep of
              Inl _ \<Rightarrow> (audited rq (u_ID u) (u_Email u) ActionMFAFailed OutcomeFailure '''' no_target [] s, Inl CodeInvalidCode)
            | Inr n \<Rightarrow>
                (case GenerateRecoveryCodes (cfg_hash_code cfg) (rq_codes rq) of
                   (display, hashes) \<Rightarrow>
                     let s = set_last_step (u_ID u) n s;
                         s = set_recovery (u_ID u) (map (\<lambda>(i, h). \<lparr>rc_ID = i, rc_Hash = h, rc_Used = False\<rparr>) (zip (rq_code_ids rq) hashes)) s;
                         s = set_users (SetTOTPEnabled (rq_now rq) (u_ID u) True (sv_users s)) s;
                         s = grant_mfa sess s
                     in (audited rq (u_ID u) (u_Email u) ActionMFAEnrolled '''' SeverityNotice no_target [] s, Inr (RecoveryCodes display)))))"

definition handleMFAVerify :: "api_config \<Rightarrow> request \<Rightarrow> string \<Rightarrow> handler" where
  "handleMFAVerify cfg rq code sess u =
     requireVaultKey rq sess u (\<lambda>key.
       let ks = secret_counters ''mfa'' (u_ID u) in
       throttled cfg rq ks (\<lambda>s.
         case loadTOTPSecret cfg key (u_ID u) s of
           Inl NoTOTPRow \<Rightarrow> (s, Inl CodeConflict)
         | Inl _ \<Rightarrow> (s, Inl CodeInternal)
         | Inr (secret, lastStep) \<Rightarrow>
             (case VerifyTOTP (cfg_hmac cfg) secret code (rq_now rq) lastStep of
                Inl e \<Rightarrow>
                  (audited rq (u_ID u) (u_Email u) ActionMFAFailed OutcomeFailure '''' no_target
                     [(''replayed'', bool_text (e = ErrTOTPReplayed))] (failures rq ks s), Inl CodeInvalidCode)
              | Inr n \<Rightarrow>
                  (let s = grant_mfa sess (successes rq ks (set_last_step (u_ID u) n s))
                   in (audited rq (u_ID u) (u_Email u) ActionMFAVerified '''' '''' no_target [] s, Inr MFASatisfied)))))"

text \<open>The \<^verbatim>\<open>UPDATE\<close> finds the code by its identifier, which is one of this user's.\<close>

definition handleMFARecovery :: "api_config \<Rightarrow> request \<Rightarrow> string \<Rightarrow> handler" where
  "handleMFARecovery cfg rq code sess u =
     (let ks = secret_counters ''recovery'' (u_ID u) in
      throttled cfg rq ks (\<lambda>s.
        case VerifyRecoveryCode (cfg_verify_code cfg) code (sv_recovery s (u_ID u)) of
          None \<Rightarrow>
            (audited rq (u_ID u) (u_Email u) ActionMFAFailed OutcomeFailure '''' no_target [(''method'', ''recovery_code'')] (failures rq ks s),
             Inl CodeInvalidCode)
        | Some i \<Rightarrow>
            (let codes = map (\<lambda>c. if rc_ID c = i \<and> \<not> rc_Used c then c\<lparr>rc_Used := True\<rparr> else c) (sv_recovery s (u_ID u));
                 s = grant_mfa sess (successes rq ks (set_recovery (u_ID u) codes s));
                 remaining = length (filter (\<lambda>c. \<not> rc_Used c) codes)
             in (audited rq (u_ID u) (u_Email u) ActionRecoveryCodeUsed '''' '''' no_target [(''remaining'', decimal_of remaining)] s,
                 Inr (CodesRemaining remaining)))))"

definition handleMFADisable :: "api_config \<Rightarrow> request \<Rightarrow> handler" where
  "handleMFADisable cfg rq sess u s =
     (if MFAPolicy cfg = MFARequired \<or> RequireMFAForAdmins cfg \<and> u_IsAdmin u then (s, Inl CodeForbidden)
      else let s = set_recovery (u_ID u) [] (set_totp (u_ID u) None s);
               s = set_users (SetTOTPEnabled (rq_now rq) (u_ID u) False (sv_users s)) s
           in (audited rq (u_ID u) (u_Email u) ActionMFADisabled '''' SeverityNotice no_target [] s, Inr MFADisabled))"

subsection \<open>Vault handlers\<close>

definition set_unlocked :: "auth_session \<Rightarrow> bool \<Rightarrow> server \<Rightarrow> server" where
  "set_unlocked sess b s = s\<lparr>sv_sessions := SetVaultUnlocked (as_ID sess) b (sv_sessions s)\<rparr>"

definition handleVaultStatus :: "api_config \<Rightarrow> request \<Rightarrow> handler" where
  "handleVaultStatus cfg rq sess u s =
     (case vault_key rq sess u s of (s, key) \<Rightarrow>
        (s, Inr (VaultStatus (HasVault u) (key \<noteq> None) (u_UnlockKind u) (RequiresPassphrase (cfg_vaults cfg) u))))"

fun kind_name :: "UnlockKind \<Rightarrow> string" where
  "kind_name UnlockUnset = ''unset''"
| "kind_name UnlockDerived = ''derived''"
| "kind_name UnlockSeparate = ''separate''"
| "kind_name UnlockServer = ''server''"

definition handleVaultEnrol :: "api_config \<Rightarrow> request \<Rightarrow> string \<Rightarrow> handler" where
  "handleVaultEnrol cfg rq passphrase sess u s =
     (if RequiresPassphrase (cfg_vaults cfg) u \<and> \<not> checkPassphrase passphrase then (s, Inl CodeBadRequest)
      else case Enrol (cfg_vaults cfg) (rq_draws rq) (rq_now rq) u (as_ID sess) passphrase (sv_vaults s) of
             (v, Inl ErrVaultAlreadySetUp) \<Rightarrow> (s\<lparr>sv_vaults := v\<rparr>, Inl CodeConflict)
           | (v, Inl _) \<Rightarrow> (s\<lparr>sv_vaults := v\<rparr>, Inl CodeInternal)
           | (v, Inr kind) \<Rightarrow>
               (audited rq (u_ID u) (u_Email u) ActionVaultPassphraseSet '''' SeverityNotice no_target [(''unlock_kind'', kind_name kind)]
                  (set_unlocked sess True (s\<lparr>sv_vaults := v\<rparr>)), Inr (Enrolled kind)))"

definition handleVaultUnlock :: "api_config \<Rightarrow> request \<Rightarrow> string \<Rightarrow> handler" where
  "handleVaultUnlock cfg rq passphrase sess u =
     (let ks = secret_counters ''vault'' (u_ID u) in
      throttled cfg rq ks (\<lambda>s.
        case Unlock (cfg_vaults cfg) (rq_now rq) u (as_ID sess) passphrase (sv_vaults s) of
          (v, Inl ErrVaultNotSetUp) \<Rightarrow> (s\<lparr>sv_vaults := v\<rparr>, Inl CodeVaultNotSetUp)
        | (v, Inl (VaultFailed ErrWrongPassphrase)) \<Rightarrow>
            (audited rq (u_ID u) (u_Email u) ActionVaultUnlockFailed OutcomeFailure SeverityNotice no_target []
               (failures rq ks (s\<lparr>sv_vaults := v\<rparr>)), Inl CodeUnauthorized)
        | (v, Inl _) \<Rightarrow> (s\<lparr>sv_vaults := v\<rparr>, Inl CodeInternal)
        | (v, Inr _) \<Rightarrow>
            (audited rq (u_ID u) (u_Email u) ActionVaultUnlocked '''' '''' no_target []
               (set_unlocked sess True (successes rq ks (s\<lparr>sv_vaults := v\<rparr>))), Inr (Unlocked True))))"

definition handleVaultLock :: "request \<Rightarrow> handler" where
  "handleVaultLock rq sess u s =
     (let s = s\<lparr>sv_vaults := Lock (u_ID u) (as_ID sess) (sv_vaults s), sv_staging := staging_forget (u_ID u) (sv_staging s)\<rparr>
      in (audited rq (u_ID u) (u_Email u) ActionVaultLocked '''' '''' no_target [] (set_unlocked sess False s), Inr (Unlocked False)))"

definition handleVaultChangePassphrase :: "api_config \<Rightarrow> request \<Rightarrow> string \<Rightarrow> string \<Rightarrow> handler" where
  "handleVaultChangePassphrase cfg rq current new_pass sess u s =
     (if \<not> checkPassphrase new_pass then (s, Inl CodeBadRequest)
      else if new_pass = current then (s, Inl CodeBadRequest)
      else let ks = secret_counters ''vault'' (u_ID u) in
        throttled cfg rq ks (\<lambda>s.
          case ChangePassphrase (cfg_vaults cfg) (rq_draws rq) (rq_now rq) u (as_ID sess) current new_pass (sv_vaults s) of
            (v, Inl (VaultFailed ErrWrongPassphrase)) \<Rightarrow> (failures rq ks (s\<lparr>sv_vaults := v\<rparr>), Inl CodeUnauthorized)
          | (v, Inl ErrVaultNotSetUp) \<Rightarrow> (s\<lparr>sv_vaults := v\<rparr>, Inl CodeVaultNotSetUp)
          | (v, Inl _) \<Rightarrow> (s\<lparr>sv_vaults := v\<rparr>, Inl CodeInternal)
          | (v, Inr _) \<Rightarrow>
              (case RevokeAllForUserExcept (rq_now rq) (u_ID u) (as_ID sess) (sv_sessions s) of
                 (db, n) \<Rightarrow>
                   (audited rq (u_ID u) (u_Email u) ActionVaultPassphraseChanged '''' SeverityNotice no_target
                      [(''other_sessions_revoked'', decimal_of n)]
                      (successes rq ks (s\<lparr>sv_vaults := v, sv_sessions := db\<rparr>)), Inr (Changed n)))) s)"

subsection \<open>Session handlers\<close>

definition handleListSessions :: "request \<Rightarrow> handler" where
  "handleListSessions rq current u s =
     (s, Inr (SessionList (map (\<lambda>x. (x, as_ID x = as_ID current)) (ListForUser_sessions (rq_now rq) (u_ID u) (sv_sessions s)))))"

definition handleRevokeSession :: "request \<Rightarrow> string \<Rightarrow> handler" where
  "handleRevokeSession rq i current u s =
     (if i = '''' \<or> CHR ''/'' \<in> set i then (s, Inl CodeBadRequest)
      else case session_Get i (sv_sessions s) of
             Inl _ \<Rightarrow> (s, Inl CodeNotFound)
           | Inr target \<Rightarrow>
               if as_UserID target \<noteq> u_ID u then (s, Inl CodeNotFound)
               else (audited rq (u_ID u) (u_Email u) ActionSessionRevoked '''' '''' (''session'', i) [(''self'', bool_text (i = as_ID current))]
                       (s\<lparr>sv_vaults := Lock (u_ID u) i (sv_vaults s), sv_sessions := Revoke (rq_now rq) i (sv_sessions s)\<rparr>),
                     Inr (Revoked 1)))"

definition handleRevokeOtherSessions :: "request \<Rightarrow> handler" where
  "handleRevokeOtherSessions rq current u s =
     (let others = filter (\<lambda>x. as_ID x \<noteq> as_ID current) (ListForUser_sessions (rq_now rq) (u_ID u) (sv_sessions s));
          s = s\<lparr>sv_vaults := foldl (\<lambda>v x. Lock (u_ID u) (as_ID x) v) (sv_vaults s) others\<rparr>
      in case RevokeAllForUserExcept (rq_now rq) (u_ID u) (as_ID current) (sv_sessions s) of
           (db, n) \<Rightarrow>
             (audited rq (u_ID u) (u_Email u) ActionSessionRevoked '''' SeverityNotice no_target
                [(''count'', decimal_of n), (''scope'', ''all_other_sessions'')] (s\<lparr>sv_sessions := db\<rparr>),
              Inr (Revoked n)))"

subsection \<open>Middleware and routes\<close>

definition withAuth :: "api_config \<Rightarrow> request \<Rightarrow> string \<Rightarrow> handler \<Rightarrow> server \<Rightarrow> server \<times> response" where
  "withAuth cfg rq cookie next_handler s =
     (if cookie = '''' then (s, Inl CodeUnauthorized)
      else case Lookup (cfg_digest cfg) (cfg_Session cfg) (rq_now rq) cookie (sv_sessions s) of
             (db, Inl _) \<Rightarrow> (s\<lparr>sv_sessions := db\<rparr>, Inl CodeUnauthorized)
           | (db, Inr sess) \<Rightarrow>
               (case ByID (as_UserID sess) (sv_users s) of
                  Inl _ \<Rightarrow> (s\<lparr>sv_sessions := Revoke (rq_now rq) (as_ID sess) db\<rparr>, Inl CodeUnauthorized)
                | Inr u \<Rightarrow>
                    if u_IsDisabled u
                    then (s\<lparr>sv_sessions := fst (RevokeAllForUser (rq_now rq) (u_ID u) db),
                            sv_vaults := fst (LockAllForUser (u_ID u) (sv_vaults s))\<rparr>, Inl CodeForbidden)
                    else next_handler sess u (s\<lparr>sv_sessions := db\<rparr>)))"

definition withMFA :: "api_config \<Rightarrow> handler \<Rightarrow> handler" where
  "withMFA cfg next_handler sess u s =
     (if mfaRequiredFor cfg u \<and> \<not> as_MFASatisfied sess then (s, Inl CodeMFARequired)
      else next_handler sess u s)"

text \<open>
  The routes before and after the second factor. \<open>OtherRoute\<close> stands for the routes of other
  components, which change none of the state here.
\<close>

datatype pre_route = RLogout | RWhoami | RVerify string | RRecovery string

datatype full_route =
    RListSessions | RRevokeSession string | RRevokeOthers
  | RVaultStatus | RVaultEnrol string | RVaultUnlock string | RVaultLock | RVaultPassphrase string string
  | RMFAEnrol | RMFAConfirm string | RMFADisable
  | OtherRoute

fun routePreMFA :: "api_config \<Rightarrow> request \<Rightarrow> pre_route \<Rightarrow> handler" where
  "routePreMFA cfg rq RLogout = handleLogout rq"
| "routePreMFA cfg rq RWhoami = writeWhoami cfg rq"
| "routePreMFA cfg rq (RVerify code) = handleMFAVerify cfg rq code"
| "routePreMFA cfg rq (RRecovery code) = handleMFARecovery cfg rq code"

fun routeAuthenticated :: "api_config \<Rightarrow> request \<Rightarrow> full_route \<Rightarrow> handler" where
  "routeAuthenticated cfg rq RListSessions = handleListSessions rq"
| "routeAuthenticated cfg rq (RRevokeSession i) = handleRevokeSession rq i"
| "routeAuthenticated cfg rq RRevokeOthers = handleRevokeOtherSessions rq"
| "routeAuthenticated cfg rq RVaultStatus = handleVaultStatus cfg rq"
| "routeAuthenticated cfg rq (RVaultEnrol p) = handleVaultEnrol cfg rq p"
| "routeAuthenticated cfg rq (RVaultUnlock p) = handleVaultUnlock cfg rq p"
| "routeAuthenticated cfg rq RVaultLock = handleVaultLock rq"
| "routeAuthenticated cfg rq (RVaultPassphrase p q) = handleVaultChangePassphrase cfg rq p q"
| "routeAuthenticated cfg rq RMFAEnrol = handleMFAEnrol cfg rq"
| "routeAuthenticated cfg rq (RMFAConfirm code) = handleMFAConfirm cfg rq code"
| "routeAuthenticated cfg rq RMFADisable = handleMFADisable cfg rq"
| "routeAuthenticated cfg rq OtherRoute = (\<lambda>sess u s. (s, Inr Served))"

datatype call =
    Login string string
  | SSO "(string, Claims \<times> string) result option"
  | Pre string pre_route
  | Full string full_route

fun serve :: "api_config \<Rightarrow> request \<Rightarrow> call \<Rightarrow> server \<Rightarrow> server \<times> response" where
  "serve cfg rq (Login email password) = handleLocalLogin cfg rq email password"
| "serve cfg rq (SSO callback) = handleSSOCallback cfg rq callback"
| "serve cfg rq (Pre cookie r) = withAuth cfg rq cookie (routePreMFA cfg rq r)"
| "serve cfg rq (Full cookie r) = withAuth cfg rq cookie (withMFA cfg (routeAuthenticated cfg rq r))"

subsection \<open>Which sessions have satisfied the second factor\<close>

definition mfa_of :: "auth_table \<Rightarrow> string set" where
  "mfa_of db = {r_id r | r. r \<in> set db \<and> r_mfa r}"

definition session_for :: "api_config \<Rightarrow> string \<Rightarrow> server \<Rightarrow> auth_row \<Rightarrow> bool" where
  "session_for cfg cookie s row \<longleftrightarrow> find (\<lambda>r. r_hash r = cfg_digest cfg cookie) (sv_sessions s) = Some row"

lemma audited_frame [simp]:
  "sv_sessions (audited rq a e ac out sev t d s) = sv_sessions s" "sv_vaults (audited rq a e ac out sev t d s) = sv_vaults s"
  "sv_recovery (audited rq a e ac out sev t d s) = sv_recovery s"
  by (simp_all add: audited_def)

lemma throttle_frame [simp]:
  "sv_sessions (failures rq ks s) = sv_sessions s" "sv_vaults (failures rq ks s) = sv_vaults s"
  "sv_recovery (failures rq ks s) = sv_recovery s"
  "sv_sessions (successes rq ks s) = sv_sessions s" "sv_vaults (successes rq ks s) = sv_vaults s"
  "sv_recovery (successes rq ks s) = sv_recovery s"
  by (simp_all add: failures_def successes_def)

lemma row_frame [simp]:
  "sv_sessions (set_users db s) = sv_sessions s" "sv_recovery (set_users db s) = sv_recovery s"
  "vs_cache (sv_vaults (set_users db s)) = vs_cache (sv_vaults s)"
  "sv_sessions (set_totp u t s) = sv_sessions s" "sv_vaults (set_totp u t s) = sv_vaults s" "sv_recovery (set_totp u t s) = sv_recovery s"
  "sv_sessions (set_last_step u n s) = sv_sessions s" "sv_vaults (set_last_step u n s) = sv_vaults s"
  "sv_recovery (set_last_step u n s) = sv_recovery s"
  "sv_sessions (set_recovery u c s) = sv_sessions s" "sv_vaults (set_recovery u c s) = sv_vaults s"
  "sv_sessions (grant_mfa sess s) = SetMFASatisfied (as_ID sess) (sv_sessions s)" "sv_vaults (grant_mfa sess s) = sv_vaults s"
  "sv_recovery (grant_mfa sess s) = sv_recovery s"
  "sv_sessions (set_unlocked sess b s) = SetVaultUnlocked (as_ID sess) b (sv_sessions s)" "sv_vaults (set_unlocked sess b s) = sv_vaults s"
  "sv_recovery (set_unlocked sess b s) = sv_recovery s"
  by (simp_all add: set_users_def set_totp_def set_last_step_def set_recovery_def grant_mfa_def set_unlocked_def)

lemma mfa_of_update:
  assumes "\<And>r. r_id (f r) = r_id r" "\<And>r. r_mfa (f r) = r_mfa r"
  shows "mfa_of (update_rows w f db) = mfa_of db"
proof -
  have step: "mfa_of (r # db) = (if r_mfa r then {r_id r} else {}) \<union> mfa_of db" for r db by (auto simp: mfa_of_def)
  show ?thesis by (induction db) (simp_all add: step update_rows_def assms)
qed

lemma mfa_of_simps [simp]:
  "mfa_of (SetVaultUnlocked i b db) = mfa_of db" "mfa_of (Revoke now i db) = mfa_of db"
  "mfa_of (fst (RevokeAllForUser now u db)) = mfa_of db" "mfa_of (fst (RevokeAllForUserExcept now u k db)) = mfa_of db"
  "mfa_of (deleteByID i db) \<subseteq> mfa_of db" "mfa_of (update_rows w (\<lambda>r. r\<lparr>r_idle := x\<rparr>) db) = mfa_of db"
  by (auto simp: SetVaultUnlocked_def Revoke_def RevokeAllForUser_def RevokeAllForUserExcept_def revoke_where_def mfa_of_update)
    (auto simp: mfa_of_def deleteByID_def)

lemma mfa_of_granted: "mfa_of (SetMFASatisfied i db) \<subseteq> insert i (mfa_of db)"
  by (auto simp: mfa_of_def SetMFASatisfied_def update_rows_def split: if_split_asm)

lemma vault_key_frame [simp]:
  "sv_sessions (fst (vault_key rq sess u s)) = sv_sessions s" "sv_recovery (fst (vault_key rq sess u s)) = sv_recovery s"
  "sv_totp (fst (vault_key rq sess u s)) = sv_totp s"
  by (simp_all add: vault_key_def split: prod.split sum.split)

lemma whoami_sessions [simp]: "sv_sessions (fst (writeWhoami cfg rq sess u s)) = sv_sessions s"
  by (simp add: writeWhoami_def Let_def case_prod_beta)

definition owned_session :: "api_config \<Rightarrow> request \<Rightarrow> string \<Rightarrow> server \<Rightarrow> auth_row \<Rightarrow> User \<Rightarrow> bool" where
  "owned_session cfg rq cookie s row u \<longleftrightarrow> session_for cfg cookie s row \<and> Active (scanSession row) (rq_now rq)
     \<and> ByID (r_user row) (sv_users s) = Inr u \<and> \<not> u_IsDisabled u"

text \<open>
  What a refused request may leave behind: sessions that ended are gone or revoked and deadlines of
  inactivity have moved, and the vault of a disabled account is locked.
\<close>

definition kept :: "auth_row \<Rightarrow> auth_row \<Rightarrow> bool" where
  "kept r r' \<longleftrightarrow> r'\<lparr>r_idle := r_idle r, r_revoked := r_revoked r\<rparr> = r
     \<and> (r_revoked r \<noteq> None \<longrightarrow> r_revoked r' = r_revoked r)"

definition bookkept :: "auth_table \<Rightarrow> auth_table \<Rightarrow> bool" where
  "bookkept db db' \<longleftrightarrow> (\<forall>r' \<in> set db'. \<exists>r \<in> set db. kept r r')"

definition housekept :: "server \<Rightarrow> server \<Rightarrow> bool" where
  "housekept s s' \<longleftrightarrow> (\<exists>db v. s' = s\<lparr>sv_sessions := db, sv_vaults := v\<rparr> \<and> bookkept (sv_sessions s) db
     \<and> (v = sv_vaults s \<or> (\<exists>i u. ByID i (sv_users s) = Inr u \<and> u_IsDisabled u \<and> v = fst (LockAllForUser (u_ID u) (sv_vaults s)))))"

lemma kept_simps [simp]:
  "kept r r" "kept r (r\<lparr>r_idle := x\<rparr>)" "r_revoked r = None \<Longrightarrow> kept r (r\<lparr>r_revoked := x\<rparr>)"
  "r_revoked r = None \<Longrightarrow> kept r (r\<lparr>r_idle := y, r_revoked := x\<rparr>)"
  by (cases r; simp add: kept_def)+

lemma bookkept_simps [simp]:
  "bookkept db db" "bookkept db (deleteByID i db)"
  "bookkept db (update_rows w (\<lambda>r. r\<lparr>r_idle := x\<rparr>) db)"
  "bookkept db (Revoke now i (update_rows w (\<lambda>r. r\<lparr>r_idle := x\<rparr>) db))"
  "bookkept db (fst (RevokeAllForUser now u (update_rows w (\<lambda>r. r\<lparr>r_idle := x\<rparr>) db)))"
proof -
  have here: "(\<forall>r \<in> set db. kept r (f r)) \<Longrightarrow> bookkept db (map f db)" for f by (auto simp: bookkept_def)
  show "bookkept db db" "bookkept db (deleteByID i db)" by (auto simp: bookkept_def deleteByID_def intro: kept_simps(1))
  show "bookkept db (update_rows w (\<lambda>r. r\<lparr>r_idle := x\<rparr>) db)"
    "bookkept db (Revoke now i (update_rows w (\<lambda>r. r\<lparr>r_idle := x\<rparr>) db))"
    "bookkept db (fst (RevokeAllForUser now u (update_rows w (\<lambda>r. r\<lparr>r_idle := x\<rparr>) db)))"
    by (auto simp: update_rows_def Revoke_def RevokeAllForUser_def revoke_where_def intro: here)
qed

lemma housekept_refl [simp]: "housekept s s"
  unfolding housekept_def by (intro exI [of _ "sv_sessions s"] exI [of _ "sv_vaults s"]) simp

lemma housekept_sessions: "bookkept (sv_sessions s) db \<Longrightarrow> housekept s (s\<lparr>sv_sessions := db\<rparr>)"
  unfolding housekept_def by (intro exI [of _ db] exI [of _ "sv_vaults s"]) simp

text \<open>What \<^verbatim>\<open>withAuth\<close> lets through.\<close>

lemma withAuth_cases:
  obtains (refused) c where "snd (withAuth cfg rq cookie h s) = Inl c"
      and "mfa_of (sv_sessions (fst (withAuth cfg rq cookie h s))) \<subseteq> mfa_of (sv_sessions s)"
      and "sv_recovery (fst (withAuth cfg rq cookie h s)) = sv_recovery s"
      and "vs_cache (sv_vaults (fst (withAuth cfg rq cookie h s))) = vs_cache (sv_vaults s)
        \<or> (\<exists>i. sv_vaults (fst (withAuth cfg rq cookie h s)) = fst (LockAllForUser i (sv_vaults s)))"
      and "housekept s (fst (withAuth cfg rq cookie h s))" and "\<nexists>row u. owned_session cfg rq cookie s row u \<and> cookie \<noteq> ''''"
  | (passed) row u idle where "session_for cfg cookie s row" and "Active (scanSession row) (rq_now rq)"
      and "ByID (r_user row) (sv_users s) = Inr u" and "\<not> u_IsDisabled u"
      and "withAuth cfg rq cookie h s = h ((scanSession row)\<lparr>as_IdleExpiresAt := idle\<rparr>) u
        (s\<lparr>sv_sessions := update_rows (\<lambda>r. r_id r = r_id row) (\<lambda>r. r\<lparr>r_idle := Some idle\<rparr>) (sv_sessions s)\<rparr>)"
proof (cases "cookie = ''''")
  case True
  then show thesis by (intro refused) (simp_all add: withAuth_def)
next
  case False
  show thesis
  proof (cases "find (\<lambda>r. r_hash r = cfg_digest cfg cookie) (sv_sessions s)")
    case None
    with False show thesis
      by (intro refused) (simp_all add: withAuth_def Lookup_def byTokenHash_def housekept_sessions owned_session_def session_for_def)
  next
    case (Some row)
    have ids [simp]: "as_ID (scanSession row) = r_id row" "as_UserID (scanSession row) = r_user row" by (simp_all add: scanSession_def)
    show thesis
    proof (cases "Active (scanSession row) (rq_now rq)")
      case active: False
      with False Some show thesis
        by (intro refused) (auto simp: withAuth_def Lookup_def byTokenHash_def housekept_sessions owned_session_def session_for_def)
    next
      case active: True
      define idle where "idle = (if rq_now rq + IdleTTL (cfg_Session cfg) > as_ExpiresAt (scanSession row)
        then as_ExpiresAt (scanSession row) else rq_now rq + IdleTTL (cfg_Session cfg))"
      let ?db = "update_rows (\<lambda>r. r_id r = r_id row) (\<lambda>r. r\<lparr>r_idle := Some idle\<rparr>) (sv_sessions s)"
      have look: "Lookup (cfg_digest cfg) (cfg_Session cfg) (rq_now rq) cookie (sv_sessions s)
          = (?db, Inr ((scanSession row)\<lparr>as_IdleExpiresAt := idle\<rparr>))"
        using False Some active by (simp add: Lookup_def byTokenHash_def idle_def Let_def)
      show thesis
      proof (cases "ByID (r_user row) (sv_users s)")
        case (Inl e)
        with False look Some show thesis
          by (intro refused) (auto simp: withAuth_def housekept_sessions owned_session_def session_for_def)
      next
        case (Inr u)
        show thesis
        proof (cases "u_IsDisabled u")
          case True
          have "housekept s (s\<lparr>sv_sessions := fst (RevokeAllForUser (rq_now rq) (u_ID u) ?db),
              sv_vaults := fst (LockAllForUser (u_ID u) (sv_vaults s))\<rparr>)"
            unfolding housekept_def using Inr True by (intro exI conjI) (rule refl, auto)
          with False look Inr True Some show thesis
            by (intro refused) (auto simp: withAuth_def owned_session_def session_for_def)
        next
          case enabled: False
          have "session_for cfg cookie s row" using Some by (simp add: session_for_def)
          moreover have "withAuth cfg rq cookie h s = h ((scanSession row)\<lparr>as_IdleExpiresAt := idle\<rparr>) u (s\<lparr>sv_sessions := ?db\<rparr>)"
            using False look Inr enabled by (simp add: withAuth_def)
          ultimately show thesis using active Inr enabled by (intro passed)
        qed
      qed
    qed
  qed
qed

text \<open>What a second factor is: a one-time password for the sealed secret, or an unused recovery code.\<close>

definition totp_proof :: "api_config \<Rightarrow> request \<Rightarrow> string \<Rightarrow> string \<Rightarrow> User \<Rightarrow> server \<Rightarrow> bool" where
  "totp_proof cfg rq code i u s \<longleftrightarrow> (\<exists>a secret n m.
     snd (vault_Key (rq_now rq) (u_ID u) i (sv_vaults s)) = Inr a
     \<and> loadTOTPSecret cfg (heap (vs_cache (fst (vault_Key (rq_now rq) (u_ID u) i (sv_vaults s)))) a) (u_ID u) s = Inr (secret, n)
     \<and> VerifyTOTP (cfg_hmac cfg) secret code (rq_now rq) n = Inr m)"

definition recovery_proof :: "api_config \<Rightarrow> string \<Rightarrow> User \<Rightarrow> server \<Rightarrow> bool" where
  "recovery_proof cfg code u s \<longleftrightarrow> VerifyRecoveryCode (cfg_verify_code cfg) code (sv_recovery s (u_ID u)) \<noteq> None"

fun second_factor :: "api_config \<Rightarrow> request \<Rightarrow> call \<Rightarrow> server \<Rightarrow> string \<Rightarrow> bool" where
  "second_factor cfg rq (SSO callback) s i \<longleftrightarrow>
     (\<exists>c return_to. callback = Some (Inr (c, return_to)) \<and> cl_MFASatisfied c \<and> i = rq_session rq)"
| "second_factor cfg rq (Pre cookie (RVerify code)) s i \<longleftrightarrow>
     (\<exists>row u. owned_session cfg rq cookie s row u \<and> r_id row = i \<and> totp_proof cfg rq code i u s)"
| "second_factor cfg rq (Pre cookie (RRecovery code)) s i \<longleftrightarrow>
     (\<exists>row u. owned_session cfg rq cookie s row u \<and> r_id row = i \<and> recovery_proof cfg code u s)"
| "second_factor cfg rq (Full cookie (RMFAConfirm code)) s i \<longleftrightarrow>
     (\<exists>row u. owned_session cfg rq cookie s row u \<and> r_id row = i \<and> totp_proof cfg rq code i u s)"
| "second_factor cfg rq _ s i \<longleftrightarrow> False"

lemma vault_key_Some:
  assumes "vault_key rq sess u s = (s', Some key)"
  shows "\<exists>a. snd (vault_Key (rq_now rq) (u_ID u) (as_ID sess) (sv_vaults s)) = Inr a
    \<and> key = heap (vs_cache (fst (vault_Key (rq_now rq) (u_ID u) (as_ID sess) (sv_vaults s)))) a
    \<and> sv_sessions s' = sv_sessions s \<and> sv_totp s' = sv_totp s"
  using assms by (auto simp: vault_key_def split: prod.splits sum.splits)

lemma loadTOTPSecret_cong: "sv_totp s = sv_totp s' \<Longrightarrow> loadTOTPSecret cfg key u s = loadTOTPSecret cfg key u s'"
  by (simp add: loadTOTPSecret_def)

lemma totp_proofI:
  assumes "vault_key rq sess u s = (s', Some key)" and "loadTOTPSecret cfg key (u_ID u) s' = Inr (secret, n)"
    and "VerifyTOTP (cfg_hmac cfg) secret code (rq_now rq) n = Inr m"
  shows "totp_proof cfg rq code (as_ID sess) u s"
proof -
  from vault_key_Some [OF assms(1)] obtain a where a: "snd (vault_Key (rq_now rq) (u_ID u) (as_ID sess) (sv_vaults s)) = Inr a"
    "key = heap (vs_cache (fst (vault_Key (rq_now rq) (u_ID u) (as_ID sess) (sv_vaults s)))) a" and t: "sv_totp s' = sv_totp s" by blast
  with assms(2,3) loadTOTPSecret_cong [OF t] show ?thesis unfolding totp_proof_def by auto
qed

lemma totp_cases:
  obtains (locked) s' where "vault_key rq sess u s = (s', None)" and "sv_sessions s' = sv_sessions s"
  | (unreadable) s' k e where "vault_key rq sess u s = (s', Some k)" and "sv_sessions s' = sv_sessions s"
      and "loadTOTPSecret cfg k (u_ID u) s' = Inl e"
  | (rejected) s' k secret n e where "vault_key rq sess u s = (s', Some k)" and "sv_sessions s' = sv_sessions s"
      and "loadTOTPSecret cfg k (u_ID u) s' = Inr (secret, n)" and "VerifyTOTP (cfg_hmac cfg) secret code (rq_now rq) n = Inl e"
  | (accepted) s' k secret n m where "vault_key rq sess u s = (s', Some k)" and "sv_sessions s' = sv_sessions s"
      and "loadTOTPSecret cfg k (u_ID u) s' = Inr (secret, n)" and "VerifyTOTP (cfg_hmac cfg) secret code (rq_now rq) n = Inr m"
      and "totp_proof cfg rq code (as_ID sess) u s"
proof -
  obtain s' key where key: "vault_key rq sess u s = (s', key)" by (cases "vault_key rq sess u s")
  then have same: "sv_sessions s' = sv_sessions s" using vault_key_frame(1) [of rq sess u s] by simp
  show thesis
  proof (cases key)
    case None
    with key locked same show thesis by blast
  next
    case (Some k)
    note k = key [unfolded Some]
    show thesis
    proof (cases "loadTOTPSecret cfg k (u_ID u) s'")
      case (Inl e)
      from unreadable [OF k same this] show thesis .
    next
      case (Inr x)
      obtain secret n where "loadTOTPSecret cfg k (u_ID u) s' = Inr (secret, n)" using Inr by (cases x) simp
      with k same rejected accepted totp_proofI [OF k this] show thesis
        by (cases "VerifyTOTP (cfg_hmac cfg) secret code (rq_now rq) n") blast+
    qed
  qed
qed

lemma Verify_grants:
  "sv_sessions (fst (handleMFAVerify cfg rq code sess u s)) = sv_sessions s
   \<or> sv_sessions (fst (handleMFAVerify cfg rq code sess u s)) = SetMFASatisfied (as_ID sess) (sv_sessions s)
      \<and> totp_proof cfg rq code (as_ID sess) u s"
  by (rule totp_cases [where rq = rq and sess = sess and u = u and s = s and cfg = cfg and code = code])
    (simp_all add: handleMFAVerify_def requireVaultKey_def throttled_def Let_def split: option.split totp_load_error.split)

lemma Confirm_grants:
  "sv_sessions (fst (handleMFAConfirm cfg rq code sess u s)) = sv_sessions s
   \<or> sv_sessions (fst (handleMFAConfirm cfg rq code sess u s)) = SetMFASatisfied (as_ID sess) (sv_sessions s)
      \<and> totp_proof cfg rq code (as_ID sess) u s"
  by (rule totp_cases [where rq = rq and sess = sess and u = u and s = s and cfg = cfg and code = code])
    (simp_all add: handleMFAConfirm_def requireVaultKey_def Let_def case_prod_beta split: totp_load_error.split)

lemma Recovery_grants:
  "sv_sessions (fst (handleMFARecovery cfg rq code sess u s)) = sv_sessions s
   \<or> sv_sessions (fst (handleMFARecovery cfg rq code sess u s)) = SetMFASatisfied (as_ID sess) (sv_sessions s)
      \<and> recovery_proof cfg code u s"
  by (simp add: handleMFARecovery_def throttled_def Let_def recovery_proof_def split: option.split)

text \<open>The other handlers grant nothing.\<close>

lemma Enrol_mfa [simp]: "sv_sessions (fst (handleMFAEnrol cfg rq sess u s)) = sv_sessions s"
  using vault_key_frame(1) [of rq sess u s]
  by (cases "vault_key rq sess u s") (simp add: handleMFAEnrol_def requireVaultKey_def Let_def split: option.split sum.split)

lemma Unlock_mfa [simp]: "mfa_of (sv_sessions (fst (handleVaultUnlock cfg rq p sess u s))) = mfa_of (sv_sessions s)"
  by (simp add: handleVaultUnlock_def throttled_def Let_def split: option.split prod.split sum.split vaultsvc_error.split vault_error.split)

lemma Passphrase_mfa [simp]: "mfa_of (sv_sessions (fst (handleVaultChangePassphrase cfg rq p q sess u s))) = mfa_of (sv_sessions s)"
proof -
  have "mfa_of db = mfa_of (sv_sessions s)" if "RevokeAllForUserExcept (rq_now rq) (u_ID u) (as_ID sess) (sv_sessions s) = (db, n)" for db n
    using mfa_of_simps(4) [of "rq_now rq" "u_ID u" "as_ID sess" "sv_sessions s"] that by simp
  then show ?thesis
    by (simp add: handleVaultChangePassphrase_def throttled_def Let_def
        split: option.split prod.split sum.split vaultsvc_error.split vault_error.split)
qed

lemma vault_mfa [simp]:
  "mfa_of (sv_sessions (fst (handleVaultEnrol cfg rq p sess u s))) = mfa_of (sv_sessions s)"
  "sv_sessions (fst (handleVaultStatus cfg rq sess u s)) = sv_sessions s"
  "mfa_of (sv_sessions (fst (handleVaultLock rq sess u s))) = mfa_of (sv_sessions s)"
  "sv_sessions (fst (handleMFADisable cfg rq sess u s)) = sv_sessions s"
  "mfa_of (sv_sessions (fst (handleLogout rq sess u s))) = mfa_of (sv_sessions s)"
  "sv_sessions (fst (handleListSessions rq sess u s)) = sv_sessions s"
  "mfa_of (sv_sessions (fst (handleRevokeSession rq i sess u s))) = mfa_of (sv_sessions s)"
  by (simp_all add: handleVaultEnrol_def handleVaultStatus_def handleVaultLock_def handleMFADisable_def handleLogout_def
      handleListSessions_def handleRevokeSession_def Let_def case_prod_beta split: prod.split sum.split vaultsvc_error.split)

lemma Others_mfa [simp]: "mfa_of (sv_sessions (fst (handleRevokeOtherSessions rq sess u s))) = mfa_of (sv_sessions s)"
  using mfa_of_simps(4) [of "rq_now rq" "u_ID u" "as_ID sess" "sv_sessions s"]
  by (simp add: handleRevokeOtherSessions_def Let_def case_prod_beta)

lemma issueSession_mfa:
  "mfa_of (sv_sessions (fst (issueSession cfg rq u m b s))) \<subseteq> mfa_of (sv_sessions s) \<union> (if b then {rq_session rq} else {})"
  by (auto simp: issueSession_def Create_def Let_def mfa_of_def new_row_def)

lemma resolveSSOUser_sessions [simp]: "sv_sessions (fst (resolveSSOUser cfg rq c s)) = sv_sessions s"
  by (simp add: resolveSSOUser_def split: sum.split prod.split)

lemma SSO_mfa:
  assumes "i \<in> mfa_of (sv_sessions (fst (handleSSOCallback cfg rq cb s)))"
  shows "i \<in> mfa_of (sv_sessions s) \<or> (\<exists>c return_to. cb = Some (Inr (c, return_to)) \<and> cl_MFASatisfied c \<and> i = rq_session rq)"
proof (cases "\<exists>c return_to. cb = Some (Inr (c, return_to))")
  case True
  then obtain c return_to where cb: "cb = Some (Inr (c, return_to))" by blast
  obtain s1 r where r: "resolveSSOUser cfg rq c s = (s1, r)" by (cases "resolveSSOUser cfg rq c s")
  then have same: "sv_sessions s1 = sv_sessions s" using resolveSSOUser_sessions [of cfg rq c s] by simp
  show ?thesis
  proof (cases r)
    case (Inl e)
    with assms cb r same show ?thesis by (cases e) (simp_all add: handleSSOCallback_def)
  next
    case (Inr x)
    obtain u p where x: "x = (u, p)" by (cases x)
    obtain s2 q where q: "issueSession cfg rq (u_ID u) AuthMethodOIDC (cl_MFASatisfied c) s1 = (s2, q)"
      by (cases "issueSession cfg rq (u_ID u) AuthMethodOIDC (cl_MFASatisfied c) s1")
    have "i \<in> mfa_of (sv_sessions s2)"
      using assms cb r Inr x q by (cases q) (auto simp: handleSSOCallback_def)
    with issueSession_mfa [of cfg rq "u_ID u" AuthMethodOIDC "cl_MFASatisfied c" s1] q same cb show ?thesis
      by (auto split: if_split_asm)
  qed
next
  case False
  with assms have "i \<in> mfa_of (sv_sessions s)"
    by (cases cb) (auto simp: handleSSOCallback_def split: sum.split_asm)
  then show ?thesis ..
qed

lemma Login_mfa: "mfa_of (sv_sessions (fst (handleLocalLogin cfg rq email pw s))) \<subseteq> mfa_of (sv_sessions s)"
proof -
  have "mfa_of (sv_sessions s2) \<subseteq> mfa_of (sv_sessions s)"
    if "issueSession cfg rq i AuthMethodLocal False (successes rq ks s) = (s2, q)" for s2 q i ks
    using issueSession_mfa [of cfg rq i AuthMethodLocal False "successes rq ks s"] that by simp
  then show ?thesis
    by (auto simp: handleLocalLogin_def Let_def split: option.split prod.split sum.split)
qed

text \<open>A site with one account, for the witnesses.\<close>

definition demo_api :: "string \<Rightarrow> api_config" where
  "demo_api policy = \<lparr>cfg_Session = DefaultSessionConfig, MFAPolicy = policy, RequireMFAForAdmins = False, AllowPasswordAuth = True,
     OIDCAutoProvision = False, cfg_Throttle = DefaultThrottleConfig, cfg_vaults = demo_service, cfg_digest = (\<lambda>t. CHR ''#'' # t),
     cfg_hmac = demo_hmac, cfg_verify_password = (\<lambda>p h. p = ''pw''), cfg_hash_code = (\<lambda>c s. c), cfg_verify_code = (\<lambda>c h. c = h)\<rparr>"

definition demo_site :: server where
  "demo_site = \<lparr>sv_vaults = \<lparr>vs_users = [demo_user], vs_cache = newCache 60 (\<lambda>_. []), vs_next = 0\<rparr>, sv_sessions = [],
     sv_throttle = NewThrottle [], sv_totp = (\<lambda>_. None), sv_recovery = (\<lambda>_. []), sv_staging = [], sv_audit = []\<rparr>"

definition demo_request :: request where
  "demo_request = \<lparr>rq_now = 0, rq_ip = ''192.0.2.1'', rq_agent = ''browser'', rq_event = ''e1'', rq_session = ''s1'', rq_token = ''tok'',
     rq_user = ''u2'', rq_draws = Vault_Service.demo_draws, rq_secret = [], rq_codes = [], rq_code_ids = []\<rparr>"

definition demo_signed_in :: "string \<Rightarrow> server" where
  "demo_signed_in policy = fst (serve (demo_api policy) demo_request (Login ''A@b.c'' ''pw'') demo_site)"

lemma withAuth_grants:
  assumes new: "i \<in> mfa_of (sv_sessions (fst (withAuth cfg rq cookie h s)))" "i \<notin> mfa_of (sv_sessions s)"
    and grant: "\<And>sess u s. i \<in> mfa_of (sv_sessions (fst (h sess u s))) \<Longrightarrow> i \<notin> mfa_of (sv_sessions s) \<Longrightarrow> i = as_ID sess \<and> P u s"
    and frame: "\<And>u s db. P u (s\<lparr>sv_sessions := db\<rparr>) = P u s"
  shows "\<exists>row u. owned_session cfg rq cookie s row u \<and> r_id row = i \<and> P u s"
proof (cases rule: withAuth_cases [of cfg rq cookie h s])
  case (refused c)
  with new show ?thesis by auto
next
  case (passed row u idle)
  have id: "as_ID ((scanSession row)\<lparr>as_IdleExpiresAt := idle\<rparr>) = r_id row" by (simp add: scanSession_def)
  from new passed(5) grant [of "(scanSession row)\<lparr>as_IdleExpiresAt := idle\<rparr>" u
    "s\<lparr>sv_sessions := update_rows (\<lambda>r. r_id r = r_id row) (\<lambda>r. r\<lparr>r_idle := Some idle\<rparr>) (sv_sessions s)\<rparr>"]
  have "i = r_id row \<and> P u s" unfolding id frame by simp
  with passed show ?thesis by (auto simp: owned_session_def)
qed

fun pre_proof :: "api_config \<Rightarrow> request \<Rightarrow> string \<Rightarrow> pre_route \<Rightarrow> User \<Rightarrow> server \<Rightarrow> bool" where
  "pre_proof cfg rq i (RVerify code) u s = totp_proof cfg rq code i u s"
| "pre_proof cfg rq i (RRecovery code) u s = recovery_proof cfg code u s"
| "pre_proof cfg rq i _ u s = False"

fun full_proof :: "api_config \<Rightarrow> request \<Rightarrow> string \<Rightarrow> full_route \<Rightarrow> User \<Rightarrow> server \<Rightarrow> bool" where
  "full_proof cfg rq i (RMFAConfirm code) u s = totp_proof cfg rq code i u s"
| "full_proof cfg rq i _ u s = False"

lemma proof_frame: "pre_proof cfg rq i r u (s\<lparr>sv_sessions := db\<rparr>) = pre_proof cfg rq i r u s"
  "full_proof cfg rq i r' u (s\<lparr>sv_sessions := db\<rparr>) = full_proof cfg rq i r' u s"
  by (cases r; cases r'; simp add: totp_proof_def recovery_proof_def loadTOTPSecret_def)+

lemma Pre_grants:
  assumes "i \<in> mfa_of (sv_sessions (fst (routePreMFA cfg rq r sess u s)))" and "i \<notin> mfa_of (sv_sessions s)"
  shows "i = as_ID sess \<and> pre_proof cfg rq i r u s"
proof (cases r)
  case (RVerify code)
  with assms Verify_grants [of cfg rq code sess u s] mfa_of_granted [of "as_ID sess" "sv_sessions s"] show ?thesis by auto
next
  case (RRecovery code)
  with assms Recovery_grants [of cfg rq code sess u s] mfa_of_granted [of "as_ID sess" "sv_sessions s"] show ?thesis by auto
qed (use assms in simp_all)

lemma Full_grants:
  assumes "i \<in> mfa_of (sv_sessions (fst (withMFA cfg (routeAuthenticated cfg rq r) sess u s)))" and "i \<notin> mfa_of (sv_sessions s)"
  shows "i = as_ID sess \<and> full_proof cfg rq i r u s"
proof -
  from assms have "i \<in> mfa_of (sv_sessions (fst (routeAuthenticated cfg rq r sess u s)))" by (simp add: withMFA_def split: if_split_asm)
  note here = this
  show ?thesis
  proof (cases r)
    case (RMFAConfirm code)
    with here assms(2) Confirm_grants [of cfg rq code sess u s] mfa_of_granted [of "as_ID sess" "sv_sessions s"] show ?thesis by auto
  qed (use here assms(2) in simp_all)
qed

lemma Pre_second_factor: "(\<exists>row u. owned_session cfg rq cookie s row u \<and> r_id row = i \<and> pre_proof cfg rq i r u s)
    \<Longrightarrow> second_factor cfg rq (Pre cookie r) s i"
  by (cases r) auto

lemma Full_second_factor: "(\<exists>row u. owned_session cfg rq cookie s row u \<and> r_id row = i \<and> full_proof cfg rq i r u s)
    \<Longrightarrow> second_factor cfg rq (Full cookie r) s i"
  by (cases r) auto

text \<open>
  C13 (safety). A request to a route behind the second factor either is the route's handler, run
  for the active session of an enabled account, which has satisfied a second factor if the policy
  asks for one of that account; or it is refused, with nothing done but bookkeeping: ended sessions
  deleted or revoked, the deadline of the session's inactivity moved, the vault of a disabled
  account locked. With a session that lacks only the second factor the refusal says so. A session
  comes to satisfy it in one of three ways: the identity provider said so when it was created, its
  own request gave a one-time password for the secret sealed in its own unlocked vault, or its own
  request gave an unused recovery code of its account.
\<close>

theorem second_factor_gate:
  "((\<exists>row u idle. owned_session cfg rq cookie s row u \<and> (mfaRequiredFor cfg u \<longrightarrow> r_mfa row)
        \<and> serve cfg rq (Full cookie r) s = routeAuthenticated cfg rq r ((scanSession row)\<lparr>as_IdleExpiresAt := idle\<rparr>) u
            (s\<lparr>sv_sessions := update_rows (\<lambda>x. r_id x = r_id row) (\<lambda>x. x\<lparr>r_idle := Some idle\<rparr>) (sv_sessions s)\<rparr>))
    \<or> (\<exists>code. snd (serve cfg rq (Full cookie r) s) = Inl code \<and> housekept s (fst (serve cfg rq (Full cookie r) s))
        \<and> (cookie \<noteq> '''' \<and> (\<exists>row u. owned_session cfg rq cookie s row u) \<longrightarrow> code = CodeMFARequired)))
   \<and> (i \<in> mfa_of (sv_sessions (fst (serve cfg rq c s))) \<and> i \<notin> mfa_of (sv_sessions s) \<longrightarrow> second_factor cfg rq c s i)"
proof (intro conjI impI)
  show "(\<exists>row u idle. owned_session cfg rq cookie s row u \<and> (mfaRequiredFor cfg u \<longrightarrow> r_mfa row)
        \<and> serve cfg rq (Full cookie r) s = routeAuthenticated cfg rq r ((scanSession row)\<lparr>as_IdleExpiresAt := idle\<rparr>) u
            (s\<lparr>sv_sessions := update_rows (\<lambda>x. r_id x = r_id row) (\<lambda>x. x\<lparr>r_idle := Some idle\<rparr>) (sv_sessions s)\<rparr>))
    \<or> (\<exists>code. snd (serve cfg rq (Full cookie r) s) = Inl code \<and> housekept s (fst (serve cfg rq (Full cookie r) s))
        \<and> (cookie \<noteq> '''' \<and> (\<exists>row u. owned_session cfg rq cookie s row u) \<longrightarrow> code = CodeMFARequired))"
    (is "?served \<or> ?refused")
  proof (cases rule: withAuth_cases [of cfg rq cookie "withMFA cfg (routeAuthenticated cfg rq r)" s])
    case (refused code)
    then have ?refused by (intro exI [of _ code]) auto
    then show ?thesis ..
  next
    case (passed row u idle)
    show ?thesis
    proof (cases "mfaRequiredFor cfg u \<and> \<not> r_mfa row")
      case True
      with passed(5) have ?refused by (simp add: withMFA_def scanSession_def housekept_sessions)
      then show ?thesis ..
    next
      case False
      with passed have ?served
        by (intro exI [of _ row] exI [of _ u] exI [of _ idle])
          (auto simp: owned_session_def withMFA_def scanSession_def)
      then show ?thesis ..
    qed
  qed
next
  assume new: "i \<in> mfa_of (sv_sessions (fst (serve cfg rq c s))) \<and> i \<notin> mfa_of (sv_sessions s)"
  show "second_factor cfg rq c s i"
  proof (cases c)
    case (Login email pw)
    with new Login_mfa [of cfg rq email pw s] show ?thesis by auto
  next
    case (SSO cb)
    with new SSO_mfa [of i cfg rq cb s] show ?thesis by simp
  next
    case (Pre cookie r)
    with new have "i \<in> mfa_of (sv_sessions (fst (withAuth cfg rq cookie (routePreMFA cfg rq r) s)))" by simp
    then have "\<exists>row u. owned_session cfg rq cookie s row u \<and> r_id row = i \<and> pre_proof cfg rq i r u s"
      using conjunct2 [OF new] by (rule withAuth_grants) (erule (1) Pre_grants, rule proof_frame)
    with Pre_second_factor Pre show ?thesis by blast
  next
    case (Full cookie r)
    with new have "i \<in> mfa_of (sv_sessions (fst (withAuth cfg rq cookie (withMFA cfg (routeAuthenticated cfg rq r)) s)))" by simp
    then have "\<exists>row u. owned_session cfg rq cookie s row u \<and> r_id row = i \<and> full_proof cfg rq i r u s"
      using conjunct2 [OF new] by (rule withAuth_grants) (erule (1) Full_grants, rule proof_frame)
    with Full_second_factor Full show ?thesis by blast
  qed
qed

theorem second_factor_gate_witness:
  "snd (serve (demo_api MFARequired) demo_request (Full ''tok'' OtherRoute) (demo_signed_in MFARequired)) = Inl CodeMFARequired
   \<and> housekept (demo_signed_in MFARequired) (fst (serve (demo_api MFARequired) demo_request (Full ''tok'' OtherRoute) (demo_signed_in MFARequired)))"
proof -
  have code: "snd (serve (demo_api MFARequired) demo_request (Full ''tok'' OtherRoute) (demo_signed_in MFARequired)) = Inl CodeMFARequired"
    by code_simp
  from second_factor_gate [of "demo_api MFARequired" demo_request "''tok''" "demo_signed_in MFARequired" OtherRoute, THEN conjunct1]
  show ?thesis by (rule disjE) (use code in \<open>auto simp del: serve.simps\<close>)
qed

subsection \<open>A required second factor\<close>

text \<open>
  No session has satisfied the second factor, no vault is open and no recovery code is on record:
  every new installation, and, whenever the server starts, one that has issued no recovery codes and
  has no session left that gave a second factor. Codes issued under an earlier policy are outside
  it: a session can give one of them without an open vault.
\<close>

definition nobody_in :: "server \<Rightarrow> bool" where
  "nobody_in s \<longleftrightarrow> mfa_of (sv_sessions s) = {} \<and> entries (vs_cache (sv_vaults s)) = [] \<and> (\<forall>i. sv_recovery s i = [])"

inductive site_step :: "api_config \<Rightarrow> server \<Rightarrow> server \<Rightarrow> bool" for cfg where
  request: "(\<forall>x. c \<noteq> SSO (Some (Inr x))) \<Longrightarrow> site_step cfg s (fst (serve cfg rq c s))"
| accounts: "users_step (sv_users s) db \<Longrightarrow> site_step cfg s (set_users db s)"
| revoke: "site_step cfg s (s\<lparr>sv_sessions := fst (RevokeAllForUser now i (sv_sessions s))\<rparr>)"
| evict: "site_step cfg s (s\<lparr>sv_vaults := (sv_vaults s)\<lparr>vs_cache := fst (EvictExpired (vs_cache (sv_vaults s)) now)\<rparr>\<rparr>)"

lemma locked_key:
  assumes "entries (vs_cache (sv_vaults s)) = []"
  shows "vault_key rq sess u s = (s, None)"
  using assms by (simp add: vault_key_def vault_Key_def cache_Get_def)

lemma locked_Lock:
  assumes "entries (vs_cache v) = []"
  shows "Lock u i v = v" and "entries (vs_cache (fst (LockAllForUser u v))) = []"
  using assms by (simp_all add: Lock_def cache_Forget_def LockAllForUser_def ForgetFunc_def sweep_entries_def)

lemma Login_nobody_in:
  assumes "nobody_in s"
  shows "nobody_in (fst (handleLocalLogin cfg rq email pw s))"
proof -
  have "nobody_in s2" if "issueSession cfg rq i AuthMethodLocal False (successes rq ks s) = (s2, q)" for s2 q i ks
    using issueSession_mfa [of cfg rq i AuthMethodLocal False "successes rq ks s"] assms that
    by (auto simp: nobody_in_def issueSession_def case_prod_beta)
  moreover have "nobody_in (fst (writeWhoami cfg rq sess u s'))" if "nobody_in s'" for sess u s'
    using locked_key [of s' rq sess u] that by (simp add: writeWhoami_def nobody_in_def Let_def)
  moreover have "nobody_in (audited rq a e ac out sev t d s')" "nobody_in (set_users db s')" "nobody_in (failures rq ks s')" if "nobody_in s'" for a e ac out sev t d db ks s'
    using that by (simp_all add: nobody_in_def)
  ultimately show ?thesis
    using assms by (auto simp: handleLocalLogin_def Let_def split: option.split prod.split sum.split)
qed

lemma Pre_nobody_in:
  assumes "nobody_in s"
  shows "nobody_in (fst (routePreMFA cfg rq r sess u s))"
proof (cases r)
  case (RVerify code)
  with assms show ?thesis by (simp add: handleMFAVerify_def requireVaultKey_def locked_key nobody_in_def)
next
  case (RRecovery code)
  have "VerifyRecoveryCode f code [] = None" for f by (simp add: VerifyRecoveryCode_def Let_def)
  with RRecovery assms show ?thesis by (simp add: handleMFARecovery_def throttled_def nobody_in_def Let_def split: option.split)
next
  case RLogout
  with assms show ?thesis by (simp add: handleLogout_def nobody_in_def Let_def locked_Lock)
next
  case RWhoami
  with assms show ?thesis by (simp add: writeWhoami_def locked_key nobody_in_def Let_def)
qed

lemma withAuth_nobody_in:
  assumes "nobody_in s" and "\<And>sess u s. nobody_in s \<Longrightarrow> \<not> as_MFASatisfied sess \<Longrightarrow> nobody_in (fst (h sess u s))"
  shows "nobody_in (fst (withAuth cfg rq cookie h s))"
proof (cases rule: withAuth_cases [of cfg rq cookie h s])
  case (refused c)
  from refused(4) have "entries (vs_cache (sv_vaults (fst (withAuth cfg rq cookie h s)))) = []"
    using assms(1) locked_Lock(2) by (auto simp: nobody_in_def)
  with refused(2,3) assms(1) show ?thesis by (auto simp: nobody_in_def)
next
  case (passed row u idle)
  have "row \<in> set (sv_sessions s)" using passed(1) by (auto simp: session_for_def find_Some_iff)
  then have "\<not> r_mfa row" using assms(1) by (auto simp: nobody_in_def mfa_of_def)
  then have "\<not> as_MFASatisfied ((scanSession row)\<lparr>as_IdleExpiresAt := idle\<rparr>)" by (simp add: scanSession_def)
  moreover have "nobody_in (s\<lparr>sv_sessions := update_rows (\<lambda>r. r_id r = r_id row) (\<lambda>r. r\<lparr>r_idle := Some idle\<rparr>) (sv_sessions s)\<rparr>)"
    using assms(1) by (simp add: nobody_in_def)
  ultimately show ?thesis unfolding passed(5) by (rule assms(2) [rotated])
qed

lemma request_nobody_in:
  assumes "MFAPolicy cfg = MFARequired" and "nobody_in s" and "\<forall>x. c \<noteq> SSO (Some (Inr x))"
  shows "nobody_in (fst (serve cfg rq c s))"
proof (cases c)
  case (Login email pw)
  with Login_nobody_in [OF assms(2)] show ?thesis by simp
next
  case (SSO cb)
  show ?thesis
  proof (cases cb)
    case None
    with SSO assms(2) show ?thesis by (simp add: handleSSOCallback_def)
  next
    case (Some x)
    with SSO assms(3) obtain e where "x = Inl e" by (cases x) simp_all
    with SSO Some assms(2) show ?thesis by (simp add: handleSSOCallback_def nobody_in_def)
  qed
next
  case (Pre cookie r)
  then show ?thesis using withAuth_nobody_in [OF assms(2)] Pre_nobody_in by simp
next
  case (Full cookie r)
  then show ?thesis using assms(1)
    by (simp add: withAuth_nobody_in [OF assms(2)] withMFA_def mfaRequiredFor_def)
qed

interpretation required_factor: invariant_of "site_step cfg" "\<lambda>s. MFAPolicy cfg = MFARequired \<and> nobody_in s" for cfg
proof
  fix s t
  assume "site_step cfg s t" and inv: "MFAPolicy cfg = MFARequired \<and> nobody_in s"
  then show "MFAPolicy cfg = MFARequired \<and> nobody_in t"
  proof (induction rule: site_step.induct)
    case (request c s rq)
    then show ?case using request_nobody_in by blast
  qed (simp_all add: nobody_in_def EvictExpired_def sweep_entries_def)
qed

text \<open>
  C30 (functional). The policy requires a second factor, no session has satisfied one, no vault is
  open and no recovery codes have been issued. As long as nobody signs in through an identity
  provider, the second factor can then be neither set up nor given: verifying a one-time password
  needs an open vault, creating and opening a vault needs the second factor, and so does obtaining
  recovery codes. Whatever is requested, one request after another, and whatever the administrator
  does to accounts, every route behind the second factor refuses every request.
\<close>

theorem required_factor_locks_out:
  assumes "MFAPolicy cfg = MFARequired" and "nobody_in s" and "(site_step cfg)\<^sup>*\<^sup>* s t"
  shows "\<exists>code. snd (serve cfg rq (Full cookie r) t) = Inl code"
proof -
  have t: "nobody_in t" using required_factor.run_inv [OF assms(3)] assms(1,2) by blast
  show ?thesis
  proof (cases rule: withAuth_cases [of cfg rq cookie "withMFA cfg (routeAuthenticated cfg rq r)" t])
    case (refused c)
    then show ?thesis by simp
  next
    case (passed row u idle)
    have "row \<in> set (sv_sessions t)" using passed(1) by (auto simp: session_for_def find_Some_iff)
    then have "\<not> r_mfa row" using t by (auto simp: nobody_in_def mfa_of_def)
    with passed(5) assms(1) show ?thesis by (simp add: withMFA_def mfaRequiredFor_def scanSession_def)
  qed
qed

theorem required_factor_locks_out_witness:
  "sv_sessions (demo_signed_in MFARequired) \<noteq> []
   \<and> (\<exists>code. snd (serve (demo_api MFARequired) demo_request (Full ''tok'' (RVaultEnrol ''correct horse battery'')) (demo_signed_in MFARequired)) = Inl code)"
proof -
  have "(site_step (demo_api MFARequired))\<^sup>*\<^sup>* demo_site (demo_signed_in MFARequired)"
    unfolding demo_signed_in_def by (intro r_into_rtranclp site_step.request) simp
  moreover have "nobody_in demo_site" by (simp add: nobody_in_def demo_site_def mfa_of_def newCache_def)
  moreover have "MFAPolicy (demo_api MFARequired) = MFARequired" by (simp add: demo_api_def)
  moreover have "sv_sessions (demo_signed_in MFARequired) \<noteq> []" by code_simp
  ultimately show ?thesis using required_factor_locks_out by blast
qed

end
