(* ===== verification/Credential_Handlers.thy ===== *)
theory Credential_Handlers
  imports Credential_Store Sign_In
begin

section \<open>Credentials over the interface (\<^verbatim>\<open>internal/api/credential_handlers.go\<close>)\<close>

text \<open>
  The handlers over the server's state and the table of credentials. A handler gets the request
  decoded, the signed-in user and session, and returns the state with its answer: an error code, or
  the fields of the answer. The messages are left out. Sealing makes two draws and a row needs an
  identifier; they are part of \<open>cred_draws\<close>.
\<close>

record site =
  site_server :: server
  site_creds :: cred_table

record cred_draws =
  cd_id :: string
  cd_nonce1 :: "byte list option"
  cd_nonce2 :: "byte list option"

type_synonym view = "(string \<times> string) list"

datatype cred_reply = CredentialList "view list" | CredentialShown view | CredentialStored view bool | CredentialDeleted

type_synonym cred_response = "(ErrorCode, cred_reply) result"

definition ActionCredentialCreated :: string where "ActionCredentialCreated = ''credential.created''"
definition ActionCredentialUpdated :: string where "ActionCredentialUpdated = ''credential.updated''"
definition ActionCredentialDeleted :: string where "ActionCredentialDeleted = ''credential.deleted''"

fun cred_kind_text :: "cred_kind \<Rightarrow> string" where
  "cred_kind_text KindSSHKey = ''ssh_key''"
| "cred_kind_text KindPassword = ''password''"
| "cred_kind_text KindPassphrase = ''passphrase''"
| "cred_kind_text KindEnableSecret = ''enable_secret''"
| "cred_kind_text (CredentialKind t) = t"

text \<open>Reading a kind from a request.\<close>

definition cred_kind_of :: "string \<Rightarrow> cred_kind" where
  "cred_kind_of t =
     (case find (\<lambda>k. cred_kind_text k = t) [KindSSHKey, KindPassword, KindPassphrase, KindEnableSecret] of
        Some k \<Rightarrow> k | None \<Rightarrow> CredentialKind t)"

definition key_type_of :: "string \<Rightarrow> KeyType" where
  "key_type_of t = (case find (\<lambda>k. key_type_text k = t) SupportedKeyTypes of Some k \<Rightarrow> k | None \<Rightarrow> KeyTypeText t)"

definition credentialView :: "Credential \<Rightarrow> view" where
  "credentialView c =
     [(''id'', cr_ID c), (''name'', cr_Name c), (''kind'', cred_kind_text (cr_Kind c)), (''username'', cr_Username c),
      (''public_key'', cr_PublicKey c), (''fingerprint'', cr_Fingerprint c), (''key_type'', cr_KeyType c),
      (''server_unlockable'', bool_text (cr_ServerUnlockable c)), (''created_at'', rfc3339 (cr_CreatedAt c)),
      (''updated_at'', rfc3339 (cr_UpdatedAt c))]
     @ (case cr_LastUsedAt c of None \<Rightarrow> [] | Some t \<Rightarrow> [(''last_used_at'', rfc3339 t)])"

text \<open>The identifier in a path: what follows the prefix, unless it is empty or holds a slash.\<close>

definition credentialID :: "string \<Rightarrow> string" where
  "credentialID path =
     (let i = trim_prefix path ''/api/credentials/'' in if i = '''' \<or> CHR ''/'' \<in> set i then '''' else i)"

definition isValidationError :: "cred_error \<Rightarrow> bool" where
  "isValidationError e \<longleftrightarrow> e \<in> {CredNameRequired, OwnerRequired, UnknownKind, UnsupportedKeyType}"

definition writeCredentialError :: "cred_error \<Rightarrow> ErrorCode" where
  "writeCredentialError e =
     (if e = CredNotFound then CodeNotFound
      else if e = ErrNoSecret then CodeConflict
      else if isValidationError e then CodeBadRequest
      else CodeInternal)"

definition auditCredential :: "request \<Rightarrow> User \<Rightarrow> string \<Rightarrow> Credential \<Rightarrow> site \<Rightarrow> site" where
  "auditCredential rq u action c s =
     s\<lparr>site_server := (site_server s)\<lparr>sv_audit := audit_Record (rq_event rq) (rq_now rq)
        \<lparr>ev_ID = '''', ev_OccurredAt = None, ev_ActorID = u_ID u, ev_ActorEmail = u_Email u, ev_IPAddress = rq_ip rq,
         ev_Action = action, ev_Severity = '''', ev_TargetType = ''credential'', ev_TargetID = cr_ID c, ev_TargetLabel = cr_Name c,
         ev_Outcome = '''',
         ev_Detail = [(''credential_kind'', cred_kind_text (cr_Kind c)), (''key_type'', cr_KeyType c),
                      (''fingerprint'', cr_Fingerprint c)]\<rparr> (sv_audit (site_server s))\<rparr>\<rparr>"

definition with_key :: "request \<Rightarrow> auth_session \<Rightarrow> User \<Rightarrow> (key \<Rightarrow> site \<Rightarrow> site \<times> cred_response) \<Rightarrow> site \<Rightarrow> site \<times> cred_response" where
  "with_key rq sess u k s =
     (case vault_key rq sess u (site_server s) of
        (sv, None) \<Rightarrow> (s\<lparr>site_server := sv\<rparr>, Inl CodeVaultLocked)
      | (sv, Some key) \<Rightarrow> k key (s\<lparr>site_server := sv\<rparr>))"

subsection \<open>Handlers\<close>

definition handleListCredentials :: "User \<Rightarrow> site \<Rightarrow> site \<times> cred_response" where
  "handleListCredentials u s = (s, Inr (CredentialList (map credentialView (cred_List (u_ID u) False (site_creds s)))))"

definition handleGetCredential :: "User \<Rightarrow> string \<Rightarrow> site \<Rightarrow> site \<times> cred_response" where
  "handleGetCredential u path s =
     (if credentialID path = '''' then (s, Inl CodeBadRequest)
      else case cred_Get (u_ID u) (credentialID path) (site_creds s) of
             Inl e \<Rightarrow> (s, Inl (writeCredentialError e))
           | Inr c \<Rightarrow> (s, Inr (CredentialShown (credentialView c))))"

text \<open>The last steps of the three handlers that store something.\<close>

definition store_credential ::
  "api_config \<Rightarrow> request \<Rightarrow> cred_draws \<Rightarrow> User \<Rightarrow> key \<Rightarrow> CredentialParams \<Rightarrow> bool \<Rightarrow> site \<Rightarrow> site \<times> cred_response" where
  "store_credential cfg rq dr u key p notice s =
     (case cred_Create (svc_seal (cfg_vaults cfg)) (cd_nonce1 dr) (cd_nonce2 dr) (cd_id dr) (rq_now rq) key p (site_creds s) of
        (db, Inl e) \<Rightarrow> (s\<lparr>site_creds := db\<rparr>, Inl (writeCredentialError e))
      | (db, Inr c) \<Rightarrow>
          (auditCredential rq u ActionCredentialCreated c (s\<lparr>site_creds := db\<rparr>), Inr (CredentialStored (credentialView c) notice)))"

record createCredentialRequest =
  cc_name :: string
  cc_kind :: string
  cc_username :: string
  cc_secret :: string
  cc_extra :: string

definition handleCreateCredential ::
  "api_config \<Rightarrow> request \<Rightarrow> cred_draws \<Rightarrow> createCredentialRequest \<Rightarrow> auth_session \<Rightarrow> User \<Rightarrow> site \<Rightarrow> site \<times> cred_response" where
  "handleCreateCredential cfg rq dr req sess u =
     with_key rq sess u (\<lambda>key s.
       let kind = cred_kind_of (cc_kind req) in
       case Validate_cred_kind kind of
         Inl _ \<Rightarrow> (s, Inl CodeBadRequest)
       | Inr _ \<Rightarrow>
           if kind = KindSSHKey then (s, Inl CodeBadRequest)
           else if cc_secret req = '''' then (s, Inl CodeBadRequest)
           else store_credential cfg rq dr u key
                  \<lparr>cp_OwnerID = u_ID u, cp_IsTeam = False, cp_Name = cc_name req, cp_Kind = kind, cp_Username = cc_username req,
                   cp_Secret = cc_secret req, cp_Extra = cc_extra req, cp_PublicKey = '''', cp_Fingerprint = '''', cp_KeyType = ''''\<rparr>
                  False s)"

record generateKeyRequest =
  kg_name :: string
  kg_key_type :: string
  kg_username :: string
  kg_comment :: string

definition handleGenerateKey ::
  "'k ssh_keys \<Rightarrow> api_config \<Rightarrow> request \<Rightarrow> cred_draws \<Rightarrow> generateKeyRequest \<Rightarrow> auth_session \<Rightarrow> User \<Rightarrow> site \<Rightarrow> site \<times> cred_response" where
  "handleGenerateKey lib cfg rq dr req sess u =
     with_key rq sess u (\<lambda>key s.
       let keyType = (if kg_key_type req = '''' then KeyEd25519 else key_type_of (kg_key_type req)) in
       case Validate_key_type keyType of
         Inl _ \<Rightarrow> (s, Inl CodeBadRequest)
       | Inr _ \<Rightarrow>
           (case GenerateKey lib keyType (if kg_comment req = '''' then u_Email u else kg_comment req) of
              Inl _ \<Rightarrow> (s, Inl CodeInternal)
            | Inr g \<Rightarrow>
                store_credential cfg rq dr u key
                  \<lparr>cp_OwnerID = u_ID u, cp_IsTeam = False, cp_Name = kg_name req, cp_Kind = KindSSHKey, cp_Username = kg_username req,
                   cp_Secret = gk_PrivateKeyPEM g, cp_Extra = '''', cp_PublicKey = gk_PublicKey g, cp_Fingerprint = gk_Fingerprint g,
                   cp_KeyType = key_type_text (gk_KeyType g)\<rparr>
                  True s))"

record importKeyRequest =
  im_name :: string
  im_username :: string
  im_private_key :: string
  im_passphrase :: string

definition handleImportKey ::
  "'k ssh_keys \<Rightarrow> api_config \<Rightarrow> request \<Rightarrow> cred_draws \<Rightarrow> importKeyRequest \<Rightarrow> auth_session \<Rightarrow> User \<Rightarrow> site \<Rightarrow> site \<times> cred_response" where
  "handleImportKey lib cfg rq dr req sess u =
     with_key rq sess u (\<lambda>key s.
       if trim_space (im_private_key req) = '''' then (s, Inl CodeBadRequest)
       else case ImportKey lib (im_private_key req) (im_passphrase req) of
              Inl e \<Rightarrow> (s, Inl (if e \<in> {ErrKeyEncrypted, ErrKeyPassphrase, ErrNotAPrivateKey} then CodeBadRequest else CodeInternal))
            | Inr k \<Rightarrow>
                store_credential cfg rq dr u key
                  \<lparr>cp_OwnerID = u_ID u, cp_IsTeam = False, cp_Name = im_name req, cp_Kind = KindSSHKey, cp_Username = im_username req,
                   cp_Secret = ik_PrivateKeyPEM k, cp_Extra = '''', cp_PublicKey = ik_PublicKey k, cp_Fingerprint = ik_Fingerprint k,
                   cp_KeyType = key_type_text (ik_KeyType k)\<rparr>
                  (ik_WasEncrypted k) s)"

definition handleUpdateCredential ::
  "request \<Rightarrow> string option \<Rightarrow> string option \<Rightarrow> User \<Rightarrow> string \<Rightarrow> site \<Rightarrow> site \<times> cred_response" where
  "handleUpdateCredential rq name username u path s =
     (if credentialID path = '''' then (s, Inl CodeBadRequest)
      else case cred_Update (rq_now rq) (u_ID u) (credentialID path) name username (site_creds s) of
             (db, Inl e) \<Rightarrow> (s\<lparr>site_creds := db\<rparr>, Inl (writeCredentialError e))
           | (db, Inr c) \<Rightarrow>
               (auditCredential rq u ActionCredentialUpdated c (s\<lparr>site_creds := db\<rparr>), Inr (CredentialShown (credentialView c))))"

definition handleDeleteCredential :: "request \<Rightarrow> User \<Rightarrow> string \<Rightarrow> site \<Rightarrow> site \<times> cred_response" where
  "handleDeleteCredential rq u path s =
     (if credentialID path = '''' then (s, Inl CodeBadRequest)
      else case cred_Get (u_ID u) (credentialID path) (site_creds s) of
             Inl e \<Rightarrow> (s, Inl (writeCredentialError e))
           | Inr existing \<Rightarrow>
               (case cred_Delete (u_ID u) (credentialID path) (site_creds s) of
                  (db, Inl e) \<Rightarrow> (s\<lparr>site_creds := db\<rparr>, Inl (writeCredentialError e))
                | (db, Inr _) \<Rightarrow>
                    (auditCredential rq u ActionCredentialDeleted existing (s\<lparr>site_creds := db\<rparr>), Inr CredentialDeleted)))"

subsection \<open>What a request can change\<close>

text \<open>A request for credentials, and what serves it.\<close>

datatype cred_call =
    AskList | AskOne string | AskCreate createCredentialRequest | AskGenerate generateKeyRequest | AskImport importKeyRequest
  | AskUpdate "string option" "string option" string | AskDelete string

fun cred_serve ::
  "'k ssh_keys \<Rightarrow> api_config \<Rightarrow> request \<Rightarrow> cred_draws \<Rightarrow> auth_session \<Rightarrow> User \<Rightarrow> cred_call \<Rightarrow> site \<Rightarrow> site \<times> cred_response" where
  "cred_serve lib cfg rq dr sess u AskList s = handleListCredentials u s"
| "cred_serve lib cfg rq dr sess u (AskOne path) s = handleGetCredential u path s"
| "cred_serve lib cfg rq dr sess u (AskCreate req) s = handleCreateCredential cfg rq dr req sess u s"
| "cred_serve lib cfg rq dr sess u (AskGenerate req) s = handleGenerateKey lib cfg rq dr req sess u s"
| "cred_serve lib cfg rq dr sess u (AskImport req) s = handleImportKey lib cfg rq dr req sess u s"
| "cred_serve lib cfg rq dr sess u (AskUpdate name username path) s = handleUpdateCredential rq name username u path s"
| "cred_serve lib cfg rq dr sess u (AskDelete path) s = handleDeleteCredential rq u path s"

text \<open>The audit row that says an action was done to a credential; its severity is the log's.\<close>

definition says :: "request \<Rightarrow> User \<Rightarrow> string \<Rightarrow> cred_row \<Rightarrow> Event \<Rightarrow> bool" where
  "says rq u action row e \<longleftrightarrow> e =
     \<lparr>ev_ID = rq_event rq, ev_OccurredAt = Some (rq_now rq), ev_ActorID = u_ID u, ev_ActorEmail = u_Email u, ev_IPAddress = rq_ip rq,
      ev_Action = action, ev_Severity = ev_Severity e, ev_TargetType = ''credential'', ev_TargetID = c_ID row,
      ev_TargetLabel = c_Name row, ev_Outcome = ''success'',
      ev_Detail = [(''credential_kind'', cred_kind_text (c_Kind row)), (''key_type'', c_KeyType row), (''fingerprint'', c_Fingerprint row)]\<rparr>"

text \<open>What a granted request does to the table, with the row that says so; reading does nothing.\<close>

definition names_path :: "string \<Rightarrow> string \<Rightarrow> bool" where
  "names_path path i \<longleftrightarrow> i \<noteq> '''' \<and> CHR ''/'' \<notin> set i \<and> (path = ''/api/credentials/'' @ i \<or> path = i)"

lemma credentialID_names: "credentialID path \<noteq> '''' \<Longrightarrow> names_path path (credentialID path)"
  by (auto simp: credentialID_def names_path_def Let_def trim_prefix_def has_prefix_iff split: if_splits)

fun done_and_said :: "request \<Rightarrow> User \<Rightarrow> cred_call \<Rightarrow> cred_table \<Rightarrow> cred_table \<Rightarrow> Event list \<Rightarrow> bool" where
  "done_and_said rq u AskList db db' es \<longleftrightarrow> db' = db \<and> es = []"
| "done_and_said rq u (AskOne path) db db' es \<longleftrightarrow> db' = db \<and> es = []"
| "done_and_said rq u (AskUpdate name username path) db db' es \<longleftrightarrow>
     (\<exists>old \<in> set db. \<exists>e. names_path path (c_ID old) \<and> row_owner old = u_ID u \<and> es = [e] \<and>
        (let new = old\<lparr>c_Name := (case name of None \<Rightarrow> c_Name old | Some n \<Rightarrow> trim_space n),
               c_Username := (case username of None \<Rightarrow> c_Username old | Some n \<Rightarrow> trim_space n), c_UpdatedAt := rq_now rq\<rparr>
         in db' = map (\<lambda>r. if c_ID r = c_ID old then new else r) db \<and> says rq u ''credential.updated'' new e))"
| "done_and_said rq u (AskDelete path) db db' es \<longleftrightarrow>
     (\<exists>old \<in> set db. \<exists>e. names_path path (c_ID old) \<and> row_owner old = u_ID u \<and> es = [e] \<and>
        db' = filter (\<lambda>r. c_ID r \<noteq> c_ID old) db \<and> says rq u ''credential.deleted'' old e)"
| "done_and_said rq u _ db db' es \<longleftrightarrow>
     (\<exists>new e. row_owner new = u_ID u \<and> es = [e] \<and> db' = db @ [new] \<and> says rq u ''credential.created'' new e)"

definition accounted :: "request \<Rightarrow> User \<Rightarrow> cred_call \<Rightarrow> site \<Rightarrow> site \<times> cred_response \<Rightarrow> bool" where
  "accounted rq u call s = (\<lambda>(s', r). \<exists>es. sv_audit (site_server s') = sv_audit (site_server s) @ es
     \<and> (if is_ok r then done_and_said rq u call (site_creds s) (site_creds s') es else site_creds s' = site_creds s \<and> es = []))"

lemma complete_event_target:
  "ev_TargetID (complete_event i now e) = ev_TargetID e" "ev_IPAddress (complete_event i now e) = ev_IPAddress e"
  "ev_TargetType (complete_event i now e) = ev_TargetType e" "ev_TargetLabel (complete_event i now e) = ev_TargetLabel e"
  by (simp_all add: complete_event_def Let_def split: option.split)

lemma detail_keys_public: "\<not> secret_key ''credential_kind''" "\<not> secret_key ''key_type''" "\<not> secret_key ''fingerprint''"
  by code_simp+

lemma auditCredential_row:
  assumes "rq_event rq \<noteq> ''''" "rq_event rq \<notin> ev_ID ` set (sv_audit (site_server s))" "action \<noteq> ''''"
    and row: "cr_ID c = c_ID row" "cr_Name c = c_Name row" "cr_Kind c = c_Kind row" "cr_KeyType c = c_KeyType row"
      "cr_Fingerprint c = c_Fingerprint row"
  obtains e where "sv_audit (site_server (auditCredential rq u action c s)) = sv_audit (site_server s) @ [e]"
    "site_creds (auditCredential rq u action c s) = site_creds s" "says rq u action row e"
proof -
  let ?detail = "[(''credential_kind'', cred_kind_text (cr_Kind c)), (''key_type'', cr_KeyType c), (''fingerprint'', cr_Fingerprint c)]"
  have "encodeDetail ?detail = Inr ?detail" unfolding encodeDetail_Inr by (simp add: detail_keys_public)
  then show ?thesis using assms
    by (intro that) (auto simp: auditCredential_def audit_Record_def RecordErr_def Let_def complete_event_fields
        complete_event_target says_def OutcomeSuccess_def)
qed

lemma vault_key_audit: "sv_audit (fst (vault_key rq sess u s)) = sv_audit s"
  by (simp add: vault_key_def split: prod.split sum.split)

lemma refused_accounted:
  "site_creds s' = site_creds s \<Longrightarrow> sv_audit (site_server s') = sv_audit (site_server s) \<Longrightarrow> accounted rq u call s (s', Inl e)"
  by (simp add: accounted_def)

lemma with_key_accounted:
  assumes "\<And>key s'. site_creds s' = site_creds s \<Longrightarrow> sv_audit (site_server s') = sv_audit (site_server s) \<Longrightarrow> accounted rq u call s (k key s')"
  shows "accounted rq u call s (with_key rq sess u k s)"
proof (cases "vault_key rq sess u (site_server s)")
  case (Pair sv key)
  with vault_key_audit [of rq sess u "site_server s"] assms show ?thesis
    by (cases key) (simp_all add: with_key_def refused_accounted)
qed

lemma cred_Get_Inr:
  "cred_Get owner i db = Inr c \<longleftrightarrow> (\<exists>r. find_cred db i = Some r \<and> row_owner r = owner \<and> c = scanCredential r)"
  by (auto simp: cred_Get_def scanCredential_def split: option.split)

lemma find_cred_ID: "find_cred db i = Some r \<Longrightarrow> c_ID r = i \<and> r \<in> set db"
  by (auto simp: find_cred_def find_Some_iff)

definition stores :: "cred_call \<Rightarrow> bool" where
  "stores call \<longleftrightarrow> (\<exists>c g i. call \<in> {AskCreate c, AskGenerate g, AskImport i})"

lemma store_accounted:
  assumes event: "rq_event rq \<noteq> ''''" "rq_event rq \<notin> ev_ID ` set (sv_audit (site_server s))"
    and call: "stores call"
    and same: "site_creds s' = site_creds s" "sv_audit (site_server s') = sv_audit (site_server s)"
    and p: "cp_OwnerID p = u_ID u" "\<not> cp_IsTeam p"
  shows "accounted rq u call s (store_credential cfg rq dr u key p notice s')"
proof (cases "snd (cred_Create (svc_seal (cfg_vaults cfg)) (cd_nonce1 dr) (cd_nonce2 dr) (cd_id dr) (rq_now rq) key p (site_creds s'))")
  case (Inl e)
  then have "cred_Create (svc_seal (cfg_vaults cfg)) (cd_nonce1 dr) (cd_nonce2 dr) (cd_id dr) (rq_now rq) key p (site_creds s') = (site_creds s', Inl e)"
    by (auto simp: cred_Create_def Let_def split: if_split_asm sum.split_asm prod.split_asm)
  with same show ?thesis by (simp add: store_credential_def refused_accounted)
next
  case (Inr c)
  then obtain row where row: "cred_Create (svc_seal (cfg_vaults cfg)) (cd_nonce1 dr) (cd_nonce2 dr) (cd_id dr) (rq_now rq) key p (site_creds s')
      = (site_creds s' @ [row], Inr c)" "row_owner row = u_ID u" "c = scanCredential row"
    using p by (auto simp: cred_Create_def Let_def row_owner_def is_team_row_def split: if_split_asm sum.split_asm prod.split_asm)
  let ?s = "s'\<lparr>site_creds := site_creds s' @ [row]\<rparr>"
  have "''credential.created'' \<noteq> ''''" "rq_event rq \<notin> ev_ID ` set (sv_audit (site_server ?s))"
    using event same by simp_all
  from auditCredential_row [OF event(1) this(2,1), of c row u] row(3) obtain e where
    "sv_audit (site_server (auditCredential rq u ''credential.created'' c ?s)) = sv_audit (site_server s) @ [e]"
    "site_creds (auditCredential rq u ''credential.created'' c ?s) = site_creds s @ [row]" "says rq u ''credential.created'' row e"
    by (auto simp: scanCredential_def same)
  with row(1,2) call same show ?thesis
    by (auto simp: store_credential_def accounted_def stores_def ActionCredentialCreated_def)
qed

lemma update_accounted:
  assumes event: "rq_event rq \<noteq> ''''" "rq_event rq \<notin> ev_ID ` set (sv_audit (site_server s))"
    and ids: "distinct (map c_ID (site_creds s))"
  shows "accounted rq u (AskUpdate name username path) s (handleUpdateCredential rq name username u path s)"
proof (cases "credentialID path = '''' \<or> (\<exists>e. snd (cred_Update (rq_now rq) (u_ID u) (credentialID path) name username (site_creds s)) = Inl e)")
  case True
  then show ?thesis
    by (auto simp: handleUpdateCredential_def cred_Update_def accounted_def Let_def split: sum.splits)
next
  case False
  then obtain old c where old: "find_cred (site_creds s) (credentialID path) = Some old" "row_owner old = u_ID u"
    and upd: "snd (cred_Update (rq_now rq) (u_ID u) (credentialID path) name username (site_creds s)) = Inr c"
    by (cases "snd (cred_Update (rq_now rq) (u_ID u) (credentialID path) name username (site_creds s))")
      (auto simp: cred_Update_def cred_Get_Inr split: sum.splits)
  let ?new = "old\<lparr>c_Name := (case name of None \<Rightarrow> c_Name old | Some n \<Rightarrow> trim_space n),
      c_Username := (case username of None \<Rightarrow> c_Username old | Some n \<Rightarrow> trim_space n), c_UpdatedAt := rq_now rq\<rparr>"
  let ?db = "map (\<lambda>r. if c_ID r = c_ID old then ?new else r) (site_creds s)"
  have get: "cred_Get (u_ID u) (credentialID path) (site_creds s) = Inr (scanCredential old)" using old by (simp add: cred_Get_Inr)
  note there = find_cred_ID [OF old(1)]
  have only: "r = old" if "r \<in> set (site_creds s)" "c_ID r = credentialID path" for r
    using that old(1) find_cred_Some [OF ids, of "credentialID path" r] by simp
  have f: "edit_cred (credentialID path) f (site_creds s) = map (\<lambda>r. if c_ID r = c_ID old then f old else r) (site_creds s)" for f
    using only there by (auto simp: edit_cred_def)
  have db: "cred_Update (rq_now rq) (u_ID u) (credentialID path) name username (site_creds s) = (?db, Inr c)"
    and c: "c = scanCredential ?new"
    using upd by (auto simp: cred_Update_def get Let_def f scanCredential_def row_owner_def is_team_row_def split: option.splits if_splits)
  have "''credential.updated'' \<noteq> ''''" "rq_event rq \<notin> ev_ID ` set (sv_audit (site_server (s\<lparr>site_creds := ?db\<rparr>)))"
    using event by simp_all
  from auditCredential_row [OF event(1) this(2,1), of c ?new u] c obtain e where
    "sv_audit (site_server (auditCredential rq u ''credential.updated'' c (s\<lparr>site_creds := ?db\<rparr>))) = sv_audit (site_server s) @ [e]"
    "site_creds (auditCredential rq u ''credential.updated'' c (s\<lparr>site_creds := ?db\<rparr>)) = ?db" "says rq u ''credential.updated'' ?new e"
    by (auto simp: scanCredential_def)
  moreover have "names_path path (c_ID old)" using credentialID_names [of path] False there by simp
  ultimately have "done_and_said rq u (AskUpdate name username path) (site_creds s) ?db [e]"
    unfolding done_and_said.simps Let_def using there old(2) by blast
  with False db \<open>sv_audit (site_server (auditCredential rq u ''credential.updated'' c (s\<lparr>site_creds := ?db\<rparr>))) = _\<close>
    \<open>site_creds (auditCredential rq u ''credential.updated'' c (s\<lparr>site_creds := ?db\<rparr>)) = ?db\<close> show ?thesis
    by (simp add: handleUpdateCredential_def accounted_def ActionCredentialUpdated_def del: done_and_said.simps)
qed

lemma delete_accounted:
  assumes event: "rq_event rq \<noteq> ''''" "rq_event rq \<notin> ev_ID ` set (sv_audit (site_server s))"
  shows "accounted rq u (AskDelete path) s (handleDeleteCredential rq u path s)"
proof (cases "credentialID path = '''' \<or> (\<exists>e. cred_Get (u_ID u) (credentialID path) (site_creds s) = Inl e)")
  case True
  then show ?thesis by (auto simp: handleDeleteCredential_def accounted_def)
next
  case False
  let ?db = "filter (\<lambda>r. c_ID r \<noteq> credentialID path) (site_creds s)"
  from False obtain old where old: "find_cred (site_creds s) (credentialID path) = Some old" "row_owner old = u_ID u"
    and get: "cred_Get (u_ID u) (credentialID path) (site_creds s) = Inr (scanCredential old)"
    by (cases "cred_Get (u_ID u) (credentialID path) (site_creds s)") (auto simp: cred_Get_Inr)
  note there = find_cred_ID [OF old(1)]
  have "''credential.deleted'' \<noteq> ''''" "rq_event rq \<notin> ev_ID ` set (sv_audit (site_server (s\<lparr>site_creds := ?db\<rparr>)))"
    using event by simp_all
  from auditCredential_row [OF event(1) this(2,1), of "scanCredential old" old u] obtain e where
    "sv_audit (site_server (auditCredential rq u ''credential.deleted'' (scanCredential old) (s\<lparr>site_creds := ?db\<rparr>))) = sv_audit (site_server s) @ [e]"
    "site_creds (auditCredential rq u ''credential.deleted'' (scanCredential old) (s\<lparr>site_creds := ?db\<rparr>)) = ?db"
    "says rq u ''credential.deleted'' old e"
    by (auto simp: scanCredential_def)
  with False there old(2) get show ?thesis
    by (auto simp: handleDeleteCredential_def accounted_def ActionCredentialDeleted_def cred_Delete_def intro!: bexI [of _ old]
        dest: credentialID_names)
qed

text \<open>A granted request touches no row of anybody else.\<close>

lemma done_to_own:
  assumes "done_and_said rq u call db db' es" and "distinct (map c_ID db)"
  shows "filter (\<lambda>r. row_owner r \<noteq> u_ID u) db' = filter (\<lambda>r. row_owner r \<noteq> u_ID u) db"
proof -
  have own: "row_owner r = u_ID u" if "old \<in> set db" "row_owner old = u_ID u" "r \<in> set db" "c_ID r = c_ID old" for old r
    using that assms(2) by (auto simp: distinct_map inj_on_def)
  have edited: "filter (\<lambda>r. row_owner r \<noteq> u_ID u) (map (\<lambda>r. if c_ID r = i then new else r) xs) = filter (\<lambda>r. row_owner r \<noteq> u_ID u) xs"
    if "row_owner new = u_ID u" "\<And>r. r \<in> set xs \<Longrightarrow> c_ID r = i \<Longrightarrow> row_owner r = u_ID u" for new i and xs :: cred_table
    using that by (induction xs) auto
  show ?thesis
  proof (cases call)
    case (AskUpdate name username path)
    let ?new = "\<lambda>old. old\<lparr>c_Name := (case name of None \<Rightarrow> c_Name old | Some n \<Rightarrow> trim_space n),
        c_Username := (case username of None \<Rightarrow> c_Username old | Some n \<Rightarrow> trim_space n), c_UpdatedAt := rq_now rq\<rparr>"
    from assms(1) AskUpdate obtain old where old: "old \<in> set db" "row_owner old = u_ID u"
      and db': "db' = map (\<lambda>r. if c_ID r = c_ID old then ?new old else r) db" by (auto simp: Let_def)
    have "row_owner (?new old) = u_ID u" using old(2) by (auto simp: row_owner_def is_team_row_def split: if_splits)
    then show ?thesis unfolding db' by (rule edited) (rule own [OF old])
  next
    case (AskDelete path)
    with assms(1) obtain old where old: "old \<in> set db" "row_owner old = u_ID u" and db': "db' = filter (\<lambda>r. c_ID r \<noteq> c_ID old) db" by auto
    show ?thesis unfolding db' filter_filter using own [OF old] by (intro filter_cong) auto
  qed (use assms(1) in auto)
qed

text \<open>
  C29 (safety). A request about credentials changes no credential of anybody else, whatever path or
  arguments it carries. A refused request leaves the table and the log as they were, and so does
  reading. A granted one does what was asked, to the one credential of the user that its path names
  or to a new one, and adds exactly one row to the audit log, which names the user, the address,
  the time, what was done, in the words for storing, editing or deleting, and that credential by
  identifier, name, kind, key type and fingerprint.
\<close>

theorem credential_requests_accounted:
  assumes request: "cred_serve lib cfg rq dr sess u call s = (s', r)" and ids: "distinct (map c_ID (site_creds s))"
    and event: "rq_event rq \<noteq> ''''" "rq_event rq \<notin> ev_ID ` set (sv_audit (site_server s))"
  shows "filter (\<lambda>x. row_owner x \<noteq> u_ID u) (site_creds s') = filter (\<lambda>x. row_owner x \<noteq> u_ID u) (site_creds s)
    \<and> (\<exists>es. sv_audit (site_server s') = sv_audit (site_server s) @ es
         \<and> (if is_ok r then done_and_said rq u call (site_creds s) (site_creds s') es else site_creds s' = site_creds s \<and> es = []))"
proof -
  note store = store_accounted [OF event]
  have "accounted rq u call s (cred_serve lib cfg rq dr sess u call s)"
  proof (cases call)
    case AskList
    then show ?thesis by (simp add: handleListCredentials_def accounted_def)
  next
    case (AskOne path)
    then show ?thesis by (auto simp: handleGetCredential_def accounted_def split: sum.split)
  next
    case (AskCreate req)
    then have "stores call" by (simp add: stores_def)
    with AskCreate show ?thesis unfolding AskCreate cred_serve.simps handleCreateCredential_def
      by (intro with_key_accounted) (auto simp: Let_def intro: store refused_accounted split: sum.split)
  next
    case (AskGenerate req)
    then have "stores call" by (simp add: stores_def)
    with AskGenerate show ?thesis unfolding AskGenerate cred_serve.simps handleGenerateKey_def
      by (intro with_key_accounted) (auto simp: Let_def intro: store refused_accounted split: sum.split)
  next
    case (AskImport req)
    then have "stores call" by (simp add: stores_def)
    with AskImport show ?thesis unfolding AskImport cred_serve.simps handleImportKey_def
      by (intro with_key_accounted) (auto intro: store refused_accounted split: sum.split)
  next
    case (AskUpdate name username path)
    then show ?thesis using update_accounted [OF event ids] by simp
  next
    case (AskDelete path)
    then show ?thesis using delete_accounted [OF event] by simp
  qed
  then obtain es where es: "sv_audit (site_server s') = sv_audit (site_server s) @ es"
    "if is_ok r then done_and_said rq u call (site_creds s) (site_creds s') es else site_creds s' = site_creds s \<and> es = []"
    unfolding request accounted_def by auto
  then have "filter (\<lambda>x. row_owner x \<noteq> u_ID u) (site_creds s') = filter (\<lambda>x. row_owner x \<noteq> u_ID u) (site_creds s)"
    using done_to_own [OF _ ids, of rq u call "site_creds s'" es] by (cases "is_ok r") simp_all
  with es show ?thesis by blast
qed

definition sample_row :: cred_row where
  "sample_row = \<lparr>c_ID = ''c1'', c_user_id = Some ''alice'', c_team_id = None, c_Name = ''core'', c_Kind = KindPassword, c_Username = ''root'',
     c_secret_enc = None, c_secret_extra_enc = None, c_PublicKey = '''', c_Fingerprint = '''', c_KeyType = '''', c_server_unlockable = False,
     c_CreatedAt = 0, c_UpdatedAt = 0, c_LastUsedAt = None\<rparr>"

definition sample_site :: site where
  "sample_site = \<lparr>site_server = demo_site, site_creds = [sample_row, sample_row\<lparr>c_ID := ''c2'', c_user_id := Some ''bob''\<rparr>]\<rparr>"

theorem credential_requests_accounted_witness:
  "(case handleDeleteCredential demo_request demo_user ''/api/credentials/c1'' sample_site of
      (s', r) \<Rightarrow> r = Inr CredentialDeleted \<and> map c_ID (site_creds s') = [''c2''] \<and> length (sv_audit (site_server s')) = 1
        \<and> filter (\<lambda>x. row_owner x \<noteq> ''alice'') (site_creds s') = [sample_row\<lparr>c_ID := ''c2'', c_user_id := Some ''bob''\<rparr>])"
proof -
  have user: "u_ID demo_user = ''alice''" by (simp add: demo_user_def new_user_def)
  have ids: "distinct (map c_ID (site_creds sample_site))" by (simp add: sample_site_def sample_row_def)
  have event: "rq_event demo_request \<noteq> ''''" "rq_event demo_request \<notin> ev_ID ` set (sv_audit (site_server sample_site))"
    by (simp_all add: demo_request_def sample_site_def demo_site_def)
  have path: "credentialID ''/api/credentials/c1'' = ''c1''" by code_simp
  obtain s' r where run: "handleDeleteCredential demo_request demo_user ''/api/credentials/c1'' sample_site = (s', r)" by force
  then have "cred_serve undefined undefined demo_request undefined undefined demo_user (AskDelete ''/api/credentials/c1'') sample_site = (s', r)"
    by simp
  note accounted = credential_requests_accounted [OF this ids event]
  from run have ok: "r = Inr CredentialDeleted \<and> site_creds s' = [sample_row\<lparr>c_ID := ''c2'', c_user_id := Some ''bob''\<rparr>]"
    by (auto simp: handleDeleteCredential_def path user cred_Get_def find_cred_def sample_site_def sample_row_def scanCredential_def
        row_owner_def is_team_row_def cred_Delete_def auditCredential_def)
  from accounted obtain es where es: "sv_audit (site_server s') = sv_audit (site_server sample_site) @ es"
    "if is_ok r then done_and_said demo_request demo_user (AskDelete ''/api/credentials/c1'') (site_creds sample_site) (site_creds s') es
      else site_creds s' = site_creds sample_site \<and> es = []" by blast
  from es(2) ok have "done_and_said demo_request demo_user (AskDelete ''/api/credentials/c1'') (site_creds sample_site) (site_creds s') es"
    by (simp del: done_and_said.simps)
  then obtain e where "es = [e]" unfolding done_and_said.simps by blast
  with es(1) have "length (sv_audit (site_server s')) = 1" by (simp add: sample_site_def demo_site_def)
  with ok run show ?thesis by (simp add: sample_row_def row_owner_def is_team_row_def)
qed

end
