(* ===== verification/Teams.thy ===== *)
theory Teams
  imports Session_Forest Sign_In
begin

section \<open>Teams (\<^verbatim>\<open>internal/teams\<close>, \<^verbatim>\<open>internal/api/team_handlers.go\<close>)\<close>

text \<open>
  The tables of teams and memberships beside the tree of shared folders, and the handlers over
  them. A membership makes the team's tree visible; a team takes its folders and connections with it
  when it is deleted, which the schema does by cascading. The tree's own view of both tables is kept
  in step. Snippets and stored credentials of teams, which no operation of the program creates, are
  not part of this model.
\<close>

subsection \<open>The store (\<^verbatim>\<open>teams.go\<close>)\<close>

datatype team_error = TeamNotFound | TeamExists | TeamDatabaseError

record team_row =
  tm_ID :: string
  tm_Name :: string
  tm_Description :: string
  tm_CreatedAt :: int

record member_row =
  mb_team :: string
  mb_user :: string
  mb_role :: string
  mb_wrapped_team_dek_enc :: string
  mb_CreatedAt :: int

record team_db =
  td_teams :: "team_row list"
  td_members :: "member_row list"
  td_tree :: tree_db

record Member =
  mem_UserID :: string
  mem_Email :: string
  mem_Name :: string
  mem_AddedAt :: int

text \<open>The tree knows the same teams and members.\<close>

definition with_members :: "member_row list \<Rightarrow> team_db \<Rightarrow> team_db" where
  "with_members ms db =
     db\<lparr>td_members := ms, td_tree := (td_tree db)\<lparr>members := map (\<lambda>m. (mb_team m, mb_user m)) ms\<rparr>\<rparr>"

text \<open>The identifier is the primary key and the name is unique; either violation reads as a taken name.\<close>

definition team_Create :: "string \<Rightarrow> int \<Rightarrow> string \<Rightarrow> string \<Rightarrow> team_db \<Rightarrow> team_db \<times> (team_error, team_row) result" where
  "team_Create i now name description db =
     (let t = \<lparr>tm_ID = i, tm_Name = name, tm_Description = description, tm_CreatedAt = now\<rparr>
      in if list_ex (\<lambda>x. tm_ID x = i \<or> tm_Name x = name) (td_teams db) then (db, Inl TeamExists)
         else (db\<lparr>td_teams := td_teams db @ [t], td_tree := (td_tree db)\<lparr>teams := i # teams (td_tree db)\<rparr>\<rparr>, Inr t))"

definition team_Get :: "string \<Rightarrow> team_db \<Rightarrow> (team_error, team_row) result" where
  "team_Get i db = (case find (\<lambda>t. tm_ID t = i) (td_teams db) of None \<Rightarrow> Inl TeamNotFound | Some t \<Rightarrow> Inr t)"

text \<open>
  The rows that go with a team: its folders and connections, and whatever lies in the folders that
  go. Connections of others that were filed there move to the top level.
\<close>

definition drop_team_tree :: "string \<Rightarrow> tree_db \<Rightarrow> tree_db" where
  "drop_team_tree t db =
     (let going = cascade (length (folders db)) (folders db)
                    (map f_ID (filter (\<lambda>f. f_IsTeam f \<and> f_OwnerID f = t) (folders db)))
      in db\<lparr>teams := filter (\<lambda>x. x \<noteq> t) (teams db),
            members := filter (\<lambda>(x, _). x \<noteq> t) (members db),
            folders := filter (\<lambda>f. f_ID f \<notin> set going) (folders db),
            sessions := map (\<lambda>s. if FolderID s \<in> set going then s\<lparr>FolderID := ''''\<rparr> else s)
              (filter (\<lambda>s. \<not> (IsTeam s \<and> OwnerID s = t)) (sessions db)),
            folder_credentials := filter (\<lambda>((u, f), c). f \<notin> set going) (folder_credentials db)\<rparr>)"

definition team_Delete :: "string \<Rightarrow> team_db \<Rightarrow> team_db \<times> (team_error, unit) result" where
  "team_Delete i db =
     (if list_ex (\<lambda>t. tm_ID t = i) (td_teams db)
      then (db\<lparr>td_teams := filter (\<lambda>t. tm_ID t \<noteq> i) (td_teams db), td_members := filter (\<lambda>m. mb_team m \<noteq> i) (td_members db),
               td_tree := drop_team_tree i (td_tree db)\<rparr>, Inr ())
      else (db, Inl TeamNotFound))"

definition team_List :: "team_db \<Rightarrow> (team_row \<times> nat) list" where
  "team_List db =
     map (\<lambda>t. (t, length (filter (\<lambda>m. mb_team m = tm_ID t) (td_members db)))) (sort_key tm_Name (td_teams db))"

definition team_ListForUser :: "string \<Rightarrow> team_db \<Rightarrow> team_row list" where
  "team_ListForUser user db =
     sort_key tm_Name (filter (\<lambda>t. list_ex (\<lambda>m. mb_team m = tm_ID t \<and> mb_user m = user) (td_members db)) (td_teams db))"

definition IsMember :: "string \<Rightarrow> string \<Rightarrow> team_db \<Rightarrow> bool" where
  "IsMember user team db = list_ex (\<lambda>m. mb_team m = team \<and> mb_user m = user) (td_members db)"

text \<open>A membership that exists is left alone; otherwise the team and the user must exist.\<close>

definition AddMember :: "int \<Rightarrow> string \<Rightarrow> string \<Rightarrow> team_db \<Rightarrow> team_db \<times> (team_error, unit) result" where
  "AddMember now team user db =
     (if IsMember user team db then (db, Inr ())
      else if \<not> list_ex (\<lambda>t. tm_ID t = team) (td_teams db) \<or> user \<notin> set (users (td_tree db)) then (db, Inl TeamDatabaseError)
      else (with_members (td_members db @ [\<lparr>mb_team = team, mb_user = user, mb_role = ''member'', mb_wrapped_team_dek_enc = '''',
              mb_CreatedAt = now\<rparr>]) db, Inr ()))"

definition RemoveMember :: "string \<Rightarrow> string \<Rightarrow> team_db \<Rightarrow> team_db \<times> (team_error, unit) result" where
  "RemoveMember team user db =
     (if IsMember user team db
      then (with_members (filter (\<lambda>m. \<not> (mb_team m = team \<and> mb_user m = user)) (td_members db)) db, Inr ())
      else (db, Inl TeamNotFound))"

definition ListMembers :: "users_table \<Rightarrow> string \<Rightarrow> team_db \<Rightarrow> Member list" where
  "ListMembers us team db =
     sort_key mem_Email (concat (map (\<lambda>m. map (\<lambda>u. \<lparr>mem_UserID = mb_user m, mem_Email = u_Email u, mem_Name = u_DisplayName u,
          mem_AddedAt = mb_CreatedAt m\<rparr>) (filter (\<lambda>u. u_ID u = mb_user m) us))
       (filter (\<lambda>m. mb_team m = team) (td_members db))))"

text \<open>What \<^verbatim>\<open>users.Store.ResetVault\<close> does to memberships.\<close>

definition forget_memberships :: "string \<Rightarrow> team_db \<Rightarrow> team_db" where
  "forget_memberships user db = with_members (filter (\<lambda>m. mb_user m \<noteq> user) (td_members db)) db"

subsection \<open>What a deletion takes\<close>

definition team_folder_ids :: "string \<Rightarrow> tree_db \<Rightarrow> string set" where
  "team_folder_ids t db = f_ID ` {f \<in> set (folders db). f_IsTeam f \<and> f_OwnerID f = t}"

lemma team_owner:
  assumes "tree_ok db" and "t \<notin> set (users db)"
  shows "f \<in> set (folders db) \<Longrightarrow> f_OwnerID f = t \<Longrightarrow> f_IsTeam f" "s \<in> set (sessions db) \<Longrightarrow> OwnerID s = t \<Longrightarrow> IsTeam s"
  using assms by (auto simp: tree_ok_def forest_ok_def filed_ok_def owner_exists_def split: if_split_asm)

lemma same_folder: "forest_ok db \<Longrightarrow> f \<in> set (folders db) \<Longrightarrow> g \<in> set (folders db) \<Longrightarrow> f_ID f = f_ID g \<Longrightarrow> f = g"
  by (metis find_folder_iff option.inject)

lemma in_team_folder:
  assumes ok: "tree_ok db" and t: "t \<notin> set (users db)" and "folder_of db owner fid"
  shows "fid \<in> team_folder_ids t db \<longleftrightarrow> owner = t"
proof -
  from assms(3) obtain p where p: "p \<in> set (folders db)" "f_ID p = fid" "f_OwnerID p = owner" by (auto simp: folder_of_def)
  have forest: "forest_ok db" using ok by (simp add: tree_ok_def)
  have "q = p" if "q \<in> set (folders db)" "f_ID q = fid" for q
    by (rule same_folder [OF forest that(1) p(1)]) (simp add: that(2) p(2))
  with p(3) have "f_OwnerID q = owner" if "q \<in> set (folders db)" "f_ID q = fid" for q using that by blast
  then show ?thesis using p team_owner(1) [OF ok t p(1)] by (auto simp: team_folder_ids_def)
qed

lemma going_team:
  assumes ok: "tree_ok db" and t: "t \<notin> set (users db)"
  shows "set (cascade n (folders db) (map f_ID (filter (\<lambda>f. f_IsTeam f \<and> f_OwnerID f = t) (folders db)))) = team_folder_ids t db"
proof
  show "set (cascade n (folders db) (map f_ID (filter (\<lambda>f. f_IsTeam f \<and> f_OwnerID f = t) (folders db)))) \<subseteq> team_folder_ids t db"
  proof (rule cascade_within)
    fix f assume f: "f \<in> set (folders db)" "ParentID f \<in> team_folder_ids t db"
    have "'''' \<notin> team_folder_ids t db" using ok by (auto simp: tree_ok_def forest_ok_def team_folder_ids_def)
    with f have "folder_of db (f_OwnerID f) (ParentID f)" using ok by (auto simp: tree_ok_def forest_ok_def)
    with f in_team_folder [OF ok t] have "f_OwnerID f = t" by blast
    with f team_owner(1) [OF ok t] show "f_ID f \<in> team_folder_ids t db" by (auto simp: team_folder_ids_def)
  qed (auto simp: team_folder_ids_def)
next
  have "team_folder_ids t db = set (map f_ID (filter (\<lambda>f. f_IsTeam f \<and> f_OwnerID f = t) (folders db)))"
    by (auto simp: team_folder_ids_def)
  then show "team_folder_ids t db \<subseteq> set (cascade n (folders db) (map f_ID (filter (\<lambda>f. f_IsTeam f \<and> f_OwnerID f = t) (folders db))))"
    using cascade_mono by metis
qed

text \<open>Nothing of anybody else's goes or moves.\<close>

lemma drop_team_tree_eq:
  assumes ok: "tree_ok db" and t: "t \<notin> set (users db)"
  shows "drop_team_tree t db = db\<lparr>teams := filter (\<lambda>x. x \<noteq> t) (teams db), members := filter (\<lambda>(x, _). x \<noteq> t) (members db),
    folders := filter (\<lambda>f. f_OwnerID f \<noteq> t) (folders db), sessions := filter (\<lambda>s. OwnerID s \<noteq> t) (sessions db),
    folder_credentials := filter (\<lambda>((u, f), c). f \<notin> team_folder_ids t db) (folder_credentials db)\<rparr>"
proof -
  have forest: "forest_ok db" using ok by (simp add: tree_ok_def)
  have fs: "filter (\<lambda>f. f_ID f \<notin> team_folder_ids t db) (folders db) = filter (\<lambda>f. f_OwnerID f \<noteq> t) (folders db)"
    using in_team_folder [OF ok t] by (intro filter_cong) (auto simp: folder_of_def)
  have keep: "FolderID s \<notin> team_folder_ids t db" if "s \<in> set (sessions db)" "OwnerID s \<noteq> t" for s
  proof (cases "FolderID s = ''''")
    case True
    with forest show ?thesis by (auto simp: forest_ok_def team_folder_ids_def)
  next
    case False
    with that ok have "folder_of db (OwnerID s) (FolderID s)" by (auto simp: tree_ok_def filed_ok_def)
    with in_team_folder [OF ok t this] that show ?thesis by simp
  qed
  have flt: "filter (\<lambda>s. \<not> (IsTeam s \<and> OwnerID s = t)) (sessions db) = filter (\<lambda>s. OwnerID s \<noteq> t) (sessions db)"
    using team_owner(2) [OF ok t] by (intro filter_cong) auto
  have "map (\<lambda>s. if FolderID s \<in> team_folder_ids t db then s\<lparr>FolderID := ''''\<rparr> else s) (filter (\<lambda>s. OwnerID s \<noteq> t) (sessions db))
      = filter (\<lambda>s. OwnerID s \<noteq> t) (sessions db)"
    using keep by (intro map_idI) auto
  with fs flt show ?thesis by (simp add: drop_team_tree_def going_team [OF ok t] Let_def)
qed

lemma drop_team_tree_ok:
  assumes ok: "tree_ok db" and t: "t \<notin> set (users db)"
  shows "tree_ok (drop_team_tree t db)"
proof -
  let ?db = "drop_team_tree t db"
  note eq = drop_team_tree_eq [OF ok t]
  have keep: "folder_of ?db owner fid" if "folder_of db owner fid" "owner \<noteq> t" for owner fid
    using that by (auto simp: eq folder_of_def)
  have owners: "owner_exists ?db owner b" if "owner_exists db owner b" "owner \<noteq> t" for owner b
    using that by (auto simp: eq owner_exists_def)
  have "acyclic (parents db)" "acyclic (jumps db)" using ok by (auto simp: tree_ok_def forest_ok_def)
  moreover have "parents ?db \<subseteq> parents db" "jumps ?db \<subseteq> jumps db" by (auto simp: eq parents_def jumps_def)
  ultimately have acyc: "acyclic (parents ?db)" "acyclic (jumps ?db)" by (auto intro: acyclic_subset)
  have rows: "set (folders ?db) = {f \<in> set (folders db). f_OwnerID f \<noteq> t}" "set (sessions ?db) = {s \<in> set (sessions db). OwnerID s \<noteq> t}"
    "users ?db = users db" "set (teams ?db) \<subseteq> set (teams db)" "distinct (map f_ID (folders ?db))" "distinct (map ID (sessions ?db))"
    using ok by (auto simp: eq tree_ok_def forest_ok_def filed_ok_def distinct_map_filter)
  have "forest_ok ?db" unfolding forest_ok_def using rows acyc(1) owners keep ok
    by (auto simp: tree_ok_def forest_ok_def)
  moreover have "filed_ok ?db" unfolding filed_ok_def using rows owners keep ok
    by (auto simp: tree_ok_def filed_ok_def)
  ultimately show ?thesis using acyc(2) by (simp add: tree_ok_def)
qed

subsection \<open>The invariant\<close>

definition teams_ok :: "team_db \<Rightarrow> bool" where
  "teams_ok db \<longleftrightarrow> tree_ok (td_tree db) \<and> distinct (map tm_ID (td_teams db)) \<and> distinct (map tm_Name (td_teams db))
     \<and> set (teams (td_tree db)) = tm_ID ` set (td_teams db)
     \<and> members (td_tree db) = map (\<lambda>m. (mb_team m, mb_user m)) (td_members db) \<and> distinct (members (td_tree db))
     \<and> (\<forall>m \<in> set (td_members db). mb_team m \<in> tm_ID ` set (td_teams db) \<and> mb_user m \<in> set (users (td_tree db))
          \<and> mb_role m = ''member'' \<and> mb_wrapped_team_dek_enc m = '''')"

inductive team_step :: "team_db \<Rightarrow> team_db \<Rightarrow> bool" where
  ts_create: "i \<notin> set (users (td_tree db)) \<Longrightarrow> team_step db (fst (team_Create i now name description db))"
| ts_delete: "team_step db (fst (team_Delete i db))"
| ts_add: "team_step db (fst (AddMember now team user db))"
| ts_remove: "team_step db (fst (RemoveMember team user db))"
| ts_vault_reset: "team_step db (forget_memberships user db)"
| ts_user: "u \<notin> set (teams (td_tree db)) \<Longrightarrow> team_step db (db\<lparr>td_tree := (td_tree db)\<lparr>users := u # users (td_tree db)\<rparr>\<rparr>)"
| ts_tree: "tree_step (td_tree db) t \<Longrightarrow> teams t = teams (td_tree db) \<Longrightarrow> members t = members (td_tree db) \<Longrightarrow> users t = users (td_tree db)
     \<Longrightarrow> team_step db (db\<lparr>td_tree := t\<rparr>)"

definition no_teams :: team_db where
  "no_teams = \<lparr>td_teams = [], td_members = [], td_tree = empty_db\<rparr>"

lemma tree_ok_members: "tree_ok (t\<lparr>members := m\<rparr>) \<longleftrightarrow> tree_ok t"
  by (simp add: tree_ok_unfold)

lemma teams_ok_members:
  assumes "teams_ok db" and "distinct (map (\<lambda>m. (mb_team m, mb_user m)) ms)"
    and "\<And>m. m \<in> set ms \<Longrightarrow> mb_team m \<in> tm_ID ` set (td_teams db) \<and> mb_user m \<in> set (users (td_tree db))
          \<and> mb_role m = ''member'' \<and> mb_wrapped_team_dek_enc m = ''''"
  shows "teams_ok (with_members ms db)"
  using assms by (simp add: teams_ok_def with_members_def tree_ok_members)

lemma teams_ok_fewer: "teams_ok db \<Longrightarrow> teams_ok (with_members (filter P (td_members db)) db)"
  by (intro teams_ok_members) (auto simp: teams_ok_def intro: distinct_map_filter)

interpretation teams: invariant_of team_step teams_ok
proof
  fix db db'
  assume "team_step db db'" and ok: "teams_ok db"
  then show "teams_ok db'"
  proof cases
    case (ts_create i now name description)
    have "tree_ok ((td_tree db)\<lparr>teams := i # teams (td_tree db)\<rparr>)"
      using ok ts_create(2) tree.step_inv [OF add_team, of i "td_tree db"] by (simp add: teams_ok_def)
    with ok ts_create show ?thesis
      by (auto simp: teams_ok_def team_Create_def Let_def list_ex_iff)
  next
    case (ts_delete i)
    show ?thesis
    proof (cases "list_ex (\<lambda>t. tm_ID t = i) (td_teams db)")
      case True
      with ok have "i \<in> set (teams (td_tree db))" by (auto simp: teams_ok_def list_ex_iff)
      with ok have i: "i \<notin> set (users (td_tree db))" by (auto simp: teams_ok_def tree_ok_def forest_ok_def)
      have tree: "tree_ok (td_tree db)" using ok by (simp add: teams_ok_def)
      note eq = drop_team_tree_eq [OF tree i]
      from drop_team_tree_ok [OF tree i] True ok ts_delete show ?thesis
        by (auto simp: teams_ok_def team_Delete_def eq filter_map comp_def distinct_map_filter)
    qed (use ok ts_delete in \<open>simp add: team_Delete_def\<close>)
  next
    case (ts_add now team user)
    show ?thesis
    proof (cases "IsMember user team db \<or> \<not> list_ex (\<lambda>t. tm_ID t = team) (td_teams db) \<or> user \<notin> set (users (td_tree db))")
      case False
      then have "db' = with_members (td_members db @ [\<lparr>mb_team = team, mb_user = user, mb_role = ''member'',
          mb_wrapped_team_dek_enc = '''', mb_CreatedAt = now\<rparr>]) db"
        using ts_add by (simp add: AddMember_def)
      moreover have "teams_ok (with_members (td_members db @ [\<lparr>mb_team = team, mb_user = user, mb_role = ''member'',
          mb_wrapped_team_dek_enc = '''', mb_CreatedAt = now\<rparr>]) db)"
        using ok False by (intro teams_ok_members) (auto simp: teams_ok_def IsMember_def list_ex_iff)
      ultimately show ?thesis by simp
    qed (use ok ts_add in \<open>auto simp: AddMember_def\<close>)
  next
    case (ts_remove team user)
    with ok teams_ok_fewer [OF ok] show ?thesis by (simp add: RemoveMember_def)
  next
    case (ts_vault_reset user)
    with teams_ok_fewer [OF ok] show ?thesis by (simp add: forget_memberships_def)
  next
    case (ts_user u)
    have "tree_ok ((td_tree db)\<lparr>users := u # users (td_tree db)\<rparr>)"
      using ok ts_user(2) tree.step_inv [OF add_user, of u "td_tree db"] by (simp add: teams_ok_def)
    with ok ts_user show ?thesis by (auto simp: teams_ok_def)
  next
    case (ts_tree t)
    with ok tree.step_inv [OF ts_tree(2)] show ?thesis by (auto simp: teams_ok_def)
  qed
qed

lemma no_teams_ok: "teams_ok no_teams"
  using empty_db_ok by (simp add: teams_ok_def no_teams_def) (simp add: empty_db_def)

lemma IsMember_members:
  "teams_ok db \<Longrightarrow> IsMember user team db \<longleftrightarrow> (team, user) \<in> set (members (td_tree db))"
  by (auto simp: teams_ok_def IsMember_def list_ex_iff)

text \<open>C27 (safety). The shared tree. Whatever teams, memberships and trees go through, a person's tree
  shows exactly their own folders and connections and those of the teams they are a member of at
  that moment. Taking somebody out of a team takes its whole tree out of their sight and changes
  nobody else's. Deleting a team removes its memberships, folders and connections and not one row
  of anybody else: what others filed stays filed where it was.\<close>

theorem team_tree_visible_to_members:
  assumes run: "team_step\<^sup>*\<^sup>* no_teams db"
  shows "(f \<in> set (Folders (LoadTreeForUser (td_tree db) u)) \<longleftrightarrow>
        f \<in> set (folders (td_tree db)) \<and> (if f_IsTeam f then IsMember u (f_OwnerID f) db else f_OwnerID f = u))
    \<and> (c \<in> set (Sessions (LoadTreeForUser (td_tree db) u)) \<longleftrightarrow>
        c \<in> set (sessions (td_tree db)) \<and> (if IsTeam c then IsMember u (OwnerID c) db else OwnerID c = u))
    \<and> (case RemoveMember t u db of
         (db', Inl e) \<Rightarrow> db' = db \<and> \<not> IsMember u t db
       | (db', Inr _) \<Rightarrow> \<not> IsMember u t db' \<and> (\<forall>v s. (v, s) \<noteq> (u, t) \<longrightarrow> IsMember v s db' = IsMember v s db)
           \<and> folders (td_tree db') = folders (td_tree db) \<and> sessions (td_tree db') = sessions (td_tree db))
    \<and> (case team_Delete t db of
         (db', Inl e) \<Rightarrow> db' = db \<and> t \<notin> tm_ID ` set (td_teams db)
       | (db', Inr _) \<Rightarrow> t \<notin> tm_ID ` set (td_teams db') \<and> (\<forall>v. \<not> IsMember v t db')
           \<and> (\<forall>v s. s \<noteq> t \<longrightarrow> IsMember v s db' = IsMember v s db)
           \<and> folders (td_tree db') = filter (\<lambda>f. f_OwnerID f \<noteq> t) (folders (td_tree db))
           \<and> sessions (td_tree db') = filter (\<lambda>s. OwnerID s \<noteq> t) (sessions (td_tree db)))"
    (is "?folders \<and> ?sessions \<and> ?remove \<and> ?delete")
proof (intro conjI)
  have ok: "teams_ok db" using teams.run_inv [OF run] no_teams_ok by blast
  show ?folders ?sessions using IsMember_members [OF ok] by (auto simp: LoadTreeForUser_def memberClause_def)
  show ?remove by (auto simp: RemoveMember_def IsMember_def with_members_def list_ex_iff)
  show ?delete
  proof (cases "list_ex (\<lambda>x. tm_ID x = t) (td_teams db)")
    case True
    with ok have "t \<notin> set (users (td_tree db))" by (auto simp: teams_ok_def tree_ok_def forest_ok_def list_ex_iff)
    moreover have "tree_ok (td_tree db)" using ok by (simp add: teams_ok_def)
    ultimately show ?thesis using True
      by (auto simp: team_Delete_def drop_team_tree_eq IsMember_def list_ex_iff)
  qed (auto simp: team_Delete_def list_ex_iff)
qed

text \<open>A team with a shared folder, one member and somebody else.\<close>

definition sample_folder :: Folder where
  "sample_folder = \<lparr>f_ID = ''f1'', f_OwnerID = ''net'', f_IsTeam = True, ParentID = '''', f_Name = ''core'', Defaults = no_settings,
     f_SortOrder = 0, f_CreatedAt = 0, f_UpdatedAt = 0\<rparr>"

definition sample_teams :: team_db where
  "sample_teams =
     (let d1 = no_teams\<lparr>td_tree := empty_db\<lparr>users := [''ann'']\<rparr>\<rparr>;
          d2 = fst (team_Create ''net'' 1 ''Network'' '''' d1);
          d3 = fst (AddMember 2 ''net'' ''ann'' d2)
      in d3\<lparr>td_tree := (td_tree d3)\<lparr>folders := [sample_folder]\<rparr>\<rparr>)"

lemma sample_teams_run: "team_step\<^sup>*\<^sup>* no_teams sample_teams"
proof -
  let ?d1 = "no_teams\<lparr>td_tree := empty_db\<lparr>users := [''ann'']\<rparr>\<rparr>"
  let ?d2 = "fst (team_Create ''net'' 1 ''Network'' '''' ?d1)"
  let ?d3 = "fst (AddMember 2 ''net'' ''ann'' ?d2)"
  let ?p = "\<lparr>cf_OwnerID = ''net'', cf_IsTeam = True, cf_ParentID = '''', cf_Name = ''core'', cf_Defaults = no_settings\<rparr>"
  have "team_step no_teams ?d1" using ts_user [of "''ann''" no_teams] by (simp add: no_teams_def empty_db_def)
  moreover have "team_step ?d1 ?d2" by (rule ts_create) (simp add: no_teams_def empty_db_def)
  moreover have "team_step ?d2 ?d3" by (rule ts_add)
  moreover have "trim_space ''core'' = ''core''" by code_simp
  then have "\<exists>f. CreateFolder (td_tree ?d3) ''f1'' 0 ?p = Inr ((td_tree ?d3)\<lparr>folders := [sample_folder]\<rparr>, f)"
    by (simp add: CreateFolder_def check_def insert_folder_def find_folder_def owner_exists_def sample_folder_def no_teams_def
        empty_db_def team_Create_def AddMember_def IsMember_def with_members_def Let_def)
  then have "tree_step (td_tree ?d3) ((td_tree ?d3)\<lparr>folders := [sample_folder]\<rparr>)" by (auto intro: create_folder)
  then have "team_step ?d3 (?d3\<lparr>td_tree := (td_tree ?d3)\<lparr>folders := [sample_folder]\<rparr>\<rparr>)" by (rule ts_tree) simp_all
  ultimately show ?thesis unfolding sample_teams_def Let_def
    by (meson converse_rtranclp_into_rtranclp r_into_rtranclp)
qed

theorem team_tree_visible_to_members_witness:
  "sample_folder \<in> set (Folders (LoadTreeForUser (td_tree sample_teams) ''ann''))
    \<and> sample_folder \<notin> set (Folders (LoadTreeForUser (td_tree sample_teams) ''bob''))
    \<and> folders (td_tree (fst (team_Delete ''net'' sample_teams))) = []"
proof -
  have at: "folders (td_tree sample_teams) = [sample_folder]" "IsMember ''ann'' ''net'' sample_teams" "\<not> IsMember ''bob'' ''net'' sample_teams"
    "is_ok (snd (team_Delete ''net'' sample_teams))" "f_IsTeam sample_folder" "f_OwnerID sample_folder = ''net''"
    by (simp_all add: sample_teams_def no_teams_def empty_db_def team_Create_def AddMember_def IsMember_def with_members_def Let_def
        team_Delete_def sample_folder_def)
  obtain d r where d: "team_Delete ''net'' sample_teams = (d, Inr r)"
    using at(4) by (cases "team_Delete ''net'' sample_teams") (auto simp: is_ok_iff)
  show ?thesis
    using team_tree_visible_to_members [OF sample_teams_run, where f = sample_folder and u = "''ann''" and t = "''net''"]
      team_tree_visible_to_members [OF sample_teams_run, where f = sample_folder and u = "''bob''"] at d
    by simp
qed

subsection \<open>The handlers\<close>

record team_site =
  tst_server :: server
  tst_db :: team_db

datatype team_reply =
    TeamList "(team_row \<times> nat) list"
  | TeamShown team_row
  | MemberList "Member list"
  | TeamDone

type_synonym team_response = "(ErrorCode, team_reply) result"

definition adminGate :: "User \<Rightarrow> ('s \<Rightarrow> 's \<times> (ErrorCode, 'r) result) \<Rightarrow> 's \<Rightarrow> 's \<times> (ErrorCode, 'r) result" where
  "adminGate u k s = (if \<not> u_IsAdmin u then (s, Inl CodeForbidden) else k s)"

definition pathID :: "string \<Rightarrow> string \<Rightarrow> string" where
  "pathID path pre =
     (let i = trim_suffix (trim_prefix path pre) ''/resolved'' in if i = '''' \<or> CHR ''/'' \<in> set i then '''' else i)"

definition auditTeam ::
  "request \<Rightarrow> User \<Rightarrow> string \<Rightarrow> string \<Rightarrow> string \<Rightarrow> string \<Rightarrow> (string \<times> string) list \<Rightarrow> team_site \<Rightarrow> team_site" where
  "auditTeam rq u action severity i label detail s =
     s\<lparr>tst_server := (tst_server s)\<lparr>sv_audit := audit_Record (rq_event rq) (rq_now rq)
        \<lparr>ev_ID = '''', ev_OccurredAt = None, ev_ActorID = u_ID u, ev_ActorEmail = u_Email u, ev_IPAddress = rq_ip rq,
         ev_Action = action, ev_Severity = severity, ev_TargetType = ''team'', ev_TargetID = i, ev_TargetLabel = label,
         ev_Outcome = '''', ev_Detail = detail\<rparr> (sv_audit (tst_server s))\<rparr>\<rparr>"

definition handleListTeams :: "User \<Rightarrow> team_site \<Rightarrow> team_site \<times> team_response" where
  "handleListTeams u s =
     (s, Inr (TeamList (if u_IsAdmin u then team_List (tst_db s) else map (\<lambda>t. (t, 0)) (team_ListForUser (u_ID u) (tst_db s)))))"

definition handleCreateTeam :: "request \<Rightarrow> string \<Rightarrow> string \<Rightarrow> string \<Rightarrow> User \<Rightarrow> team_site \<Rightarrow> team_site \<times> team_response" where
  "handleCreateTeam rq i name description u s =
     (if trim_space name = '''' then (s, Inl CodeBadRequest)
      else case team_Create i (rq_now rq) (trim_space name) (trim_space description) (tst_db s) of
             (db, Inl e) \<Rightarrow> (s\<lparr>tst_db := db\<rparr>, Inl (if e = TeamExists then CodeConflict else CodeInternal))
           | (db, Inr t) \<Rightarrow>
               (auditTeam rq u ''team.created'' '''' (tm_ID t) (tm_Name t) [] (s\<lparr>tst_db := db\<rparr>), Inr (TeamShown t)))"

definition handleDeleteTeam :: "request \<Rightarrow> string \<Rightarrow> bool \<Rightarrow> User \<Rightarrow> team_site \<Rightarrow> team_site \<times> team_response" where
  "handleDeleteTeam rq path confirm u s =
     (let i = pathID path ''/api/teams/'' in
      if i = '''' then (s, Inl CodeBadRequest)
      else case team_Get i (tst_db s) of
             Inl _ \<Rightarrow> (s, Inl CodeNotFound)
           | Inr team \<Rightarrow>
               let tree = LoadTree (td_tree (tst_db s)) i True in
               if \<not> confirm \<and> (Folders tree \<noteq> [] \<or> Sessions tree \<noteq> []) then (s, Inl CodeConflict)
               else (case team_Delete i (tst_db s) of
                       (db, Inl _) \<Rightarrow> (s\<lparr>tst_db := db\<rparr>, Inl CodeInternal)
                     | (db, Inr _) \<Rightarrow>
                         (auditTeam rq u ''team.deleted'' SeverityNotice i (tm_Name team)
                            [(''shared_folders'', decimal_of (length (Folders tree))),
                             (''shared_connections'', decimal_of (length (Sessions tree)))] (s\<lparr>tst_db := db\<rparr>), Inr TeamDone)))"

definition handleListTeamMembers :: "string \<Rightarrow> User \<Rightarrow> team_site \<Rightarrow> team_site \<times> team_response" where
  "handleListTeamMembers path u s =
     (let i = trim_suffix (pathID (trim_suffix path ''/members'') ''/api/teams/'') ''/members'' in
      if i = '''' then (s, Inl CodeBadRequest)
      else (s, Inr (MemberList (ListMembers (sv_users (tst_server s)) i (tst_db s)))))"

definition handleAddTeamMember :: "request \<Rightarrow> string \<Rightarrow> string \<Rightarrow> User \<Rightarrow> team_site \<Rightarrow> team_site \<times> team_response" where
  "handleAddTeamMember rq path email u s =
     (let i = pathID (trim_suffix path ''/members'') ''/api/teams/'' in
      if i = '''' then (s, Inl CodeBadRequest)
      else case ByEmail (trim_space email) (sv_users (tst_server s)) of
             Inl _ \<Rightarrow> (s, Inl CodeNotFound)
           | Inr m \<Rightarrow>
               (case team_Get i (tst_db s) of
                  Inl _ \<Rightarrow> (s, Inl CodeNotFound)
                | Inr _ \<Rightarrow>
                    (case AddMember (rq_now rq) i (u_ID m) (tst_db s) of
                       (db, Inl _) \<Rightarrow> (s\<lparr>tst_db := db\<rparr>, Inl CodeInternal)
                     | (db, Inr _) \<Rightarrow>
                         (auditTeam rq u ''team.member.added'' '''' i '''' [(''member'', u_Email m)] (s\<lparr>tst_db := db\<rparr>), Inr TeamDone))))"

definition handleRemoveTeamMember :: "request \<Rightarrow> string \<Rightarrow> User \<Rightarrow> team_site \<Rightarrow> team_site \<times> team_response" where
  "handleRemoveTeamMember rq path u s =
     (case split_on CHR ''/'' (trim_prefix path ''/api/teams/'') of
        [team, middle, member] \<Rightarrow>
          if middle \<noteq> ''members'' \<or> team = '''' \<or> member = '''' then (s, Inl CodeBadRequest)
          else (case RemoveMember team member (tst_db s) of
                  (db, Inl e) \<Rightarrow> (s\<lparr>tst_db := db\<rparr>, Inl (if e = TeamNotFound then CodeNotFound else CodeInternal))
                | (db, Inr _) \<Rightarrow>
                    (auditTeam rq u ''team.member.removed'' '''' team '''' [(''member_id'', member)] (s\<lparr>tst_db := db\<rparr>), Inr TeamDone))
      | _ \<Rightarrow> (s, Inl CodeBadRequest))"

text \<open>The part of \<^verbatim>\<open>routeAuthenticated\<close> that concerns teams: all but the listing are an administrator's.\<close>

datatype team_call =
    ListTeams
  | CreateTeam string string string
  | DeleteTeam string bool
  | ListTeamMembers string
  | AddTeamMember string string
  | RemoveTeamMember string

fun team_route :: "request \<Rightarrow> team_call \<Rightarrow> User \<Rightarrow> team_site \<Rightarrow> team_site \<times> team_response" where
  "team_route rq ListTeams u = handleListTeams u"
| "team_route rq (CreateTeam i name description) u = adminGate u (handleCreateTeam rq i name description u)"
| "team_route rq (DeleteTeam path confirm) u = adminGate u (handleDeleteTeam rq path confirm u)"
| "team_route rq (ListTeamMembers path) u = adminGate u (handleListTeamMembers path u)"
| "team_route rq (AddTeamMember path email) u = adminGate u (handleAddTeamMember rq path email u)"
| "team_route rq (RemoveTeamMember path) u = adminGate u (handleRemoveTeamMember rq path u)"

text \<open>Somebody who is no administrator changes nothing and learns only their own teams.\<close>

lemma team_route_members_only:
  assumes "\<not> u_IsAdmin u"
  shows "team_route rq call u s = (s, Inl CodeForbidden)
    \<or> team_route rq call u s = (s, Inr (TeamList (map (\<lambda>t. (t, 0)) (team_ListForUser (u_ID u) (tst_db s)))))"
  using assms by (cases call) (auto simp: adminGate_def handleListTeams_def)

text \<open>A shared tree that still holds something is only deleted on confirmation.\<close>

lemma unconfirmed_delete_keeps_tree:
  assumes "\<not> confirm" and "Folders (LoadTree (td_tree (tst_db s)) (pathID path ''/api/teams/'') True) \<noteq> []"
  shows "fst (handleDeleteTeam rq path confirm u s) = s"
  using assms by (auto simp: handleDeleteTeam_def Let_def split: sum.split)

end
