(* ===== verification/Go_Text.thy ===== *)
theory Go_Text
  imports Go_Time
begin

section \<open>Numbers and base64, as the Go library reads and writes them\<close>

text \<open>
  Shared by the configuration, the stored password hashes and the sign-in state cookie:
  \<^verbatim>\<open>strconv.Atoi\<close>, \<^verbatim>\<open>strings.Cut\<close>, and the raw standard and raw URL encodings of \<^verbatim>\<open>encoding/base64\<close>.
  Decoding skips line ends and ignores the unused low bits of a last, partial group, as the library's
  decoder does outside its strict mode.
\<close>

subsection \<open>Numbers\<close>

definition is_digit :: "char \<Rightarrow> bool" where
  "is_digit c = (let n = of_char c :: nat in 48 \<le> n \<and> n \<le> 57)"

definition digits_value :: "string \<Rightarrow> int" where
  "digits_value s = foldl (\<lambda>v c. 10 * v + (int (of_char c) - 48)) 0 s"

text \<open>\<^verbatim>\<open>strconv.Atoi\<close>: an optional sign, decimal digits, a value of 64 bits.\<close>

definition Atoi :: "string \<Rightarrow> int option" where
  "Atoi s =
     (let (neg, ds) = (case s of CHR ''-'' # ds \<Rightarrow> (True, ds) | CHR ''+'' # ds \<Rightarrow> (False, ds) | _ \<Rightarrow> (False, s));
          v = (if neg then - digits_value ds else digits_value ds)
      in if ds = [] \<or> \<not> list_all is_digit ds \<or> v < - (2 ^ 63) \<or> v > 2 ^ 63 - 1 then None else Some v)"

text \<open>\<^verbatim>\<open>strings.Cut\<close> at the first occurrence of a character.\<close>

definition Cut :: "char \<Rightarrow> string \<Rightarrow> (string \<times> string) option" where
  "Cut c s = (case dropWhile (\<lambda>d. d \<noteq> c) s of [] \<Rightarrow> None | _ # after \<Rightarrow> Some (takeWhile (\<lambda>d. d \<noteq> c) s, after))"

lemma is_digit_iff: "is_digit c \<longleftrightarrow> of_char c \<in> {48..57::nat}"
  by (simp add: is_digit_def Let_def)

lemma digits_value_snoc: "digits_value (s @ [c]) = 10 * digits_value s + (int (of_char c) - 48)"
  by (simp add: digits_value_def)

lemma decimal_digits: "list_all is_digit (decimal_of n)"
proof (induction n rule: decimal_of.induct)
  case (1 n)
  have "is_digit (char_of (48 + n mod 10 :: nat))" by (simp add: is_digit_iff)
  with 1 show ?case by (subst decimal_of.simps) simp
qed

lemma decimal_value: "digits_value (decimal_of n) = int n"
proof (induction n rule: decimal_of.induct)
  case (1 n)
  have "int (of_char (char_of (48 + n mod 10 :: nat) :: char)) = 48 + int (n mod 10)" by simp
  moreover have "digits_value (if n < 10 then '''' else decimal_of (n div 10)) = int (n div 10)"
    using 1 by (auto simp: digits_value_def)
  moreover have "10 * int (n div 10) + int (n mod 10) = int n" by presburger
  ultimately show ?case by (subst decimal_of.simps) (simp add: digits_value_snoc)
qed

lemma decimal_nonempty: "decimal_of n \<noteq> []"
  by (subst decimal_of.simps) simp

lemma digits_not_sign: "list_all is_digit s \<Longrightarrow> s = c # s' \<Longrightarrow> c \<noteq> CHR ''-'' \<and> c \<noteq> CHR ''+''"
  by (auto simp: is_digit_iff)

lemma Atoi_digits:
  assumes "list_all is_digit s" "s \<noteq> []" "digits_value s \<le> 2 ^ 63 - 1" "0 \<le> digits_value s"
  shows "Atoi s = Some (digits_value s)"
proof -
  obtain c s' where s: "s = c # s'" using assms(2) by (cases s) auto
  then have "c \<noteq> CHR ''-''" "c \<noteq> CHR ''+''" using digits_not_sign assms(1) by blast+
  then have "(case s of CHR ''-'' # ds \<Rightarrow> (True, ds) | CHR ''+'' # ds \<Rightarrow> (False, ds) | _ \<Rightarrow> (False, s)) = (False, s)"
    unfolding s by (cases c) (auto split: bool.splits)
  with assms show ?thesis by (simp add: Atoi_def)
qed

lemma Atoi_decimal: "int n \<le> 2 ^ 63 - 1 \<Longrightarrow> Atoi (decimal_of n) = Some (int n)"
  using Atoi_digits [OF decimal_digits decimal_nonempty, of n] by (simp add: decimal_value)

lemma digits_not_space: "is_digit c \<Longrightarrow> \<not> is_space c"
  by (simp add: is_digit_def is_space_def Let_def)

lemma trim_digits:
  assumes "list_all is_digit s"
  shows "trim_space s = s"
proof -
  have "dropWhile is_space t = t" if "list_all is_digit t" for t
    using that digits_not_space by (cases t) auto
  moreover have "list_all is_digit (rev s)" using assms by (simp add: list_all_iff)
  ultimately show ?thesis using assms by (simp add: trim_space_def)
qed

lemma Cut_digits:
  assumes "list_all is_digit s"
  shows "Cut (CHR ''-'') (s @ CHR ''-'' # t) = Some (s, t)"
proof -
  have "\<forall>d \<in> set s. d \<noteq> CHR ''-''" using assms by (auto simp: list_all_iff is_digit_iff)
  then show ?thesis by (simp add: Cut_def)
qed

lemma split_on_sep:
  assumes "d \<notin> set w"
  shows "split_on d (w @ d # s) = w # split_on d s"
  using assms by (induction w) auto

lemma split_on_word: "d \<notin> set w \<Longrightarrow> split_on d w = [w]"
  by (induction w) auto

subsection \<open>Base64\<close>

datatype alphabet = StdAlphabet | URLAlphabet

fun alphabet_chars :: "alphabet \<Rightarrow> string" where
  "alphabet_chars StdAlphabet = ''ABCDEFGHIJKLMNOPQRSTUVWXYZabcdefghijklmnopqrstuvwxyz0123456789+/''"
| "alphabet_chars URLAlphabet = ''ABCDEFGHIJKLMNOPQRSTUVWXYZabcdefghijklmnopqrstuvwxyz0123456789-_''"

definition char_of_six :: "alphabet \<Rightarrow> nat \<Rightarrow> char" where
  "char_of_six al n = alphabet_chars al ! n"

definition six_of_char :: "alphabet \<Rightarrow> char \<Rightarrow> nat option" where
  "six_of_char al c = map_of (zip (alphabet_chars al) [0..<64]) c"

fun encode_sixes :: "nat list \<Rightarrow> nat list" where
  "encode_sixes [] = []"
| "encode_sixes [a] = [a div 4, a mod 4 * 16]"
| "encode_sixes [a, b] = [a div 4, a mod 4 * 16 + b div 16, b mod 16 * 4]"
| "encode_sixes (a # b # c # rest) =
     [a div 4, a mod 4 * 16 + b div 16, b mod 16 * 4 + c div 64, c mod 64] @ encode_sixes rest"

fun decode_sixes :: "nat list \<Rightarrow> nat list option" where
  "decode_sixes [] = Some []"
| "decode_sixes [w] = None"
| "decode_sixes [w, x] = Some [w * 4 + x div 16]"
| "decode_sixes [w, x, y] = Some [w * 4 + x div 16, x mod 16 * 16 + y div 4]"
| "decode_sixes (w # x # y # z # rest) =
     map_option (\<lambda>bs. [w * 4 + x div 16, x mod 16 * 16 + y div 4, y mod 4 * 64 + z] @ bs) (decode_sixes rest)"

definition EncodeToString :: "alphabet \<Rightarrow> byte list \<Rightarrow> string" where
  "EncodeToString al bs = map (char_of_six al) (encode_sixes (map unat bs))"

definition DecodeString :: "alphabet \<Rightarrow> string \<Rightarrow> byte list option" where
  "DecodeString al s =
     (let cs = filter (\<lambda>c. c \<noteq> CHR 0x0A \<and> c \<noteq> CHR 0x0D) s
      in if list_ex (\<lambda>c. six_of_char al c = None) cs then None
         else map_option (map word_of_nat) (decode_sixes (map (\<lambda>c. the (six_of_char al c)) cs)))"

lemma alphabet_chars_facts: "length (alphabet_chars al) = 64" "distinct (alphabet_chars al)"
  by (cases al; simp)+

lemma six_of_char_of_six [simp]: "n < 64 \<Longrightarrow> six_of_char al (char_of_six al n) = Some n"
  using map_of_zip_nth [of "alphabet_chars al" "[0..<64]" n] by (simp add: six_of_char_def char_of_six_def alphabet_chars_facts)

lemma char_of_six_in: "n < 64 \<Longrightarrow> char_of_six al n \<in> set (alphabet_chars al)"
  by (simp add: char_of_six_def alphabet_chars_facts)

lemma bytes_below: "\<forall>b \<in> set (map unat (bs :: byte list)). b < 256"
proof -
  have "unat b < 256" for b :: byte using unsigned_less [of b] by simp
  then show ?thesis by simp
qed

lemma encode_sixes_bound: "\<forall>b \<in> set bs. b < 256 \<Longrightarrow> \<forall>n \<in> set (encode_sixes bs). n < 64"
  by (induction bs rule: encode_sixes.induct) auto

lemma decode_encode_sixes: "\<forall>b \<in> set bs. b < 256 \<Longrightarrow> decode_sixes (encode_sixes bs) = Some bs"
proof (induction bs rule: encode_sixes.induct)
  case (2 a)
  then show ?case by simp
next
  case (3 a b)
  then have "b div 16 < 16" by (simp add: less_mult_imp_div_less)
  then show ?case by simp
next
  case (4 a b c rest)
  then have "b div 16 < 16" "c div 64 < 4" by (simp_all add: less_mult_imp_div_less)
  with 4 show ?case by simp
qed simp

text \<open>The characters an encoding consists of.\<close>

lemma EncodeToString_chars: "set (EncodeToString al bs) \<subseteq> set (alphabet_chars al)"
proof -
  have "\<forall>b \<in> set (map unat bs). b < 256" by (rule bytes_below)
  from encode_sixes_bound [OF this] show ?thesis by (auto simp: EncodeToString_def intro: char_of_six_in)
qed

lemma DecodeString_EncodeToString [simp]: "DecodeString al (EncodeToString al bs) = Some bs"
proof -
  have bytes: "\<forall>b \<in> set (map unat bs). b < 256" by (rule bytes_below)
  let ?ns = "encode_sixes (map unat bs)"
  have small: "\<forall>n \<in> set ?ns. n < 64" by (rule encode_sixes_bound [OF bytes])
  have "CHR 0x0A \<notin> set (alphabet_chars al)" "CHR 0x0D \<notin> set (alphabet_chars al)" by (cases al; simp)+
  then have "filter (\<lambda>c. c \<noteq> CHR 0x0A \<and> c \<noteq> CHR 0x0D) (EncodeToString al bs) = EncodeToString al bs"
    using EncodeToString_chars [of al bs] by (auto simp: filter_id_conv)
  moreover have "map (\<lambda>c. the (six_of_char al c)) (EncodeToString al bs) = ?ns"
    using small by (simp add: EncodeToString_def map_idI)
  moreover have "\<not> list_ex (\<lambda>c. six_of_char al c = None) (EncodeToString al bs)"
    using small by (auto simp: EncodeToString_def list_ex_iff)
  moreover have "map word_of_nat (map unat bs) = bs" by (simp add: map_idI)
  ultimately show ?thesis by (simp add: DecodeString_def decode_encode_sixes [OF bytes])
qed

lemma EncodeToString_inj: "EncodeToString al xs = EncodeToString al ys \<longleftrightarrow> xs = ys"
  by (metis DecodeString_EncodeToString option.inject)

end
