(* ===== verification/Passwords.thy ===== *)
theory Passwords
  imports Go_Text Vault
begin

section \<open>Login passwords (\<^verbatim>\<open>internal/auth/password.go\<close>)\<close>

text \<open>
  The stored form of a login password, its strict parser and the check of a password against it.
  \<^verbatim>\<open>argon2.IDKey\<close> is the parameter \<open>argon\<close> and the random salt an optional draw; a password is its
  bytes. \<^verbatim>\<open>fmt.Sscanf\<close> is written out for the two formats the parser uses: a literal, then a decimal
  number, and what follows the last number of a field is not looked at.
\<close>

subsection \<open>Costs and errors\<close>

definition passwordSaltLen :: nat where "passwordSaltLen = 16"
definition passwordKeyLen :: nat where "passwordKeyLen = 32"
definition passwordMaxLength :: nat where "passwordMaxLength = 1024"
definition argon2_Version :: int where "argon2_Version = 19"

record PasswordParams =
  pp_Time :: "32 word"
  pp_MemoryKB :: "32 word"
  pp_Threads :: byte

definition DefaultPasswordParams :: PasswordParams where
  "DefaultPasswordParams = \<lparr>pp_Time = 3, pp_MemoryKB = 19 * 1024, pp_Threads = 4\<rparr>"

datatype password_error = PasswordEmpty | ErrPasswordTooLong | SaltUnavailable | ErrPasswordMismatch | ErrMalformedHash

subsection \<open>Writing\<close>

definition phc_text :: "PasswordParams \<Rightarrow> byte list \<Rightarrow> byte list \<Rightarrow> string" where
  "phc_text p salt h =
     ''$argon2id$v='' @ decimal_of (nat argon2_Version)
     @ ''$m='' @ decimal_of (unat (pp_MemoryKB p)) @ '',t='' @ decimal_of (unat (pp_Time p)) @ '',p='' @ decimal_of (unat (pp_Threads p))
     @ ''$'' @ EncodeToString StdAlphabet salt @ ''$'' @ EncodeToString StdAlphabet h"

definition HashPassword ::
  "argon2id \<Rightarrow> byte list option \<Rightarrow> byte list \<Rightarrow> PasswordParams \<Rightarrow> (password_error, string) result" where
  "HashPassword argon draw password p =
     (if password = [] then Inl PasswordEmpty
      else if length password > passwordMaxLength then Inl ErrPasswordTooLong
      else case draw of
             None \<Rightarrow> Inl SaltUnavailable
           | Some salt \<Rightarrow> Inr (phc_text p salt (argon password salt (pp_Time p) (pp_MemoryKB p) (pp_Threads p) passwordKeyLen)))"

subsection \<open>Reading\<close>

definition newline :: char where "newline = CHR 0x0A"

definition skip_space :: "string \<Rightarrow> string option" where
  "skip_space s =
     (let t = dropWhile (\<lambda>c. is_space c \<and> c \<noteq> newline) s
      in if t \<noteq> [] \<and> hd t = newline then None else Some t)"

definition scan_digits :: "string \<Rightarrow> (int \<times> string) option" where
  "scan_digits s =
     (let ds = takeWhile is_digit s in if ds = [] then None else Some (digits_value ds, dropWhile is_digit s))"

definition scan_uint :: "nat \<Rightarrow> string \<Rightarrow> (int \<times> string) option" where
  "scan_uint bits s =
     Option.bind (skip_space s) (\<lambda>s. Option.bind (scan_digits s) (\<lambda>(v, s). if v < 2 ^ bits then Some (v, s) else None))"

definition scan_int :: "string \<Rightarrow> (int \<times> string) option" where
  "scan_int s =
     Option.bind (skip_space s) (\<lambda>s.
     let (neg, s) = (if s \<noteq> [] \<and> hd s = CHR ''-'' then (True, tl s) else if s \<noteq> [] \<and> hd s = CHR ''+'' then (False, tl s) else (False, s))
     in Option.bind (scan_digits s) (\<lambda>(v, s).
        let v = (if neg then - v else v)
        in if - (2 ^ 63) \<le> v \<and> v < 2 ^ 63 then Some (v, s) else None))"

definition scan_literal :: "string \<Rightarrow> string \<Rightarrow> string option" where
  "scan_literal lit s = (if has_prefix s lit then Some (drop (length lit) s) else None)"

definition scan_version :: "string \<Rightarrow> int option" where
  "scan_version s = Option.bind (scan_literal ''v='' s) (\<lambda>s. map_option fst (scan_int s))"

definition scan_params :: "string \<Rightarrow> PasswordParams option" where
  "scan_params s =
     Option.bind (scan_literal ''m='' s) (\<lambda>s. Option.bind (scan_uint 32 s) (\<lambda>(m, s).
     Option.bind (scan_literal '',t='' s) (\<lambda>s. Option.bind (scan_uint 32 s) (\<lambda>(t, s).
     Option.bind (scan_literal '',p='' s) (\<lambda>s. Option.bind (scan_uint 8 s) (\<lambda>(p, s).
     Some \<lparr>pp_Time = word_of_int t, pp_MemoryKB = word_of_int m, pp_Threads = word_of_int p\<rparr>))))))"

record parsedPHC =
  ph_params :: PasswordParams
  ph_salt :: "byte list"
  ph_hash :: "byte list"

definition parsePHC :: "string \<Rightarrow> parsedPHC option" where
  "parsePHC encoded =
     (case split_on (CHR ''$'') encoded of
        [lead, algorithm, v, costs, salt, h] \<Rightarrow>
          if lead \<noteq> '''' then None
          else if algorithm \<noteq> ''argon2id'' then None
          else if scan_version v \<noteq> Some argon2_Version then None
          else Option.bind (scan_params costs) (\<lambda>p.
               if pp_Time p = 0 \<or> pp_MemoryKB p = 0 \<or> pp_Threads p = 0 then None
               else Option.bind (DecodeString StdAlphabet salt) (\<lambda>salt.
               if salt = [] then None
               else Option.bind (DecodeString StdAlphabet h) (\<lambda>h.
               if length h < 16 then None
               else Some \<lparr>ph_params = p, ph_salt = salt, ph_hash = h\<rparr>)))
      | _ \<Rightarrow> None)"

definition VerifyPassword :: "argon2id \<Rightarrow> byte list \<Rightarrow> string \<Rightarrow> (password_error, unit) result" where
  "VerifyPassword argon password encoded =
     (if length password > passwordMaxLength then Inl ErrPasswordTooLong
      else case parsePHC encoded of
             None \<Rightarrow> Inl ErrMalformedHash
           | Some q \<Rightarrow>
               if argon password (ph_salt q) (pp_Time (ph_params q)) (pp_MemoryKB (ph_params q)) (pp_Threads (ph_params q))
                    (length (ph_hash q)) \<noteq> ph_hash q
               then Inl ErrPasswordMismatch else Inr ())"

definition NeedsRehash :: "string \<Rightarrow> PasswordParams \<Rightarrow> (password_error, bool) result" where
  "NeedsRehash encoded want =
     (case parsePHC encoded of
        None \<Rightarrow> Inl ErrMalformedHash
      | Some q \<Rightarrow> Inr (pp_Time (ph_params q) < pp_Time want \<or> pp_MemoryKB (ph_params q) < pp_MemoryKB want
                      \<or> pp_Threads (ph_params q) < pp_Threads want))"

definition dummy_hash :: string where
  "dummy_hash = ''$argon2id$v=19$m=19456,t=3,p=4$YWFhYWFhYWFhYWFhYWFhYQ$Y2NjY2NjY2NjY2NjY2NjY2NjY2NjY2NjY2NjY2NjY2M''"

definition burnPasswordTime :: "argon2id \<Rightarrow> string \<Rightarrow> (password_error, unit) result" where
  "burnPasswordTime argon password = VerifyPassword argon (bytes_of password) dummy_hash"

subsection \<open>What is written is what is read\<close>

lemma takeWhile_digits: "list_all is_digit ds \<Longrightarrow> s = [] \<or> \<not> is_digit (hd s) \<Longrightarrow> takeWhile is_digit (ds @ s) = ds"
  by (induction ds) (cases s; auto)+

lemma dropWhile_digits: "list_all is_digit ds \<Longrightarrow> s = [] \<or> \<not> is_digit (hd s) \<Longrightarrow> dropWhile is_digit (ds @ s) = s"
  by (induction ds) (cases s; auto)+

lemma scan_digits_decimal:
  "s = [] \<or> \<not> is_digit (hd s) \<Longrightarrow> scan_digits (decimal_of n @ s) = Some (int n, s)"
  by (simp add: scan_digits_def takeWhile_digits dropWhile_digits decimal_digits decimal_nonempty decimal_value)

lemma skip_space_decimal: "skip_space (decimal_of n @ s) = Some (decimal_of n @ s)"
proof -
  obtain c ds where n: "decimal_of n = c # ds" using decimal_nonempty [of n] by (cases "decimal_of n") auto
  then have "is_digit c" using decimal_digits [of n] by simp
  then have "\<not> is_space c" "c \<noteq> newline" using digits_not_space by (auto simp: is_digit_iff newline_def)
  then show ?thesis by (simp add: skip_space_def n)
qed

lemma scan_uint_decimal:
  "n < 2 ^ bits \<Longrightarrow> s = [] \<or> \<not> is_digit (hd s) \<Longrightarrow> scan_uint bits (decimal_of n @ s) = Some (int n, s)"
  by (simp add: scan_uint_def skip_space_decimal scan_digits_decimal)

lemma scan_params_printed:
  "scan_params (''m='' @ decimal_of (unat (pp_MemoryKB p)) @ '',t='' @ decimal_of (unat (pp_Time p)) @ '',p='' @ decimal_of (unat (pp_Threads p))) = Some p"
proof -
  have bounds: "unat (pp_MemoryKB p) < 2 ^ 32" "unat (pp_Time p) < 2 ^ 32" "unat (pp_Threads p) < 2 ^ 8"
    using unsigned_less [of "pp_MemoryKB p"] unsigned_less [of "pp_Time p"] unsigned_less [of "pp_Threads p"] by simp_all
  have comma: "\<not> is_digit (CHR '','')" by (simp add: is_digit_iff)
  have end8: "scan_uint 8 (decimal_of (unat (pp_Threads p))) = Some (int (unat (pp_Threads p)), [])"
    using scan_uint_decimal [of "unat (pp_Threads p)" 8 "[]"] bounds by simp
  show ?thesis
    using bounds comma by (simp add: scan_params_def scan_literal_def scan_uint_decimal end8)
qed

lemma base64_has_no_dollar: "CHR ''$'' \<notin> set (EncodeToString StdAlphabet bs)"
  using EncodeToString_chars [of StdAlphabet bs] by auto

lemma decimal_has_no_dollar: "CHR ''$'' \<notin> set (decimal_of n)"
  using decimal_digits [of n] by (auto simp: list_all_iff is_digit_iff)

lemma split_phc_text:
  "split_on (CHR ''$'') (phc_text p salt h) =
     ['''', ''argon2id'', ''v='' @ decimal_of (nat argon2_Version),
      ''m='' @ decimal_of (unat (pp_MemoryKB p)) @ '',t='' @ decimal_of (unat (pp_Time p)) @ '',p='' @ decimal_of (unat (pp_Threads p)),
      EncodeToString StdAlphabet salt, EncodeToString StdAlphabet h]"
proof -
  let ?v = "''v='' @ decimal_of (nat argon2_Version)"
  let ?m = "''m='' @ decimal_of (unat (pp_MemoryKB p)) @ '',t='' @ decimal_of (unat (pp_Time p)) @ '',p='' @ decimal_of (unat (pp_Threads p))"
  let ?d = "CHR ''$''"
  have laid: "phc_text p salt h = [] @ ?d # ''argon2id'' @ ?d # ?v @ ?d # ?m @ ?d # EncodeToString StdAlphabet salt @ ?d # EncodeToString StdAlphabet h"
    by (simp add: phc_text_def)
  have "?d \<notin> set ''argon2id''" "?d \<notin> set ?v" "?d \<notin> set ?m" by (simp_all add: decimal_has_no_dollar)
  then show ?thesis
    unfolding laid
    by (simp only: split_on_sep split_on_word base64_has_no_dollar empty_iff list.set not_False_eq_True simp_thms)
qed

lemma scan_version_printed: "scan_version (''v='' @ decimal_of (nat argon2_Version)) = Some argon2_Version"
  by (simp add: scan_version_def argon2_Version_def) code_simp

lemma parsePHC_phc_text:
  assumes "pp_Time p \<noteq> 0" "pp_MemoryKB p \<noteq> 0" "pp_Threads p \<noteq> 0" "salt \<noteq> []" "16 \<le> length h"
  shows "parsePHC (phc_text p salt h) = Some \<lparr>ph_params = p, ph_salt = salt, ph_hash = h\<rparr>"
  unfolding parsePHC_def split_phc_text list.case scan_version_printed scan_params_printed
  using assms by simp

text \<open>C7 (roundtrip). A stored password hash reads back as exactly the costs, the salt and the Argon2id
  output it was written with; the password it was made from verifies against it, and another password
  does only if Argon2id gives the same output for it; and it needs no rehash under the costs it was
  made with.\<close>

theorem password_hash_roundtrip:
  assumes made: "HashPassword argon (Some salt) password p = Inr encoded"
    and salt: "length salt = passwordSaltLen"
    and costs: "pp_Time p \<noteq> 0" "pp_MemoryKB p \<noteq> 0" "pp_Threads p \<noteq> 0"
    and argon: "\<And>pw s t m th n. length (argon pw s t m th n) = n"
  shows "parsePHC encoded = Some \<lparr>ph_params = p, ph_salt = salt,
           ph_hash = argon password salt (pp_Time p) (pp_MemoryKB p) (pp_Threads p) passwordKeyLen\<rparr>
    \<and> VerifyPassword argon password encoded = Inr ()
    \<and> (VerifyPassword argon other encoded = Inr ()
           \<longleftrightarrow> length other \<le> passwordMaxLength
             \<and> argon other salt (pp_Time p) (pp_MemoryKB p) (pp_Threads p) passwordKeyLen
               = argon password salt (pp_Time p) (pp_MemoryKB p) (pp_Threads p) passwordKeyLen)
    \<and> NeedsRehash encoded p = Inr False"
proof (intro conjI)
  let ?h = "argon password salt (pp_Time p) (pp_MemoryKB p) (pp_Threads p) passwordKeyLen"
  have short: "length password \<le> passwordMaxLength" and enc: "encoded = phc_text p salt ?h"
    using made by (simp_all add: HashPassword_def split: if_split_asm)
  have "salt \<noteq> []" using salt by (auto simp: passwordSaltLen_def)
  then show read: "parsePHC encoded = Some \<lparr>ph_params = p, ph_salt = salt, ph_hash = ?h\<rparr>"
    unfolding enc using costs by (intro parsePHC_phc_text) (simp_all add: argon passwordKeyLen_def)
  show "VerifyPassword argon password encoded = Inr ()"
    using short by (simp add: VerifyPassword_def read argon)
  show "VerifyPassword argon other encoded = Inr ()
           \<longleftrightarrow> length other \<le> passwordMaxLength
             \<and> argon other salt (pp_Time p) (pp_MemoryKB p) (pp_Threads p) passwordKeyLen = ?h"
    by (simp add: VerifyPassword_def read argon)
  show "NeedsRehash encoded p = Inr False" by (simp add: NeedsRehash_def read)
qed

definition toy_argon :: argon2id where
  "toy_argon pw salt t m th n = take n (pw @ salt @ replicate n 0)"

theorem password_hash_roundtrip_witness:
  "\<exists>encoded. HashPassword toy_argon (Some (replicate 16 7)) [1, 2] DefaultPasswordParams = Inr encoded
     \<and> VerifyPassword toy_argon [1, 2] encoded = Inr ()
     \<and> VerifyPassword toy_argon [1, 3] encoded \<noteq> Inr ()"
proof -
  have p: "pp_Time DefaultPasswordParams \<noteq> 0" "pp_MemoryKB DefaultPasswordParams \<noteq> 0" "pp_Threads DefaultPasswordParams \<noteq> 0"
    by (simp_all add: DefaultPasswordParams_def)
  have len: "length (replicate 16 (7 :: byte)) = passwordSaltLen" by (simp add: passwordSaltLen_def)
  have argon: "length (toy_argon pw s t m th n) = n" for pw s t m th n by (simp add: toy_argon_def)
  obtain encoded where made: "HashPassword toy_argon (Some (replicate 16 7)) [1, 2] DefaultPasswordParams = Inr encoded"
    by (simp add: HashPassword_def passwordMaxLength_def)
  note facts = password_hash_roundtrip [OF made len p argon]
  have "toy_argon [1, 3] (replicate 16 7) t m th passwordKeyLen \<noteq> toy_argon [1, 2] (replicate 16 7) t m th passwordKeyLen" for t m th
    by (simp add: toy_argon_def passwordKeyLen_def)
  then show ?thesis using made facts [of "[1, 3]"] by blast
qed

text \<open>The stand-in hash for accounts that do not exist costs what a new hash costs.\<close>

lemma dummy_hash_costs: "map_option ph_params (parsePHC dummy_hash) = Some DefaultPasswordParams"
  by code_simp

text \<open>
  The parser looks at each field only up to its last number: what follows in the version or the cost
  field is accepted.
\<close>

lemma trailing_text_accepted:
  "parsePHC ''$argon2id$v=19.1$m=19456,t=3,p=4,keyid=x$YWFhYWFhYWFhYWFhYWFhYQ$Y2NjY2NjY2NjY2NjY2NjY2NjY2NjY2NjY2NjY2NjY2M''
     = parsePHC dummy_hash"
  by code_simp

end
