(* ===== verification/Configuration.thy ===== *)
theory Configuration
  imports Tunnels Sign_In Go_Text
begin

section \<open>Configuration (\<^verbatim>\<open>internal/config\<close>)\<close>

text \<open>
  The settings of the server: the built-in defaults, the file and the environment laid over them,
  the checks, and what the services are given of the result (\<^verbatim>\<open>tunnel.ConfigFrom\<close>,
  \<^verbatim>\<open>api.ConfigFrom\<close>, \<^verbatim>\<open>buildAPI\<close>). The YAML decoder, the reading of files, \<^verbatim>\<open>time.ParseDuration\<close>,
  \<^verbatim>\<open>url.Parse\<close>, \<^verbatim>\<open>net.ParseIP\<close> and \<^verbatim>\<open>net.ParseCIDR\<close> are the record \<open>platform\<close>. Durations are in
  nanoseconds; the Argon2id costs have their machine width. Paths are those of Unix.
\<close>

subsection \<open>Settings\<close>

record ServerConfig =
  sc_Bind :: string
  sc_ExternalURL :: string
  sc_ReadTimeout :: int
  sc_WriteTimeout :: int
  sc_IdleTimeout :: int
  sc_ShutdownGrace :: int
  sc_TrustedProxyCIDRs :: "string list"

record DatabaseConfig =
  dc_Driver :: string
  dc_DSN :: string
  dc_MaxOpenConns :: int
  dc_MaxIdleConns :: int
  dc_ConnMaxLifetime :: int
  dc_AutoMigrate :: bool

record VaultConfig =
  vc_MasterKeyPath :: string
  vc_Argon2Time :: "32 word"
  vc_Argon2MemoryKB :: "32 word"
  vc_Argon2Threads :: byte
  vc_UnlockTTL :: int
  vc_SSOUnlockMode :: string

record OIDCConfig =
  oc_Enabled :: bool
  oc_Issuer :: string
  oc_ClientID :: string
  oc_ClientSecret :: string
  oc_AllowedTenants :: "string list"
  oc_AutoProvision :: bool
  oc_ProviderName :: string

record AuthConfig =
  ac_SessionIdleTTL :: int
  ac_SessionAbsoluteTTL :: int
  ac_MFAPolicy :: string
  ac_RequireMFAForAdmins :: bool
  ac_MaxAttemptsPerAccount :: int
  ac_MaxAttemptsPerAddress :: int
  ac_LockoutWindow :: int
  ac_LockoutDuration :: int
  ac_SecureCookies :: bool
  ac_OIDC :: OIDCConfig

record PathsConfig =
  pc_DataDir :: string
  pc_SessionLogDir :: string
  pc_RecordingDir :: string

record LogConfig =
  lc_Level :: string
  lc_Format :: string

record PolicyConfig =
  pol_AllowPlaintextExport :: bool
  pol_AllowPasswordAuth :: bool
  pol_RequireHostKeyVerify :: bool
  pol_RecordAllSessions :: bool
  pol_TranscriptRetentionDays :: int
  pol_MaxUploadBytes :: int
  pol_MaxImportBytes :: int
  pol_AllowTCPTunnels :: bool
  pol_AllowRemoteForwards :: bool
  pol_AllowTelnet :: bool
  pol_AllowSerial :: bool

record SerialConfig =
  ser_AllowedDevices :: "string list"

record TunnelsConfig =
  tc_Bind :: string
  tc_PortRange :: string
  tc_Domain :: string
  tc_MaxPerUser :: int
  tc_IdleTimeout :: int

record Config =
  c_Server :: ServerConfig
  c_Database :: DatabaseConfig
  c_Vault :: VaultConfig
  c_Auth :: AuthConfig
  c_Paths :: PathsConfig
  c_Log :: LogConfig
  c_Policy :: PolicyConfig
  c_Tunnels :: TunnelsConfig
  c_Serial :: SerialConfig

definition Default_server :: ServerConfig where
  "Default_server =
     \<lparr>sc_Bind = ''127.0.0.1:8443'', sc_ExternalURL = ''https://localhost'', sc_ReadTimeout = 30 * second,
      sc_WriteTimeout = 30 * second, sc_IdleTimeout = 120 * second, sc_ShutdownGrace = 30 * second,
      sc_TrustedProxyCIDRs = []\<rparr>"

definition Default_database :: DatabaseConfig where
  "Default_database =
     \<lparr>dc_Driver = ''postgres'', dc_DSN = ''postgres:///bkd?host=/var/run/postgresql&sslmode=disable'',
      dc_MaxOpenConns = 25, dc_MaxIdleConns = 5, dc_ConnMaxLifetime = hour, dc_AutoMigrate = True\<rparr>"

definition Default_vault :: VaultConfig where
  "Default_vault =
     \<lparr>vc_MasterKeyPath = ''/var/lib/bkd/master.key'', vc_Argon2Time = 3, vc_Argon2MemoryKB = 64 * 1024,
      vc_Argon2Threads = 4, vc_UnlockTTL = 12 * hour, vc_SSOUnlockMode = SSOUnlockPassphrase\<rparr>"

definition Default_auth :: AuthConfig where
  "Default_auth =
     \<lparr>ac_SessionIdleTTL = 8 * hour, ac_SessionAbsoluteTTL = 7 * 24 * hour, ac_MFAPolicy = MFAOptional,
      ac_RequireMFAForAdmins = False, ac_MaxAttemptsPerAccount = 5, ac_MaxAttemptsPerAddress = 30,
      ac_LockoutWindow = 15 * minute, ac_LockoutDuration = 15 * minute, ac_SecureCookies = True,
      ac_OIDC = \<lparr>oc_Enabled = False, oc_Issuer = '''', oc_ClientID = '''', oc_ClientSecret = '''', oc_AllowedTenants = [],
        oc_AutoProvision = True, oc_ProviderName = ''Microsoft''\<rparr>\<rparr>"

definition Default_policy :: PolicyConfig where
  "Default_policy =
     \<lparr>pol_AllowPlaintextExport = False, pol_AllowPasswordAuth = True, pol_RequireHostKeyVerify = True,
      pol_RecordAllSessions = False, pol_TranscriptRetentionDays = 0, pol_MaxUploadBytes = 2 ^ 30,
      pol_MaxImportBytes = 64 * 2 ^ 20, pol_AllowTCPTunnels = False, pol_AllowRemoteForwards = False,
      pol_AllowTelnet = True, pol_AllowSerial = False\<rparr>"

definition Default_tunnels :: TunnelsConfig where
  "Default_tunnels =
     \<lparr>tc_Bind = ''127.0.0.1'', tc_PortRange = ''30000-30999'', tc_Domain = '''', tc_MaxPerUser = 8, tc_IdleTimeout = hour\<rparr>"

definition Default :: Config where
  "Default =
     \<lparr>c_Server = Default_server, c_Database = Default_database, c_Vault = Default_vault, c_Auth = Default_auth,
      c_Paths = \<lparr>pc_DataDir = ''/var/lib/bkd'', pc_SessionLogDir = ''/var/lib/bkd/logs'',
        pc_RecordingDir = ''/var/lib/bkd/recordings''\<rparr>,
      c_Log = \<lparr>lc_Level = ''info'', lc_Format = ''json''\<rparr>, c_Policy = Default_policy, c_Tunnels = Default_tunnels,
      c_Serial = \<lparr>ser_AllowedDevices = []\<rparr>\<rparr>"

subsection \<open>Switches and port ranges\<close>

fun ParseBool :: "string \<Rightarrow> bool option" where
  "ParseBool v =
     (if v \<in> {''1'', ''t'', ''T'', ''true'', ''TRUE'', ''True''} then Some True
      else if v \<in> {''0'', ''f'', ''F'', ''false'', ''FALSE'', ''False''} then Some False
      else None)"

datatype range_error = NotARange | NotAPort string | NotAscending

definition ParsePortRange :: "string \<Rightarrow> (range_error, int \<times> int) result" where
  "ParsePortRange spec =
     (case Cut (CHR ''-'') spec of
        None \<Rightarrow> Inl NotARange
      | Some (before, after) \<Rightarrow>
          (case Atoi (trim_space before) of
             None \<Rightarrow> Inl (NotAPort before)
           | Some low \<Rightarrow>
               (case Atoi (trim_space after) of
                  None \<Rightarrow> Inl (NotAPort after)
                | Some high \<Rightarrow>
                    if low < 1024 \<or> high > 65535 \<or> low > high then Inl NotAscending else Inr (low, high))))"

subsection \<open>The environment and the checks\<close>

record platform =
  read_file :: "string \<Rightarrow> string option"
  decode_yaml :: "string \<Rightarrow> Config \<Rightarrow> Config option"
  parse_duration :: "string \<Rightarrow> int option"
  parse_url :: "string \<Rightarrow> (string \<times> string) option"
  parse_ip :: "string \<Rightarrow> ip option"
  parse_cidr :: "string \<Rightarrow> (ip \<times> nat) option"

type_synonym environment = "string \<rightharpoonup> string"

definition EnvPrefix :: string where "EnvPrefix = ''BKD_''"

definition env_str :: "environment \<Rightarrow> string \<Rightarrow> string \<Rightarrow> string" where
  "env_str env k old = (case env (EnvPrefix @ k) of Some v \<Rightarrow> v | None \<Rightarrow> old)"

definition env_bl :: "environment \<Rightarrow> string \<Rightarrow> bool \<Rightarrow> bool" where
  "env_bl env k old =
     (case env (EnvPrefix @ k) of Some v \<Rightarrow> (case ParseBool v of Some b \<Rightarrow> b | None \<Rightarrow> old) | None \<Rightarrow> old)"

definition env_dur :: "platform \<Rightarrow> environment \<Rightarrow> string \<Rightarrow> int \<Rightarrow> int" where
  "env_dur p env k old =
     (case env (EnvPrefix @ k) of Some v \<Rightarrow> (case parse_duration p v of Some d \<Rightarrow> d | None \<Rightarrow> old) | None \<Rightarrow> old)"

definition applyEnv_auth :: "environment \<Rightarrow> AuthConfig \<Rightarrow> AuthConfig" where
  "applyEnv_auth env a = a\<lparr>
     ac_MFAPolicy := env_str env ''MFA_POLICY'' (ac_MFAPolicy a),
     ac_SecureCookies := env_bl env ''SECURE_COOKIES'' (ac_SecureCookies a),
     ac_OIDC := (ac_OIDC a)\<lparr>
       oc_Enabled := env_bl env ''OIDC_ENABLED'' (oc_Enabled (ac_OIDC a)),
       oc_Issuer := env_str env ''OIDC_ISSUER'' (oc_Issuer (ac_OIDC a)),
       oc_ClientID := env_str env ''OIDC_CLIENT_ID'' (oc_ClientID (ac_OIDC a)),
       oc_ClientSecret := env_str env ''OIDC_CLIENT_SECRET'' (oc_ClientSecret (ac_OIDC a)),
       oc_AutoProvision := env_bl env ''OIDC_AUTO_PROVISION'' (oc_AutoProvision (ac_OIDC a))\<rparr>\<rparr>"

definition applyEnv_policy :: "environment \<Rightarrow> PolicyConfig \<Rightarrow> PolicyConfig" where
  "applyEnv_policy env p = p\<lparr>
     pol_AllowPlaintextExport := env_bl env ''ALLOW_PLAINTEXT_EXPORT'' (pol_AllowPlaintextExport p),
     pol_AllowPasswordAuth := env_bl env ''ALLOW_PASSWORD_AUTH'' (pol_AllowPasswordAuth p),
     pol_AllowTelnet := env_bl env ''ALLOW_TELNET'' (pol_AllowTelnet p),
     pol_AllowSerial := env_bl env ''ALLOW_SERIAL'' (pol_AllowSerial p),
     pol_RequireHostKeyVerify := env_bl env ''REQUIRE_HOST_KEY_VERIFY'' (pol_RequireHostKeyVerify p),
     pol_RecordAllSessions := env_bl env ''RECORD_ALL_SESSIONS'' (pol_RecordAllSessions p)\<rparr>"

definition applyEnv :: "platform \<Rightarrow> environment \<Rightarrow> Config \<Rightarrow> Config" where
  "applyEnv p env c = c\<lparr>
     c_Server := (c_Server c)\<lparr>
       sc_Bind := env_str env ''BIND'' (sc_Bind (c_Server c)),
       sc_ExternalURL := env_str env ''EXTERNAL_URL'' (sc_ExternalURL (c_Server c))\<rparr>,
     c_Database := (c_Database c)\<lparr>
       dc_Driver := env_str env ''DB_DRIVER'' (dc_Driver (c_Database c)),
       dc_DSN := env_str env ''DB_DSN'' (dc_DSN (c_Database c)),
       dc_AutoMigrate := env_bl env ''DB_AUTO_MIGRATE'' (dc_AutoMigrate (c_Database c))\<rparr>,
     c_Vault := (c_Vault c)\<lparr>
       vc_MasterKeyPath := env_str env ''MASTER_KEY_PATH'' (vc_MasterKeyPath (c_Vault c)),
       vc_UnlockTTL := env_dur p env ''UNLOCK_TTL'' (vc_UnlockTTL (c_Vault c)),
       vc_SSOUnlockMode := env_str env ''SSO_UNLOCK_MODE'' (vc_SSOUnlockMode (c_Vault c))\<rparr>,
     c_Paths := (c_Paths c)\<lparr>pc_DataDir := env_str env ''DATA_DIR'' (pc_DataDir (c_Paths c))\<rparr>,
     c_Log := (c_Log c)\<lparr>
       lc_Level := env_str env ''LOG_LEVEL'' (lc_Level (c_Log c)),
       lc_Format := env_str env ''LOG_FORMAT'' (lc_Format (c_Log c))\<rparr>,
     c_Auth := applyEnv_auth env (c_Auth c),
     c_Policy := applyEnv_policy env (c_Policy c)\<rparr>"

definition isMultiTenantIssuer :: "string \<Rightarrow> bool" where
  "isMultiTenantIssuer issuer =
     list_ex (\<lambda>shared. contains_sub issuer (shared @ ''/'') \<or> has_suffix issuer shared)
       [''/common'', ''/organizations'', ''/consumers'']"

datatype config_error =
    ReadFailed | DecodeFailed
  | ServerBindEmpty | ExternalURLEmpty | ExternalURLNotAbsolute | DriverUnknown | DSNEmpty
  | MasterKeyPathEmpty | MasterKeyPathNotAbsolute
  | ArgonTimeLow | ArgonTimeHigh | ArgonMemoryLow | ArgonMemoryHigh | ArgonThreadsLow | ArgonThreadsHigh
  | UnlockTTLNotPositive | SSOModeUnknown
  | IdleTTLNotPositive | AbsoluteBelowIdle | MFAPolicyUnknown | AttemptsBelowOne | AddressBelowAttempts
  | OIDCIssuerEmpty | OIDCClientIDEmpty | OIDCClientSecretEmpty | OIDCTenantsMissing
  | DataDirNotAbsolute | UploadLimit | ImportLimit
  | TunnelQuota | TunnelIdle | TunnelDomain | TunnelBind | TunnelRange range_error
  | LogLevelUnknown | LogFormatUnknown

definition unless :: "bool \<Rightarrow> config_error \<Rightarrow> config_error list" where
  "unless ok e = (if ok then [] else [e])"

definition IsAbs :: "string \<Rightarrow> bool" where
  "IsAbs path = has_prefix path ''/''"

definition validate_server :: "platform \<Rightarrow> ServerConfig \<Rightarrow> config_error list" where
  "validate_server p s =
     unless (sc_Bind s \<noteq> '''') ServerBindEmpty
     @ (if sc_ExternalURL s = '''' then [ExternalURLEmpty]
        else unless (case parse_url p (sc_ExternalURL s) of None \<Rightarrow> False | Some (scheme, h) \<Rightarrow> scheme \<noteq> '''' \<and> h \<noteq> '''')
               ExternalURLNotAbsolute)"

definition validate_vault :: "VaultConfig \<Rightarrow> config_error list" where
  "validate_vault v =
     (if vc_MasterKeyPath v = '''' then [MasterKeyPathEmpty] else unless (IsAbs (vc_MasterKeyPath v)) MasterKeyPathNotAbsolute)
     @ unless (\<not> vc_Argon2Time v < 1) ArgonTimeLow
     @ unless (\<not> vc_Argon2Time v > MaxKDFTime) ArgonTimeHigh
     @ unless (\<not> vc_Argon2MemoryKB v < 16 * 1024) ArgonMemoryLow
     @ unless (\<not> vc_Argon2MemoryKB v > MaxKDFMemoryKB) ArgonMemoryHigh
     @ unless (\<not> vc_Argon2Threads v < 1) ArgonThreadsLow
     @ unless (\<not> vc_Argon2Threads v > MaxKDFThreads) ArgonThreadsHigh
     @ unless (\<not> vc_UnlockTTL v \<le> 0) UnlockTTLNotPositive
     @ unless (vc_SSOUnlockMode v = SSOUnlockPassphrase \<or> vc_SSOUnlockMode v = SSOUnlockServerManaged) SSOModeUnknown"

definition validate_oidc :: "OIDCConfig \<Rightarrow> config_error list" where
  "validate_oidc o' =
     (if \<not> oc_Enabled o' then []
      else unless (oc_Issuer o' \<noteq> '''') OIDCIssuerEmpty
         @ unless (oc_ClientID o' \<noteq> '''') OIDCClientIDEmpty
         @ unless (oc_ClientSecret o' \<noteq> '''') OIDCClientSecretEmpty
         @ unless (\<not> (oc_AllowedTenants o' = [] \<and> isMultiTenantIssuer (oc_Issuer o'))) OIDCTenantsMissing)"

definition validate_auth :: "AuthConfig \<Rightarrow> config_error list" where
  "validate_auth a =
     unless (\<not> ac_SessionIdleTTL a \<le> 0) IdleTTLNotPositive
     @ unless (\<not> ac_SessionAbsoluteTTL a < ac_SessionIdleTTL a) AbsoluteBelowIdle
     @ unless (ac_MFAPolicy a \<in> {MFAOff, MFAOptional, MFARequired}) MFAPolicyUnknown
     @ unless (\<not> ac_MaxAttemptsPerAccount a < 1) AttemptsBelowOne
     @ unless (\<not> ac_MaxAttemptsPerAddress a < ac_MaxAttemptsPerAccount a) AddressBelowAttempts
     @ validate_oidc (ac_OIDC a)"

definition validate_tunnels :: "platform \<Rightarrow> bool \<Rightarrow> TunnelsConfig \<Rightarrow> config_error list" where
  "validate_tunnels p listenersAllowed t =
     unless (\<not> (tc_MaxPerUser t < 1 \<or> tc_MaxPerUser t > 128)) TunnelQuota
     @ unless (\<not> (tc_IdleTimeout t < minute \<or> tc_IdleTimeout t > 24 * hour)) TunnelIdle
     @ (if tc_Domain t \<noteq> '''' then
          unless (\<not> (list_ex (\<lambda>c. c \<in> set ''/: '') (tc_Domain t) \<or> has_prefix (tc_Domain t) ''.'')) TunnelDomain
        else [])
     @ (if \<not> listenersAllowed then []
        else unless (parse_ip p (tc_Bind t) \<noteq> None) TunnelBind
           @ (case ParsePortRange (tc_PortRange t) of Inl e \<Rightarrow> [TunnelRange e] | Inr _ \<Rightarrow> []))"

definition Validate_config :: "platform \<Rightarrow> Config \<Rightarrow> config_error list" where
  "Validate_config p c =
     validate_server p (c_Server c)
     @ unless (dc_Driver (c_Database c) \<in> {''postgres'', ''sqlite''}) DriverUnknown
     @ unless (dc_DSN (c_Database c) \<noteq> '''') DSNEmpty
     @ validate_vault (c_Vault c)
     @ validate_auth (c_Auth c)
     @ unless (IsAbs (pc_DataDir (c_Paths c))) DataDirNotAbsolute
     @ unless (\<not> (pol_MaxUploadBytes (c_Policy c) < 2 ^ 20 \<or> pol_MaxUploadBytes (c_Policy c) > 64 * 2 ^ 30)) UploadLimit
     @ unless (\<not> (pol_MaxImportBytes (c_Policy c) < 2 ^ 10 \<or> pol_MaxImportBytes (c_Policy c) > 2 ^ 30)) ImportLimit
     @ validate_tunnels p (pol_AllowTCPTunnels (c_Policy c)) (c_Tunnels c)
     @ unless (lc_Level (c_Log c) \<in> {''debug'', ''info'', ''warn'', ''error''}) LogLevelUnknown
     @ unless (lc_Format (c_Log c) \<in> {''json'', ''text''}) LogFormatUnknown"

definition Load :: "platform \<Rightarrow> environment \<Rightarrow> string \<Rightarrow> (config_error list, Config) result" where
  "Load p env path =
     bindr (if path \<noteq> '''' then
              (case read_file p path of
                 None \<Rightarrow> Inl [ReadFailed]
               | Some raw \<Rightarrow> (case decode_yaml p raw Default of None \<Rightarrow> Inl [DecodeFailed] | Some cfg \<Rightarrow> Inr cfg))
            else Inr Default)
       (\<lambda>cfg. let cfg = applyEnv p env cfg; errs = Validate_config p cfg in if errs = [] then Inr cfg else Inl errs)"

subsection \<open>What the checks establish\<close>

lemma unless_nil [simp]: "unless ok e = [] \<longleftrightarrow> ok"
  by (simp add: unless_def)

named_theorems config_checks

lemmas [config_checks] =
  Validate_config_def validate_server_def validate_vault_def validate_auth_def validate_oidc_def validate_tunnels_def

lemma Load_accepts:
  assumes "Load p env path = Inr cfg"
  shows "Validate_config p cfg = []"
  using assms by (auto simp: Load_def bindr_def Let_def split: sum.split_asm if_split_asm)

lemma ParsePortRange_sound:
  assumes "ParsePortRange spec = Inr (low, high)"
  shows "1024 \<le> low \<and> low \<le> high \<and> high \<le> 65535"
  using assms by (auto simp: ParsePortRange_def split: option.split_asm if_split_asm)

lemma Validate_config_vault:
  assumes "Validate_config p c = []"
  defines "v \<equiv> c_Vault c"
  shows "\<not> vc_Argon2Time v < 1" "\<not> MaxKDFTime < vc_Argon2Time v"
    "\<not> vc_Argon2MemoryKB v < 16 * 1024" "\<not> MaxKDFMemoryKB < vc_Argon2MemoryKB v"
    "\<not> vc_Argon2Threads v < 1" "\<not> MaxKDFThreads < vc_Argon2Threads v"
    "0 < vc_UnlockTTL v" "Validate_mode (vc_SSOUnlockMode v) = Inr ()"
proof -
  have "validate_vault v = []" using assms by (simp add: Validate_config_def)
  then show "\<not> vc_Argon2Time v < 1" "\<not> MaxKDFTime < vc_Argon2Time v"
    "\<not> vc_Argon2MemoryKB v < 16 * 1024" "\<not> MaxKDFMemoryKB < vc_Argon2MemoryKB v"
    "\<not> vc_Argon2Threads v < 1" "\<not> MaxKDFThreads < vc_Argon2Threads v"
    "0 < vc_UnlockTTL v" "Validate_mode (vc_SSOUnlockMode v) = Inr ()"
    by (simp_all add: validate_vault_def Validate_mode_def check_def)
qed

lemma Validate_config_auth:
  assumes "Validate_config p c = []"
  defines "a \<equiv> c_Auth c"
  shows "0 < ac_SessionIdleTTL a" "ac_SessionIdleTTL a \<le> ac_SessionAbsoluteTTL a"
    "ac_MFAPolicy a = MFAOff \<or> ac_MFAPolicy a = MFAOptional \<or> ac_MFAPolicy a = MFARequired"
    "1 \<le> ac_MaxAttemptsPerAccount a" "ac_MaxAttemptsPerAccount a \<le> ac_MaxAttemptsPerAddress a"
    "validate_oidc (ac_OIDC a) = []"
  using assms by (simp_all add: Validate_config_def validate_auth_def not_less not_le)

lemma Validate_config_tunnels:
  assumes "Validate_config p c = []"
  defines "t \<equiv> c_Tunnels c"
  shows "1 \<le> tc_MaxPerUser t" "tc_MaxPerUser t \<le> 128" "minute \<le> tc_IdleTimeout t" "tc_IdleTimeout t \<le> 24 * hour"
    "pol_AllowTCPTunnels (c_Policy c) \<Longrightarrow> parse_ip p (tc_Bind t) \<noteq> None"
    "pol_AllowTCPTunnels (c_Policy c) \<Longrightarrow> \<exists>low high. ParsePortRange (tc_PortRange t) = Inr (low, high)"
  using assms by (auto simp: Validate_config_def validate_tunnels_def not_less split: sum.split_asm)

subsection \<open>Ranges that are read as written\<close>

text \<open>A range written with plain numbers is read as written.\<close>

lemma ParsePortRange_printed:
  assumes "1024 \<le> low" "low \<le> high" "high \<le> 65535"
  shows "ParsePortRange (decimal_of low @ ''-'' @ decimal_of high) = Inr (int low, int high)"
  using assms by (simp add: ParsePortRange_def Cut_digits decimal_digits trim_digits Atoi_decimal)

subsection \<open>Defaults and overrides\<close>

text \<open>A range that is not one is not an error of the unused feature: it reads as the ports 0 to 0.\<close>

definition bounds_of_range :: "string \<Rightarrow> int \<times> int" where
  "bounds_of_range spec = (case ParsePortRange spec of Inl e \<Rightarrow> (0, 0) | Inr r \<Rightarrow> r)"

lemma Default_valid:
  assumes "parse_url p ''https://localhost'' = Some (''https'', ''localhost'')"
  shows "Validate_config p Default = []"
  using assms
  by (simp add: config_checks Default_def Default_server_def Default_database_def Default_vault_def Default_auth_def
      Default_policy_def Default_tunnels_def IsAbs_def MaxKDFTime_def MaxKDFMemoryKB_def MaxKDFThreads_def unless_def MFAOptional_def)

lemma applyEnv_nothing: "applyEnv p Map.empty c = c"
  by (simp add: applyEnv_def applyEnv_auth_def applyEnv_policy_def env_str_def env_bl_def env_dur_def)

text \<open>
  An override of a switch that is not one of the twelve spellings of \<^verbatim>\<open>ParseBool\<close> changes nothing and
  is not reported: \<^verbatim>\<open>BKD_ALLOW_TELNET=off\<close> leaves telnet allowed.
\<close>

lemma unreadable_switch_ignored:
  "env (EnvPrefix @ k) = Some v \<Longrightarrow> ParseBool v = None \<Longrightarrow> env_bl env k old = old"
  by (simp add: env_bl_def)

lemma telnet_off_ignored:
  assumes "parse_url p ''https://localhost'' = Some (''https'', ''localhost'')"
  shows "\<exists>cfg. Load p [''BKD_ALLOW_TELNET'' \<mapsto> ''off''] '''' = Inr cfg \<and> pol_AllowTelnet (c_Policy cfg)"
proof -
  let ?env = "[''BKD_ALLOW_TELNET'' \<mapsto> ''off'']"
  have none: "env_str ?env k s = s" "env_dur p ?env k d = d"
    if "k \<noteq> ''ALLOW_TELNET''" for k s d using that by (simp_all add: env_str_def env_dur_def EnvPrefix_def)
  have "env_bl ?env k b = b" for k b by (simp add: env_bl_def EnvPrefix_def)
  with none have "applyEnv p ?env Default = Default"
    by (simp add: applyEnv_def applyEnv_auth_def applyEnv_policy_def)
  then show ?thesis using Default_valid [OF assms] by (simp add: Load_def Default_def Default_policy_def)
qed

end
