(* ===== verification/Single_Sign_On.thy ===== *)
theory Single_Sign_On
  imports Configuration
begin

section \<open>Single sign-on (\<^verbatim>\<open>internal/auth/oidc.go\<close>)\<close>

text \<open>
  The sign-in against an identity provider: the state cookie that is signed before the browser
  leaves, and what the callback checks before it believes a token. The OpenID Connect and OAuth2
  packages are outside the repository: the exchange of a code, the verification of an ID token and
  the URL of the provider are the record \<open>identity_provider\<close>, and so are HMAC-SHA256 and the JSON of
  the login state. The record of claims extends the one the sign-in handlers use.
\<close>

subsection \<open>Settings\<close>

datatype oidc_error =
    ErrOIDCStateMismatch | ErrOIDCNonceMismatch | ErrOIDCWrongTenant | ErrOIDCStateExpired | ErrOIDCNoSubject | ErrOIDCDisabled
  | ProviderRefused string string | NoAuthorizationCode | CodeExchangeFailed | NoIDToken | TokenUnverified | ClaimsUnreadable
  | DiscoveryFailed | OIDCRandomFailed | SubkeyFailed vault_error
  | IssuerMissing | IssuerNotHTTPS | ClientIDMissing | ClientSecretMissing | RedirectMissing | RedirectNotAbsolute | TenantsMissing

definition OIDCStateTTL :: int where "OIDCStateTTL = 15 * minute"
definition OIDCStateCookieName :: string where "OIDCStateCookieName = ''bkd_oidc_state''"
definition SubkeyOIDCState :: string where "SubkeyOIDCState = ''oidc-state-cookie''"

record oidc_settings =
  os_Enabled :: bool
  os_Issuer :: string
  os_ClientID :: string
  os_ClientSecret :: string
  os_RedirectURL :: string
  os_AllowedTenants :: "string list"
  os_AutoProvision :: bool
  os_Scopes :: "string list"

definition issuer_shared_by_tenants :: "string \<Rightarrow> bool" where
  "issuer_shared_by_tenants issuer =
     list_ex (\<lambda>shared. contains_sub issuer (shared @ ''/'') \<or> has_suffix issuer shared)
       [''/common'', ''/organizations'', ''/consumers'']"

definition Validate_oidc_settings :: "platform \<Rightarrow> oidc_settings \<Rightarrow> oidc_error list" where
  "Validate_oidc_settings p c =
     (if \<not> os_Enabled c then []
      else (if os_Issuer c = '''' then [IssuerMissing]
            else case parse_url p (os_Issuer c) of
                   Some (scheme, _) \<Rightarrow> if scheme \<noteq> ''https'' then [IssuerNotHTTPS] else []
                 | None \<Rightarrow> [IssuerNotHTTPS])
         @ (if os_ClientID c = '''' then [ClientIDMissing] else [])
         @ (if os_ClientSecret c = '''' then [ClientSecretMissing] else [])
         @ (if os_RedirectURL c = '''' then [RedirectMissing]
            else case parse_url p (os_RedirectURL c) of
                   Some (scheme, h) \<Rightarrow> if scheme = '''' \<or> h = '''' then [RedirectNotAbsolute] else []
                 | None \<Rightarrow> [RedirectNotAbsolute])
         @ (if os_AllowedTenants c = [] \<and> issuer_shared_by_tenants (os_Issuer c) then [TenantsMissing] else []))"

subsection \<open>The login state\<close>

record loginState =
  ls_State :: string
  ls_Nonce :: string
  ls_PKCEVerifier :: string
  ls_ReturnTo :: string
  ls_IssuedAt :: int

record rawClaims =
  rw_Subject :: string
  rw_ObjectID :: string
  rw_TenantID :: string
  rw_Email :: string
  rw_Name :: string
  rw_PreferredUsername :: string
  rw_AMR :: "string list"
  rw_AuthTime :: int

record full_claims = Claims +
  cl_PreferredUsername :: string
  cl_AuthTime :: "int option"

record identity_provider =
  ip_exchange :: "string \<Rightarrow> string \<Rightarrow> string option option"
  ip_verify :: "string \<Rightarrow> (string \<times> rawClaims option) option"
  ip_auth_url :: "string \<Rightarrow> string \<Rightarrow> string \<Rightarrow> string"
  ip_mac :: "key \<Rightarrow> byte list \<Rightarrow> byte list"
  ip_marshal :: "loginState \<Rightarrow> byte list"
  ip_unmarshal :: "byte list \<Rightarrow> loginState option"

record OIDCProvider =
  op_cfg :: oidc_settings
  op_world :: identity_provider
  op_scopes :: "string list"
  op_stateKey :: key

definition NewOIDCProvider ::
  "platform \<Rightarrow> (string \<Rightarrow> identity_provider option) \<Rightarrow> hkdf \<Rightarrow> oidc_settings \<Rightarrow> key \<Rightarrow> (oidc_error list, OIDCProvider) result" where
  "NewOIDCProvider p discover expand cfg masterKey =
     (if \<not> os_Enabled cfg then Inl [ErrOIDCDisabled]
      else let errs = Validate_oidc_settings p cfg
           in if errs \<noteq> [] then Inl errs
              else case discover (os_Issuer cfg) of
                     None \<Rightarrow> Inl [DiscoveryFailed]
                   | Some world \<Rightarrow>
                       (case DeriveSubkey expand masterKey SubkeyOIDCState of
                          Inl e \<Rightarrow> Inl [SubkeyFailed e]
                        | Inr k \<Rightarrow>
                            Inr \<lparr>op_cfg = cfg, op_world = world,
                                 op_scopes = (if os_Scopes cfg = [] then [''openid'', ''profile'', ''email''] else os_Scopes cfg),
                                 op_stateKey = k\<rparr>))"

record http_cookie =
  ck_Name :: string
  ck_Value :: string
  ck_Path :: string
  ck_HttpOnly :: bool
  ck_Secure :: bool
  ck_Lax :: bool
  ck_MaxAge :: int

definition state_cookie :: "string \<Rightarrow> int \<Rightarrow> http_cookie" where
  "state_cookie v age =
     \<lparr>ck_Name = OIDCStateCookieName, ck_Value = v, ck_Path = ''/'', ck_HttpOnly = True, ck_Secure = True, ck_Lax = True, ck_MaxAge = age\<rparr>"

definition sealState :: "OIDCProvider \<Rightarrow> loginState \<Rightarrow> http_cookie" where
  "sealState p ls =
     (let payload = ip_marshal (op_world p) ls
      in state_cookie (EncodeToString URLAlphabet payload @ ''.''
           @ EncodeToString URLAlphabet (ip_mac (op_world p) (op_stateKey p) payload)) (unix_seconds OIDCStateTTL))"

definition ClearStateCookie :: http_cookie where
  "ClearStateCookie = state_cookie '''' (- 1)"

text \<open>A value with two decodable parts, of which the second is the signature of the first.\<close>

definition signed_payload :: "OIDCProvider \<Rightarrow> string \<Rightarrow> byte list option" where
  "signed_payload p v =
     (case split_on (CHR ''.'') v of
        [a, b] \<Rightarrow>
          Option.bind (DecodeString URLAlphabet a) (\<lambda>payload.
          Option.bind (DecodeString URLAlphabet b) (\<lambda>sig.
          if sig = ip_mac (op_world p) (op_stateKey p) payload then Some payload else None))
      | _ \<Rightarrow> None)"

definition openState :: "OIDCProvider \<Rightarrow> string \<Rightarrow> (oidc_error, loginState) result" where
  "openState p v =
     (case Option.bind (signed_payload p v) (ip_unmarshal (op_world p)) of
        None \<Rightarrow> Inl ErrOIDCStateMismatch
      | Some ls \<Rightarrow>
          if ls_State ls = '''' \<or> ls_Nonce ls = '''' \<or> ls_PKCEVerifier ls = '''' then Inl ErrOIDCStateMismatch else Inr ls)"

definition sanitizeReturnTo :: "string \<Rightarrow> string" where
  "sanitizeReturnTo raw =
     (if raw = '''' \<or> \<not> has_prefix raw ''/'' \<or> has_prefix raw ''//'' then ''/''
      else if contains_sub raw [CHR 0x5C] \<or> list_ex (\<lambda>c. c = CHR 0x0D \<or> c = CHR 0x0A) raw then ''/''
      else raw)"

definition randomToken :: "byte list option \<Rightarrow> (oidc_error, string) result" where
  "randomToken draw = (case draw of None \<Rightarrow> Inl OIDCRandomFailed | Some raw \<Rightarrow> Inr (EncodeToString URLAlphabet raw))"

text \<open>The two tokens and the PKCE verifier are drawn; the result is the URL and the cookie.\<close>

definition AuthURL ::
  "OIDCProvider \<Rightarrow> int \<Rightarrow> byte list option \<Rightarrow> byte list option \<Rightarrow> string \<Rightarrow> string \<Rightarrow> (oidc_error, loginState \<times> string \<times> http_cookie) result" where
  "AuthURL p now d1 d2 verifier returnTo =
     bindr (randomToken d1) (\<lambda>state. bindr (randomToken d2) (\<lambda>nonce.
     let ls = \<lparr>ls_State = state, ls_Nonce = nonce, ls_PKCEVerifier = verifier, ls_ReturnTo = sanitizeReturnTo returnTo,
               ls_IssuedAt = unix_seconds now\<rparr>
     in Inr (ls, ip_auth_url (op_world p) state nonce verifier, sealState p ls)))"

subsection \<open>The callback\<close>

definition hasAMR :: "string list \<Rightarrow> string \<Rightarrow> bool" where
  "hasAMR amr want =
     list_ex (\<lambda>v. to_lower v \<in> {want, ''mfa'', ''fido'', ''hwk'', ''otp'', ''phr'', ''phrmfa''}) amr"

definition buildClaims :: "OIDCProvider \<Rightarrow> rawClaims \<Rightarrow> (oidc_error, full_claims) result" where
  "buildClaims p raw =
     (let subject = (if rw_ObjectID raw = '''' then rw_Subject raw else rw_ObjectID raw)
      in if subject = '''' then Inl ErrOIDCNoSubject
         else if os_AllowedTenants (op_cfg p) \<noteq> []
                 \<and> (rw_TenantID raw = '''' \<or> \<not> list_ex (\<lambda>t. t = rw_TenantID raw) (os_AllowedTenants (op_cfg p)))
         then Inl ErrOIDCWrongTenant
         else let email = (if rw_Email raw = '''' \<and> contains_sub (rw_PreferredUsername raw) ''@''
                           then rw_PreferredUsername raw else rw_Email raw)
              in Inr \<lparr>cl_Subject = subject, cl_TenantID = rw_TenantID raw, cl_Email = trim_space email, cl_Name = rw_Name raw,
                      cl_MFASatisfied = hasAMR (rw_AMR raw) ''mfa'', cl_PreferredUsername = rw_PreferredUsername raw,
                      cl_AuthTime = (if rw_AuthTime raw > 0 then Some (rw_AuthTime raw * second) else None)\<rparr>)"

record callback_request =
  cb_error :: string
  cb_error_description :: string
  cb_cookie :: "string option"
  cb_state :: string
  cb_code :: string

definition believed_token :: "OIDCProvider \<Rightarrow> loginState \<Rightarrow> string \<Rightarrow> (oidc_error, full_claims) result" where
  "believed_token p ls code =
     (case ip_exchange (op_world p) code (ls_PKCEVerifier ls) of
        None \<Rightarrow> Inl CodeExchangeFailed
      | Some None \<Rightarrow> Inl NoIDToken
      | Some (Some rawIDToken) \<Rightarrow>
          if rawIDToken = '''' then Inl NoIDToken
          else case ip_verify (op_world p) rawIDToken of
                 None \<Rightarrow> Inl TokenUnverified
               | Some (nonce, claims) \<Rightarrow>
                   if nonce \<noteq> ls_Nonce ls then Inl ErrOIDCNonceMismatch
                   else case claims of None \<Rightarrow> Inl ClaimsUnreadable | Some raw \<Rightarrow> buildClaims p raw)"

definition Callback :: "OIDCProvider \<Rightarrow> int \<Rightarrow> callback_request \<Rightarrow> (oidc_error, full_claims \<times> string) result" where
  "Callback p now r =
     (if cb_error r \<noteq> '''' then
        Inl (ProviderRefused (cb_error r) (if cb_error_description r = '''' then ''no description supplied'' else cb_error_description r))
      else case cb_cookie r of
        None \<Rightarrow> Inl ErrOIDCStateExpired
      | Some v \<Rightarrow>
          bindr (openState p v) (\<lambda>ls.
            if unix_seconds now - ls_IssuedAt ls > unix_seconds OIDCStateTTL then Inl ErrOIDCStateExpired
            else if cb_state r = '''' \<or> cb_state r \<noteq> ls_State ls then Inl ErrOIDCStateMismatch
            else if cb_code r = '''' then Inl NoAuthorizationCode
            else bindr (believed_token p ls (cb_code r)) (\<lambda>claims. Inr (claims, sanitizeReturnTo (ls_ReturnTo ls)))))"

subsection \<open>What a completed sign-in rests on\<close>

lemma base64url_has_no_dot: "CHR ''.'' \<notin> set (EncodeToString URLAlphabet bs)"
  using EncodeToString_chars [of URLAlphabet bs] by auto

lemma signed_payload_sealState:
  "signed_payload p (ck_Value (sealState p ls)) = Some (ip_marshal (op_world p) ls)"
  by (simp add: signed_payload_def sealState_def state_cookie_def Let_def split_on_sep split_on_word base64url_has_no_dot)

lemma openState_sealState:
  assumes "ip_unmarshal (op_world p) (ip_marshal (op_world p) ls) = Some ls"
    and "ls_State ls \<noteq> ''''" "ls_Nonce ls \<noteq> ''''" "ls_PKCEVerifier ls \<noteq> ''''"
  shows "openState p (ck_Value (sealState p ls)) = Inr ls"
  using assms by (simp add: openState_def signed_payload_sealState)

definition same_site :: "string \<Rightarrow> bool" where
  "same_site path \<longleftrightarrow> has_prefix path ''/'' \<and> \<not> has_prefix path ''//'' \<and> set path \<inter> {CHR 0x5C, CHR 0x0D, CHR 0x0A} = {}"

lemma contains_sub_char: "contains_sub s [c] \<longleftrightarrow> c \<in> set s"
  by (induction s) auto

lemma sanitizeReturnTo_if: "sanitizeReturnTo raw = (if same_site raw then raw else ''/'')"
proof -
  have ends: "list_ex (\<lambda>c. c = CHR 0x0D \<or> c = CHR 0x0A) raw \<longleftrightarrow> CHR 0x0D \<in> set raw \<or> CHR 0x0A \<in> set raw"
    unfolding list_ex_iff by blast
  show ?thesis
  proof (cases "raw = ''''")
    case True
    then show ?thesis by (simp add: sanitizeReturnTo_def same_site_def)
  next
    case False
    then show ?thesis unfolding sanitizeReturnTo_def same_site_def contains_sub_char ends by auto
  qed
qed

lemma sanitizeReturnTo_safe: "same_site (sanitizeReturnTo raw)"
  by (simp add: sanitizeReturnTo_if) (simp add: same_site_def)

lemma sanitizeReturnTo_idem: "sanitizeReturnTo (sanitizeReturnTo raw) = sanitizeReturnTo raw"
  using sanitizeReturnTo_safe [of raw] by (simp add: sanitizeReturnTo_if)

lemma AuthURL_facts:
  assumes "AuthURL p t d1 d2 verifier asked = Inr (ls, url, ck)"
  shows "ls_ReturnTo ls = sanitizeReturnTo asked" "ls_PKCEVerifier ls = verifier" "ls_IssuedAt ls = unix_seconds t" "ck = sealState p ls"
  using assms by (auto simp: AuthURL_def bindr_def Let_def split: sum.split_asm)

lemma buildClaims_facts:
  assumes "buildClaims p raw = Inr c"
  shows "cl_Subject c \<noteq> ''''"
    and "os_AllowedTenants (op_cfg p) \<noteq> [] \<Longrightarrow> cl_TenantID c \<in> set (os_AllowedTenants (op_cfg p))"
    and "cl_MFASatisfied c \<longleftrightarrow> (\<exists>v \<in> set (rw_AMR raw). to_lower v \<in> {''mfa'', ''fido'', ''hwk'', ''otp'', ''phr'', ''phrmfa''})"
  using assms by (auto simp: buildClaims_def Let_def hasAMR_def list_ex_iff split: if_split_asm)

lemma NewOIDCProvider_tenants:
  assumes "NewOIDCProvider plat discover expand cfg master = Inr p"
  shows "op_cfg p = cfg" and "issuer_shared_by_tenants (os_Issuer cfg) \<Longrightarrow> os_AllowedTenants cfg \<noteq> []"
proof -
  have valid: "Validate_oidc_settings plat cfg = []" and on: "os_Enabled cfg"
    using assms by (auto simp: NewOIDCProvider_def Let_def split: if_split_asm)
  show "op_cfg p = cfg"
    using assms valid on by (auto simp: NewOIDCProvider_def Let_def split: option.split_asm sum.split_asm)
  show "issuer_shared_by_tenants (os_Issuer cfg) \<Longrightarrow> os_AllowedTenants cfg \<noteq> []"
    using valid on by (auto simp: Validate_oidc_settings_def split: if_split_asm)
qed

lemma believed_token_facts:
  assumes "believed_token p ls code = Inr c"
  obtains tok raw where "ip_exchange (op_world p) code (ls_PKCEVerifier ls) = Some (Some tok)"
    and "ip_verify (op_world p) tok = Some (ls_Nonce ls, Some raw)" and "buildClaims p raw = Inr c"
  using assms by (auto simp: believed_token_def split: option.split_asm if_split_asm)

lemma Callback_facts:
  assumes "Callback p now r = Inr (c, ret)"
  obtains v payload ls where "cb_cookie r = Some v" and "signed_payload p v = Some payload"
    and "ip_unmarshal (op_world p) payload = Some ls"
    and "unix_seconds now - ls_IssuedAt ls \<le> unix_seconds OIDCStateTTL" and "cb_state r = ls_State ls"
    and "believed_token p ls (cb_code r) = Inr c" and "ret = sanitizeReturnTo (ls_ReturnTo ls)"
  using assms
  by (auto simp: Callback_def bindr_def openState_def split: option.split_asm sum.split_asm if_split_asm bind_split_asm)

text \<open>
  What a browser puts forward: two texts that decode, the second meant as the code of the first. What
  is relied on is that of HMAC: whoever has not the key shows no code for a text the server has not
  authenticated with it. The only texts it authenticates with this key are those of \<^verbatim>\<open>sealState\<close>.
\<close>

definition put_forward :: "string \<Rightarrow> (byte list \<times> byte list) set" where
  "put_forward v = {(text, tag). \<exists>a b. split_on (CHR ''.'') v = [a, b] \<and> DecodeString URLAlphabet a = Some text \<and> DecodeString URLAlphabet b = Some tag}"

definition mac_unforged :: "OIDCProvider \<Rightarrow> loginState set \<Rightarrow> string \<Rightarrow> bool" where
  "mac_unforged p logins v \<longleftrightarrow>
     (\<forall>(text, tag) \<in> put_forward v. tag = ip_mac (op_world p) (op_stateKey p) text \<longrightarrow> text \<in> ip_marshal (op_world p) ` logins)"

lemma signed_was_sealed:
  assumes "signed_payload p v = Some payload" and "mac_unforged p logins v"
  shows "payload \<in> ip_marshal (op_world p) ` logins"
proof -
  from assms(1) obtain a b tag where "split_on (CHR ''.'') v = [a, b]" "DecodeString URLAlphabet a = Some payload"
    "DecodeString URLAlphabet b = Some tag" and tag: "tag = ip_mac (op_world p) (op_stateKey p) payload"
    by (auto simp: signed_payload_def split: list.split_asm bind_split_asm if_split_asm)
  then have "(payload, tag) \<in> put_forward v" by (auto simp: put_forward_def)
  with assms(2) tag show ?thesis unfolding mac_unforged_def by blast
qed

text \<open>C6 (safety). If the browser cannot forge a message authentication code, a completed single sign-on belongs to a
  login this server started at most fifteen minutes before: the callback carries its state, the code was exchanged
  with its PKCE verifier, the verified token carries its nonce and has a subject; with an issuer that serves several
  tenants the token's tenant is one the operator listed; a second factor is credited exactly where the token names one;
  and the page to return to is the one asked for at the start if that begins with one slash and has no backslash, return
  or line feed in it, and the start page otherwise.\<close>

theorem sso_belongs_to_a_login:
  assumes built: "NewOIDCProvider plat discover expand cfg master = Inr p"
    and done_: "Callback p now r = Inr (c, ret)"
    and started: "\<And>ls. ls \<in> logins \<Longrightarrow> \<exists>t d1 d2 verifier asked url ck. AuthURL p t d1 d2 verifier asked = Inr (ls, url, ck)"
    and unforgeable: "\<And>v. cb_cookie r = Some v \<Longrightarrow> mac_unforged p logins v"
    and json: "\<And>ls. ls \<in> logins \<Longrightarrow> ip_unmarshal (op_world p) (ip_marshal (op_world p) ls) = Some ls"
  shows "\<exists>ls t d1 d2 verifier asked url ck tok raw. ls \<in> logins \<and> AuthURL p t d1 d2 verifier asked = Inr (ls, url, ck)
    \<and> unix_seconds now \<le> unix_seconds t + 900 \<and> cb_state r = ls_State ls
    \<and> ip_exchange (op_world p) (cb_code r) verifier = Some (Some tok)
    \<and> ip_verify (op_world p) tok = Some (ls_Nonce ls, Some raw)
    \<and> buildClaims p raw = Inr c \<and> cl_Subject c \<noteq> ''''
    \<and> (issuer_shared_by_tenants (os_Issuer cfg) \<longrightarrow> cl_TenantID c \<in> set (os_AllowedTenants cfg))
    \<and> (cl_MFASatisfied c \<longleftrightarrow> (\<exists>v \<in> set (rw_AMR raw). to_lower v \<in> {''mfa'', ''fido'', ''hwk'', ''otp'', ''phr'', ''phrmfa''}))
    \<and> ret = (if same_site asked then asked else ''/'')"
proof -
  from Callback_facts [OF done_] obtain v payload ls where cookie: "cb_cookie r = Some v" "signed_payload p v = Some payload"
    and read: "ip_unmarshal (op_world p) payload = Some ls"
    and fresh: "unix_seconds now - ls_IssuedAt ls \<le> unix_seconds OIDCStateTTL" and state: "cb_state r = ls_State ls"
    and believed: "believed_token p ls (cb_code r) = Inr c" and ret: "ret = sanitizeReturnTo (ls_ReturnTo ls)" .
  from signed_was_sealed [OF cookie(2) unforgeable [OF cookie(1)]] obtain ls' where "ls' \<in> logins" "payload = ip_marshal (op_world p) ls'" by blast
  with json read have mine: "ls \<in> logins" by auto
  from started [OF this] obtain t d1 d2 verifier asked url ck where
    start: "AuthURL p t d1 d2 verifier asked = Inr (ls, url, ck)" by blast
  note s = AuthURL_facts [OF start]
  from believed obtain tok raw where token: "ip_exchange (op_world p) (cb_code r) verifier = Some (Some tok)"
      "ip_verify (op_world p) tok = Some (ls_Nonce ls, Some raw)" and claims: "buildClaims p raw = Inr c"
    by (auto elim: believed_token_facts simp: s(2))
  note b = buildClaims_facts [OF claims] and n = NewOIDCProvider_tenants [OF built]
  have "unix_seconds now \<le> unix_seconds t + 900" using fresh s(3) by (simp add: OIDCStateTTL_def unix_seconds_def)
  moreover have "ret = (if same_site asked then asked else ''/'')"
    using ret s(1) by (simp add: sanitizeReturnTo_idem sanitizeReturnTo_if)
  moreover have "issuer_shared_by_tenants (os_Issuer cfg) \<longrightarrow> cl_TenantID c \<in> set (os_AllowedTenants cfg)"
    using b(2) n by metis
  ultimately show ?thesis using mine start state token claims b(1,3) by blast
qed

subsection \<open>A sign-in, step by step\<close>

definition sso_platform :: platform where
  "sso_platform = \<lparr>read_file = (\<lambda>_. None), decode_yaml = (\<lambda>_ _. None), parse_duration = (\<lambda>_. None),
     parse_url = (\<lambda>_. Some (''https'', ''bkd.example'')), parse_ip = (\<lambda>_. None), parse_cidr = (\<lambda>_. None)\<rparr>"

definition sso_settings :: oidc_settings where
  "sso_settings = \<lparr>os_Enabled = True, os_Issuer = ''https://login.example/common/v2.0'', os_ClientID = ''bkd'', os_ClientSecret = ''s'',
     os_RedirectURL = ''https://bkd.example/api/auth/sso/callback'', os_AllowedTenants = [''t1''], os_AutoProvision = True, os_Scopes = []\<rparr>"

definition sso_login :: loginState where
  "sso_login = \<lparr>ls_State = EncodeToString URLAlphabet [1, 2, 3], ls_Nonce = EncodeToString URLAlphabet [4, 5, 6], ls_PKCEVerifier = ''v'',
     ls_ReturnTo = ''/terminals'', ls_IssuedAt = 1000\<rparr>"

definition sso_raw :: rawClaims where
  "sso_raw = \<lparr>rw_Subject = ''sub'', rw_ObjectID = ''oid'', rw_TenantID = ''t1'', rw_Email = '''', rw_Name = ''Ann'',
     rw_PreferredUsername = ''ann@example.com'', rw_AMR = [''pwd'', ''MFA''], rw_AuthTime = 0\<rparr>"

definition sso_world :: identity_provider where
  "sso_world = \<lparr>ip_exchange = (\<lambda>code verifier. if code = ''code'' \<and> verifier = ''v'' then Some (Some ''token'') else None),
     ip_verify = (\<lambda>_. Some (ls_Nonce sso_login, Some sso_raw)), ip_auth_url = (\<lambda>_ _ _. ''https://login.example''),
     ip_mac = (\<lambda>k payload. k @ payload), ip_marshal = (\<lambda>_. [7, 8]), ip_unmarshal = (\<lambda>_. Some sso_login)\<rparr>"

definition sso_provider :: OIDCProvider where
  "sso_provider = \<lparr>op_cfg = sso_settings, op_world = sso_world, op_scopes = [''openid'', ''profile'', ''email''], op_stateKey = [9]\<rparr>"

definition sso_redirect :: callback_request where
  "sso_redirect = \<lparr>cb_error = '''', cb_error_description = '''', cb_cookie = Some (ck_Value (sealState sso_provider sso_login)),
     cb_state = ls_State sso_login, cb_code = ''code''\<rparr>"

theorem sso_belongs_to_a_login_witness:
  "\<exists>c. Callback sso_provider (1900 * second) sso_redirect = Inr (c, ''/terminals'')
     \<and> cl_TenantID c = ''t1'' \<and> cl_Email c = ''ann@example.com'' \<and> cl_MFASatisfied c \<and> same_site ''/terminals''"
proof -
  have built: "NewOIDCProvider sso_platform (\<lambda>_. Some sso_world) (\<lambda>_ _ _ _. [9]) sso_settings (replicate 32 1) = Inr sso_provider"
    by (simp add: NewOIDCProvider_def Validate_oidc_settings_def sso_settings_def sso_platform_def sso_provider_def
        DeriveSubkey_def validate_def KeyLen_def IsZero_def SubkeyOIDCState_def) code_simp
  have start: "AuthURL sso_provider (1000 * second) (Some [1, 2, 3]) (Some [4, 5, 6]) ''v'' ''/terminals''
      = Inr (sso_login, ''https://login.example'', sealState sso_provider sso_login)"
  proof -
    have "ip_auth_url (op_world sso_provider) = (\<lambda>_ _ _. ''https://login.example'')" by (simp add: sso_provider_def sso_world_def)
    moreover have "sanitizeReturnTo ''/terminals'' = ''/terminals''" by (simp add: sanitizeReturnTo_if same_site_def)
    ultimately show ?thesis by (simp add: AuthURL_def randomToken_def sso_login_def unix_seconds_def Let_def)
  qed
  have nonempty: "ls_State sso_login \<noteq> ''''" "ls_Nonce sso_login \<noteq> ''''" "ls_PKCEVerifier sso_login \<noteq> ''''"
    by (simp_all add: sso_login_def EncodeToString_def)
  have world: "op_world sso_provider = sso_world" by (simp add: sso_provider_def)
  have json: "ip_unmarshal sso_world (ip_marshal sso_world ls) = Some sso_login" for ls by (simp add: sso_world_def)
  have opened: "openState sso_provider (ck_Value (sealState sso_provider sso_login)) = Inr sso_login"
    by (rule openState_sealState) (simp_all add: world json nonempty)
  let ?c = "\<lparr>cl_Subject = ''oid'', cl_TenantID = ''t1'', cl_Email = ''ann@example.com'', cl_Name = ''Ann'', cl_MFASatisfied = True,
      cl_PreferredUsername = ''ann@example.com'', cl_AuthTime = None\<rparr>"
  have claims: "buildClaims sso_provider sso_raw = Inr ?c" by code_simp
  have "believed_token sso_provider sso_login ''code'' = Inr ?c"
  proof -
    have "ip_exchange sso_world ''code'' ''v'' = Some (Some ''token'')" "ls_PKCEVerifier sso_login = ''v''"
      "ip_verify sso_world ''token'' = Some (ls_Nonce sso_login, Some sso_raw)" by (simp_all add: sso_world_def sso_login_def)
    then show ?thesis using claims by (simp add: believed_token_def world)
  qed
  then have run: "Callback sso_provider (1900 * second) sso_redirect = Inr (?c, ''/terminals'')"
    using nonempty opened
    by (simp add: Callback_def sso_redirect_def OIDCStateTTL_def unix_seconds_def)
      (simp add: sso_login_def sanitizeReturnTo_if same_site_def)
  have "\<exists>ls t d1 d2 verifier asked url ck tok raw. ls \<in> {sso_login} \<and> AuthURL sso_provider t d1 d2 verifier asked = Inr (ls, url, ck)
    \<and> unix_seconds (1900 * second) \<le> unix_seconds t + 900 \<and> cb_state sso_redirect = ls_State ls
    \<and> ip_exchange (op_world sso_provider) (cb_code sso_redirect) verifier = Some (Some tok)
    \<and> ip_verify (op_world sso_provider) tok = Some (ls_Nonce ls, Some raw)
    \<and> buildClaims sso_provider raw = Inr ?c \<and> cl_Subject ?c \<noteq> ''''
    \<and> (issuer_shared_by_tenants (os_Issuer sso_settings) \<longrightarrow> cl_TenantID ?c \<in> set (os_AllowedTenants sso_settings))
    \<and> (cl_MFASatisfied ?c \<longleftrightarrow> (\<exists>v \<in> set (rw_AMR raw). to_lower v \<in> {''mfa'', ''fido'', ''hwk'', ''otp'', ''phr'', ''phrmfa''}))
    \<and> ''/terminals'' = (if same_site asked then asked else ''/'')"
  proof (rule sso_belongs_to_a_login [OF built run, of "{sso_login}"])
    show "\<exists>t d1 d2 verifier asked url ck. AuthURL sso_provider t d1 d2 verifier asked = Inr (ls, url, ck)"
      if "ls \<in> {sso_login}" for ls using start that by blast
    show "mac_unforged sso_provider {sso_login} v" if "cb_cookie sso_redirect = Some v" for v
    proof -
      have "v = EncodeToString URLAlphabet [7, 8] @ CHR ''.'' # EncodeToString URLAlphabet [9, 7, 8]"
        using that by (simp add: sso_redirect_def sealState_def state_cookie_def world) (simp add: sso_world_def sso_provider_def Let_def)
      then have "split_on (CHR ''.'') v = [EncodeToString URLAlphabet [7, 8], EncodeToString URLAlphabet [9, 7, 8]]"
        by (simp add: split_on_sep split_on_word base64url_has_no_dot)
      moreover have "DecodeString URLAlphabet (EncodeToString URLAlphabet [7, 8]) = Some [7, 8]" by code_simp
      ultimately show ?thesis by (auto simp: mac_unforged_def put_forward_def world sso_world_def)
    qed
  qed (auto simp: world json)
  then obtain asked where "''/terminals'' = (if same_site asked then asked else ''/'')" by blast
  then have "same_site ''/terminals''" by (simp split: if_split_asm)
  with run show ?thesis by auto
qed

text \<open>
  Browsers drop tabs and line ends from a URL before they read it, as the URL standard tells them to.
  The path to return to may hold a tab, so it may become another site's address.
\<close>

definition browser_reads :: "string \<Rightarrow> string" where
  "browser_reads url = filter (\<lambda>c. c \<notin> {CHR 0x09, CHR 0x0A, CHR 0x0D}) url"

lemma return_path_may_leave_the_site:
  "\<exists>asked. sanitizeReturnTo asked = asked \<and> browser_reads asked = ''//evil.example''"
proof (intro exI conjI)
  let ?asked = "CHR ''/'' # CHR 0x09 # ''/evil.example''"
  show "sanitizeReturnTo ?asked = ?asked" by (simp add: sanitizeReturnTo_if same_site_def)
  show "browser_reads ?asked = ''//evil.example''" by (simp add: browser_reads_def)
qed

text \<open>A callback whose cookie is not one of ours, or whose state is another one, is refused whatever the provider would have answered.\<close>

lemma forged_callback_not_exchanged:
  assumes "cb_cookie r = Some v" and "cb_error r = ''''"
    and "\<And>ls. openState p v = Inr ls \<Longrightarrow> cb_state r \<noteq> ls_State ls"
  shows "Callback p now r \<in> {Inl ErrOIDCStateMismatch, Inl ErrOIDCStateExpired}"
proof (cases "openState p v")
  case (Inl e)
  then have "e = ErrOIDCStateMismatch" by (auto simp: openState_def split: option.split_asm if_split_asm)
  with Inl assms show ?thesis by (simp add: Callback_def bindr_def)
next
  case (Inr ls)
  with assms show ?thesis by (simp add: Callback_def bindr_def)
qed

end
