(* ===== verification/Server_Assembly.thy ===== *)
theory Server_Assembly
  imports Single_Sign_On
begin

section \<open>Assembling the server (\<^verbatim>\<open>internal/server\<close>)\<close>

text \<open>
  What the services are given of a configuration, in the order \<^verbatim>\<open>buildAPI\<close> builds them, the warnings
  at the start, and the daily removal of old transcripts. Vault, sessions, throttle, sign-in and
  tunnels are the components of their own theories; the database, the HTTP listener and the services
  that need nothing of the configuration are left out. Go's \<^verbatim>\<open>time.Duration\<close> is a 64-bit word where the
  code multiplies.
\<close>

subsection \<open>What the services are given\<close>

definition tunnel_ConfigFrom :: "Config \<Rightarrow> tunnel_Config" where
  "tunnel_ConfigFrom cfg =
     (let (low, high) = bounds_of_range (tc_PortRange (c_Tunnels cfg))
      in \<lparr>AllowListeners = pol_AllowTCPTunnels (c_Policy cfg), AllowRemoteForwards = pol_AllowRemoteForwards (c_Policy cfg),
          Bind = tc_Bind (c_Tunnels cfg), PortLow = low, PortHigh = high, Domain = tc_Domain (c_Tunnels cfg),
          MaxPerUser = tc_MaxPerUser (c_Tunnels cfg), IdleTimeout = tc_IdleTimeout (c_Tunnels cfg)\<rparr>)"

record ApiConfig =
  api_Session :: SessionConfig
  api_MFAPolicy :: string
  api_RequireMFAForAdmins :: bool
  api_AllowPasswordAuth :: bool
  api_SecureCookies :: bool
  api_OIDCEnabled :: bool
  api_OIDCProviderName :: string
  api_OIDCAutoProvision :: bool
  api_SSOUnlockMode :: SSOUnlockMode
  api_TrustedProxies :: "(ip \<times> nat) list"
  api_ExternalURL :: string
  api_AllowPlaintextExport :: bool
  api_MaxUploadBytes :: int
  api_MaxImportBytes :: int

definition session_settings :: "Config \<Rightarrow> SessionConfig" where
  "session_settings c =
     \<lparr>IdleTTL = ac_SessionIdleTTL (c_Auth c), AbsoluteTTL = ac_SessionAbsoluteTTL (c_Auth c), SecureCookies = ac_SecureCookies (c_Auth c)\<rparr>"

fun parse_proxies :: "platform \<Rightarrow> string list \<Rightarrow> (ip \<times> nat) list option" where
  "parse_proxies p [] = Some []"
| "parse_proxies p (cidr # rest) =
     (case parse_cidr p (trim_space cidr) of None \<Rightarrow> None | Some network \<Rightarrow> map_option (\<lambda>ns. network # ns) (parse_proxies p rest))"

definition api_ConfigFrom :: "platform \<Rightarrow> Config \<Rightarrow> ApiConfig option" where
  "api_ConfigFrom p c =
     map_option (\<lambda>proxies.
       \<lparr>api_Session = session_settings c, api_MFAPolicy = ac_MFAPolicy (c_Auth c),
        api_RequireMFAForAdmins = ac_RequireMFAForAdmins (c_Auth c), api_AllowPasswordAuth = pol_AllowPasswordAuth (c_Policy c),
        api_SecureCookies = ac_SecureCookies (c_Auth c), api_OIDCEnabled = oc_Enabled (ac_OIDC (c_Auth c)),
        api_OIDCProviderName = (if oc_ProviderName (ac_OIDC (c_Auth c)) = '''' then ''single sign-on'' else oc_ProviderName (ac_OIDC (c_Auth c))),
        api_OIDCAutoProvision = oc_AutoProvision (ac_OIDC (c_Auth c)), api_SSOUnlockMode = vc_SSOUnlockMode (c_Vault c),
        api_TrustedProxies = proxies, api_ExternalURL = sc_ExternalURL (c_Server c),
        api_AllowPlaintextExport = pol_AllowPlaintextExport (c_Policy c), api_MaxUploadBytes = pol_MaxUploadBytes (c_Policy c),
        api_MaxImportBytes = pol_MaxImportBytes (c_Policy c)\<rparr>)
     (parse_proxies p (sc_TrustedProxyCIDRs (c_Server c)))"

definition uploadLimit :: "ApiConfig \<Rightarrow> int" where
  "uploadLimit c = (if api_MaxUploadBytes c > 0 then api_MaxUploadBytes c else 2 ^ 30)"

definition importLimit :: "ApiConfig \<Rightarrow> int" where
  "importLimit c = (if api_MaxImportBytes c > 0 then api_MaxImportBytes c else 64 * 2 ^ 20)"

text \<open>The functions of the cryptographic packages, and the discovery of an issuer.\<close>

record start_world =
  sw_argon :: argon2id
  sw_seal :: seal_fn
  sw_unseal :: open_fn
  sw_hkdf :: hkdf
  sw_discover :: "string \<Rightarrow> identity_provider option"
  sw_salt :: "byte list option"
  sw_master :: key

definition vault_settings :: "start_world \<Rightarrow> Config \<Rightarrow> VaultService" where
  "vault_settings w c =
     \<lparr>svc_argon = sw_argon w, svc_seal = sw_seal w, svc_unseal = sw_unseal w, svc_master = sw_master w,
      Argon2Time = vc_Argon2Time (c_Vault c), Argon2MemoryKB = vc_Argon2MemoryKB (c_Vault c),
      Argon2Threads = vc_Argon2Threads (c_Vault c), svc_ssoUnlock = vc_SSOUnlockMode (c_Vault c)\<rparr>"

definition throttle_settings :: "Config \<Rightarrow> ThrottleConfig" where
  "throttle_settings c =
     \<lparr>MaxPerAccount = ac_MaxAttemptsPerAccount (c_Auth c), MaxPerAddress = ac_MaxAttemptsPerAddress (c_Auth c),
      Window = ac_LockoutWindow (c_Auth c), LockoutDuration = ac_LockoutDuration (c_Auth c)\<rparr>"

definition trim_right_slash :: "string \<Rightarrow> string" where
  "trim_right_slash s = rev (dropWhile (\<lambda>c. c = CHR ''/'') (rev s))"

definition oidc_settings_of :: "Config \<Rightarrow> oidc_settings" where
  "oidc_settings_of c =
     \<lparr>os_Enabled = True, os_Issuer = oc_Issuer (ac_OIDC (c_Auth c)), os_ClientID = oc_ClientID (ac_OIDC (c_Auth c)),
      os_ClientSecret = oc_ClientSecret (ac_OIDC (c_Auth c)),
      os_RedirectURL = trim_right_slash (sc_ExternalURL (c_Server c)) @ ''/api/auth/sso/callback'',
      os_AllowedTenants = oc_AllowedTenants (ac_OIDC (c_Auth c)), os_AutoProvision = oc_AutoProvision (ac_OIDC (c_Auth c)), os_Scopes = []\<rparr>"

record terminal_Policy =
  tp_AllowTelnet :: bool
  tp_AllowSerial :: bool
  tp_SerialDevices :: "string list"
  tp_SessionLogDir :: string
  tp_RecordAllSessions :: bool

definition terminal_policy :: "Config \<Rightarrow> terminal_Policy" where
  "terminal_policy c =
     \<lparr>tp_AllowTelnet = pol_AllowTelnet (c_Policy c), tp_AllowSerial = pol_AllowSerial (c_Policy c),
      tp_SerialDevices = ser_AllowedDevices (c_Serial c), tp_SessionLogDir = pc_SessionLogDir (c_Paths c),
      tp_RecordAllSessions = pol_RecordAllSessions (c_Policy c)\<rparr>"

datatype start_error =
    VaultRefused vaultsvc_error | SessionsRefused session_error | ThrottleRefused "throttle_error list"
  | SSORefused "oidc_error list" | ProxyRefused | CSRFKeyRefused vault_error

record services =
  sv_Vaults :: VaultService
  sv_Sessions :: SessionConfig
  sv_Throttle :: ThrottleConfig
  sv_OIDC :: "OIDCProvider option"
  sv_Terminal :: terminal_Policy
  sv_Tunnels :: tunnel_Config
  sv_Api :: ApiConfig
  sv_CSRFKey :: key

definition SubkeyCSRF :: string where "SubkeyCSRF = ''csrf-token''"

definition map_err :: "('e \<Rightarrow> 'f) \<Rightarrow> ('e, 'a) result \<Rightarrow> ('f, 'a) result" where
  "map_err f r = (case r of Inl e \<Rightarrow> Inl (f e) | Inr x \<Rightarrow> Inr x)"

definition start_oidc :: "platform \<Rightarrow> start_world \<Rightarrow> Config \<Rightarrow> (start_error, OIDCProvider option) result" where
  "start_oidc p w c =
     (if \<not> oc_Enabled (ac_OIDC (c_Auth c)) then Inr None
      else case NewOIDCProvider p (sw_discover w) (sw_hkdf w) (oidc_settings_of c) (sw_master w) of
             Inl es \<Rightarrow> Inl (SSORefused es) | Inr provider \<Rightarrow> Inr (Some provider))"

definition buildAPI :: "platform \<Rightarrow> start_world \<Rightarrow> Config \<Rightarrow> (start_error, services) result" where
  "buildAPI p w c =
     bindr (map_err VaultRefused (NewVaultService (sw_salt w) (vault_settings w c))) (\<lambda>vaults.
     bindr (map_err SessionsRefused (Validate_sessions (session_settings c))) (\<lambda>_.
     bindr (if Validate_throttle (throttle_settings c) = [] then Inr () else Inl (ThrottleRefused (Validate_throttle (throttle_settings c)))) (\<lambda>_.
     bindr (start_oidc p w c) (\<lambda>oidc.
     bindr (case api_ConfigFrom p c of None \<Rightarrow> Inl ProxyRefused | Some a \<Rightarrow> Inr a) (\<lambda>api.
     bindr (map_err CSRFKeyRefused (DeriveSubkey (sw_hkdf w) (sw_master w) SubkeyCSRF)) (\<lambda>csrf.
     Inr \<lparr>sv_Vaults = vaults, sv_Sessions = session_settings c, sv_Throttle = throttle_settings c, sv_OIDC = oidc,
          sv_Terminal = terminal_policy c, sv_Tunnels = tunnels_config (tunnel_ConfigFrom c), sv_Api = api, sv_CSRFKey = csrf\<rparr>))))))"

subsection \<open>What an accepted configuration gives\<close>

lemma vault_settings_accepted:
  assumes valid: "Validate_config p c = []" and salt: "sw_salt w = Some salt" "length salt = SaltLen"
  shows "NewVaultService (sw_salt w) (vault_settings w c) = Inr (vault_settings w c)"
proof -
  note v = Validate_config_vault [OF valid]
  have "svc_kdf (vault_settings w c) (sw_salt w)
      = Inr \<lparr>Time = vc_Argon2Time (c_Vault c), MemoryKB = vc_Argon2MemoryKB (c_Vault c), Threads = vc_Argon2Threads (c_Vault c), Salt = salt\<rparr>"
    using v(1-6) salt unfolding svc_kdf_def NewKDFParams_def NewSalt_def vault_settings_def
    by (simp add: Validate_kdf_def Let_def)
  with v(8) show ?thesis by (simp add: NewVaultService_def vault_settings_def)
qed

lemma session_settings_accepted: "Validate_config p c = [] \<Longrightarrow> Validate_sessions (session_settings c) = Inr ()"
  using Validate_config_auth [of p c] by (simp add: Validate_sessions_def session_settings_def)

lemma throttle_settings_checked:
  assumes "Validate_config p c = []"
  shows "set (Validate_throttle (throttle_settings c)) \<subseteq> {WindowNotPositive, LockoutNotPositive}"
  using Validate_config_auth [OF assms] by (auto simp: Validate_throttle_def throttle_settings_def)

lemma issuer_checks_agree: "issuer_shared_by_tenants = isMultiTenantIssuer"
  by (rule ext) (simp add: issuer_shared_by_tenants_def isMultiTenantIssuer_def)

lemma DeriveSubkey_cases: "validate master = Inr () \<Longrightarrow> info \<noteq> '''' \<Longrightarrow> \<exists>k. DeriveSubkey expand master info = Inr k"
  by (simp add: DeriveSubkey_def)

text \<open>Of the checks of the provider, only the scheme of the issuer and the external address can still fail.\<close>

lemma oidc_settings_checked:
  assumes valid: "Validate_config p c = []" and on: "oc_Enabled (ac_OIDC (c_Auth c))"
  shows "set (Validate_oidc_settings p (oidc_settings_of c)) \<subseteq> {IssuerNotHTTPS, RedirectNotAbsolute}"
proof -
  have "validate_oidc (ac_OIDC (c_Auth c)) = []" by (rule Validate_config_auth(6) [OF valid])
  with on show ?thesis
    by (auto simp: validate_oidc_def Validate_oidc_settings_def oidc_settings_of_def issuer_checks_agree split: option.split)
qed

lemma start_oidc_checked:
  assumes valid: "Validate_config p c = []" and master: "validate (sw_master w) = Inr ()" and refused: "start_oidc p w c = Inl e"
  shows "oc_Enabled (ac_OIDC (c_Auth c)) \<and> (\<exists>es. e = SSORefused es \<and> set es \<subseteq> {IssuerNotHTTPS, RedirectNotAbsolute, DiscoveryFailed})"
proof -
  have on: "oc_Enabled (ac_OIDC (c_Auth c))" using refused by (simp add: start_oidc_def split: if_split_asm)
  obtain k where k: "DeriveSubkey (sw_hkdf w) (sw_master w) SubkeyOIDCState = Inr k"
    using DeriveSubkey_cases [OF master, of SubkeyOIDCState "sw_hkdf w"] by (auto simp: SubkeyOIDCState_def)
  have "os_Enabled (oidc_settings_of c)" by (simp add: oidc_settings_of_def)
  with on refused k oidc_settings_checked [OF valid on] show ?thesis
    by (auto simp: start_oidc_def NewOIDCProvider_def Let_def split: if_split_asm option.split_asm)
qed

lemma tunnel_settings_accepted:
  assumes valid: "Validate_config p c = []"
  defines "t \<equiv> tunnel_ConfigFrom c"
  shows "tunnels_config t = t" "1 \<le> MaxPerUser t" "MaxPerUser t \<le> 128" "minute \<le> IdleTimeout t" "IdleTimeout t \<le> 24 * hour"
    "AllowListeners t \<Longrightarrow> parse_ip p (Bind t) \<noteq> None \<and> 1024 \<le> PortLow t \<and> PortLow t \<le> PortHigh t \<and> PortHigh t \<le> 65535"
proof -
  note v = Validate_config_tunnels [OF valid]
  have eq: "MaxPerUser t = tc_MaxPerUser (c_Tunnels c)" "IdleTimeout t = tc_IdleTimeout (c_Tunnels c)" "Bind t = tc_Bind (c_Tunnels c)"
      "AllowListeners t = pol_AllowTCPTunnels (c_Policy c)" "(PortLow t, PortHigh t) = bounds_of_range (tc_PortRange (c_Tunnels c))"
    by (simp_all add: t_def tunnel_ConfigFrom_def split: prod.split)
  show "1 \<le> MaxPerUser t" "MaxPerUser t \<le> 128" "minute \<le> IdleTimeout t" "IdleTimeout t \<le> 24 * hour"
    unfolding eq by (fact v)+
  moreover have "0 < minute" by simp
  ultimately show "tunnels_config t = t" unfolding tunnels_config_def by (simp add: Let_def)
  show "parse_ip p (Bind t) \<noteq> None \<and> 1024 \<le> PortLow t \<and> PortLow t \<le> PortHigh t \<and> PortHigh t \<le> 65535" if on: "AllowListeners t"
  proof -
    from v(6) on obtain low high where range: "ParsePortRange (tc_PortRange (c_Tunnels c)) = Inr (low, high)" by (auto simp: eq)
    then have "PortLow t = low" "PortHigh t = high" using eq(5) by (simp_all add: bounds_of_range_def)
    with ParsePortRange_sound [OF range] v(5) on show ?thesis by (simp add: eq)
  qed
qed

text \<open>Every local listener of a manager that is run with such settings has an unprivileged port.\<close>

lemma listeners_unprivileged:
  assumes valid: "Validate_config p c = []" and run: "(tunnel_step (tunnels_config (tunnel_ConfigFrom c)) overlap)\<^sup>*\<^sup>* tunnel_NewManager m"
    and t: "t \<in> set (m_tunnels m)" "holds_port t"
  shows "pol_AllowTCPTunnels (c_Policy c) \<and> 1024 \<le> t_localPort t \<and> t_localPort t \<le> 65535"
proof -
  note s = tunnel_settings_accepted [OF valid]
  have "tunnels_ok (tunnel_ConfigFrom c) tunnel_NewManager" by (simp add: tunnels_ok_def tunnel_NewManager_def)
  moreover have "AllowListeners (tunnel_ConfigFrom c) \<longrightarrow> 0 < PortLow (tunnel_ConfigFrom c)" using s(6) by fastforce
  ultimately have "tunnels_ok (tunnel_ConfigFrom c) m" using tunnels_sound.run_inv [OF run] by (simp add: s(1))
  then have "permitted (tunnel_ConfigFrom c) t" using t(1) by (simp add: tunnels_ok_def)
  with t(2) s(6) have "AllowListeners (tunnel_ConfigFrom c) \<and> 1024 \<le> t_localPort t \<and> t_localPort t \<le> 65535"
    by (fastforce simp: permitted_def)
  then show ?thesis by (simp add: tunnel_ConfigFrom_def split: prod.split_asm)
qed

text \<open>
  C26 (bounds). Building the services of a server (\<^verbatim>\<open>buildAPI\<close>, the part of the start after the
  directories, the database and the key file and before the listener) from a configuration \<^verbatim>\<open>Load\<close>
  accepts, with a salt drawn and a sound master key, fails only over a lockout window or duration that
  is not positive, a proxy network that is not one, or a single sign-on provider that is not reached
  over https, not found, or to be redirected to a relative address. If it succeeds: keys are derived at
  a cost within the vault's limits, a session's idle limit is positive and at most its absolute one, at
  least one wrong guess is allowed and no fewer from an address than on an account, an issuer that
  serves several tenants comes with a list of tenants, a user has at most 128 tunnels, and every local
  tunnel listener there ever is was allowed and has a port between 1024 and 65535.
\<close>

theorem accepted_configuration_starts:
  assumes loaded: "Load p env path = Inr cfg" and salt: "sw_salt w = Some salt" "length salt = SaltLen"
    and master: "validate (sw_master w) = Inr ()"
  shows "case buildAPI p w cfg of
      Inl (ThrottleRefused es) \<Rightarrow> set es \<subseteq> {WindowNotPositive, LockoutNotPositive}
    | Inl (SSORefused es) \<Rightarrow> oc_Enabled (ac_OIDC (c_Auth cfg)) \<and> set es \<subseteq> {IssuerNotHTTPS, RedirectNotAbsolute, DiscoveryFailed}
    | Inl ProxyRefused \<Rightarrow> parse_proxies p (sc_TrustedProxyCIDRs (c_Server cfg)) = None
    | Inl _ \<Rightarrow> False
    | Inr s \<Rightarrow>
        1 \<le> unat (Argon2Time (sv_Vaults s)) \<and> unat (Argon2Time (sv_Vaults s)) \<le> 16
        \<and> 16384 \<le> unat (Argon2MemoryKB (sv_Vaults s)) \<and> unat (Argon2MemoryKB (sv_Vaults s)) \<le> 1048576
        \<and> 1 \<le> unat (Argon2Threads (sv_Vaults s)) \<and> unat (Argon2Threads (sv_Vaults s)) \<le> 16
        \<and> 0 < IdleTTL (sv_Sessions s) \<and> IdleTTL (sv_Sessions s) \<le> AbsoluteTTL (sv_Sessions s)
        \<and> 1 \<le> MaxPerAccount (sv_Throttle s) \<and> MaxPerAccount (sv_Throttle s) \<le> MaxPerAddress (sv_Throttle s)
        \<and> (\<forall>o'. sv_OIDC s = Some o' \<longrightarrow> issuer_shared_by_tenants (os_Issuer (op_cfg o')) \<longrightarrow> os_AllowedTenants (op_cfg o') \<noteq> [])
        \<and> 1 \<le> MaxPerUser (sv_Tunnels s) \<and> MaxPerUser (sv_Tunnels s) \<le> 128
        \<and> (\<forall>m overlap t. (tunnel_step (sv_Tunnels s) overlap)\<^sup>*\<^sup>* tunnel_NewManager m \<longrightarrow> t \<in> set (m_tunnels m) \<longrightarrow> holds_port t
             \<longrightarrow> pol_AllowTCPTunnels (c_Policy cfg) \<and> 1024 \<le> t_localPort t \<and> t_localPort t \<le> 65535)"
proof -
  have valid: "Validate_config p cfg = []" by (rule Load_accepts [OF loaded])
  note v = Validate_config_vault [OF valid] and a = Validate_config_auth [OF valid] and t = tunnel_settings_accepted [OF valid]
  have vault: "NewVaultService (sw_salt w) (vault_settings w cfg) = Inr (vault_settings w cfg)"
    by (rule vault_settings_accepted [OF valid salt])
  have sess: "Validate_sessions (session_settings cfg) = Inr ()" by (rule session_settings_accepted [OF valid])
  obtain csrf where csrf: "DeriveSubkey (sw_hkdf w) (sw_master w) SubkeyCSRF = Inr csrf"
    using DeriveSubkey_cases [OF master, of SubkeyCSRF "sw_hkdf w"] by (auto simp: SubkeyCSRF_def)
  have kdf: "1 \<le> unat (vc_Argon2Time (c_Vault cfg)) \<and> unat (vc_Argon2Time (c_Vault cfg)) \<le> 16
      \<and> 16384 \<le> unat (vc_Argon2MemoryKB (c_Vault cfg)) \<and> unat (vc_Argon2MemoryKB (c_Vault cfg)) \<le> 1048576
      \<and> 1 \<le> unat (vc_Argon2Threads (c_Vault cfg)) \<and> unat (vc_Argon2Threads (c_Vault cfg)) \<le> 16"
    using v(1-6) by (simp add: word_less_nat_alt MaxKDFTime_def MaxKDFMemoryKB_def MaxKDFThreads_def)
  have tenants: "issuer_shared_by_tenants (os_Issuer (op_cfg q)) \<Longrightarrow> os_AllowedTenants (op_cfg q) \<noteq> []"
    if "start_oidc p w cfg = Inr (Some q)" for q
    using that NewOIDCProvider_tenants by (fastforce simp: start_oidc_def split: if_split_asm sum.split_asm)
  show ?thesis
  proof (cases "Validate_throttle (throttle_settings cfg)")
    case (Cons e es)
    with throttle_settings_checked [OF valid] show ?thesis
      unfolding buildAPI_def by (simp add: vault sess map_err_def)
  next
    case Nil
    show ?thesis
    proof (cases "start_oidc p w cfg")
      case (Inl e)
      with Nil start_oidc_checked [OF valid master Inl] show ?thesis
        unfolding buildAPI_def by (auto simp: vault sess map_err_def)
    next
      case oidc: (Inr q)
      show ?thesis
      proof (cases "api_ConfigFrom p cfg")
        case None
        with Nil oidc show ?thesis unfolding buildAPI_def by (simp add: vault sess map_err_def api_ConfigFrom_def)
      next
        case (Some api)
        have "buildAPI p w cfg = Inr \<lparr>sv_Vaults = vault_settings w cfg, sv_Sessions = session_settings cfg,
            sv_Throttle = throttle_settings cfg, sv_OIDC = q, sv_Terminal = terminal_policy cfg,
            sv_Tunnels = tunnels_config (tunnel_ConfigFrom cfg), sv_Api = api, sv_CSRFKey = csrf\<rparr>"
          unfolding buildAPI_def by (simp add: vault sess map_err_def Nil oidc Some csrf)
        then show ?thesis
          using kdf a tenants t(1-3) oidc listeners_unprivileged [OF valid]
          by (simp add: vault_settings_def session_settings_def throttle_settings_def)
      qed
    qed
  qed
qed

definition start_at_home :: start_world where
  "start_at_home = \<lparr>sw_argon = (\<lambda>_ _ _ _ _ n. replicate n 1), sw_seal = (\<lambda>_ _ _ pt. pt), sw_unseal = (\<lambda>_ _ _ ct. Some ct),
     sw_hkdf = (\<lambda>_ _ _ n. replicate n 2), sw_discover = (\<lambda>_. None), sw_salt = Some (replicate 16 3), sw_master = replicate 32 1\<rparr>"

theorem accepted_configuration_starts_witness:
  "\<exists>cfg s. Load sso_platform [''BKD_DATA_DIR'' \<mapsto> ''/srv/bkd''] '''' = Inr cfg \<and> buildAPI sso_platform start_at_home cfg = Inr s
     \<and> pc_DataDir (c_Paths cfg) = ''/srv/bkd'' \<and> MaxPerUser (sv_Tunnels s) \<le> 128 \<and> IdleTTL (sv_Sessions s) \<le> AbsoluteTTL (sv_Sessions s)"
proof -
  let ?env = "[''BKD_DATA_DIR'' \<mapsto> ''/srv/bkd'']"
  let ?cfg = "Default\<lparr>c_Paths := (c_Paths Default)\<lparr>pc_DataDir := ''/srv/bkd''\<rparr>\<rparr>"
  have url: "parse_url sso_platform u = Some (''https'', ''bkd.example'')" for u by (simp add: sso_platform_def)
  have none: "env_str ?env k s = s" "env_bl ?env k b = b" "env_dur q ?env k d = d" if "k \<noteq> ''DATA_DIR''" for k s b d q
    using that by (simp_all add: env_str_def env_bl_def env_dur_def EnvPrefix_def)
  have dir: "env_str ?env ''DATA_DIR'' s = ''/srv/bkd''" for s by (simp add: env_str_def EnvPrefix_def)
  have env: "applyEnv sso_platform ?env Default = ?cfg"
    by (simp add: applyEnv_def applyEnv_auth_def applyEnv_policy_def none dir)
  have valid: "Validate_config sso_platform ?cfg = []"
    by (simp add: config_checks url Default_def Default_server_def Default_database_def Default_vault_def Default_auth_def
        Default_policy_def Default_tunnels_def IsAbs_def MaxKDFTime_def MaxKDFMemoryKB_def MaxKDFThreads_def unless_def MFAOptional_def)
  have loaded: "Load sso_platform ?env '''' = Inr ?cfg" unfolding Load_def by (simp add: env valid Let_def)
  have salt: "sw_salt start_at_home = Some (replicate 16 3)" "length (replicate 16 (3 :: byte)) = SaltLen"
    by (simp_all add: start_at_home_def SaltLen_def)
  have master: "validate (sw_master start_at_home) = Inr ()"
    by (simp add: start_at_home_def validate_def KeyLen_def IsZero_def) code_simp
  have throttle: "Validate_throttle (throttle_settings ?cfg) = []"
    by (simp add: Validate_throttle_def throttle_settings_def Default_def Default_auth_def)
  have oidc: "start_oidc sso_platform start_at_home ?cfg = Inr None"
    by (simp add: start_oidc_def Default_def Default_auth_def)
  have proxies: "parse_proxies sso_platform (sc_TrustedProxyCIDRs (c_Server ?cfg)) = Some []"
    by (simp add: Default_def Default_server_def)
  note facts = accepted_configuration_starts [OF loaded salt master]
  show ?thesis
  proof (cases "buildAPI sso_platform start_at_home ?cfg")
    case (Inl e)
    then have "case e of ThrottleRefused es \<Rightarrow> False | SSORefused es \<Rightarrow> False | ProxyRefused \<Rightarrow> False | _ \<Rightarrow> True"
      using throttle oidc proxies
      by (auto simp: buildAPI_def bindr_def map_err_def api_ConfigFrom_def split: sum.split_asm start_error.split)
    with facts Inl show ?thesis by (cases e) simp_all
  next
    case (Inr s)
    with facts loaded show ?thesis by (intro exI [of _ ?cfg] exI [of _ s]) simp
  qed
qed

subsection \<open>Warnings at the start\<close>

text \<open>\<^verbatim>\<open>strings.Fields\<close> on ASCII.\<close>

fun fields_from :: "string \<Rightarrow> string \<Rightarrow> string list" where
  "fields_from word [] = (if word = [] then [] else [word])"
| "fields_from word (c # s) =
     (if is_space c then (if word = [] then fields_from [] s else word # fields_from [] s) else fields_from (word @ [c]) s)"

definition ephemeralRange :: "(string \<Rightarrow> string option) \<Rightarrow> (int \<times> int) option" where
  "ephemeralRange read =
     (case read ''/proc/sys/net/ipv4/ip_local_port_range'' of
        None \<Rightarrow> None
      | Some raw \<Rightarrow>
          (case fields_from [] raw of
             [a, b] \<Rightarrow> (case (Atoi a, Atoi b) of (Some low, Some high) \<Rightarrow> Some (low, high) | _ \<Rightarrow> None)
           | _ \<Rightarrow> None))"

text \<open>The warning is the four numbers it names.\<close>

definition describeEphemeralOverlap :: "(string \<Rightarrow> string option) \<Rightarrow> int \<Rightarrow> int \<Rightarrow> (int \<times> int \<times> int \<times> int) option" where
  "describeEphemeralOverlap read tunnelLow tunnelHigh =
     (case ephemeralRange read of
        None \<Rightarrow> None
      | Some (low, high) \<Rightarrow>
          if tunnelLow = 0 then None
          else if tunnelHigh < low \<or> tunnelLow > high then None
          else Some (tunnelLow, tunnelHigh, low, high))"

lemma overlap_is_reported:
  assumes "ephemeralRange read = Some (low, high)" "low \<le> high" "ParsePortRange spec = Inr (a, b)"
  shows "describeEphemeralOverlap read a b \<noteq> None \<longleftrightarrow> {a..b} \<inter> {low..high} \<noteq> {}"
proof -
  have "1024 \<le> a" "a \<le> b" using ParsePortRange_sound [OF assms(3)] by auto
  moreover from this have "{a..b} \<inter> {low..high} \<noteq> {} \<longleftrightarrow> \<not> (b < low \<or> a > high)"
    using assms(2) by (auto simp: atLeastAtMost_iff disjoint_iff intro: exI [of _ "max a low"])
  ultimately show ?thesis using assms(1) by (simp add: describeEphemeralOverlap_def)
qed

datatype start_warning =
    WarnPlaintextExport | WarnHostKeys | WarnServerManaged | WarnCookies | WarnNoSSO
  | WarnListeners string string | WarnEphemeral "int \<times> int \<times> int \<times> int" | WarnRemoteForwards

definition warnOnRiskyPolicy :: "(string \<Rightarrow> string option) \<Rightarrow> Config \<Rightarrow> start_warning list" where
  "warnOnRiskyPolicy read c =
     (if pol_AllowPlaintextExport (c_Policy c) then [WarnPlaintextExport] else [])
     @ (if \<not> pol_RequireHostKeyVerify (c_Policy c) then [WarnHostKeys] else [])
     @ (if vc_SSOUnlockMode (c_Vault c) = SSOUnlockServerManaged then [WarnServerManaged] else [])
     @ (if \<not> ac_SecureCookies (c_Auth c) then [WarnCookies] else [])
     @ (if \<not> oc_Enabled (ac_OIDC (c_Auth c)) then [WarnNoSSO] else [])
     @ (if pol_AllowTCPTunnels (c_Policy c)
        then WarnListeners (tc_Bind (c_Tunnels c)) (tc_PortRange (c_Tunnels c))
          # (case ParsePortRange (tc_PortRange (c_Tunnels c)) of
               Inl _ \<Rightarrow> []
             | Inr (low, high) \<Rightarrow> (case describeEphemeralOverlap read low high of None \<Rightarrow> [] | Some w \<Rightarrow> [WarnEphemeral w]))
        else [])
     @ (if pol_AllowRemoteForwards (c_Policy c) then [WarnRemoteForwards] else [])"

text \<open>
  Whether host keys must be verified decides this warning and nothing else the server is built from.
\<close>

lemma host_key_setting_only_warns:
  "buildAPI p w (c\<lparr>c_Policy := (c_Policy c)\<lparr>pol_RequireHostKeyVerify := b\<rparr>\<rparr>) = buildAPI p w c"
proof -
  let ?c = "c\<lparr>c_Policy := (c_Policy c)\<lparr>pol_RequireHostKeyVerify := b\<rparr>\<rparr>"
  have "vault_settings w ?c = vault_settings w c" "session_settings ?c = session_settings c" "throttle_settings ?c = throttle_settings c"
    "oidc_settings_of ?c = oidc_settings_of c" "terminal_policy ?c = terminal_policy c" "tunnel_ConfigFrom ?c = tunnel_ConfigFrom c"
    by (simp_all add: vault_settings_def session_settings_def throttle_settings_def oidc_settings_of_def terminal_policy_def tunnel_ConfigFrom_def)
  moreover from this have "start_oidc p w ?c = start_oidc p w c" "api_ConfigFrom p ?c = api_ConfigFrom p c"
    by (simp_all add: start_oidc_def api_ConfigFrom_def)
  ultimately show ?thesis unfolding buildAPI_def by (simp only:)
qed

subsection \<open>Removing old transcripts\<close>

text \<open>A directory of the log directory, and a file in it; its time may be unreadable, its removal may fail.\<close>

record log_entry =
  lf_name :: string
  lf_isdir :: bool
  lf_modtime :: "int option"
  lf_removable :: bool

record log_dir =
  ld_name :: string
  ld_isdir :: bool
  ld_files :: "log_entry list option"

text \<open>\<^verbatim>\<open>-time.Duration(days) * 24 * time.Hour\<close>, in 64 bits.\<close>

definition retention_offset :: "int \<Rightarrow> int" where
  "retention_offset days = sint (- (word_of_int days :: 64 word) * 24 * word_of_int (3600 * 10 ^ 9))"

definition expired_log :: "int \<Rightarrow> log_entry \<Rightarrow> bool" where
  "expired_log cutoff f \<longleftrightarrow>
     \<not> lf_isdir f \<and> has_suffix (lf_name f) ''.log''
     \<and> (case lf_modtime f of None \<Rightarrow> False | Some t \<Rightarrow> t < cutoff) \<and> lf_removable f"

definition sweep_dir :: "int \<Rightarrow> log_dir \<Rightarrow> log_dir" where
  "sweep_dir cutoff d = (if \<not> ld_isdir d then d else d\<lparr>ld_files := map_option (filter (\<lambda>f. \<not> expired_log cutoff f)) (ld_files d)\<rparr>)"

definition sweepTranscripts :: "PolicyConfig \<Rightarrow> PathsConfig \<Rightarrow> int \<Rightarrow> log_dir list \<Rightarrow> log_dir list" where
  "sweepTranscripts pol paths now dirs =
     (let days = pol_TranscriptRetentionDays pol
      in if days \<le> 0 \<or> pc_SessionLogDir paths = '''' then dirs else map (sweep_dir (now + retention_offset days)) dirs)"

lemma retention_offset_exact:
  assumes "0 \<le> days" "days \<le> 106751"
  shows "retention_offset days = - (days * 24 * hour)"
proof -
  have "- (word_of_int days :: 64 word) * 24 * word_of_int (3600 * 10 ^ 9) = word_of_int (- days * 24 * (3600 * 10 ^ 9))"
    by simp
  then have "retention_offset days = sint (word_of_int (- days * 24 * (3600 * 10 ^ 9)) :: 64 word)"
    by (simp only: retention_offset_def)
  also have "\<dots> = - days * 24 * (3600 * 10 ^ 9)"
    unfolding sint_sbintrunc' by (rule signed_take_bit_int_eq_self) (use assms in simp_all)
  finally show ?thesis by simp
qed

text \<open>Within that bound the sweep removes a transcript only when it is older than the configured days.\<close>

lemma sweep_keeps_recent:
  assumes "pol_TranscriptRetentionDays pol \<le> 106751" "d \<in> set dirs" "ld_files d = Some fs" "f \<in> set fs"
    and "lf_modtime f = Some t" "now - pol_TranscriptRetentionDays pol * 24 * hour \<le> t"
  shows "\<exists>d' \<in> set (sweepTranscripts pol paths now dirs). ld_name d' = ld_name d \<and> (\<exists>fs'. ld_files d' = Some fs' \<and> f \<in> set fs')"
proof (cases "pol_TranscriptRetentionDays pol \<le> 0 \<or> pc_SessionLogDir paths = ''''")
  case True
  with assms(2-4) show ?thesis by (auto simp: sweepTranscripts_def)
next
  case False
  let ?cut = "now + retention_offset (pol_TranscriptRetentionDays pol)"
  have "?cut = now - pol_TranscriptRetentionDays pol * 24 * hour"
    using retention_offset_exact [of "pol_TranscriptRetentionDays pol"] assms(1) False by simp
  then have "\<not> expired_log ?cut f" using assms(5,6) by (simp add: expired_log_def del: durations)
  moreover have "sweep_dir ?cut d \<in> set (sweepTranscripts pol paths now dirs)"
    using False assms(2) by (simp add: sweepTranscripts_def)
  ultimately show ?thesis using assms(3,4)
    by (intro bexI [of _ "sweep_dir ?cut d"]) (auto simp: sweep_dir_def)
qed

text \<open>
  Beyond it the product leaves the 64 bits: 200000 days, meant to keep everything, set the limit in
  the future, and the sweep removes every transcript there is, the ones being written included.
\<close>

lemma retention_overflows: "retention_offset 200000 > 36 * 365 * 24 * hour"
  by (simp add: retention_offset_def)

lemma sweep_removes_everything:
  assumes "pol_TranscriptRetentionDays pol = 200000" "pc_SessionLogDir paths \<noteq> ''''"
    and "d \<in> set (sweepTranscripts pol paths now dirs)" "ld_isdir d" "ld_files d = Some fs" "f \<in> set fs"
    and "\<not> lf_isdir f" "has_suffix (lf_name f) ''.log''" "lf_removable f" "lf_modtime f = Some t"
  shows "now < t"
proof -
  from assms(1-3) obtain d0 where "d = sweep_dir (now + retention_offset 200000) d0" by (auto simp: sweepTranscripts_def)
  with assms(4-10) have "\<not> t < now + retention_offset 200000"
    by (auto simp: sweep_dir_def expired_log_def split: if_split_asm option.split_asm)
  with retention_overflows show ?thesis by simp
qed

end
