(* ===== verification/Spec2Isabelle.thy ===== *)
theory Spec2Isabelle
  imports Telnet_Link Telnet_Conn Session_Resolve Vault_Cache Terminal_Reaper Terminal_Bridge Remote_Pool Host_Keys
    Tunnels Credential_Handlers Teams Passwords Server_Assembly
begin

text \<open>
  Bridgekeeper is a self-hosted SSH, SFTP, telnet and serial client with a browser front end,
  written in Go. A browser tab talks to a terminal session on the server; the session owns a
  shell, which is a connection to a device (telnet, SSH or serial) wrapped by a login sequence
  and by triggers. What to connect to is a saved connection in a tree of folders that hand down
  settings; how to authenticate is a credential sealed in a vault whose keys exist in memory
  only while their owner is logged in. Paths below are under \<^verbatim>\<open>internal/\<close>.

  \<^bold>\<open>The library.\<close>

  \<^item> \<^verbatim>\<open>Prelude\<close>: bytes and strings, Go's integer arithmetic, results with errors, the locale
    \<open>invariant_of\<close> that every step relation of the development instantiates, and lemmas on lists
    and relations that several components use.

  \<^item> \<^verbatim>\<open>Telnet_Options\<close> and \<^verbatim>\<open>Telnet_Link\<close> (\<^verbatim>\<open>proto/telnetx/telnet.go\<close>,
    \<^verbatim>\<open>negotiate.go\<close>): the RFC 1143 state machine, one definition per method of
    \<^verbatim>\<open>options\<close>. The two directions of negotiation share one locale, interpreted for each.
    \<^verbatim>\<open>Telnet_Link\<close> joins two ends by FIFO channels as an inductive step relation and shows that
    negotiation stops (C1) and leaves both ends agreeing (C2).

  \<^item> \<^verbatim>\<open>Telnet_Conn\<close> (\<^verbatim>\<open>proto/telnetx/conn.go\<close>): the connection as a record, the byte parser
    \<open>step\<close> and the operations around it. The parser refines a grammar of protocol items however
    the stream is cut (C3), what \<^verbatim>\<open>Write\<close> sends is what the other end's parser delivers (C4),
    the end of a connection is final (C5), and \<^verbatim>\<open>Read\<close> loses nothing.

  \<^item> \<^verbatim>\<open>Shell\<close> (\<^verbatim>\<open>terminal/shell.go\<close>): the write contract of a shell as a locale, interpreted
    on the innermost shell and on both wrappers. \<^verbatim>\<open>Logon\<close> (\<^verbatim>\<open>sessions/logon.go\<close>,
    \<^verbatim>\<open>terminal/logon.go\<close>) and \<^verbatim>\<open>Triggers\<close> (\<^verbatim>\<open>sessions/triggers.go\<close>,
    \<^verbatim>\<open>terminal/triggers.go\<close>): templates expand in one pass, typing takes over except for
    what the reading goroutine had already collected (C8), rules fire within their caps (C9).

  \<^item> \<^verbatim>\<open>Session_Tree\<close> (\<^verbatim>\<open>sessions/*.go\<close>): folders, connections and jump chains over a record
    of the database's tables, every operation of the store. \<^verbatim>\<open>Session_Forest\<close>: the tree stays a
    forest and jump chains acyclic (C11). \<^verbatim>\<open>Session_Delete\<close>: what a recursive delete removes
    (C12). \<^verbatim>\<open>Session_Resolve\<close>: inheritance, the two resolvers, and routes (C14 to C17).

  \<^item> \<^verbatim>\<open>Vault\<close> (\<^verbatim>\<open>vault/key.go\<close>, \<^verbatim>\<open>envelope.go\<close>, \<^verbatim>\<open>masterkey.go\<close>): keys, envelopes and
    the master key file (C18 to C20). \<^verbatim>\<open>Vault_Cache\<close> (\<^verbatim>\<open>vault/cache.go\<close>): the cache over an
    explicit heap (C21).

  \<^item> \<^verbatim>\<open>Go_Time\<close>: instants and durations as nanoseconds, civil dates and the layouts the code
    prints. \<^verbatim>\<open>Ring_Buffer\<close>: the replay buffer of \<^verbatim>\<open>terminal/session.go\<close>, a locale for what a
    replay buffer promises, and its interpretation on the ring. \<^verbatim>\<open>Transcript\<close>
    (\<^verbatim>\<open>terminal/transcript.go\<close>): recordings (C28).

  \<^item> \<^verbatim>\<open>Terminal\<close>, \<^verbatim>\<open>Terminal_Manager\<close> and \<^verbatim>\<open>Terminal_Reaper\<close> (\<^verbatim>\<open>terminal/session.go\<close>):
    a terminal with its channels, where closing a closed channel is a value of the model, the
    registry and the reaper. A terminal never panics (C23), a browser that comes back sees what it
    missed (C24), an abandoned terminal ends (C25). \<^verbatim>\<open>Terminal_Bridge\<close>
    (\<^verbatim>\<open>terminal/bridge.go\<close>, \<^verbatim>\<open>protocol.go\<close>): what a browser's socket does to it.

  \<^item> \<^verbatim>\<open>Remote_Pool\<close> (\<^verbatim>\<open>remote/pool.go\<close>, \<^verbatim>\<open>chain.go\<close>): SSH connections shared by reference
    count, with the claims a dial hands over, and routes through jump hosts (C31). \<^verbatim>\<open>Host_Keys\<close>
    (\<^verbatim>\<open>hostkeys/hostkeys.go\<close>, \<^verbatim>\<open>remote/dial.go\<close>): recorded host keys and the decision in the
    handshake (C33). \<^verbatim>\<open>Tunnels\<close> (\<^verbatim>\<open>proto/tunnel/*.go\<close>): what this server dials for a device
    (C10), the SOCKS handshake, and what the manager of tunnels holds (C32).

  \<^item> \<^verbatim>\<open>Auth_Sessions\<close> (\<^verbatim>\<open>auth/session.go\<close>): browser sessions and their lifetimes (C34).
    \<^verbatim>\<open>Auth_Throttle\<close> (\<^verbatim>\<open>auth/ratelimit.go\<close>): limits on guessing, with the in-memory counters
    over the stored attempts, for attempts that overlap between check and record (C35). \<^verbatim>\<open>Auth_MFA\<close> (\<^verbatim>\<open>auth/totp.go\<close>, \<^verbatim>\<open>auth/recovery.go\<close> and
    the handlers that use them): one-time passwords and recovery codes (C36, C37).

  \<^item> \<^verbatim>\<open>Users\<close> (\<^verbatim>\<open>users/users.go\<close>, \<^verbatim>\<open>server/admin.go\<close>): accounts and the administrator's
    commands (C38). \<^verbatim>\<open>Vault_Service\<close> (\<^verbatim>\<open>users/vaultsvc.go\<close>): enrolling and opening vaults
    over the accounts, the key wrapping and the key cache, one request after another (C39).

  \<^item> \<^verbatim>\<open>Audit_Log\<close> (\<^verbatim>\<open>audit/audit.go\<close>): what is recorded and how it is searched (C40).
    \<^verbatim>\<open>Sign_In\<close> (\<^verbatim>\<open>api/auth_handlers.go\<close>, \<^verbatim>\<open>mfa_handlers.go\<close>, \<^verbatim>\<open>vault_handlers.go\<close>,
    \<^verbatim>\<open>session_handlers.go\<close>, \<^verbatim>\<open>middleware.go\<close>): the handlers over one record of the server's
    state that joins accounts, sessions, throttle, vaults, second factors and the log; who gets
    past the second factor (C13), and that a required one locks everybody out of an installation
    where nobody is in and no recovery codes were issued (C30).

  \<^item> \<^verbatim>\<open>Credential_Store\<close> (\<^verbatim>\<open>credentials/store.go\<close>, \<^verbatim>\<open>sshkey.go\<close>): sealed credentials as
    a map from identifiers to owners and secrets (C22). \<^verbatim>\<open>Credential_Handlers\<close>
    (\<^verbatim>\<open>api/credential_handlers.go\<close>): what a request can change of them, and its trace in the
    log (C29). \<^verbatim>\<open>Teams\<close> (\<^verbatim>\<open>teams/teams.go\<close>, \<^verbatim>\<open>api/team_handlers.go\<close>): who sees which
    shared tree (C27).

  \<^item> \<^verbatim>\<open>Go_Text\<close>: numbers and base64 as Go's library reads and writes them. \<^verbatim>\<open>Passwords\<close>
    (\<^verbatim>\<open>auth/password.go\<close>): stored password hashes (C7). \<^verbatim>\<open>Single_Sign_On\<close>
    (\<^verbatim>\<open>auth/oidc.go\<close>): what a completed sign-in at an identity provider rests on (C6).
    \<^verbatim>\<open>Configuration\<close> (\<^verbatim>\<open>config/config.go\<close>): settings and their checks.
    \<^verbatim>\<open>Server_Assembly\<close> (\<^verbatim>\<open>server/server.go\<close>, \<^verbatim>\<open>api/api.go\<close>): the services built of them,
    joined to the vaults, sessions, throttle, sign-in and tunnels of their theories (C26), and the
    removal of old transcripts. Directories, the database, the key file and the listener of the
    start are not in it.

  \<^bold>\<open>Conventions.\<close> An operation that can fail returns a sum with its error on the left. Database
  operations take and return a record of tables; a query that fails for reasons outside the
  program is not modelled. Clocks, random draws, regular expressions and the primitives of Go's
  crypto packages are parameters; what is assumed of the AEAD are the
  predicates \<open>aead\<close> and, in C22 and C39, \<open>authentic\<close>. Locks make
  an operation one step, and a concurrent history is a sequence of steps; where the code lets go of
  a lock or has none between a check and what rests on it, and a property depends on it, the parts are
  separate steps (\<^verbatim>\<open>Logon\<close>, \<^verbatim>\<open>Auth_Throttle\<close>, \<^verbatim>\<open>Remote_Pool\<close>, \<^verbatim>\<open>Tunnels\<close>).
  Operations of the session tree, the accounts and the vaults are taken one at a time, although
  \<^verbatim>\<open>UpdateFolder\<close>, \<^verbatim>\<open>UpdateSession\<close> and \<^verbatim>\<open>Enrol\<close> read and write without a transaction;
  closing a tunnel is one step, and the closing note of a transcript is written whole. Loops with a bound in
  the code keep that bound; the other recursions are structural or have a measure, and no
  definition uses fuel.

  \<^bold>\<open>Not modelled.\<close> The other HTTP handlers, routes and headers, the database, logging, and what is only a sequence
  of calls into packages outside the repository (SSH, SFTP, serial ioctls).
\<close>

end
